(* ===== verification/Prelude.thy ===== *)
theory Prelude
  imports Main "HOL-Library.Word"
begin

text \<open>
  Shared vocabulary of the development: the machine types of the sources (\<open>size_t\<close>, \<open>int\<close>),
  the ways a C++ operation can fail as values of \<open>cpp_error\<close>, byte memory with checked reads and
  writes, \<open>std::vector<char>::resize\<close>, \<open>std::to_string\<close>, and the generic lemmas the components use.
  Facts that unfold operations are collected in \<open>op_defs\<close>, facts that move word arithmetic to
  natural numbers in \<open>size_simps\<close>.
\<close>

named_theorems op_defs
named_theorems size_simps

unbundle bit_operations_syntax

section \<open>Machine types and failures\<close>

type_synonym size_t = "64 word"
type_synonym c_int = "32 word"
type_synonym bytes = "char list"
type_synonym errno = int

text \<open>
  Every operation that can leave the defined behaviour of C++, or throw, returns \<open>Inl\<close> with the
  reason. \<open>Out_Of_Bounds\<close>, \<open>Overlap\<close>, \<open>Dangling\<close>, \<open>Null_Deref\<close> and \<open>Int_Overflow\<close> are undefined behaviour;
  \<open>Length_Error\<close>, \<open>Bad_Function_Call\<close> and \<open>Runtime_Error\<close> are the exceptions of the standard
  library; \<open>Assert_Failed\<close> is a failed \<open>assert\<close>.
\<close>

datatype cpp_error =
    Out_Of_Bounds
  | Overlap
  | Dangling
  | Null_Deref
  | Length_Error
  | Bad_Function_Call
  | Runtime_Error
  | Assert_Failed
  | Int_Overflow

type_synonym 'a res = "cpp_error + 'a"

definition bindR :: "'a res \<Rightarrow> ('a \<Rightarrow> 'b res) \<Rightarrow> 'b res" where
  "bindR m f = (case m of Inl e \<Rightarrow> Inl e | Inr x \<Rightarrow> f x)"

section \<open>Byte memory\<close>

text \<open>Reading \<open>n\<close> bytes from index \<open>i\<close> and writing bytes at index \<open>i\<close> of one allocation.\<close>

definition mem_read :: "nat \<Rightarrow> nat \<Rightarrow> bytes \<Rightarrow> bytes res" where
  "mem_read i n xs = (if i + n \<le> length xs then Inr (take n (drop i xs)) else Inl Out_Of_Bounds)"

definition overwrite :: "nat \<Rightarrow> bytes \<Rightarrow> bytes \<Rightarrow> bytes" where
  "overwrite i bs xs = take i xs @ bs @ drop (i + length bs) xs"

definition mem_write :: "nat \<Rightarrow> bytes \<Rightarrow> bytes \<Rightarrow> bytes res" where
  "mem_write i bs xs =
     (if i + length bs \<le> length xs then Inr (overwrite i bs xs) else Inl Out_Of_Bounds)"

text \<open>
  \<open>std::copy\<close> inside one array: the destination must not lie in the source range
  (\<open>[first, last)\<close>).
\<close>

definition std_copy_within :: "nat \<Rightarrow> nat \<Rightarrow> nat \<Rightarrow> bytes \<Rightarrow> bytes res" where
  "std_copy_within lo hi dst xs =
     (if lo \<le> dst \<and> dst < hi then Inl Overlap
      else bindR (mem_read lo (hi - lo) xs) (\<lambda>bs. mem_write dst bs xs))"

text \<open>\<open>std::vector<char>::resize\<close>; \<open>max_size()\<close> of the vector is \<open>PTRDIFF_MAX\<close>.\<close>

definition vec_max_size :: nat where
  "vec_max_size = 2 ^ 63 - 1"

definition vec_resize :: "nat \<Rightarrow> bytes \<Rightarrow> bytes res" where
  "vec_resize n xs =
     (if n > vec_max_size then Inl Length_Error
      else Inr (take n xs @ replicate (n - length xs) (CHR 0x00)))"

section \<open>Decimal printing\<close>

text \<open>\<open>std::to_string\<close> on unsigned values: decimal digits, most significant first.\<close>

definition digit_char :: "nat \<Rightarrow> char" where
  "digit_char d = char_of (48 + d)"

fun to_string :: "nat \<Rightarrow> string" where
  "to_string n =
     (if n < 10 then [digit_char n] else to_string (n div 10) @ [digit_char (n mod 10)])"

declare to_string.simps [simp del]

text \<open>The value a digit string denotes; the left inverse of \<open>to_string\<close>.\<close>

definition digits_value :: "string \<Rightarrow> nat" where
  "digits_value s = foldl (\<lambda>v c. 10 * v + (of_char c - 48)) 0 s"

definition is_digit :: "char \<Rightarrow> bool" where
  "is_digit c \<longleftrightarrow> 48 \<le> (of_char c :: nat) \<and> (of_char c :: nat) \<le> 57"

section \<open>Lemmas\<close>

lemma bindR_Inr [simp]: "bindR (Inr x) f = f x"
  by (simp add: bindR_def)

lemma bindR_Inl [simp]: "bindR (Inl e) f = Inl e"
  by (simp add: bindR_def)

lemma bindR_eq_Inr: "bindR m f = Inr y \<longleftrightarrow> (\<exists>x. m = Inr x \<and> f x = Inr y)"
  by (cases m) auto

lemma bindR_cong: "m = m' \<Longrightarrow> (\<And>x. m' = Inr x \<Longrightarrow> f x = g x) \<Longrightarrow> bindR m f = bindR m' g"
  by (cases m) auto

lemma bindR_assoc: "bindR (bindR m f) g = bindR m (\<lambda>x. bindR (f x) g)"
  by (cases m) auto

lemma length_overwrite [simp]:
  "i + length bs \<le> length xs \<Longrightarrow> length (overwrite i bs xs) = length xs"
  by (simp add: overwrite_def)

lemma take_overwrite [simp]: "i \<le> length xs \<Longrightarrow> take i (overwrite i bs xs) = take i xs"
  by (simp add: overwrite_def)

lemma overwrite_Nil [simp]: "overwrite i [] xs = xs"
  by (simp add: overwrite_def)

lemma drop_overwrite:
  "i + length bs \<le> length xs \<Longrightarrow> j \<le> i \<Longrightarrow>
   take (i + length bs - j) (drop j (overwrite i bs xs)) = take (i - j) (drop j xs) @ bs"
  by (simp add: overwrite_def drop_take)

lemma take_drop_overwrite_at:
  "i + length bs \<le> length xs \<Longrightarrow> take (length bs) (drop i (overwrite i bs xs)) = bs"
  by (simp add: overwrite_def)

lemma mem_read_ok [simp]: "i + n \<le> length xs \<Longrightarrow> mem_read i n xs = Inr (take n (drop i xs))"
  by (simp add: mem_read_def)

lemma mem_read_oob: "mem_read i n xs = Inl e \<longleftrightarrow> length xs < i + n \<and> e = Out_Of_Bounds"
  by (auto simp: mem_read_def)

lemma mem_write_ok [simp]:
  "i + length bs \<le> length xs \<Longrightarrow> mem_write i bs xs = Inr (overwrite i bs xs)"
  by (simp add: mem_write_def)

lemma mem_write_eq_Inr:
  "mem_write i bs xs = Inr ys \<longleftrightarrow> i + length bs \<le> length xs \<and> ys = overwrite i bs xs"
  by (auto simp: mem_write_def)

lemma mem_write_eq_Inl:
  "mem_write i bs xs = Inl e \<longleftrightarrow> length xs < i + length bs \<and> e = Out_Of_Bounds"
  by (auto simp: mem_write_def)

subsection \<open>Words as natural numbers\<close>

lemma unat_size_add:
  "unat (a :: size_t) + unat b < 2 ^ 64 \<Longrightarrow> unat (a + b) = unat a + unat b"
  by (simp add: unat_word_ariths)

lemma unat_size_sub: "unat (b :: size_t) \<le> unat a \<Longrightarrow> unat (a - b) = unat a - unat b"
  by (simp add: unat_sub word_le_nat_alt)

lemma unat_size_of_nat: "n < 2 ^ 64 \<Longrightarrow> unat (of_nat n :: size_t) = n"
  by (simp add: unat_of_nat)

lemma unat_size_lt: "unat (a :: size_t) < 2 ^ 64"
  using unsigned_less [of a, where ?'a = nat] by simp

lemma vec_max_size_lt: "vec_max_size < 2 ^ 63"
  by (simp add: vec_max_size_def)

lemmas size_word_simps = unat_size_add unat_size_sub unat_size_of_nat word_less_nat_alt word_le_nat_alt

subsection \<open>Printing\<close>

lemma of_char_digit_char [simp]: "d < 10 \<Longrightarrow> (of_char (digit_char d) :: nat) = 48 + d"
  by (simp add: digit_char_def)

lemma to_string_small: "n < 10 \<Longrightarrow> to_string n = [digit_char n]"
  by (subst to_string.simps) simp

lemma to_string_big:
  "\<not> n < 10 \<Longrightarrow> to_string n = to_string (n div 10) @ [digit_char (n mod 10)]"
  by (subst to_string.simps) simp

lemma to_string_digits: "c \<in> set (to_string n) \<Longrightarrow> is_digit c"
proof (induction n rule: to_string.induct)
  case (1 n)
  show ?case
  proof (cases "n < 10")
    case True
    with "1.prems" show ?thesis by (auto simp: to_string_small is_digit_def)
  next
    case False
    then have "c \<in> set (to_string (n div 10)) \<or> c = digit_char (n mod 10)"
      using "1.prems" by (auto simp: to_string_big)
    moreover have "is_digit (digit_char (n mod 10))"
      by (simp add: is_digit_def)
    ultimately show ?thesis using "1.IH" False by blast
  qed
qed

lemma digits_value_append:
  "digits_value (s @ [c]) = 10 * digits_value s + (of_char c - 48)"
  by (simp add: digits_value_def)

lemma digits_value_to_string: "digits_value (to_string n) = n"
proof (induction n rule: to_string.induct)
  case (1 n)
  show ?case
  proof (cases "n < 10")
    case True
    then show ?thesis by (simp add: to_string_small digits_value_def)
  next
    case False
    with "1.IH" show ?thesis by (simp add: to_string_big digits_value_append)
  qed
qed

lemma to_string_inj: "to_string m = to_string n \<longleftrightarrow> m = n"
  by (metis digits_value_to_string)

lemma to_string_nonempty [simp]: "to_string n \<noteq> []"
  by (subst to_string.simps) simp

lemma length_to_string: "n < 10 ^ k \<Longrightarrow> 0 < k \<Longrightarrow> length (to_string n) \<le> k"
proof (induction k arbitrary: n)
  case 0
  then show ?case by simp
next
  case (Suc k)
  show ?case
  proof (cases "n < 10")
    case True
    then show ?thesis by (simp add: to_string_small)
  next
    case False
    then have "k \<noteq> 0" using Suc.prems by (cases k) auto
    moreover have "n div 10 < 10 ^ k" using Suc.prems(1) by (simp add: less_mult_imp_div_less)
    ultimately have "length (to_string (n div 10)) \<le> k" using Suc.IH by simp
    with False show ?thesis by (simp add: to_string_big)
  qed
qed

text \<open>A separator that is no digit splits a printed number off unambiguously.\<close>

lemma digits_then_sep_eq:
  assumes "\<forall>c \<in> set u. is_digit c" and "\<forall>c \<in> set v. is_digit c" and "\<not> is_digit x"
    and "u @ x # s = v @ x # t"
  shows "u = v \<and> s = t"
  using assms
proof (induction u arbitrary: v)
  case Nil
  then show ?case by (cases v) auto
next
  case (Cons a u)
  then show ?case by (cases v) auto
qed

end
