(* ===== verification/Byte_Queue.thy ===== *)
theory Byte_Queue
  imports Prelude
begin

text \<open>
  The contract both buffers of the program offer to their clients: a first-in first-out queue of
  bytes behind an abstraction to byte lists. The client's fact is proved once: whatever is put in
  comes out unchanged and in order, over any sequence of operations that stays within the room
  the buffer promises.
\<close>

datatype qop = Put bytes | Get nat

text \<open>Running operations; the first component collects what the \<open>Get\<close> operations returned.\<close>

fun q_exec ::
  "(bytes \<Rightarrow> 'b \<Rightarrow> 'b res) \<Rightarrow> (nat \<Rightarrow> 'b \<Rightarrow> (bytes \<times> 'b) res) \<Rightarrow> qop list \<Rightarrow> 'b \<Rightarrow> (bytes \<times> 'b) res"
where
  "q_exec put get [] b = Inr ([], b)"
| "q_exec put get (Put xs # ops) b = bindR (put xs b) (q_exec put get ops)"
| "q_exec put get (Get n # ops) b =
     bindR (get n b) (\<lambda>(out, b1). bindR (q_exec put get ops b1) (\<lambda>(outs, b2). Inr (out @ outs, b2)))"

text \<open>Every \<open>Put\<close> has room, every \<open>Get\<close> asks for no more than there is.\<close>

fun q_legal ::
  "('b \<Rightarrow> nat \<Rightarrow> bool) \<Rightarrow> ('b \<Rightarrow> bytes) \<Rightarrow> (bytes \<Rightarrow> 'b \<Rightarrow> 'b res) \<Rightarrow>
   (nat \<Rightarrow> 'b \<Rightarrow> (bytes \<times> 'b) res) \<Rightarrow> qop list \<Rightarrow> 'b \<Rightarrow> bool"
where
  "q_legal fits cont put get [] b = True"
| "q_legal fits cont put get (Put xs # ops) b =
     (fits b (length xs) \<and>
      (case put xs b of Inl e \<Rightarrow> True | Inr b1 \<Rightarrow> q_legal fits cont put get ops b1))"
| "q_legal fits cont put get (Get n # ops) b =
     (n \<le> length (cont b) \<and>
      (case get n b of Inl e \<Rightarrow> True | Inr (out, b1) \<Rightarrow> q_legal fits cont put get ops b1))"

fun q_input :: "qop list \<Rightarrow> bytes" where
  "q_input [] = []"
| "q_input (Put xs # ops) = xs @ q_input ops"
| "q_input (Get n # ops) = q_input ops"

locale byte_queue =
  fixes inv :: "'b \<Rightarrow> bool"
    and cont :: "'b \<Rightarrow> bytes"
    and fits :: "'b \<Rightarrow> nat \<Rightarrow> bool"
    and put :: "bytes \<Rightarrow> 'b \<Rightarrow> 'b res"
    and get :: "nat \<Rightarrow> 'b \<Rightarrow> (bytes \<times> 'b) res"
  assumes put_ok: "inv b \<Longrightarrow> fits b (length xs) \<Longrightarrow>
      \<exists>b'. put xs b = Inr b' \<and> inv b' \<and> cont b' = cont b @ xs"
    and get_ok: "inv b \<Longrightarrow> n \<le> length (cont b) \<Longrightarrow>
      \<exists>b'. get n b = Inr (take n (cont b), b') \<and> inv b' \<and> cont b' = drop n (cont b)"
begin

lemma exec_fifo:
  assumes "inv b" and "q_legal fits cont put get ops b"
  shows "\<exists>outs b'. q_exec put get ops b = Inr (outs, b') \<and> inv b' \<and>
     outs @ cont b' = cont b @ q_input ops"
  using assms
proof (induction ops arbitrary: b)
  case Nil
  then show ?case by simp
next
  case (Cons op ops)
  show ?case
  proof (cases op)
    case (Put xs)
    with Cons.prems put_ok [of b xs] obtain b1 where
      b1: "put xs b = Inr b1" "inv b1" "cont b1 = cont b @ xs" by auto
    with Cons.prems Put Cons.IH [of b1] show ?thesis by simp
  next
    case (Get n)
    with Cons.prems get_ok [of b n] obtain b1 where
      b1: "get n b = Inr (take n (cont b), b1)" "inv b1" "cont b1 = drop n (cont b)" by auto
    with Cons.prems Get Cons.IH [of b1] obtain outs b2 where
      "q_exec put get ops b1 = Inr (outs, b2)" "inv b2"
      "outs @ cont b2 = drop n (cont b) @ q_input ops" by auto
    with b1 Get show ?thesis by simp
  qed
qed

end

end
