(* ===== verification/Net_Buffer.thy ===== *)
theory Net_Buffer
  imports Prelude Byte_Queue
begin

text \<open>
  The network byte buffer (\<open>include/Buffer.hpp\<close>, \<open>src/Buffer.cpp\<close>): a \<open>std::vector<char>\<close> with a
  reader and a writer index. The indices are 64-bit words as in the source; every access to the
  vector is a checked read or write, so that memory safety is part of every result. The system
  calls \<open>readv\<close> and \<open>write\<close> are parameters; \<open>readv_ok\<close> and \<open>write_ok\<close> name what POSIX promises of
  them. The abstraction \<open>content\<close> is the byte sequence between the indices.
\<close>

section \<open>The class Buffer\<close>

definition CHEAP_PREPEND :: size_t where
  "CHEAP_PREPEND = 8"

definition INIT_SIZE :: size_t where
  "INIT_SIZE = 1024"

record net_buffer =
  buf_data :: bytes
  readerIndex :: size_t
  writerIndex :: size_t

text \<open>The constructor takes an initial size and does not use it.\<close>

definition Buffer_new :: "size_t \<Rightarrow> net_buffer" where
  "Buffer_new initialSize =
     \<lparr>buf_data = replicate (unat (CHEAP_PREPEND + INIT_SIZE)) (CHR 0x00),
      readerIndex = CHEAP_PREPEND, writerIndex = CHEAP_PREPEND\<rparr>"

definition buf_size :: "net_buffer \<Rightarrow> size_t" where
  "buf_size b = of_nat (length (buf_data b))"

definition readableBytes :: "net_buffer \<Rightarrow> size_t" where
  "readableBytes b = writerIndex b - readerIndex b"

definition writableBytes :: "net_buffer \<Rightarrow> size_t" where
  "writableBytes b = buf_size b - writerIndex b"

definition prependableBytes :: "net_buffer \<Rightarrow> size_t" where
  "prependableBytes b = readerIndex b"

definition retrieveAll :: "net_buffer \<Rightarrow> net_buffer" where
  "retrieveAll b = b\<lparr>readerIndex := CHEAP_PREPEND, writerIndex := CHEAP_PREPEND\<rparr>"

definition retrieve :: "net_buffer \<Rightarrow> size_t \<Rightarrow> net_buffer" where
  "retrieve b len =
     (if len < readableBytes b then b\<lparr>readerIndex := readerIndex b + len\<rparr> else retrieveAll b)"

definition peek_bytes :: "net_buffer \<Rightarrow> size_t \<Rightarrow> bytes res" where
  "peek_bytes b len = mem_read (unat (readerIndex b)) (unat len) (buf_data b)"

definition retrieveAsString :: "net_buffer \<Rightarrow> size_t \<Rightarrow> (bytes \<times> net_buffer) res" where
  "retrieveAsString b len = bindR (peek_bytes b len) (\<lambda>result. Inr (result, retrieve b len))"

definition retrieveAllAsString :: "net_buffer \<Rightarrow> (bytes \<times> net_buffer) res" where
  "retrieveAllAsString b = retrieveAsString b (readableBytes b)"

definition makeSpace :: "net_buffer \<Rightarrow> size_t \<Rightarrow> net_buffer res" where
  "makeSpace b len =
     (if writableBytes b + prependableBytes b < len + CHEAP_PREPEND
      then bindR (vec_resize (unat (writerIndex b + len)) (buf_data b))
             (\<lambda>d. Inr (b\<lparr>buf_data := d\<rparr>))
      else let readable = readableBytes b in
           bindR (std_copy_within (unat (readerIndex b)) (unat (writerIndex b))
                    (unat CHEAP_PREPEND) (buf_data b))
             (\<lambda>d. Inr (b\<lparr>buf_data := d, readerIndex := CHEAP_PREPEND,
                          writerIndex := CHEAP_PREPEND + readable\<rparr>)))"

definition ensureWritableBytes :: "net_buffer \<Rightarrow> size_t \<Rightarrow> net_buffer res" where
  "ensureWritableBytes b len = (if writableBytes b < len then makeSpace b len else Inr b)"

text \<open>
  \<open>append(data, len)\<close>: \<open>mem\<close> is the memory that starts at \<open>data\<close>; fewer than \<open>len\<close> bytes there is
  an out-of-bounds read.
\<close>

definition append_raw :: "net_buffer \<Rightarrow> bytes \<Rightarrow> size_t \<Rightarrow> net_buffer res" where
  "append_raw b mem len =
     bindR (ensureWritableBytes b len) (\<lambda>b1.
     bindR (mem_read 0 (unat len) mem) (\<lambda>bs.
     bindR (mem_write (unat (writerIndex b1)) bs (buf_data b1)) (\<lambda>d.
     Inr (b1\<lparr>buf_data := d, writerIndex := writerIndex b1 + len\<rparr>))))"

text \<open>
  \<open>readFd\<close>: \<open>readv fd lens\<close> gives the error number, or the bytes the kernel scattered over the
  buffers of the given lengths. The result is the return value, \<open>*saveErrno\<close> when it was
  written, and the buffer.
\<close>

definition EXTRABUF :: size_t where
  "EXTRABUF = 65536"

definition read_iov :: "net_buffer \<Rightarrow> nat list" where
  "read_iov b =
     (let writable = writableBytes b; iovcnt = (if writable < EXTRABUF then 2 else 1)
      in take iovcnt [unat writable, unat EXTRABUF])"

definition readFd ::
  "(int \<Rightarrow> nat list \<Rightarrow> errno + bytes) \<Rightarrow> int \<Rightarrow> net_buffer
   \<Rightarrow> (int \<times> errno option \<times> net_buffer) res" where
  "readFd readv fd b =
     (let writable = writableBytes b;
          vec = read_iov b
      in case readv fd vec of
           Inl e \<Rightarrow> Inr (- 1, Some e, b)
         | Inr bs \<Rightarrow>
             if length bs > sum_list vec then Inl Out_Of_Bounds
             else bindR (mem_write (unat (writerIndex b)) (take (unat writable) bs) (buf_data b)) (\<lambda>d.
               let b1 = b\<lparr>buf_data := d\<rparr>;
                   n = (of_nat (length bs) :: size_t);
                   extra = overwrite 0 (drop (unat writable) bs)
                             (replicate (unat EXTRABUF) (CHR 0x00))
               in if n \<le> writable
                  then Inr (int (length bs), None, b1\<lparr>writerIndex := writerIndex b1 + n\<rparr>)
                  else bindR (append_raw (b1\<lparr>writerIndex := buf_size b1\<rparr>) extra (n - writable))
                         (\<lambda>b2. Inr (int (length bs), None, b2))))"

text \<open>\<open>writeFd\<close>: \<open>write fd bs\<close> gives the error number or the count of bytes the kernel took.\<close>

definition writeFd ::
  "(int \<Rightarrow> bytes \<Rightarrow> errno + nat) \<Rightarrow> int \<Rightarrow> net_buffer \<Rightarrow> (int \<times> errno option) res" where
  "writeFd write fd b =
     bindR (peek_bytes b (readableBytes b)) (\<lambda>bs.
       Inr (case write fd bs of Inl e \<Rightarrow> (- 1, Some e) | Inr n \<Rightarrow> (int n, None)))"

section \<open>Abstraction and invariant\<close>

definition content :: "net_buffer \<Rightarrow> bytes" where
  "content b = take (unat (readableBytes b)) (drop (unat (readerIndex b)) (buf_data b))"

definition buf_inv :: "net_buffer \<Rightarrow> bool" where
  "buf_inv b \<longleftrightarrow> CHEAP_PREPEND \<le> readerIndex b \<and> readerIndex b \<le> writerIndex b \<and>
     unat (writerIndex b) \<le> length (buf_data b) \<and> length (buf_data b) \<le> vec_max_size"

text \<open>Room for \<open>n\<close> more bytes within the largest vector.\<close>

definition buf_fits :: "net_buffer \<Rightarrow> nat \<Rightarrow> bool" where
  "buf_fits b n \<longleftrightarrow> unat (writerIndex b) + n \<le> vec_max_size"

text \<open>POSIX: \<open>readv\<close> returns at most the sum of the lengths, \<open>write\<close> at most the length.\<close>

definition readv_ok :: "(int \<Rightarrow> nat list \<Rightarrow> errno + bytes) \<Rightarrow> bool" where
  "readv_ok readv \<longleftrightarrow> (\<forall>fd lens bs. readv fd lens = Inr bs \<longrightarrow> length bs \<le> sum_list lens)"

definition write_ok :: "(int \<Rightarrow> bytes \<Rightarrow> errno + nat) \<Rightarrow> bool" where
  "write_ok write \<longleftrightarrow> (\<forall>fd bs n. write fd bs = Inr n \<longrightarrow> n \<le> length bs)"

section \<open>Lemmas\<close>

lemma unat_CHEAP_PREPEND [simp]: "unat CHEAP_PREPEND = 8"
  by (simp add: CHEAP_PREPEND_def)

lemma unat_EXTRABUF [simp]: "unat EXTRABUF = 65536"
  by (simp add: EXTRABUF_def)

lemma buf_invD:
  assumes "buf_inv b"
  shows "8 \<le> unat (readerIndex b)" "unat (readerIndex b) \<le> unat (writerIndex b)"
    "unat (writerIndex b) \<le> length (buf_data b)" "length (buf_data b) < 2 ^ 63"
    "length (buf_data b) \<le> vec_max_size"
  using assms vec_max_size_lt by (auto simp: buf_inv_def word_le_nat_alt)

lemma unat_readable:
  "buf_inv b \<Longrightarrow> unat (readableBytes b) = unat (writerIndex b) - unat (readerIndex b)"
  by (simp add: readableBytes_def unat_size_sub buf_invD)

lemma unat_buf_size: "buf_inv b \<Longrightarrow> unat (buf_size b) = length (buf_data b)"
  using buf_invD [of b] by (simp add: buf_size_def unat_size_of_nat)

lemma unat_writable:
  "buf_inv b \<Longrightarrow> unat (writableBytes b) = length (buf_data b) - unat (writerIndex b)"
  using buf_invD [of b] by (simp add: writableBytes_def unat_size_sub unat_buf_size)

lemma length_content: "buf_inv b \<Longrightarrow> length (content b) = unat (readableBytes b)"
  using buf_invD [of b] by (simp add: content_def unat_readable)

lemma content_eq:
  "buf_inv b \<Longrightarrow> content b = drop (unat (readerIndex b)) (take (unat (writerIndex b)) (buf_data b))"
  by (simp add: content_def unat_readable drop_take)

lemma buf_inv_new: "buf_inv (Buffer_new n)"
  by (simp add: Buffer_new_def buf_inv_def vec_max_size_def CHEAP_PREPEND_def INIT_SIZE_def)

lemma buf_fits_new: "n \<le> 2 ^ 62 \<Longrightarrow> buf_fits (Buffer_new k) n"
  by (simp add: buf_fits_def Buffer_new_def vec_max_size_def)

lemma content_new: "content (Buffer_new n) = []"
  by (simp add: Buffer_new_def content_def readableBytes_def)

lemma buf_inv_retrieveAll: "buf_inv b \<Longrightarrow> buf_inv (retrieveAll b)"
  by (auto simp: retrieveAll_def buf_inv_def word_le_nat_alt)

lemma content_retrieveAll: "content (retrieveAll b) = []"
  by (simp add: retrieveAll_def content_def readableBytes_def)

lemma retrieve_inv:
  assumes inv: "buf_inv b"
  shows "buf_inv (retrieve b len)"
proof (cases "len < readableBytes b")
  case True
  then have lt: "unat len < unat (writerIndex b) - unat (readerIndex b)"
    using unat_readable [OF inv] by (simp add: word_less_nat_alt)
  then have "unat (readerIndex b + len) = unat (readerIndex b) + unat len"
    using buf_invD [OF inv] unat_size_lt [of "writerIndex b"] by (intro unat_size_add) linarith
  with lt buf_invD [OF inv] True show ?thesis
    by (simp add: retrieve_def buf_inv_def word_le_nat_alt)
qed (simp add: retrieve_def inv buf_inv_retrieveAll)

lemma retrieve_content:
  assumes inv: "buf_inv b"
  shows "content (retrieve b len) = drop (unat len) (content b)"
proof (cases "len < readableBytes b")
  case True
  then have lt: "unat len < unat (writerIndex b) - unat (readerIndex b)"
    using unat_readable [OF inv] by (simp add: word_less_nat_alt)
  then have "unat (readerIndex b + len) = unat (readerIndex b) + unat len"
    using buf_invD [OF inv] unat_size_lt [of "writerIndex b"] by (intro unat_size_add) linarith
  then show ?thesis
    using True inv retrieve_inv [OF inv, of len]
    by (simp add: content_eq, simp add: retrieve_def add.commute)
next
  case False
  then have "length (content b) \<le> unat len"
    using inv by (simp add: length_content word_less_nat_alt)
  with False show ?thesis by (simp add: retrieve_def content_retrieveAll)
qed

lemma peek_ok:
  assumes inv: "buf_inv b" and le: "unat len \<le> length (content b)"
  shows "peek_bytes b len = Inr (take (unat len) (content b))"
proof -
  have "unat (readerIndex b) + unat len \<le> length (buf_data b)"
    using buf_invD [OF inv] le unat_readable [OF inv] length_content [OF inv] by linarith
  moreover have "min (unat len) (unat (readableBytes b)) = unat len"
    using le length_content [OF inv] by simp
  ultimately show ?thesis by (simp add: peek_bytes_def content_def)
qed

subsection \<open>Making space\<close>

text \<open>
  The two branches of \<open>makeSpace\<close>: growing the vector to exactly the needed size, or moving the
  content to the front.
\<close>

lemma makeSpace_grow:
  assumes inv: "buf_inv b" and fits: "buf_fits b (unat len)"
    and need: "writableBytes b + prependableBytes b < len + CHEAP_PREPEND"
    and short: "writableBytes b < len"
  shows "\<exists>b'. makeSpace b len = Inr b' \<and> buf_inv b' \<and> content b' = content b \<and>
     writerIndex b' = writerIndex b \<and>
     length (buf_data b') = unat (writerIndex b) + unat len"
proof -
  let ?n = "unat (writerIndex b) + unat len"
  note bnd = buf_invD [OF inv]
  have fit: "?n \<le> vec_max_size" using fits by (simp add: buf_fits_def)
  then have n: "unat (writerIndex b + len) = ?n"
    using vec_max_size_lt by (intro unat_size_add) simp
  have gt: "length (buf_data b) < ?n"
    using short unat_writable [OF inv] bnd by (simp add: word_less_nat_alt)
  let ?d = "buf_data b @ replicate (?n - length (buf_data b)) (CHR 0x00)"
  have res: "makeSpace b len = Inr (b\<lparr>buf_data := ?d\<rparr>)"
    using need n fit gt by (simp add: makeSpace_def vec_resize_def)
  have inv': "buf_inv (b\<lparr>buf_data := ?d\<rparr>)"
    using inv fit gt bnd by (simp add: buf_inv_def)
  have "content (b\<lparr>buf_data := ?d\<rparr>) = content b"
    using inv inv' bnd by (simp add: content_eq)
  with res inv' gt show ?thesis by simp
qed

lemma makeSpace_move:
  assumes inv: "buf_inv b" and fits: "buf_fits b (unat len)"
    and room: "\<not> writableBytes b + prependableBytes b < len + CHEAP_PREPEND"
    and short: "writableBytes b < len"
  shows "\<exists>b'. makeSpace b len = Inr b' \<and> buf_inv b' \<and> content b' = content b \<and>
     unat (writerIndex b') + unat len \<le> length (buf_data b') \<and>
     length (buf_data b') = length (buf_data b)"
proof -
  note bnd = buf_invD [OF inv]
  let ?r = "unat (readerIndex b)" and ?w = "unat (writerIndex b)" and ?L = "length (buf_data b)"
  have len: "unat len < 2 ^ 63" using fits vec_max_size_lt by (simp add: buf_fits_def)
  have sum: "unat (writableBytes b + prependableBytes b) = (?L - ?w) + ?r"
    using bnd unat_writable [OF inv]
    by (subst unat_size_add) (auto simp: prependableBytes_def)
  have rhs: "unat (len + CHEAP_PREPEND) = unat len + 8"
    using len by (subst unat_size_add) auto
  have enough: "unat len + 8 \<le> (?L - ?w) + ?r"
    using room sum rhs by (simp add: word_less_nat_alt)
  have lt: "?L - ?w < unat len"
    using short unat_writable [OF inv] by (simp add: word_less_nat_alt)
  have gap: "8 < ?r" using enough lt by linarith
  let ?c = "take (?w - ?r) (drop ?r (buf_data b))"
  have lc: "length ?c = ?w - ?r" using bnd by simp
  let ?d = "overwrite 8 ?c (buf_data b)"
  have wr: "8 + length ?c \<le> ?L" using bnd gap lc by linarith
  have wi: "unat (CHEAP_PREPEND + readableBytes b) = 8 + (?w - ?r)"
    using unat_readable [OF inv] bnd by (subst unat_size_add) auto
  let ?b' = "b\<lparr>buf_data := ?d, readerIndex := CHEAP_PREPEND,
               writerIndex := CHEAP_PREPEND + readableBytes b\<rparr>"
  have res: "makeSpace b len = Inr ?b'"
    using room gap bnd wr by (simp add: makeSpace_def std_copy_within_def Let_def)
  have inv': "buf_inv ?b'"
    using wr lc wi bnd by (simp add: buf_inv_def word_le_nat_alt)
  have "content ?b' = take (length ?c) (drop 8 ?d)"
    using lc unat_readable [OF inv] by (simp add: content_def readableBytes_def)
  also have "\<dots> = ?c"
    by (rule take_drop_overwrite_at [OF wr])
  also have "\<dots> = content b"
    using unat_readable [OF inv] by (simp add: content_def)
  finally have "content ?b' = content b" .
  moreover have "unat (writerIndex ?b') + unat len \<le> ?L"
    using wi enough bnd by simp
  ultimately show ?thesis using res inv' wr by simp
qed

lemma ensureWritableBytes_ok:
  assumes inv: "buf_inv b" and fits: "buf_fits b (unat len)"
  shows "\<exists>b'. ensureWritableBytes b len = Inr b' \<and> buf_inv b' \<and> content b' = content b \<and>
     unat (writerIndex b') + unat len \<le> length (buf_data b')"
proof (cases "writableBytes b < len")
  case True
  show ?thesis
  proof (cases "writableBytes b + prependableBytes b < len + CHEAP_PREPEND")
    case need: True
    from makeSpace_grow [OF inv fits need True] show ?thesis
      using True by (auto simp: ensureWritableBytes_def)
  next
    case room: False
    from makeSpace_move [OF inv fits room True] show ?thesis
      using True by (auto simp: ensureWritableBytes_def)
  qed
next
  case False
  then have "unat (writerIndex b) + unat len \<le> length (buf_data b)"
    using unat_writable [OF inv] buf_invD [OF inv] by (simp add: word_less_nat_alt)
  with False inv show ?thesis by (simp add: ensureWritableBytes_def)
qed

lemma write_at_end:
  assumes inv: "buf_inv b" and room: "unat (writerIndex b) + length bs \<le> length (buf_data b)"
    and len: "unat len = length bs"
  defines "b' \<equiv> b\<lparr>buf_data := overwrite (unat (writerIndex b)) bs (buf_data b),
                   writerIndex := writerIndex b + len\<rparr>"
  shows "buf_inv b'" "content b' = content b @ bs"
proof -
  let ?w = "unat (writerIndex b)" and ?r = "unat (readerIndex b)"
  note bnd = buf_invD [OF inv]
  have w: "unat (writerIndex b + len) = ?w + length bs"
    using room bnd len by (subst unat_size_add) auto
  show inv': "buf_inv b'"
    using inv room w bnd by (simp add: b'_def buf_inv_def word_le_nat_alt)
  have "content b' = take (?w + length bs - ?r) (drop ?r (overwrite ?w bs (buf_data b)))"
    using unat_readable [OF inv'] w by (simp add: b'_def content_def)
  also have "\<dots> = take (?w - ?r) (drop ?r (buf_data b)) @ bs"
    using room bnd by (intro drop_overwrite) auto
  finally show "content b' = content b @ bs"
    using unat_readable [OF inv] by (simp add: content_def)
qed

lemma append_raw_ok:
  assumes inv: "buf_inv b" and fits: "buf_fits b (unat len)" and mem: "unat len \<le> length mem"
  shows "\<exists>b'. append_raw b mem len = Inr b' \<and> buf_inv b' \<and>
     content b' = content b @ take (unat len) mem"
proof -
  from ensureWritableBytes_ok [OF inv fits] obtain b1 where
    b1: "ensureWritableBytes b len = Inr b1" and inv1: "buf_inv b1"
    and c1: "content b1 = content b"
    and room: "unat (writerIndex b1) + unat len \<le> length (buf_data b1)" by blast
  let ?bs = "take (unat len) mem"
  have l: "length ?bs = unat len" using mem by simp
  from write_at_end [OF inv1, of ?bs len] room l c1
  show ?thesis by (simp add: append_raw_def b1 mem)
qed

subsection \<open>Reading from and writing to a descriptor\<close>

lemma readFd_error:
  "readv fd (read_iov b) = Inl e \<Longrightarrow>
   readFd readv fd b = Inr (- 1, Some e, b)"
  by (simp add: readFd_def Let_def)

text \<open>What the kernel delivered is appended, whether it fits the vector or spills over.\<close>

lemma readFd_data:
  assumes inv: "buf_inv b" and fits: "length (buf_data b) + 65536 \<le> vec_max_size"
    and rd: "readv fd (read_iov b) = Inr bs"
    and ok: "readv_ok readv"
  shows "\<exists>b'. readFd readv fd b = Inr (int (length bs), None, b') \<and> buf_inv b' \<and>
     content b' = content b @ bs"
proof -
  let ?w = "unat (writableBytes b)"
  note bnd = buf_invD [OF inv]
  have w: "?w = length (buf_data b) - unat (writerIndex b)" by (rule unat_writable [OF inv])
  have cap: "length bs \<le> sum_list (read_iov b)"
    using ok rd unfolding readv_ok_def by blast
  then have le: "length bs \<le> ?w + 65536" by (auto simp: read_iov_def Let_def split: if_splits)
  have n: "unat (of_nat (length bs) :: size_t) = length bs"
    using le w bnd by (intro unat_size_of_nat) simp
  let ?d = "overwrite (unat (writerIndex b)) (take ?w bs) (buf_data b)"
  have wr: "unat (writerIndex b) + length (take ?w bs) \<le> length (buf_data b)"
    using w bnd by simp
  show ?thesis
  proof (cases "length bs \<le> ?w")
    case True
    then have "(of_nat (length bs) :: size_t) \<le> writableBytes b"
      using n by (simp add: word_le_nat_alt)
    with write_at_end [OF inv, of bs "of_nat (length bs)"] True wr n cap show ?thesis
      by (simp add: readFd_def Let_def rd)
  next
    case False
    then have gt: "\<not> (of_nat (length bs) :: size_t) \<le> writableBytes b"
      using n by (simp add: word_le_nat_alt)
    let ?b1 = "b\<lparr>buf_data := ?d, writerIndex := buf_size (b\<lparr>buf_data := ?d\<rparr>)\<rparr>"
    let ?len = "of_nat (length bs) - writableBytes b"
    let ?mem = "overwrite 0 (drop ?w bs) (replicate (unat EXTRABUF) (CHR 0x00))"
    have bs: "buf_size (b\<lparr>buf_data := ?d\<rparr>) = writerIndex b + writableBytes b"
      using wr by (simp add: writableBytes_def buf_size_def)
    have b1: "buf_inv ?b1" "content ?b1 = content b @ take ?w bs"
      using write_at_end [OF inv wr, of "writableBytes b"] False bs by simp_all
    have len: "unat ?len = length bs - ?w"
      using n False by (subst unat_size_sub) auto
    have fit1: "buf_fits ?b1 (unat ?len)"
      using fits len le bnd wr b1(1) unat_buf_size [OF b1(1)]
      by (simp add: buf_fits_def buf_size_def)
    have mem: "unat ?len \<le> length ?mem" and tk: "take (unat ?len) ?mem = drop ?w bs"
      using len le by (auto simp: overwrite_def)
    from append_raw_ok [OF b1(1) fit1 mem] obtain b2 where
      b2: "append_raw ?b1 ?mem ?len = Inr b2" "buf_inv b2"
      "content b2 = content ?b1 @ take (unat ?len) ?mem" by blast
    have "readFd readv fd b = Inr (int (length bs), None, b2)"
      using wr gt cap b2(1) by (simp add: readFd_def Let_def rd)
    with b2 b1 tk show ?thesis by simp
  qed
qed

lemma writeFd_ok:
  assumes inv: "buf_inv b"
  shows "writeFd write fd b =
    Inr (case write fd (content b) of Inl e \<Rightarrow> (- 1, Some e) | Inr n \<Rightarrow> (int n, None))"
proof -
  have "peek_bytes b (readableBytes b) = Inr (content b)"
    using peek_ok [OF inv, of "readableBytes b"] length_content [OF inv] by simp
  then show ?thesis by (simp add: writeFd_def)
qed

lemma retrieveAsString_ok:
  assumes inv: "buf_inv b" and le: "unat len \<le> length (content b)"
  shows "retrieveAsString b len = Inr (take (unat len) (content b), retrieve b len)"
  by (simp add: retrieveAsString_def peek_ok [OF inv le])

section \<open>The buffer is a byte queue\<close>

definition append_bytes :: "bytes \<Rightarrow> net_buffer \<Rightarrow> net_buffer res" where
  "append_bytes bs b = append_raw b bs (of_nat (length bs))"

definition take_bytes :: "nat \<Rightarrow> net_buffer \<Rightarrow> (bytes \<times> net_buffer) res" where
  "take_bytes n b = retrieveAsString b (of_nat n)"

lemma append_bytes_ok:
  assumes "buf_inv b" and "buf_fits b (length bs)"
  shows "\<exists>b'. append_bytes bs b = Inr b' \<and> buf_inv b' \<and> content b' = content b @ bs"
proof -
  have n: "unat (of_nat (length bs) :: size_t) = length bs"
    using assms(2) vec_max_size_lt by (intro unat_size_of_nat) (simp add: buf_fits_def)
  show ?thesis
    using append_raw_ok [of b "of_nat (length bs)" bs] assms n by (simp add: append_bytes_def)
qed

lemma take_bytes_ok:
  assumes inv: "buf_inv b" and le: "n \<le> length (content b)"
  shows "\<exists>b'. take_bytes n b = Inr (take n (content b), b') \<and> buf_inv b' \<and>
     content b' = drop n (content b)"
proof -
  have "n < 2 ^ 64"
    using le length_content [OF inv] unat_size_lt [of "readableBytes b"] by linarith
  then have n: "unat (of_nat n :: size_t) = n" by (rule unat_size_of_nat)
  show ?thesis
    using retrieveAsString_ok [OF inv, of "of_nat n"] retrieve_inv [OF inv]
      retrieve_content [OF inv] le n by (simp add: take_bytes_def)
qed

interpretation nbuf: byte_queue buf_inv content buf_fits append_bytes take_bytes
  by unfold_locales (simp_all add: append_bytes_ok take_bytes_ok)

lemma ensureWritableBytes_capacity:
  assumes inv: "buf_inv b" and fits: "buf_fits b (unat len)"
    and res: "ensureWritableBytes b len = Inr b'"
  shows "length (buf_data b') =
    (if length (buf_data b) - unat (writerIndex b) < unat len \<and>
        length (buf_data b) - length (content b) < unat len + 8
     then unat (writerIndex b) + unat len else length (buf_data b))"
proof -
  note bnd = buf_invD [OF inv]
  have len: "unat len < 2 ^ 63" using fits vec_max_size_lt by (simp add: buf_fits_def)
  have w: "writableBytes b < len \<longleftrightarrow> length (buf_data b) - unat (writerIndex b) < unat len"
    by (simp add: word_less_nat_alt unat_writable [OF inv])
  have "unat (writableBytes b + prependableBytes b)
      = (length (buf_data b) - unat (writerIndex b)) + unat (readerIndex b)"
    using bnd unat_writable [OF inv] by (subst unat_size_add) (auto simp: prependableBytes_def)
  moreover have "unat (len + CHEAP_PREPEND) = unat len + 8"
    using len by (subst unat_size_add) auto
  ultimately have n: "writableBytes b + prependableBytes b < len + CHEAP_PREPEND \<longleftrightarrow>
      length (buf_data b) - length (content b) < unat len + 8"
    using bnd length_content [OF inv] unat_readable [OF inv] by (simp add: word_less_nat_alt)
  show ?thesis
    using makeSpace_grow [OF inv fits] makeSpace_move [OF inv fits] res w n
    by (auto simp: ensureWritableBytes_def split: if_splits)
qed

lemma ensureWritableBytes_writer:
  assumes inv: "buf_inv b" and res: "ensureWritableBytes b len = Inr b'"
  shows "unat (writerIndex b') \<le> unat (writerIndex b)"
proof -
  note bnd = buf_invD [OF inv]
  have "unat (CHEAP_PREPEND + readableBytes b) = 8 + (unat (writerIndex b) - unat (readerIndex b))"
    using bnd unat_readable [OF inv] by (subst unat_size_add) auto
  with res bnd show ?thesis
    by (auto simp: ensureWritableBytes_def makeSpace_def Let_def bindR_eq_Inr split: if_splits)
qed

lemma append_raw_writer:
  assumes inv: "buf_inv b" and fits: "buf_fits b (unat len)" and res: "append_raw b mem len = Inr b'"
  shows "unat (writerIndex b') \<le> unat (writerIndex b) + unat len"
proof -
  from res obtain b1 where b1: "ensureWritableBytes b len = Inr b1"
    and w: "writerIndex b' = writerIndex b1 + len"
    by (auto simp: append_raw_def bindR_eq_Inr)
  have le: "unat (writerIndex b1) \<le> unat (writerIndex b)" by (rule ensureWritableBytes_writer [OF inv b1])
  then have "unat (writerIndex b1 + len) = unat (writerIndex b1) + unat len"
    using fits vec_max_size_lt by (intro unat_size_add) (simp add: buf_fits_def)
  with w le show ?thesis by simp
qed

lemma append_raw_capacity:
  assumes inv: "buf_inv b" and fits: "buf_fits b (unat len)" and res: "append_raw b mem len = Inr b'"
  shows "length (buf_data b') \<le> length (buf_data b) + unat len"
proof -
  from res obtain b1 where b1: "ensureWritableBytes b len = Inr b1" and d: "length (buf_data b') = length (buf_data b1)"
    by (auto simp: append_raw_def bindR_eq_Inr mem_write_def split: if_splits)
  show ?thesis unfolding d ensureWritableBytes_capacity [OF inv fits b1] using buf_invD [OF inv] by auto
qed

lemma readFd_capacity:
  assumes inv: "buf_inv b" and fits: "length (buf_data b) + 65536 \<le> vec_max_size"
    and rd: "readv fd (read_iov b) = Inr bs" and ok: "readv_ok readv" and res: "readFd readv fd b = Inr (n, e, b')"
  shows "length (buf_data b') \<le> length (buf_data b) + length bs"
proof -
  let ?w = "writableBytes b"
  have w: "unat ?w = length (buf_data b) - unat (writerIndex b)" by (rule unat_writable [OF inv])
  have cap: "length bs \<le> sum_list (read_iov b)" using ok rd unfolding readv_ok_def by blast
  then have le: "length bs \<le> unat ?w + 65536" by (auto simp: read_iov_def Let_def EXTRABUF_def split: if_splits)
  have lens: "length bs < 2 ^ 64" using le w fits vec_max_size_lt by simp
  define d where "d = overwrite (unat (writerIndex b)) (take (unat ?w) bs) (buf_data b)"
  have d: "length d = length (buf_data b)" using w buf_invD [OF inv] by (simp add: d_def length_overwrite)
  from res rd have b': "b' = b\<lparr>buf_data := d, writerIndex := writerIndex b + of_nat (length bs)\<rparr> \<or>
      (\<not> of_nat (length bs) \<le> ?w \<and> (\<exists>extra. append_raw (b\<lparr>buf_data := d, writerIndex := buf_size (b\<lparr>buf_data := d\<rparr>)\<rparr>) extra (of_nat (length bs) - ?w) = Inr b'))"
    unfolding d_def by (auto simp: readFd_def Let_def bindR_eq_Inr mem_write_def split: if_splits)
  show ?thesis
  proof (cases "of_nat (length bs) \<le> ?w")
    case True
    with b' d show ?thesis by auto
  next
    case False
    let ?b = "b\<lparr>buf_data := d, writerIndex := buf_size (b\<lparr>buf_data := d\<rparr>)\<rparr>"
    have "unat (of_nat (length bs) - ?w) = length bs - unat ?w"
      using False lens by (subst unat_size_sub) (simp_all add: unat_size_of_nat word_le_nat_alt)
    moreover have size: "unat (buf_size (b\<lparr>buf_data := d\<rparr>)) = length (buf_data b)"
      using d fits vec_max_size_lt by (simp add: buf_size_def unat_size_of_nat)
    moreover have "buf_inv ?b"
      using inv d size buf_invD [OF inv] by (simp add: buf_inv_def word_le_nat_alt)
    moreover have "buf_fits ?b (unat (of_nat (length bs) - ?w))"
      using calculation(1,2) le fits by (simp add: buf_fits_def)
    ultimately have "length (buf_data b') \<le> length (buf_data b) + (length bs - unat ?w)"
      if "append_raw ?b extra (of_nat (length bs) - ?w) = Inr b'" for extra
      using append_raw_capacity [OF _ _ that] d by simp
    then have "length (buf_data b') \<le> length (buf_data b) + length bs"
      if "append_raw ?b extra (of_nat (length bs) - ?w) = Inr b'" for extra
      using that diff_le_self [of "length bs" "unat ?w"] by (meson add_le_cancel_left le_trans)
    with b' d show ?thesis by auto
  qed
qed

lemma retrieve_writer:
  assumes "buf_inv b"
  shows "unat (writerIndex (retrieve b len)) \<le> unat (writerIndex b)"
  using buf_invD [OF assms] by (auto simp: retrieve_def retrieveAll_def)

section \<open>Properties\<close>

text \<open>
  On a well-formed buffer, \<open>Buffer::append\<close> of \<open>len\<close> bytes that are really there and fit the
  largest vector never reads or writes out of bounds and never throws; it keeps the buffer
  well-formed and puts exactly these bytes behind the readable ones.
\<close>

theorem buffer_append_appends:
  assumes "buf_inv b" and "buf_fits b (unat len)" and "unat len \<le> length mem"
  shows "\<exists>b'. append_raw b mem len = Inr b' \<and> buf_inv b' \<and>
     content b' = content b @ take (unat len) mem"
  using assms by (rule append_raw_ok)

theorem buffer_append_appends_witness:
  "\<exists>b'. append_raw (Buffer_new 0) ''hello'' 4 = Inr b' \<and> buf_inv b' \<and> content b' = ''hell''"
  using buffer_append_appends [OF buf_inv_new, of 0 4 "''hello''"]
  by (simp add: content_new buf_fits_new)

text \<open>
  C22: \<open>Buffer::readFd\<close>, on every answer of \<open>readv\<close>: an error is passed on through the return value
  and \<open>saveErrno\<close> and leaves the buffer as it was; otherwise the call returns the number of bytes
  read, and these bytes, whether they fitted the vector or went through the 64 KB stack buffer,
  are appended to the readable bytes. No access is out of bounds.
\<close>

theorem buffer_readFd_spec:
  assumes "buf_inv b" and "length (buf_data b) + 65536 \<le> vec_max_size" and "readv_ok readv"
  shows "case readv fd (read_iov b) of
      Inl e \<Rightarrow> readFd readv fd b = Inr (- 1, Some e, b)
    | Inr bs \<Rightarrow> \<exists>b'. readFd readv fd b = Inr (int (length bs), None, b') \<and> buf_inv b' \<and>
        content b' = content b @ bs"
  using readFd_data [OF assms(1,2) _ assms(3)] readFd_error
  by (auto split: sum.splits)

theorem buffer_readFd_spec_witness:
  "\<exists>b'. readFd (\<lambda>fd lens. Inr (take (sum_list lens) ''GET'')) 7 (Buffer_new 0) = Inr (3, None, b') \<and>
     buf_inv b' \<and> content b' = ''GET''"
proof -
  let ?r = "\<lambda>fd lens. Inr (take (sum_list lens) ''GET'') :: errno + bytes"
  have ok: "readv_ok ?r" by (simp add: readv_ok_def)
  have cap: "length (buf_data (Buffer_new 0)) + 65536 \<le> vec_max_size"
    by (simp add: Buffer_new_def vec_max_size_def CHEAP_PREPEND_def INIT_SIZE_def)
  have "3 \<le> sum_list (read_iov (Buffer_new 0))"
    by (simp add: read_iov_def Let_def writableBytes_def buf_size_def Buffer_new_def
        CHEAP_PREPEND_def INIT_SIZE_def EXTRABUF_def)
  then show ?thesis
    using buffer_readFd_spec [OF buf_inv_new cap ok, of 7] by (simp add: content_new)
qed

text \<open>
  C23: Over any sequence of \<open>append\<close> and \<open>retrieveAsString\<close> calls that stays within the room of
  the buffer, what comes out followed by what is still readable is what was readable at the start
  followed by everything appended: no byte is lost, duplicated or reordered, whatever growth and
  moves happen inside.
\<close>

theorem buffer_fifo:
  assumes "buf_inv b" and "q_legal buf_fits content append_bytes take_bytes ops b"
  shows "\<exists>outs b'. q_exec append_bytes take_bytes ops b = Inr (outs, b') \<and> buf_inv b' \<and>
     outs @ content b' = content b @ q_input ops"
  using assms by (rule nbuf.exec_fifo)

theorem buffer_fifo_witness:
  "\<exists>outs b'. q_exec append_bytes take_bytes [Put ''ab'', Get 1] (Buffer_new 0) = Inr (outs, b') \<and>
     buf_inv b' \<and> outs @ content b' = ''ab''"
proof -
  obtain b1 where b1: "append_bytes ''ab'' (Buffer_new 0) = Inr b1" "content b1 = ''ab''"
    using append_bytes_ok [OF buf_inv_new, of 0 "''ab''"] by (auto simp: buf_fits_new content_new)
  then have "q_legal buf_fits content append_bytes take_bytes [Put ''ab'', Get 1] (Buffer_new 0)"
    by (auto simp: buf_fits_new split: sum.split prod.split)
  from buffer_fifo [OF buf_inv_new this] show ?thesis by (simp add: content_new)
qed

text \<open>
  \<open>ensureWritableBytes\<close> reallocates only when moving the readable bytes to the front would not
  free enough space, and then to exactly the size needed; otherwise the capacity is unchanged.
\<close>

theorem buffer_capacity:
  assumes "buf_inv b" and "buf_fits b (unat len)"
  shows "\<exists>b'. ensureWritableBytes b len = Inr b' \<and>
    unat len \<le> length (buf_data b') - unat (writerIndex b') \<and>
    length (buf_data b') =
      (if length (buf_data b) - unat (writerIndex b) < unat len \<and>
          length (buf_data b) - length (content b) < unat len + 8
       then unat (writerIndex b) + unat len else length (buf_data b))"
  using ensureWritableBytes_ok [OF assms] ensureWritableBytes_capacity [OF assms] by fastforce

theorem buffer_capacity_witness:
  "\<exists>b'. ensureWritableBytes (Buffer_new 0) 2000 = Inr b' \<and> length (buf_data b') = 2008"
proof -
  have "buf_fits (Buffer_new 0) (unat (2000 :: size_t))"
    by (simp add: buf_fits_new)
  from buffer_capacity [OF buf_inv_new this] show ?thesis
    by (auto simp: content_new Buffer_new_def CHEAP_PREPEND_def INIT_SIZE_def)
qed

section \<open>All operations together\<close>

text \<open>
  The state-changing methods of the class as calls of one client. A call is allowed when its arguments
  are: memory with the bytes asked for, no more bytes taken than there are, and room in the largest vector.
\<close>

datatype buf_op =
    B_append bytes size_t | B_ensure size_t | B_retrieve size_t | B_retrieveAll
  | B_asString size_t | B_allAsString | B_readFd "int \<Rightarrow> nat list \<Rightarrow> errno + bytes" int

fun buf_call :: "buf_op \<Rightarrow> net_buffer \<Rightarrow> net_buffer res" where
  "buf_call (B_append mem len) b = append_raw b mem len"
| "buf_call (B_ensure len) b = ensureWritableBytes b len"
| "buf_call (B_retrieve len) b = Inr (retrieve b len)"
| "buf_call B_retrieveAll b = Inr (retrieveAll b)"
| "buf_call (B_asString len) b = bindR (retrieveAsString b len) (\<lambda>(s, b1). Inr b1)"
| "buf_call B_allAsString b = bindR (retrieveAllAsString b) (\<lambda>(s, b1). Inr b1)"
| "buf_call (B_readFd readv fd) b = bindR (readFd readv fd b) (\<lambda>(n, e, b1). Inr b1)"

fun buf_allowed :: "buf_op \<Rightarrow> net_buffer \<Rightarrow> bool" where
  "buf_allowed (B_append mem len) b \<longleftrightarrow> unat len \<le> length mem \<and> buf_fits b (unat len)"
| "buf_allowed (B_ensure len) b \<longleftrightarrow> buf_fits b (unat len)"
| "buf_allowed (B_asString len) b \<longleftrightarrow> unat len \<le> length (content b)"
| "buf_allowed (B_readFd readv fd) b \<longleftrightarrow> readv_ok readv \<and> length (buf_data b) + 65536 \<le> vec_max_size"
| "buf_allowed _ b \<longleftrightarrow> True"

fun buf_calls :: "buf_op list \<Rightarrow> net_buffer \<Rightarrow> net_buffer res" where
  "buf_calls [] b = Inr b"
| "buf_calls (x # xs) b = bindR (buf_call x b) (buf_calls xs)"

fun calls_allowed :: "buf_op list \<Rightarrow> net_buffer \<Rightarrow> bool" where
  "calls_allowed [] b \<longleftrightarrow> True"
| "calls_allowed (x # xs) b \<longleftrightarrow>
     buf_allowed x b \<and> (case buf_call x b of Inl e \<Rightarrow> True | Inr b1 \<Rightarrow> calls_allowed xs b1)"

lemma buf_call_ok:
  assumes inv: "buf_inv b" and ok: "buf_allowed x b"
  shows "\<exists>b'. buf_call x b = Inr b' \<and> buf_inv b'"
proof (cases x)
  case (B_readFd readv fd)
  then have r: "readv_ok readv" "length (buf_data b) + 65536 \<le> vec_max_size" using ok by simp_all
  show ?thesis
  proof (cases "readv fd (read_iov b)")
    case (Inl e)
    then show ?thesis using inv readFd_error [of readv fd b e, OF Inl] by (simp add: B_readFd)
  next
    case (Inr bs)
    from readFd_data [of b readv fd bs, OF inv r(2) Inr r(1)] show ?thesis by (auto simp: B_readFd)
  qed
next
  case B_allAsString
  have "unat (readableBytes b) \<le> length (content b)" by (simp add: length_content inv)
  then show ?thesis
    using inv by (simp add: B_allAsString retrieveAllAsString_def retrieveAsString_ok retrieve_inv)
next
  case (B_append mem len)
  then show ?thesis using append_raw_ok [OF inv, of len mem] ok by auto
next
  case (B_ensure len)
  then show ?thesis using ensureWritableBytes_ok [OF inv, of len] ok by auto
qed (use inv ok in \<open>auto simp: retrieve_inv buf_inv_retrieveAll retrieveAsString_ok\<close>)

text \<open>
  C21: Whatever sequence of allowed calls a client makes, none of them fails or leaves the memory, and the
  buffer stays well-formed: the indices are ordered and inside the vector, and the three sizes, each an
  unsigned subtraction, never wrap around and partition the vector.
\<close>

theorem buffer_well_formed:
  assumes "buf_inv b" and "calls_allowed xs b"
  shows "\<exists>b'. buf_calls xs b = Inr b' \<and> buf_inv b' \<and> 8 \<le> unat (prependableBytes b') \<and>
    unat (prependableBytes b') + unat (readableBytes b') + unat (writableBytes b') = length (buf_data b')"
  using assms
proof (induction xs arbitrary: b)
  case Nil
  then show ?case using buf_invD [OF Nil(1)] by (simp add: prependableBytes_def unat_readable unat_writable)
next
  case (Cons x xs)
  then obtain b1 where "buf_call x b = Inr b1" "buf_inv b1" using buf_call_ok by force
  with Cons show ?case by simp
qed

theorem buffer_well_formed_witness:
  "\<exists>b'. buf_calls [B_append ''hello'' 5, B_retrieve 2, B_ensure 2000, B_retrieveAll] (Buffer_new 0) = Inr b' \<and> buf_inv b' \<and>
     unat (prependableBytes b') + unat (readableBytes b') + unat (writableBytes b') = length (buf_data b')"
proof -
  have w: "unat (writerIndex (Buffer_new 0)) = 8" by (simp add: Buffer_new_def)
  have f: "buf_fits b (unat (2000 :: size_t))" if "unat (writerIndex b) \<le> 13" for b
    using that by (simp add: buf_fits_def vec_max_size_def)
  have a: "buf_fits (Buffer_new 0) (unat (5 :: size_t))" by (rule buf_fits_new) simp
  obtain b1 where b1: "append_raw (Buffer_new 0) ''hello'' 5 = Inr b1" "buf_inv b1"
    using append_raw_ok [OF buf_inv_new a, of "''hello''"] by auto
  have "unat (writerIndex b1) \<le> 13" using append_raw_writer [OF buf_inv_new a b1(1)] w by simp
  with retrieve_writer [OF b1(2), of 2] have "unat (writerIndex (retrieve b1 2)) \<le> 13" by simp
  from f [OF this] b1 a have "calls_allowed [B_append ''hello'' 5, B_retrieve 2, B_ensure 2000, B_retrieveAll] (Buffer_new 0)"
    by (simp split: sum.split)
  from buffer_well_formed [OF buf_inv_new this] show ?thesis by blast
qed

end
