(* ===== verification/Net_Address.thy ===== *)
theory Net_Address
  imports Prelude
begin

text \<open>
  Addresses, sockets and time stamps (\<open>InetAddress\<close>, \<open>Socket\<close>, \<open>Timestamp\<close>). Words are kept in
  network byte order as in \<open>sockaddr_in\<close>, on a little-endian host. \<open>inet_ntop\<close> for IPv4 prints the
  four bytes in memory order; \<open>inet_addr\<close> is a parameter. The methods of \<open>Socket\<close> are the system
  calls they make, in order, as values of \<open>sock_call\<close>, together with what they do with the answers.
\<close>

section \<open>InetAddress\<close>

record inet_address =
  sin_family :: nat
  sin_port :: "16 word"
  s_addr :: "32 word"

definition AF_INET :: nat where "AF_INET = 2"

definition htons :: "16 word \<Rightarrow> 16 word" where
  "htons x = push_bit 8 x OR drop_bit 8 x"

definition ntohs :: "16 word \<Rightarrow> 16 word" where
  "ntohs x = push_bit 8 x OR drop_bit 8 x"

definition InetAddress_new :: "(string \<Rightarrow> 32 word) \<Rightarrow> 16 word \<Rightarrow> string \<Rightarrow> inet_address" where
  "InetAddress_new inet_addr port ip =
     \<lparr>sin_family = AF_INET, sin_port = htons port, s_addr = inet_addr ip\<rparr>"

definition octet :: "nat \<Rightarrow> 32 word \<Rightarrow> nat" where
  "octet k a = unat (drop_bit (8 * k) a AND 255)"

definition inet_ntop :: "32 word \<Rightarrow> string" where
  "inet_ntop a = to_string (octet 0 a) @ ''.'' @ to_string (octet 1 a) @ ''.'' @
     to_string (octet 2 a) @ ''.'' @ to_string (octet 3 a)"

text \<open>A C string of a character array: at most \<open>n - 1\<close> characters and the terminator.\<close>

definition c_string_fits :: "nat \<Rightarrow> string \<Rightarrow> string res" where
  "c_string_fits n s = (if length s < n then Inr s else Inl Out_Of_Bounds)"

definition toIp :: "inet_address \<Rightarrow> string res" where
  "toIp a = c_string_fits 64 (inet_ntop (s_addr a))"

definition toIpPort :: "inet_address \<Rightarrow> string res" where
  "toIpPort a =
     bindR (c_string_fits 64 (inet_ntop (s_addr a))) (\<lambda>buf.
       c_string_fits 64 (buf @ '':'' @ to_string (unat (ntohs (sin_port a)))))"

definition toPort :: "inet_address \<Rightarrow> 16 word" where
  "toPort a = ntohs (sin_port a)"

section \<open>Socket\<close>

datatype sock_call =
    Call_bind int inet_address
  | Call_listen int nat
  | Call_shutdown_wr int
  | Call_setsockopt int string bool
  | Call_close int

definition bindAddress :: "int \<Rightarrow> inet_address \<Rightarrow> sock_call list" where
  "bindAddress fd addr = [Call_bind fd addr]"

definition Socket_Listen :: "int \<Rightarrow> sock_call list" where
  "Socket_Listen fd = [Call_listen fd 1024]"

text \<open>
  \<open>Accept\<close>: \<open>client_len\<close> is the value the uninitialised local variable happens to have; it is
  passed to \<open>accept4\<close> as the size of the address buffer.
\<close>

definition Socket_Accept ::
  "(int \<Rightarrow> nat \<Rightarrow> errno + (int \<times> inet_address)) \<Rightarrow> nat \<Rightarrow> int \<Rightarrow> inet_address \<Rightarrow> int \<times> inet_address" where
  "Socket_Accept accept4 client_len fd peerAddr =
     (case accept4 fd client_len of
        Inl e \<Rightarrow> (- 1, peerAddr)
      | Inr (connfd, client) \<Rightarrow> (connfd, if 0 \<le> connfd then client else peerAddr))"

definition shutdownWrite :: "int \<Rightarrow> sock_call list" where
  "shutdownWrite fd = [Call_shutdown_wr fd]"

definition setTcpNoDelay :: "bool \<Rightarrow> int \<Rightarrow> sock_call list" where
  "setTcpNoDelay on fd = [Call_setsockopt fd ''TCP_NODELAY'' on]"
definition setReuseAddr :: "bool \<Rightarrow> int \<Rightarrow> sock_call list" where
  "setReuseAddr on fd = [Call_setsockopt fd ''SO_REUSEADDR'' on]"
definition setReusePort :: "bool \<Rightarrow> int \<Rightarrow> sock_call list" where
  "setReusePort on fd = [Call_setsockopt fd ''SO_REUSEPORT'' on]"
definition setKeepAlive :: "bool \<Rightarrow> int \<Rightarrow> sock_call list" where
  "setKeepAlive on fd = [Call_setsockopt fd ''SO_KEEPALIVE'' on]"

definition Socket_destroy :: "int \<Rightarrow> sock_call list" where
  "Socket_destroy fd = [Call_close fd]"

section \<open>Timestamp\<close>

record tm =
  tm_sec :: int
  tm_min :: int
  tm_hour :: int
  tm_mday :: int
  tm_mon :: int
  tm_year :: int

text \<open>\<open>printf\<close> of an \<open>int\<close> with a zero-padded minimum width.\<close>

definition print_0d :: "nat \<Rightarrow> int \<Rightarrow> string" where
  "print_0d width v =
     (if v < 0 then let s = to_string (nat (- v)) in ''-'' @ replicate (width - 1 - length s) (CHR ''0'') @ s
      else let s = to_string (nat v) in replicate (width - length s) (CHR ''0'') @ s)"

text \<open>A time stamp is its number of seconds; \<open>time_now\<close> is the answer of \<open>time(NULL)\<close>.\<close>

definition Timestamp_default :: int where
  "Timestamp_default = 0"

definition Timestamp_new :: "int \<Rightarrow> int" where
  "Timestamp_new secondsSinceEpoch = secondsSinceEpoch"

definition Timestamp_now :: "int \<Rightarrow> int" where
  "Timestamp_now time_now = Timestamp_new time_now"

text \<open>\<open>snprintf\<close> into 128 bytes cuts after 127 characters; \<open>localtime\<close> is a parameter.\<close>

definition Timestamp_toString :: "(int \<Rightarrow> tm) \<Rightarrow> int \<Rightarrow> string" where
  "Timestamp_toString localtime secondsSinceEpoch =
     (let t = localtime secondsSinceEpoch in
      take 127 (print_0d 4 (tm_year t + 1900) @ ''/'' @ print_0d 2 (tm_mon t + 1) @ ''/'' @
        print_0d 2 (tm_mday t) @ '' '' @ print_0d 2 (tm_hour t) @ '':'' @
        print_0d 2 (tm_min t) @ '':'' @ print_0d 2 (tm_sec t)))"

definition tm_ok :: "tm \<Rightarrow> bool" where
  "tm_ok t \<longleftrightarrow> 0 \<le> tm_sec t \<and> tm_sec t \<le> 60 \<and> 0 \<le> tm_min t \<and> tm_min t \<le> 59 \<and>
     0 \<le> tm_hour t \<and> tm_hour t \<le> 23 \<and> 1 \<le> tm_mday t \<and> tm_mday t \<le> 31 \<and>
     0 \<le> tm_mon t \<and> tm_mon t \<le> 11 \<and> - 1900 \<le> tm_year t \<and> tm_year t \<le> 8099"

section \<open>Lemmas\<close>

lemma ntohs_htons: "ntohs (htons p) = p"
proof (rule bit_word_eqI)
  fix n assume "n < LENGTH(16)"
  then show "bit (ntohs (htons p)) n = bit p n"
    by (auto simp: ntohs_def htons_def bit_simps)
qed

lemma octet_lt: "octet k a < 256"
proof -
  have "unat (drop_bit (8 * k) a AND 255) \<le> unat (255 :: 32 word)"
    by (rule word_and_le1 [THEN word_le_nat_alt [THEN iffD1]])
  then show ?thesis by (simp add: octet_def)
qed

lemma length_octet: "length (to_string (octet k a)) \<le> 3"
  using octet_lt [of k a] by (intro length_to_string) auto

lemma length_inet_ntop: "length (inet_ntop a) \<le> 15"
  using length_octet [of 0 a] length_octet [of 1 a] length_octet [of 2 a] length_octet [of 3 a]
  by (simp add: inet_ntop_def)

lemma length_port: "length (to_string (unat (p :: 16 word))) \<le> 5"
  using unsigned_less [of p, where ?'a = nat] by (intro length_to_string) auto

lemma not_digit_sep [simp]: "\<not> is_digit (CHR ''.'')" "\<not> is_digit (CHR '':'')" "\<not> is_digit (CHR ''-'')"
  by (simp_all add: is_digit_def)

lemma to_string_sep_eq:
  assumes "\<not> is_digit x"
  shows "to_string m @ x # s = to_string n @ x # t \<longleftrightarrow> m = n \<and> s = t"
  using digits_then_sep_eq [OF _ _ assms, of "to_string m" "to_string n" s t] to_string_digits
    to_string_inj by blast

lemma unat_eq_imp: "unat a = unat b \<Longrightarrow> a = b" for a b :: "'a::len word"
  by (simp add: word_unat_eq_iff)

lemma octets_determine:
  assumes "\<And>k. k < 4 \<Longrightarrow> octet k a = octet k b"
  shows "a = b"
proof (rule bit_word_eqI)
  fix n assume n: "n < LENGTH(32)"
  have "drop_bit (8 * (n div 8)) a AND 255 = drop_bit (8 * (n div 8)) b AND 255"
    using assms [of "n div 8"] n by (intro unat_eq_imp) (simp add: octet_def less_mult_imp_div_less)
  then have "bit (drop_bit (8 * (n div 8)) a AND 255) (n mod 8) =
      bit (drop_bit (8 * (n div 8)) b AND 255) (n mod 8)" by simp
  moreover have "bit (255 :: 32 word) (n mod 8)"
  proof -
    have m: "mask 8 = (255 :: 32 word)" by (simp add: mask_eq_exp_minus_1)
    have lt: "n mod 8 < 8" by simp
    have "bit (mask 8 :: 32 word) (n mod 8)"
      unfolding bit_mask_iff possible_bit_word using lt less_trans [OF lt, of 32] by simp
    then show ?thesis unfolding m .
  qed
  ultimately show "bit a n = bit b n" by (simp add: bit_simps)
qed

lemma toIpPort_ok:
  "toIpPort a = Inr (inet_ntop (s_addr a) @ '':'' @ to_string (unat (toPort a)))"
  using length_inet_ntop [of "s_addr a"] length_port [of "ntohs (sin_port a)"]
  by (simp add: toIpPort_def c_string_fits_def toPort_def)

lemma length_print_0d: "0 \<le> v \<Longrightarrow> v < 10 ^ w \<Longrightarrow> 0 < w \<Longrightarrow> length (print_0d w v) = w"
proof -
  assume v: "0 \<le> v" "v < 10 ^ w" "0 < w"
  have "nat v < 10 ^ w" using v(1,2) by (simp add: nat_less_iff)
  then have "length (to_string (nat v)) \<le> w" using v(3) by (rule length_to_string)
  then show ?thesis using v(1) by (simp add: print_0d_def Let_def)
qed

section \<open>Properties\<close>

text \<open>
  \<open>InetAddress::toPort\<close> returns the port the address was built with: the two byte swaps cancel.
\<close>

theorem port_roundtrip: "toPort (InetAddress_new inet_addr port ip) = port"
  by (simp add: toPort_def InetAddress_new_def ntohs_htons)

text \<open>
  C39: \<open>InetAddress::toIpPort\<close> never overruns its 64-byte array, and its text determines the address
  and the port: two addresses with the same text are the same endpoint.
\<close>

theorem toIpPort_identifies:
  "\<exists>s t. toIpPort a = Inr s \<and> toIpPort b = Inr t \<and> length s \<le> 21 \<and>
    (s = t \<longleftrightarrow> s_addr a = s_addr b \<and> toPort a = toPort b)"
proof -
  have len: "length (inet_ntop (s_addr a) @ '':'' @ to_string (unat (toPort a))) \<le> 21"
    using length_inet_ntop [of "s_addr a"] length_port [of "toPort a"] by simp
  have "s_addr a = s_addr b \<and> toPort a = toPort b"
    if "inet_ntop (s_addr a) @ '':'' @ to_string (unat (toPort a)) =
        inet_ntop (s_addr b) @ '':'' @ to_string (unat (toPort b))"
  proof -
    from that have eqs: "octet 0 (s_addr a) = octet 0 (s_addr b)" "octet 1 (s_addr a) = octet 1 (s_addr b)"
      "octet 2 (s_addr a) = octet 2 (s_addr b)" "octet 3 (s_addr a) = octet 3 (s_addr b)"
      "unat (toPort a) = unat (toPort b)"
      by (simp_all add: inet_ntop_def to_string_sep_eq to_string_inj)
    have "octet k (s_addr a) = octet k (s_addr b)" if "k < 4" for k
    proof -
      from that have "k = 0 \<or> k = 1 \<or> k = 2 \<or> k = 3" by auto
      then show ?thesis using eqs by auto
    qed
    then show ?thesis using octets_determine unat_eq_imp [OF eqs(5)] by blast
  qed
  then show ?thesis using len by (auto simp: toIpPort_ok)
qed

text \<open>
  \<open>Timestamp::toString\<close> of a broken-down time in range is exactly nineteen characters long: the
  fixed-width fields are never cut off by the 128-byte array.
\<close>

theorem timestamp_width:
  assumes "tm_ok (localtime t)"
  shows "length (Timestamp_toString localtime t) = 19"
  using assms by (simp add: Timestamp_toString_def Let_def tm_ok_def length_print_0d)

theorem timestamp_width_witness:
  "length (Timestamp_toString (\<lambda>_. \<lparr>tm_sec = 5, tm_min = 4, tm_hour = 3, tm_mday = 2, tm_mon = 0, tm_year = 125\<rparr>) 0) = 19"
  by (rule timestamp_width) (simp add: tm_ok_def)

end
