(* ===== verification/Channel.thy ===== *)
theory Channel
  imports Prelude
begin

text \<open>
  A channel (\<open>include/Channel.hpp\<close>, \<open>src/Channel.cpp\<close>): a descriptor with the event mask it asks
  for, the mask the poller reported, its registration index and its four callbacks. The callbacks
  are values of a type \<open>'cb\<close>; what running one does to the state \<open>'w\<close> of the program is the
  parameter \<open>call\<close> of the dispatcher, so that the dispatcher itself is the source's: it reads the
  channel again before each of its four tests.
\<close>

section \<open>Event masks\<close>

definition EPOLLIN :: c_int where "EPOLLIN = 0x001"
definition EPOLLPRI :: c_int where "EPOLLPRI = 0x002"
definition EPOLLOUT :: c_int where "EPOLLOUT = 0x004"
definition EPOLLERR :: c_int where "EPOLLERR = 0x008"
definition EPOLLHUP :: c_int where "EPOLLHUP = 0x010"

definition noneEvent :: c_int where "noneEvent = 0"
definition readEvent :: c_int where "readEvent = EPOLLIN OR EPOLLPRI"
definition writeEvent :: c_int where "writeEvent = EPOLLOUT"

section \<open>The class Channel\<close>

record 'cb channel =
  ch_loop :: nat
  ch_fd :: int
  ch_events :: c_int
  ch_revents :: c_int
  ch_index :: int
  ch_tie :: "nat option"
  ch_tied :: bool
  readCallback :: "'cb option"
  writeCallback :: "'cb option"
  closeCallback :: "'cb option"
  errorCallback :: "'cb option"

definition Channel_new :: "nat \<Rightarrow> int \<Rightarrow> 'cb channel" where
  "Channel_new loop fd =
     \<lparr>ch_loop = loop, ch_fd = fd, ch_events = 0, ch_revents = 0, ch_index = - 1,
      ch_tie = None, ch_tied = False,
      readCallback = None, writeCallback = None, closeCallback = None, errorCallback = None\<rparr>"

definition setReadCallback :: "'cb \<Rightarrow> 'cb channel \<Rightarrow> 'cb channel" where
  [simp]: "setReadCallback cb c = c\<lparr>readCallback := Some cb\<rparr>"

definition setWriteCallback :: "'cb \<Rightarrow> 'cb channel \<Rightarrow> 'cb channel" where
  [simp]: "setWriteCallback cb c = c\<lparr>writeCallback := Some cb\<rparr>"

definition setCloseCallback :: "'cb \<Rightarrow> 'cb channel \<Rightarrow> 'cb channel" where
  [simp]: "setCloseCallback cb c = c\<lparr>closeCallback := Some cb\<rparr>"

definition setErrorCallback :: "'cb \<Rightarrow> 'cb channel \<Rightarrow> 'cb channel" where
  [simp]: "setErrorCallback cb c = c\<lparr>errorCallback := Some cb\<rparr>"

definition channel_tie :: "nat \<Rightarrow> 'cb channel \<Rightarrow> 'cb channel" where
  "channel_tie obj c = c\<lparr>ch_tie := Some obj, ch_tied := True\<rparr>"

definition isNoneEvent :: "'cb channel \<Rightarrow> bool" where
  "isNoneEvent c \<longleftrightarrow> ch_events c = noneEvent"

definition isWriting :: "'cb channel \<Rightarrow> bool" where
  "isWriting c \<longleftrightarrow> ch_events c AND writeEvent \<noteq> 0"

definition isReading :: "'cb channel \<Rightarrow> bool" where
  "isReading c \<longleftrightarrow> ch_events c AND readEvent \<noteq> 0"

definition set_index :: "int \<Rightarrow> 'cb channel \<Rightarrow> 'cb channel" where
  "set_index i c = c\<lparr>ch_index := i\<rparr>"

definition set_revents :: "c_int \<Rightarrow> 'cb channel \<Rightarrow> 'cb channel" where
  "set_revents r c = c\<lparr>ch_revents := r\<rparr>"

text \<open>
  The masks of \<open>enableReading\<close>, \<open>disableReading\<close>, \<open>enableWriting\<close>, \<open>disableWriting\<close> and \<open>disbaleAll\<close>;
  the poller theory adds the \<open>update()\<close> each of them ends with.
\<close>

definition mask_enableReading :: "c_int \<Rightarrow> c_int" where
  "mask_enableReading m = m OR readEvent"
definition mask_disableReading :: "c_int \<Rightarrow> c_int" where
  "mask_disableReading m = m AND NOT readEvent"
definition mask_enableWriting :: "c_int \<Rightarrow> c_int" where
  "mask_enableWriting m = m OR writeEvent"
definition mask_disableWriting :: "c_int \<Rightarrow> c_int" where
  "mask_disableWriting m = m AND NOT writeEvent"
definition mask_disbaleAll :: "c_int \<Rightarrow> c_int" where
  "mask_disbaleAll m = m AND noneEvent"

section \<open>Dispatch\<close>

definition call_if_set :: "('cb \<Rightarrow> 'w \<Rightarrow> 'w res) \<Rightarrow> 'cb option \<Rightarrow> 'w \<Rightarrow> 'w res" where
  "call_if_set call cb w = (case cb of None \<Rightarrow> Inr w | Some f \<Rightarrow> call f w)"

definition test_and_call ::
  "('w \<Rightarrow> 'cb channel res) \<Rightarrow> ('cb \<Rightarrow> 'w \<Rightarrow> 'w res) \<Rightarrow> (c_int \<Rightarrow> bool) \<Rightarrow>
   ('cb channel \<Rightarrow> 'cb option) \<Rightarrow> 'w \<Rightarrow> 'w res" where
  "test_and_call chan call test cb w =
     bindR (chan w) (\<lambda>c. if test (ch_revents c) then call_if_set call (cb c) w else Inr w)"

definition handleEventWithGuard ::
  "('w \<Rightarrow> 'cb channel res) \<Rightarrow> ('cb \<Rightarrow> 'w \<Rightarrow> 'w res) \<Rightarrow> 'w \<Rightarrow> 'w res" where
  "handleEventWithGuard chan call w =
     bindR (test_and_call chan call (\<lambda>r. r AND EPOLLHUP \<noteq> 0 \<and> r AND EPOLLIN = 0) closeCallback w) (\<lambda>w1.
     bindR (test_and_call chan call (\<lambda>r. r AND EPOLLERR \<noteq> 0) errorCallback w1) (\<lambda>w2.
     bindR (test_and_call chan call (\<lambda>r. r AND readEvent \<noteq> 0) readCallback w2) (\<lambda>w3.
     test_and_call chan call (\<lambda>r. r AND writeEvent \<noteq> 0) writeCallback w3)))"

text \<open>\<open>alive o w\<close>: locking a weak pointer to object \<open>o\<close> succeeds in state \<open>w\<close>.\<close>

definition handleEvent ::
  "('w \<Rightarrow> 'cb channel res) \<Rightarrow> (nat \<Rightarrow> 'w \<Rightarrow> bool) \<Rightarrow> ('cb \<Rightarrow> 'w \<Rightarrow> 'w res) \<Rightarrow> 'w \<Rightarrow> 'w res" where
  "handleEvent chan alive call w =
     bindR (chan w) (\<lambda>c.
       if ch_tied c
       then (case ch_tie c of
               None \<Rightarrow> Inr w
             | Some ob \<Rightarrow> if alive ob w then handleEventWithGuard chan call w else Inr w)
       else handleEventWithGuard chan call w)"

section \<open>Lemmas\<close>

lemmas event_defs = EPOLLIN_def EPOLLPRI_def EPOLLOUT_def EPOLLERR_def EPOLLHUP_def
  noneEvent_def readEvent_def writeEvent_def
lemmas mask_defs = mask_enableReading_def mask_disableReading_def mask_enableWriting_def
  mask_disableWriting_def mask_disbaleAll_def

lemma or_and_absorb: "(m OR w) AND w = (w :: c_int)"
  by (auto simp: bit_eq_iff bit_simps)

lemma and_not_and: "(m AND NOT w) AND w = (0 :: c_int)"
  by (simp add: bit_eq_iff bit_simps)

lemma enableWriting_writing: "mask_enableWriting m AND writeEvent \<noteq> 0"
  by (simp add: mask_enableWriting_def or_and_absorb) (simp add: event_defs)

lemma disableWriting_not_writing: "mask_disableWriting m AND writeEvent = 0"
  by (simp add: mask_disableWriting_def and_not_and)

lemma enableReading_reading: "mask_enableReading m AND readEvent \<noteq> 0"
  by (simp add: mask_enableReading_def or_and_absorb) (simp add: event_defs)

lemma disableReading_not_reading: "mask_disableReading m AND readEvent = 0"
  by (simp add: mask_disableReading_def and_not_and)

lemma disbaleAll_none: "mask_disbaleAll m = noneEvent"
  by (simp add: mask_disbaleAll_def noneEvent_def)

lemma read_write_disjoint: "readEvent AND writeEvent = 0"
  by (simp add: event_defs)

lemma and_or_and: "(m OR r) AND w = (m AND w) OR (r AND w)" for m :: c_int
  by (auto simp: bit_eq_iff bit_simps)

lemma and_not_other: "r AND w = 0 \<Longrightarrow> (m AND NOT r) AND w = m AND w" for m :: c_int
  by (auto simp: bit_eq_iff bit_simps)

lemma writing_masks_keep_reading:
  "mask_enableWriting m AND readEvent = m AND readEvent"
  "mask_disableWriting m AND readEvent = m AND readEvent"
  using read_write_disjoint
  by (simp_all add: mask_enableWriting_def mask_disableWriting_def and_or_and and_not_other
      and.commute [of writeEvent])

lemma reading_masks_keep_writing:
  "mask_enableReading m AND writeEvent = m AND writeEvent"
  "mask_disableReading m AND writeEvent = m AND writeEvent"
  by (simp_all add: mask_enableReading_def mask_disableReading_def and_or_and and_not_other
      read_write_disjoint)

text \<open>The callbacks one report fires, in order, when they leave this channel's report alone.\<close>

definition fired :: "'cb channel \<Rightarrow> 'cb option list" where
  "fired c =
     (if ch_revents c AND EPOLLHUP \<noteq> 0 \<and> ch_revents c AND EPOLLIN = 0 then [closeCallback c] else []) @
     (if ch_revents c AND EPOLLERR \<noteq> 0 then [errorCallback c] else []) @
     (if ch_revents c AND readEvent \<noteq> 0 then [readCallback c] else []) @
     (if ch_revents c AND writeEvent \<noteq> 0 then [writeCallback c] else [])"

fun call_all :: "('cb \<Rightarrow> 'w \<Rightarrow> 'w res) \<Rightarrow> 'cb option list \<Rightarrow> 'w \<Rightarrow> 'w res" where
  "call_all call [] w = Inr w"
| "call_all call (f # fs) w = bindR (call_if_set call f w) (call_all call fs)"

lemma call_all_append: "call_all call (fs @ gs) w = bindR (call_all call fs w) (call_all call gs)"
proof (induction fs arbitrary: w)
  case (Cons f fs)
  then show ?case by (cases "call_if_set call f w") simp_all
qed simp

definition same_report :: "'cb channel \<Rightarrow> 'cb channel \<Rightarrow> bool" where
  "same_report c c' \<longleftrightarrow> ch_revents c' = ch_revents c \<and> readCallback c' = readCallback c \<and>
     writeCallback c' = writeCallback c \<and> closeCallback c' = closeCallback c \<and>
     errorCallback c' = errorCallback c"

text \<open>The callbacks of \<open>fs\<close> leave the channel alive and its report and callbacks as they are.\<close>

definition keeps_report :: "('w \<Rightarrow> 'cb channel res) \<Rightarrow> ('cb \<Rightarrow> 'w \<Rightarrow> 'w res) \<Rightarrow> 'cb option set \<Rightarrow> bool" where
  "keeps_report chan call fs \<longleftrightarrow>
     (\<forall>f w w' c. Some f \<in> fs \<longrightarrow> call f w = Inr w' \<longrightarrow> chan w = Inr c \<longrightarrow>
        (\<exists>c'. chan w' = Inr c' \<and> same_report c c'))"

lemma same_report_refl [simp]: "same_report c c"
  by (simp add: same_report_def)

lemma same_report_trans: "same_report a b \<Longrightarrow> same_report b c \<Longrightarrow> same_report a c"
  by (simp add: same_report_def)

lemma keeps_report_call_all:
  assumes "keeps_report chan call F" and "set fs \<subseteq> F" and "call_all call fs w = Inr w'" and "chan w = Inr c"
  shows "\<exists>c'. chan w' = Inr c' \<and> same_report c c'"
  using assms(2,3,4)
proof (induction fs arbitrary: w c)
  case (Cons f fs)
  then obtain w1 where w1: "call_if_set call f w = Inr w1" "call_all call fs w1 = Inr w'"
    by (auto simp: bindR_eq_Inr)
  have "\<exists>c1. chan w1 = Inr c1 \<and> same_report c c1"
    using assms(1) w1(1) Cons.prems(1,3) by (cases f) (auto simp: call_if_set_def keeps_report_def)
  then obtain c1 where "chan w1 = Inr c1" "same_report c c1" by blast
  with Cons.IH [OF _ w1(2)] Cons.prems(1) same_report_trans show ?case by fastforce
qed simp

definition stable_cb :: "('cb channel \<Rightarrow> 'cb option) \<Rightarrow> bool" where
  "stable_cb cb \<longleftrightarrow> (\<forall>c c'. same_report c c' \<longrightarrow> cb c' = cb c)"

lemma stable_cbs:
  "stable_cb readCallback" "stable_cb writeCallback"
  "stable_cb closeCallback" "stable_cb errorCallback"
  by (simp_all add: stable_cb_def same_report_def)

lemma test_and_call_eq:
  assumes c: "chan w = Inr c1" and same: "same_report c c1" and cb: "stable_cb cb"
  shows "test_and_call chan call test cb w =
    call_all call (if test (ch_revents c) then [cb c] else []) w"
proof -
  have one: "call_all call [cb c] w = call_if_set call (cb c) w"
    by (cases "call_if_set call (cb c) w") simp_all
  have eqs: "cb c1 = cb c" "ch_revents c1 = ch_revents c"
    using same cb unfolding stable_cb_def by (blast, simp add: same_report_def)
  have "test_and_call chan call test cb w =
      (if test (ch_revents c) then call_if_set call (cb c) w else Inr w)"
    unfolding test_and_call_def c bindR_Inr eqs ..
  also have "\<dots> = call_all call (if test (ch_revents c) then [cb c] else []) w"
    unfolding one [symmetric] by simp
  finally show ?thesis .
qed

lemma test_and_call_then:
  assumes k: "keeps_report chan call F" and c: "chan w = Inr c1" and same: "same_report c c1"
    and cb: "stable_cb cb" "test (ch_revents c) \<Longrightarrow> cb c \<in> F"
    and rest: "\<And>w' c'. chan w' = Inr c' \<Longrightarrow> same_report c c' \<Longrightarrow> f w' = call_all call fs w'"
  shows "bindR (test_and_call chan call test cb w) f =
    call_all call ((if test (ch_revents c) then [cb c] else []) @ fs) w"
  unfolding call_all_append test_and_call_eq [where chan = chan, OF c same cb(1)]
proof (rule bindR_cong [OF refl])
  fix w' assume "call_all call (if test (ch_revents c) then [cb c] else []) w = Inr w'"
  moreover have "set (if test (ch_revents c) then [cb c] else []) \<subseteq> F" using cb(2) by auto
  ultimately obtain c' where "chan w' = Inr c'" "same_report c1 c'" using keeps_report_call_all [OF k _ _ c] by blast
  then show "f w' = call_all call fs w'" using same same_report_trans rest by blast
qed

lemma handleEventWithGuard_fired:
  assumes k: "keeps_report chan call (set (fired c))" and c: "chan w = Inr c"
  shows "handleEventWithGuard chan call w = call_all call (fired c) w"
  unfolding handleEventWithGuard_def
  unfolding fired_def
proof (rule test_and_call_then [OF k c same_report_refl stable_cbs(3)])
  fix w1 c1 assume c1: "chan w1 = Inr c1" "same_report c c1"
  show "bindR (test_and_call chan call (\<lambda>r. r AND EPOLLERR \<noteq> 0) errorCallback w1) (\<lambda>w2.
      bindR (test_and_call chan call (\<lambda>r. r AND readEvent \<noteq> 0) readCallback w2) (\<lambda>w3.
      test_and_call chan call (\<lambda>r. r AND writeEvent \<noteq> 0) writeCallback w3)) =
    call_all call ((if ch_revents c AND EPOLLERR \<noteq> 0 then [errorCallback c] else []) @
      (if ch_revents c AND readEvent \<noteq> 0 then [readCallback c] else []) @
      (if ch_revents c AND writeEvent \<noteq> 0 then [writeCallback c] else [])) w1"
  proof (rule test_and_call_then [OF k c1 stable_cbs(4)])
    fix w2 c2 assume c2: "chan w2 = Inr c2" "same_report c c2"
    show "bindR (test_and_call chan call (\<lambda>r. r AND readEvent \<noteq> 0) readCallback w2) (\<lambda>w3.
        test_and_call chan call (\<lambda>r. r AND writeEvent \<noteq> 0) writeCallback w3) =
      call_all call ((if ch_revents c AND readEvent \<noteq> 0 then [readCallback c] else []) @
        (if ch_revents c AND writeEvent \<noteq> 0 then [writeCallback c] else [])) w2"
      by (rule test_and_call_then [OF k c2 stable_cbs(1)])
         (simp add: fired_def, rule test_and_call_eq [OF _ _ stable_cbs(2)])
  qed (simp add: fired_def)
qed (simp add: fired_def)

end
