(* ===== verification/Epoll_Poller.thy ===== *)
theory Epoll_Poller
  imports Channel
begin

text \<open>
  The poller (\<open>include/Poller.hpp\<close>, \<open>src/Poller.cpp\<close>, \<open>include/EpollPoller.hpp\<close>,
  \<open>src/EpollPoller.cpp\<close>) and the registration methods of \<open>Channel\<close> that go through
  \<open>EventLoop::updateChannel\<close> and \<open>EventLoop::removeChannel\<close> to it. Channels are reached by
  pointer, so the poller carries the part \<open>chan_heap\<close> of the heap its pointers lead to. The
  \<open>epoll_ctl\<close> calls the code makes are recorded in order in \<open>ctl_log\<close>; the code only logs their
  failure. \<open>ep_ctl\<close> is the documented effect of one call on the kernel's interest list, with
  \<open>None\<close> for \<open>EEXIST\<close> and \<open>ENOENT\<close>, and is used in specifications only.
\<close>

section \<open>State\<close>

datatype ctl_op = EPOLL_CTL_ADD | EPOLL_CTL_MOD | EPOLL_CTL_DEL

type_synonym ctl = "ctl_op \<times> int \<times> c_int \<times> nat"

definition NEW :: int where "NEW = - 1"
definition ADDED :: int where "ADDED = 1"
definition DELETED :: int where "DELETED = 2"

definition initEventListSize :: nat where "initEventListSize = 16"

record 'cb epoll_poller =
  chan_heap :: "nat \<rightharpoonup> 'cb channel"
  channels :: "int \<rightharpoonup> nat"
  ctl_log :: "ctl list"
  eventListSize :: nat

definition EpollPoller_new :: "(nat \<rightharpoonup> 'cb channel) \<Rightarrow> 'cb epoll_poller" where
  "EpollPoller_new heap =
     \<lparr>chan_heap = heap, channels = Map.empty, ctl_log = [], eventListSize = initEventListSize\<rparr>"

definition deref :: "nat \<Rightarrow> 'cb epoll_poller \<Rightarrow> 'cb channel res" where
  "deref ptr p = (case chan_heap p ptr of None \<Rightarrow> Inl Dangling | Some c \<Rightarrow> Inr c)"

definition store :: "nat \<Rightarrow> 'cb channel \<Rightarrow> 'cb epoll_poller \<Rightarrow> 'cb epoll_poller" where
  "store ptr c p = p\<lparr>chan_heap := (chan_heap p)(ptr \<mapsto> c)\<rparr>"

section \<open>Operations\<close>

definition hasChannel :: "nat \<Rightarrow> 'cb epoll_poller \<Rightarrow> bool res" where
  "hasChannel ptr p = bindR (deref ptr p) (\<lambda>c. Inr (channels p (ch_fd c) = Some ptr))"

definition poller_update :: "ctl_op \<Rightarrow> nat \<Rightarrow> 'cb epoll_poller \<Rightarrow> 'cb epoll_poller res" where
  "poller_update operation ptr p =
     bindR (deref ptr p) (\<lambda>c.
       Inr (p\<lparr>ctl_log := ctl_log p @ [(operation, ch_fd c, ch_events c, ptr)]\<rparr>))"

definition updateChannel :: "nat \<Rightarrow> 'cb epoll_poller \<Rightarrow> 'cb epoll_poller res" where
  "updateChannel ptr p =
     bindR (deref ptr p) (\<lambda>c.
       if ch_index c = NEW \<or> ch_index c = DELETED
       then let p1 = (if ch_index c = NEW
                      then p\<lparr>channels := (channels p)(ch_fd c \<mapsto> ptr)\<rparr> else p)
            in poller_update EPOLL_CTL_ADD ptr (store ptr (set_index ADDED c) p1)
       else if isNoneEvent c
       then bindR (poller_update EPOLL_CTL_DEL ptr p) (\<lambda>p1.
              Inr (store ptr (set_index DELETED c) p1))
       else poller_update EPOLL_CTL_MOD ptr p)"

definition removeChannel :: "nat \<Rightarrow> 'cb epoll_poller \<Rightarrow> 'cb epoll_poller res" where
  "removeChannel ptr p =
     bindR (deref ptr p) (\<lambda>c.
       let p1 = p\<lparr>channels := (channels p)(ch_fd c := None)\<rparr> in
       bindR (if ADDED = ch_index c then poller_update EPOLL_CTL_DEL ptr p1 else Inr p1) (\<lambda>p2.
         Inr (store ptr (set_index NEW c) p2)))"

fun fillActiveChannels ::
  "(c_int \<times> nat) list \<Rightarrow> nat list \<Rightarrow> 'cb epoll_poller \<Rightarrow> (nat list \<times> 'cb epoll_poller) res" where
  "fillActiveChannels [] active p = Inr (active, p)"
| "fillActiveChannels ((ev, ptr) # evs) active p =
     bindR (deref ptr p) (\<lambda>c.
       fillActiveChannels evs (active @ [ptr]) (store ptr (set_revents ev c) p))"

text \<open>
  \<open>wait n\<close> is the answer of \<open>epoll_wait\<close> with room for \<open>n\<close> events: an error number, or the ready
  events with the pointers registered for them.
\<close>

definition poll ::
  "(nat \<Rightarrow> errno + (c_int \<times> nat) list) \<Rightarrow> nat list \<Rightarrow> 'cb epoll_poller
   \<Rightarrow> (nat list \<times> 'cb epoll_poller) res" where
  "poll wait active p =
     (case wait (eventListSize p) of
        Inl e \<Rightarrow> Inr (active, p)
      | Inr evs \<Rightarrow>
          if evs \<noteq> []
          then bindR (fillActiveChannels evs active p) (\<lambda>(act, p1).
                 Inr (act, if length evs = eventListSize p1
                           then p1\<lparr>eventListSize := eventListSize p1 * 2\<rparr> else p1))
          else Inr (active, p))"

text \<open>The mask methods of \<open>Channel\<close>: change \<open>events_\<close>, then \<open>update()\<close>.\<close>

definition channel_set_events ::
  "(c_int \<Rightarrow> c_int) \<Rightarrow> nat \<Rightarrow> 'cb epoll_poller \<Rightarrow> 'cb epoll_poller res" where
  "channel_set_events f ptr p =
     bindR (deref ptr p) (\<lambda>c. updateChannel ptr (store ptr (c\<lparr>ch_events := f (ch_events c)\<rparr>) p))"

definition enableReading :: "nat \<Rightarrow> 'cb epoll_poller \<Rightarrow> 'cb epoll_poller res" where
  "enableReading = channel_set_events mask_enableReading"
definition disableReading :: "nat \<Rightarrow> 'cb epoll_poller \<Rightarrow> 'cb epoll_poller res" where
  "disableReading = channel_set_events mask_disableReading"
definition enableWriting :: "nat \<Rightarrow> 'cb epoll_poller \<Rightarrow> 'cb epoll_poller res" where
  "enableWriting = channel_set_events mask_enableWriting"
definition disableWriting :: "nat \<Rightarrow> 'cb epoll_poller \<Rightarrow> 'cb epoll_poller res" where
  "disableWriting = channel_set_events mask_disableWriting"
definition disbaleAll :: "nat \<Rightarrow> 'cb epoll_poller \<Rightarrow> 'cb epoll_poller res" where
  "disbaleAll = channel_set_events mask_disbaleAll"

section \<open>The kernel's interest list and the invariant\<close>

type_synonym interest = "int \<rightharpoonup> c_int \<times> nat"

fun ep_ctl :: "ctl \<Rightarrow> interest \<Rightarrow> interest option" where
  "ep_ctl (EPOLL_CTL_ADD, fd, ev, ptr) m = (if m fd = None then Some (m(fd \<mapsto> (ev, ptr))) else None)"
| "ep_ctl (EPOLL_CTL_MOD, fd, ev, ptr) m = (if m fd = None then None else Some (m(fd \<mapsto> (ev, ptr))))"
| "ep_ctl (EPOLL_CTL_DEL, fd, ev, ptr) m = (if m fd = None then None else Some (m(fd := None)))"

fun ep_run :: "ctl list \<Rightarrow> interest \<Rightarrow> interest option" where
  "ep_run [] m = Some m"
| "ep_run (x # xs) m = (case ep_ctl x m of None \<Rightarrow> None | Some m' \<Rightarrow> ep_run xs m')"

text \<open>
  Coherence of the channels, the channel map and the interest list \<open>m\<close>. The mask the kernel holds
  is the channel's, except for the channels in \<open>X\<close>, whose mask was just changed. No pointer in the
  channel map or in the kernel leads to a channel that is gone.
\<close>

definition chan_ok :: "nat set \<Rightarrow> 'cb epoll_poller \<Rightarrow> interest \<Rightarrow> nat \<Rightarrow> 'cb channel \<Rightarrow> bool" where
  "chan_ok X p m ptr c \<longleftrightarrow>
     (ch_index c = NEW \<and> channels p (ch_fd c) = None \<and> m (ch_fd c) = None) \<or>
     (ch_index c = DELETED \<and> channels p (ch_fd c) = Some ptr \<and> m (ch_fd c) = None) \<or>
     (ch_index c = ADDED \<and> channels p (ch_fd c) = Some ptr \<and>
       (\<exists>ev. m (ch_fd c) = Some (ev, ptr) \<and> (ptr \<notin> X \<longrightarrow> ev = ch_events c)))"

definition distinct_fds :: "'cb epoll_poller \<Rightarrow> bool" where
  "distinct_fds p \<longleftrightarrow>
     (\<forall>a b ca cb. chan_heap p a = Some ca \<longrightarrow> chan_heap p b = Some cb \<longrightarrow>
        ch_fd ca = ch_fd cb \<longrightarrow> a = b)"

definition coherent :: "nat set \<Rightarrow> 'cb epoll_poller \<Rightarrow> interest \<Rightarrow> bool" where
  "coherent X p m \<longleftrightarrow>
     ep_run (ctl_log p) Map.empty = Some m \<and> distinct_fds p \<and>
     (\<forall>ptr c. chan_heap p ptr = Some c \<longrightarrow> chan_ok X p m ptr c) \<and>
     (\<forall>fd ptr. channels p fd = Some ptr \<or> (\<exists>ev. m fd = Some (ev, ptr)) \<longrightarrow>
        (\<exists>c. chan_heap p ptr = Some c \<and> ch_fd c = fd)) \<and> 0 < eventListSize p"

definition poller_inv :: "'cb epoll_poller \<Rightarrow> bool" where
  "poller_inv p \<longleftrightarrow> (\<exists>m. coherent {} p m)"

section \<open>Lemmas\<close>

lemmas index_defs = NEW_def ADDED_def DELETED_def

lemma index_distinct [simp]:
  "NEW \<noteq> ADDED" "ADDED \<noteq> NEW" "NEW \<noteq> DELETED" "DELETED \<noteq> NEW" "ADDED \<noteq> DELETED" "DELETED \<noteq> ADDED"
  by (simp_all add: index_defs)

lemma deref_Inr [simp]: "deref ptr p = Inr c \<longleftrightarrow> chan_heap p ptr = Some c"
  by (auto simp: deref_def split: option.splits)

lemma deref_heap [simp]: "chan_heap p ptr = Some c \<Longrightarrow> deref ptr p = Inr c"
  by simp

lemma store_simps [simp]:
  "chan_heap (store ptr c p) = (chan_heap p)(ptr \<mapsto> c)"
  "channels (store ptr c p) = channels p" "ctl_log (store ptr c p) = ctl_log p"
  "eventListSize (store ptr c p) = eventListSize p"
  by (simp_all add: store_def)

lemma set_index_simps [simp]:
  "ch_index (set_index i c) = i" "ch_fd (set_index i c) = ch_fd c"
  "ch_events (set_index i c) = ch_events c" "ch_revents (set_index i c) = ch_revents c"
  by (simp_all add: set_index_def)

lemma initEventListSize_pos [simp]: "0 < initEventListSize"
  by (simp add: initEventListSize_def)

lemma ep_run_snoc:
  "ep_run (xs @ [x]) m = (case ep_run xs m of None \<Rightarrow> None | Some m' \<Rightarrow> ep_ctl x m')"
proof (induction xs arbitrary: m)
  case (Cons y ys)
  then show ?case by (cases "ep_ctl y m") auto
qed (auto split: option.splits)

lemma poller_update_ok [simp]:
  "chan_heap p ptr = Some c \<Longrightarrow> poller_update operation ptr p =
     Inr (p\<lparr>ctl_log := ctl_log p @ [(operation, ch_fd c, ch_events c, ptr)]\<rparr>)"
  by (simp add: poller_update_def)

lemma coherentD:
  assumes "coherent X p m"
  shows "ep_run (ctl_log p) Map.empty = Some m" "distinct_fds p"
    "chan_heap p ptr = Some c \<Longrightarrow> chan_ok X p m ptr c"
    "channels p fd = Some ptr \<or> (\<exists>ev. m fd = Some (ev, ptr)) \<Longrightarrow>
      \<exists>c. chan_heap p ptr = Some c \<and> ch_fd c = fd" "0 < eventListSize p"
  using assms by (auto simp: coherent_def)

lemma distinct_fdsD:
  "distinct_fds p \<Longrightarrow> chan_heap p a = Some ca \<Longrightarrow> chan_heap p b = Some cb \<Longrightarrow> a \<noteq> b \<Longrightarrow>
   ch_fd ca \<noteq> ch_fd cb"
  by (auto simp: distinct_fds_def)

text \<open>
  A change that touches one channel, its slot of the channel map and its slot of the interest list
  keeps the rest coherent.
\<close>

lemma coherent_local:
  assumes coh: "coherent X p m" and c: "chan_heap p ptr = Some c" and fd: "ch_fd c' = ch_fd c"
    and heap: "chan_heap p' = (chan_heap p)(ptr \<mapsto> c')"
    and chs: "\<And>fd. fd \<noteq> ch_fd c \<Longrightarrow> channels p' fd = channels p fd"
    and ms: "\<And>fd. fd \<noteq> ch_fd c \<Longrightarrow> m' fd = m fd"
    and run: "ep_run (ctl_log p') Map.empty = Some m'"
    and ok: "chan_ok Y p' m' ptr c'" and X: "X \<subseteq> {ptr}" and size: "eventListSize p' = eventListSize p"
  shows "coherent Y p' m'"
proof -
  have "distinct_fds p'"
    using coherentD(2) [OF coh] c fd by (auto simp: distinct_fds_def heap)
  moreover have "chan_ok Y p' m' a ca" if a: "chan_heap p' a = Some ca" for a ca
  proof (cases "a = ptr")
    case True
    with a ok heap show ?thesis by simp
  next
    case False
    then have ca: "chan_heap p a = Some ca" using a heap by simp
    have ne: "ch_fd ca \<noteq> ch_fd c"
      using distinct_fdsD [OF coherentD(2) [OF coh] ca c False] .
    from coherentD(3) [OF coh ca] False X show ?thesis
      by (auto simp: chan_ok_def chs [OF ne] ms [OF ne])
  qed
  moreover have "\<exists>ca. chan_heap p' a = Some ca \<and> ch_fd ca = fd"
    if a: "channels p' fd = Some a \<or> (\<exists>ev. m' fd = Some (ev, a))" for fd a
  proof (cases "fd = ch_fd c")
    case True
    with a ok assms(3) have "a = ptr" by (auto simp: chan_ok_def)
    with True assms(3) heap show ?thesis by simp
  next
    case False
    with a chs ms have "channels p fd = Some a \<or> (\<exists>ev. m fd = Some (ev, a))" by simp
    from coherentD(4) [OF coh this] False c heap show ?thesis by auto
  qed
  ultimately show ?thesis using run size coherentD(5) [OF coh] unfolding coherent_def by simp
qed

text \<open>The three effects of \<open>updateChannel\<close>.\<close>

definition update_effect :: "'cb channel \<Rightarrow> nat \<Rightarrow> interest \<Rightarrow> interest" where
  "update_effect c ptr m =
     (if ch_index c = ADDED \<and> isNoneEvent c then m(ch_fd c := None)
      else m(ch_fd c \<mapsto> (ch_events c, ptr)))"

definition update_index :: "'cb channel \<Rightarrow> int" where
  "update_index c = (if ch_index c = ADDED \<and> isNoneEvent c then DELETED else ADDED)"

definition update_op :: "'cb channel \<Rightarrow> ctl_op" where
  "update_op c = (if ch_index c = ADDED then if isNoneEvent c then EPOLL_CTL_DEL else EPOLL_CTL_MOD
                  else EPOLL_CTL_ADD)"

definition update_result :: "'cb channel \<Rightarrow> nat \<Rightarrow> 'cb epoll_poller \<Rightarrow> 'cb epoll_poller" where
  "update_result c ptr p =
     p\<lparr>chan_heap := (chan_heap p)(ptr \<mapsto> set_index (update_index c) c),
       channels := (if ch_index c = NEW then (channels p)(ch_fd c \<mapsto> ptr) else channels p),
       ctl_log := ctl_log p @ [(update_op c, ch_fd c, ch_events c, ptr)]\<rparr>"

lemma updateChannel_eq:
  assumes "chan_heap p ptr = Some c" and "ch_index c \<in> {NEW, ADDED, DELETED}"
  shows "updateChannel ptr p = Inr (update_result c ptr p)"
proof -
  have "ch_index c = ADDED \<Longrightarrow> (chan_heap p)(ptr \<mapsto> set_index ADDED c) = chan_heap p"
    using assms(1) by (auto simp: set_index_def)
  with assms show ?thesis
    by (auto simp: updateChannel_def update_result_def update_op_def update_index_def store_def Let_def)
qed

lemma updateChannel_ok:
  assumes coh: "coherent X p m" and X: "X \<subseteq> {ptr}" and c: "chan_heap p ptr = Some c"
  shows "updateChannel ptr p = Inr (update_result c ptr p)"
    "coherent {} (update_result c ptr p) (update_effect c ptr m)"
proof -
  have ok: "chan_ok X p m ptr c" using coherentD(3) [OF coh c] .
  then show "updateChannel ptr p = Inr (update_result c ptr p)"
    by (intro updateChannel_eq c) (auto simp: chan_ok_def)
  have run: "ep_run (ctl_log (update_result c ptr p)) Map.empty = Some (update_effect c ptr m)"
    using ok coherentD(1) [OF coh]
    by (auto simp: update_result_def update_effect_def update_op_def ep_run_snoc chan_ok_def)
  have new: "chan_ok {} (update_result c ptr p) (update_effect c ptr m) ptr
      (set_index (update_index c) c)"
    using ok by (auto simp: update_result_def update_effect_def update_index_def chan_ok_def)
  show "coherent {} (update_result c ptr p) (update_effect c ptr m)"
    by (rule coherent_local [OF coh c _ _ _ _ run new X])
       (auto simp: update_result_def update_effect_def)
qed

text \<open>Changing the mask alone leaves only this channel out of step with the kernel.\<close>

lemma coherent_set_events:
  assumes coh: "coherent {} p m" and c: "chan_heap p ptr = Some c"
  shows "coherent {ptr} (store ptr (c\<lparr>ch_events := ev\<rparr>) p) m"
  by (rule coherent_local [OF coh c])
     (use coherentD(1) [OF coh] coherentD(3) [OF coh c] in \<open>auto simp: chan_ok_def\<close>)

definition mask_result ::
  "(c_int \<Rightarrow> c_int) \<Rightarrow> 'cb channel \<Rightarrow> nat \<Rightarrow> 'cb epoll_poller \<Rightarrow> 'cb epoll_poller" where
  "mask_result f c ptr p =
     (let c1 = c\<lparr>ch_events := f (ch_events c)\<rparr> in update_result c1 ptr (store ptr c1 p))"

lemma channel_set_events_ok:
  assumes coh: "coherent {} p m" and c: "chan_heap p ptr = Some c"
  shows "channel_set_events f ptr p = Inr (mask_result f c ptr p)"
    "coherent {} (mask_result f c ptr p)
       (update_effect (c\<lparr>ch_events := f (ch_events c)\<rparr>) ptr m)"
  using updateChannel_ok [OF coherent_set_events [OF coh c]]
  by (simp_all add: channel_set_events_def mask_result_def c Let_def)

lemma removeChannel_ok:
  assumes coh: "coherent {} p m" and c: "chan_heap p ptr = Some c"
  defines "p' \<equiv> p\<lparr>chan_heap := (chan_heap p)(ptr \<mapsto> set_index NEW c),
      channels := (channels p)(ch_fd c := None),
      ctl_log := ctl_log p @
        (if ch_index c = ADDED then [(EPOLL_CTL_DEL, ch_fd c, ch_events c, ptr)] else [])\<rparr>"
  shows "removeChannel ptr p = Inr p'" "coherent {} p' (m(ch_fd c := None))"
proof -
  have ok: "chan_ok {} p m ptr c" using coherentD(3) [OF coh c] .
  show "removeChannel ptr p = Inr p'"
    by (simp add: removeChannel_def c p'_def Let_def store_def)
  have run: "ep_run (ctl_log p') Map.empty = Some (m(ch_fd c := None))"
    using ok coherentD(1) [OF coh]
    by (auto simp: p'_def ep_run_snoc chan_ok_def fun_upd_idem)
  show "coherent {} p' (m(ch_fd c := None))"
    by (rule coherent_local [OF coh c _ _ _ _ run]) (auto simp: p'_def chan_ok_def)
qed

section \<open>Sequences of registrations\<close>

datatype chan_op = EnableReading nat | DisableReading nat | EnableWriting nat | DisableWriting nat
  | DisableAll nat | Remove nat

fun chan_apply :: "chan_op \<Rightarrow> 'cb epoll_poller \<Rightarrow> 'cb epoll_poller res" where
  "chan_apply (EnableReading ptr) = enableReading ptr"
| "chan_apply (DisableReading ptr) = disableReading ptr"
| "chan_apply (EnableWriting ptr) = enableWriting ptr"
| "chan_apply (DisableWriting ptr) = disableWriting ptr"
| "chan_apply (DisableAll ptr) = disbaleAll ptr"
| "chan_apply (Remove ptr) = removeChannel ptr"

fun op_ptr :: "chan_op \<Rightarrow> nat" where
  "op_ptr (EnableReading ptr) = ptr"
| "op_ptr (DisableReading ptr) = ptr"
| "op_ptr (EnableWriting ptr) = ptr"
| "op_ptr (DisableWriting ptr) = ptr"
| "op_ptr (DisableAll ptr) = ptr"
| "op_ptr (Remove ptr) = ptr"

fun chan_run :: "chan_op list \<Rightarrow> 'cb epoll_poller \<Rightarrow> 'cb epoll_poller res" where
  "chan_run [] p = Inr p"
| "chan_run (x # xs) p = bindR (chan_apply x p) (chan_run xs)"

lemmas chan_op_defs = enableReading_def disableReading_def enableWriting_def disableWriting_def
  disbaleAll_def

lemma mask_result_dom:
  "chan_heap p ptr = Some c \<Longrightarrow> dom (chan_heap (mask_result f c ptr p)) = dom (chan_heap p)"
  by (auto simp: mask_result_def update_result_def Let_def)

lemma chan_apply_ok:
  assumes coh: "coherent {} p m" and c: "chan_heap p (op_ptr x) = Some c"
  shows "\<exists>p' m'. chan_apply x p = Inr p' \<and> coherent {} p' m' \<and> dom (chan_heap p') = dom (chan_heap p)"
proof (cases x)
  case (Remove ptr)
  with c removeChannel_ok [OF coh, of ptr c] show ?thesis by auto
qed (use c channel_set_events_ok [OF coh] mask_result_dom in \<open>fastforce simp: chan_op_defs\<close>)+

lemma chan_run_ok:
  assumes "coherent {} p m" and "\<forall>x \<in> set xs. op_ptr x \<in> dom (chan_heap p)"
  shows "\<exists>p' m'. chan_run xs p = Inr p' \<and> coherent {} p' m'"
  using assms
proof (induction xs arbitrary: p m)
  case (Cons x xs)
  then obtain c where "chan_heap p (op_ptr x) = Some c" by auto
  from chan_apply_ok [OF Cons.prems(1) this] obtain p1 m1 where
    "chan_apply x p = Inr p1" "coherent {} p1 m1" "dom (chan_heap p1) = dom (chan_heap p)" by blast
  with Cons show ?case by simp
qed auto

section \<open>Polling\<close>

fun apply_reports :: "(c_int \<times> nat) list \<Rightarrow> (nat \<rightharpoonup> 'cb channel) \<Rightarrow> (nat \<rightharpoonup> 'cb channel)" where
  "apply_reports [] h = h"
| "apply_reports ((ev, ptr) # evs) h =
     apply_reports evs (h(ptr := map_option (set_revents ev) (h ptr)))"

lemma coherent_set_revents:
  assumes coh: "coherent {} p m" and c: "chan_heap p ptr = Some c"
  shows "coherent {} (store ptr (set_revents ev c) p) m"
  by (rule coherent_local [OF coh c, where c' = "set_revents ev c"])
     (use coherentD(1) [OF coh] coherentD(3) [OF coh c] in \<open>auto simp: chan_ok_def set_revents_def\<close>)

lemma fillActiveChannels_ok:
  assumes "coherent {} p m" and "\<forall>(ev, ptr) \<in> set evs. ptr \<in> dom (chan_heap p)"
  shows "\<exists>p'. fillActiveChannels evs active p = Inr (active @ map snd evs, p') \<and> coherent {} p' m \<and>
    chan_heap p' = apply_reports evs (chan_heap p) \<and> eventListSize p' = eventListSize p"
  using assms
proof (induction evs arbitrary: active p)
  case (Cons e evs)
  obtain ev ptr where e: "e = (ev, ptr)" by (cases e)
  with Cons.prems(2) obtain c where c: "chan_heap p ptr = Some c" by auto
  let ?p = "store ptr (set_revents ev c) p"
  have "\<forall>(ev, ptr) \<in> set evs. ptr \<in> dom (chan_heap ?p)" using Cons.prems(2) by auto
  from Cons.IH [OF coherent_set_revents [OF Cons.prems(1) c] this, of "active @ [ptr]"] c e
  show ?case by (simp add: fun_upd_def)
qed simp

text \<open>\<open>epoll_wait\<close> fills at most the given room, with pointers that are registered.\<close>

definition wait_ok :: "interest \<Rightarrow> (nat \<Rightarrow> errno + (c_int \<times> nat) list) \<Rightarrow> bool" where
  "wait_ok m wait \<longleftrightarrow>
     (\<forall>n evs. wait n = Inr evs \<longrightarrow> length evs \<le> n \<and>
        (\<forall>(ev, ptr) \<in> set evs. \<exists>fd mask. m fd = Some (mask, ptr)))"

lemma coherent_event_list: "coherent X p m \<Longrightarrow> 0 < n \<Longrightarrow> coherent X (p\<lparr>eventListSize := n\<rparr>) m"
  by (simp add: coherent_def distinct_fds_def chan_ok_def)

lemma poll_ok:
  assumes coh: "coherent {} p m" and wait: "wait_ok m wait"
  shows "case wait (eventListSize p) of
      Inl e \<Rightarrow> poll wait active p = Inr (active, p)
    | Inr evs \<Rightarrow> \<exists>p'. poll wait active p = Inr (active @ map snd evs, p') \<and> coherent {} p' m \<and>
        chan_heap p' = apply_reports evs (chan_heap p) \<and>
        eventListSize p' = (if evs \<noteq> [] \<and> length evs = eventListSize p
          then 2 * eventListSize p else eventListSize p)"
proof (cases "wait (eventListSize p)")
  case (Inr evs)
  have live: "\<forall>(ev, ptr) \<in> set evs. ptr \<in> dom (chan_heap p)"
    using wait Inr coherentD(4) [OF coh] by (fastforce simp: wait_ok_def)
  show ?thesis
  proof (cases "evs = []")
    case True
    with Inr coh show ?thesis by (simp add: poll_def)
  next
    case False
    with fillActiveChannels_ok [OF coh live, of active] Inr coherentD(5) [OF coh] show ?thesis
      by (auto simp: poll_def intro!: coherent_event_list)
  qed
qed (simp add: poll_def)

section \<open>Creating and destroying channels\<close>

lemma coherent_alloc:
  assumes coh: "coherent {} p m" and ptr: "chan_heap p ptr = None"
    and fd: "\<forall>q cq. chan_heap p q = Some cq \<longrightarrow> ch_fd cq \<noteq> ch_fd c" and new: "ch_index c = NEW"
  shows "coherent {} (store ptr c p) m"
proof -
  have none: "channels p (ch_fd c) = None" "m (ch_fd c) = None"
    using coherentD(4) [OF coh, of "ch_fd c"] fd by (metis not_None_eq surj_pair)+
  have "distinct_fds (store ptr c p)"
    using coherentD(2) [OF coh] fd unfolding distinct_fds_def store_simps fun_upd_apply
    by (metis option.inject)
  moreover have "chan_ok {} (store ptr c p) m q cq" if "chan_heap (store ptr c p) q = Some cq" for q cq
    using that none new coherentD(3) [OF coh, of q cq] by (auto simp: chan_ok_def split: if_splits)
  moreover have "\<exists>ca. chan_heap (store ptr c p) q = Some ca \<and> ch_fd ca = f"
    if "channels (store ptr c p) f = Some q \<or> (\<exists>ev. m f = Some (ev, q))" for f q
  proof -
    have "\<exists>ca. chan_heap p q = Some ca \<and> ch_fd ca = f" using that coherentD(4) [OF coh] by simp
    with ptr show ?thesis by auto
  qed
  ultimately show ?thesis
    using coherentD(1,5) [OF coh] unfolding coherent_def by simp
qed

lemma coherent_free:
  assumes coh: "coherent {} p m" and c: "chan_heap p ptr = Some c" and new: "ch_index c = NEW"
  shows "coherent {} (p\<lparr>chan_heap := (chan_heap p)(ptr := None)\<rparr>) m"
proof -
  let ?p = "p\<lparr>chan_heap := (chan_heap p)(ptr := None)\<rparr>"
  have none: "channels p (ch_fd c) = None" "m (ch_fd c) = None"
    using coherentD(3) [OF coh c] new by (auto simp: chan_ok_def)
  have "distinct_fds ?p" using coherentD(2) [OF coh] by (auto simp: distinct_fds_def)
  moreover have "chan_ok {} ?p m q cq" if "chan_heap ?p q = Some cq" for q cq
    using that coherentD(3) [OF coh, of q cq] by (auto simp: chan_ok_def split: if_splits)
  moreover have "\<exists>ca. chan_heap ?p q = Some ca \<and> ch_fd ca = f"
    if "channels ?p f = Some q \<or> (\<exists>ev. m f = Some (ev, q))" for f q
  proof -
    have d: "channels p f = Some q \<or> (\<exists>ev. m f = Some (ev, q))" using that by simp
    from coherentD(4) [OF coh d] obtain ca where "chan_heap p q = Some ca" "ch_fd ca = f" by blast
    with d none c show ?thesis by (cases "q = ptr") auto
  qed
  ultimately show ?thesis
    using coherentD(1,5) [OF coh] unfolding coherent_def by simp
qed

section \<open>Properties\<close>

text \<open>
  C11: The registration protocol with the kernel. From a state in which channels, channel map and
  interest list agree, any sequence of \<open>enableReading\<close>, \<open>disableReading\<close>, \<open>enableWriting\<close>,
  \<open>disableWriting\<close>, \<open>disbaleAll\<close> and \<open>remove\<close> calls on live channels runs without undefined
  behaviour and ends in such a state; in particular no \<open>epoll_ctl\<close> call of the sequence can fail
  with \<open>EEXIST\<close> or \<open>ENOENT\<close>, the kernel holds exactly the mask of every registered channel, and no
  registered pointer is stale.
\<close>

theorem poller_protocol:
  assumes "poller_inv p" and "\<forall>x \<in> set xs. op_ptr x \<in> dom (chan_heap p)"
  shows "\<exists>p'. chan_run xs p = Inr p' \<and> poller_inv p'"
  using assms chan_run_ok unfolding poller_inv_def by blast

lemma poller_inv_example:
  "poller_inv (EpollPoller_new [3 \<mapsto> (Channel_new 0 9 :: nat channel)])"
proof -
  have "coherent {} (EpollPoller_new [3 \<mapsto> (Channel_new 0 9 :: nat channel)]) Map.empty"
    by (simp add: coherent_def EpollPoller_new_def distinct_fds_def chan_ok_def Channel_new_def NEW_def)
  then show ?thesis unfolding poller_inv_def by blast
qed

theorem poller_protocol_witness:
  "\<exists>p'. chan_run [EnableReading 3, EnableWriting 3, DisableAll 3, DisableAll 3, Remove 3]
     (EpollPoller_new [3 \<mapsto> (Channel_new 0 9 :: nat channel)]) = Inr p' \<and> poller_inv p'"
  by (rule poller_protocol [OF poller_inv_example]) (simp add: EpollPoller_new_def)

text \<open>
  After \<open>enableWriting\<close> the kernel watches the channel's descriptor for writability and for
  everything it watched before; the channel is registered and its own mask is the kernel's.
\<close>

theorem enableWriting_registers:
  assumes "poller_inv p" and "chan_heap p ptr = Some c"
  shows "\<exists>p' m c'. enableWriting ptr p = Inr p' \<and> poller_inv p' \<and>
    ep_run (ctl_log p') Map.empty = Some m \<and>
    chan_heap p' ptr = Some c' \<and> isWriting c' \<and> ch_events c' AND readEvent = ch_events c AND readEvent \<and>
    m (ch_fd c) = Some (ch_events c', ptr) \<and> hasChannel ptr p' = Inr True"
proof -
  let ?c = "c\<lparr>ch_events := mask_enableWriting (ch_events c)\<rparr>"
  from assms(1) obtain m where coh: "coherent {} p m" unfolding poller_inv_def by blast
  note res = channel_set_events_ok [OF coh assms(2), of mask_enableWriting]
  have some: "\<not> isNoneEvent ?c"
    using enableWriting_writing [of "ch_events c"] by (auto simp: isNoneEvent_def noneEvent_def)
  let ?p = "mask_result mask_enableWriting c ptr p"
  have c': "chan_heap ?p ptr = Some (set_index ADDED ?c)"
    using some by (simp add: mask_result_def update_result_def update_index_def Let_def)
  have m: "update_effect ?c ptr m (ch_fd c) = Some (ch_events ?c, ptr)"
    using some by (simp add: update_effect_def)
  have "channels ?p (ch_fd c) = Some ptr"
    using coherentD(3) [OF res(2) c'] by (simp add: chan_ok_def)
  with res c' m coherentD(1) [OF res(2)] show ?thesis
    by (auto simp: enableWriting_def poller_inv_def isWriting_def enableWriting_writing
        writing_masks_keep_reading hasChannel_def)
qed

theorem enableWriting_registers_witness:
  "\<exists>p' m c'. enableWriting 3 (EpollPoller_new [3 \<mapsto> (Channel_new 0 9 :: nat channel)]) = Inr p' \<and>
    ep_run (ctl_log p') Map.empty = Some m \<and> chan_heap p' 3 = Some c' \<and> isWriting c' \<and>
    m 9 = Some (ch_events c', 3)"
  using enableWriting_registers [OF poller_inv_example, of 3 "Channel_new 0 9"]
  by (auto simp: EpollPoller_new_def) (auto simp: Channel_new_def)

text \<open>
  \<open>EpollPoller::removeChannel\<close> takes the channel out of the channel map and out of the kernel's
  interest list whatever its registration state was, leaves every other registration alone, and
  afterwards the channel may be destroyed without leaving a stale pointer behind.
\<close>

theorem removeChannel_unregisters:
  assumes "poller_inv p" and "chan_heap p ptr = Some c" and "ep_run (ctl_log p) Map.empty = Some m"
  shows "\<exists>p'. removeChannel ptr p = Inr p' \<and> poller_inv p' \<and> hasChannel ptr p' = Inr False \<and>
    ep_run (ctl_log p') Map.empty = Some (m(ch_fd c := None)) \<and>
    channels p' = (channels p)(ch_fd c := None) \<and>
    poller_inv (p'\<lparr>chan_heap := (chan_heap p')(ptr := None)\<rparr>)"
proof -
  from assms(1,3) have coh: "coherent {} p m" unfolding poller_inv_def coherent_def by auto
  let ?p = "p\<lparr>chan_heap := (chan_heap p)(ptr \<mapsto> set_index NEW c),
      channels := (channels p)(ch_fd c := None),
      ctl_log := ctl_log p @
        (if ch_index c = ADDED then [(EPOLL_CTL_DEL, ch_fd c, ch_events c, ptr)] else [])\<rparr>"
  note res = removeChannel_ok [OF coh assms(2)]
  have c': "chan_heap ?p ptr = Some (set_index NEW c)" by simp
  show ?thesis
    by (rule exI [of _ ?p])
       (use res coherentD(1) [OF res(2)] coherent_free [OF res(2) c'] in
         \<open>auto simp: poller_inv_def hasChannel_def\<close>)
qed

theorem removeChannel_unregisters_witness:
  "\<exists>p'. removeChannel 3 (EpollPoller_new [3 \<mapsto> (Channel_new 0 9 :: nat channel)]) = Inr p' \<and>
     poller_inv p' \<and> hasChannel 3 p' = Inr False"
  using removeChannel_unregisters [OF poller_inv_example, of 3 "Channel_new 0 9" Map.empty]
  by (auto simp: EpollPoller_new_def)

text \<open>
  \<open>EpollPoller::poll\<close> reports exactly the channels \<open>epoll_wait\<close> returned, in order, with the
  returned events stored in their \<open>revents_\<close>; it never follows a stale pointer; it doubles the event
  array when and only when it came back full; and an error or a timeout changes nothing.
\<close>

theorem poll_reports:
  assumes "coherent {} p m" and "wait_ok m wait"
  shows "case wait (eventListSize p) of
      Inl e \<Rightarrow> poll wait active p = Inr (active, p)
    | Inr evs \<Rightarrow> \<exists>p'. poll wait active p = Inr (active @ map snd evs, p') \<and> poller_inv p' \<and>
        chan_heap p' = apply_reports evs (chan_heap p) \<and>
        eventListSize p' = (if evs \<noteq> [] \<and> length evs = eventListSize p
          then 2 * eventListSize p else eventListSize p)"
  using poll_ok [OF assms, of active] by (auto simp: poller_inv_def split: sum.splits)

theorem poll_reports_witness:
  "\<exists>p'. poll (\<lambda>n. Inr []) [] (EpollPoller_new [3 \<mapsto> (Channel_new 0 9 :: nat channel)]) = Inr ([], p') \<and>
     poller_inv p' \<and> eventListSize p' = 16"
proof -
  obtain m where coh: "coherent {} (EpollPoller_new [3 \<mapsto> (Channel_new 0 9 :: nat channel)]) m"
    using poller_inv_example unfolding poller_inv_def by blast
  have "wait_ok m (\<lambda>n. Inr [])" by (simp add: wait_ok_def)
  from poll_reports [OF coh this, of "[]"] show ?thesis
    by (auto simp: EpollPoller_new_def initEventListSize_def)
qed

end
