(* ===== verification/Reachability.thy ===== *)
theory Reachability
  imports Main
begin

text \<open>
  Reachable states of a step relation, and the locale that turns an invariant kept by every step
  into one of every reachable state. The components with threads interpret it.
\<close>

inductive reach :: "('s \<Rightarrow> bool) \<Rightarrow> ('s \<Rightarrow> 's \<Rightarrow> bool) \<Rightarrow> 's \<Rightarrow> bool"
  for init :: "'s \<Rightarrow> bool" and step :: "'s \<Rightarrow> 's \<Rightarrow> bool" where
  reach_init: "init s \<Longrightarrow> reach init step s"
| reach_step: "reach init step s \<Longrightarrow> step s t \<Longrightarrow> reach init step t"

locale invariant_system =
  fixes init :: "'s \<Rightarrow> bool" and step :: "'s \<Rightarrow> 's \<Rightarrow> bool" and inv :: "'s \<Rightarrow> bool"
  assumes init_inv: "init s \<Longrightarrow> inv s"
    and step_inv: "inv s \<Longrightarrow> step s t \<Longrightarrow> inv t"
begin

lemma reach_inv: "reach init step s \<Longrightarrow> inv s"
  by (induction rule: reach.induct) (auto intro: init_inv step_inv)

lemma steps_inv: "step\<^sup>*\<^sup>* s t \<Longrightarrow> inv s \<Longrightarrow> inv t"
  by (induction rule: rtranclp_induct) (auto intro: step_inv)

lemma reach_steps: "reach init step s \<Longrightarrow> step\<^sup>*\<^sup>* s t \<Longrightarrow> reach init step t"
  by (rotate_tac, induction rule: rtranclp_induct) (auto intro: reach_step)

end

text \<open>
  A component's step relation inside a larger system: when every step of the component can be taken
  by the system, runs of the component lift to runs of the system.
\<close>

locale component_system = invariant_system init step inv
  for init :: "'s \<Rightarrow> bool" and step :: "'s \<Rightarrow> 's \<Rightarrow> bool" and inv :: "'s \<Rightarrow> bool" +
  fixes part :: "'s \<Rightarrow> 'p" and part_step :: "'p \<Rightarrow> 'p \<Rightarrow> bool"
  assumes lift: "inv s \<Longrightarrow> part_step (part s) q \<Longrightarrow> \<exists>t. step s t \<and> part t = q"
begin

lemma lift_run:
  assumes "part_step\<^sup>*\<^sup>* p q" and "inv s" and "part s = p"
  shows "\<exists>t. step\<^sup>*\<^sup>* s t \<and> part t = q \<and> inv t"
  using assms
proof (induction rule: rtranclp_induct)
  case (step y z)
  then obtain t where t: "step\<^sup>*\<^sup>* s t" "part t = y" "inv t" by blast
  with lift [of t z] step.hyps(2) obtain u where u: "step t u" "part u = z" by auto
  from rtranclp.rtrancl_into_rtrancl [OF t(1) u(1)] step_inv [OF t(3) u(1)] u(2) show ?case by blast
qed blast

end

end
