(* ===== verification/Event_Loop.thy ===== *)
theory Event_Loop
  imports Epoll_Poller Reachability
begin

text \<open>
  The event loop (\<open>include/EventLoop.hpp\<close>, \<open>src/EventLoop.cpp\<close>, \<open>src/DefaultPoller.cpp\<close>). The first
  part has the methods as functions on a loop record, or, where they run callbacks, on a state
  \<open>'w\<close> that contains the loop and is read and written through \<open>lget\<close> and \<open>lput\<close>. Queued functors
  are values of a type \<open>'f\<close>. \<open>eventfd\<close> is the counter of the kernel object behind \<open>wakeupFd_\<close>: a
  write of 1 adds one, a read clears it. The second part is the interleaving of the loop thread
  with other threads that call \<open>queueInLoop\<close> and \<open>quit\<close>: the locked push and the wake-up that follows
  are separate steps.
\<close>

section \<open>The class EventLoop\<close>

record ('cb, 'f) event_loop =
  looping :: bool
  quit_flag :: bool
  threadId :: int
  pollReturnTime :: int
  poller :: "'cb epoll_poller"
  wakeupFd :: int
  wakeupChannel :: nat
  activeChannels :: "nat list"
  callingPendingFunctors :: bool
  pendingFunctors :: "'f list"
  eventfd :: nat

text \<open>\<open>Poller::newDefaultPoller\<close>: no poller when the environment variable is set.\<close>

definition newDefaultPoller :: "bool \<Rightarrow> (nat \<rightharpoonup> 'cb channel) \<Rightarrow> 'cb epoll_poller option" where
  "newDefaultPoller muduo_use_poll heap =
     (if muduo_use_poll then None else Some (EpollPoller_new heap))"

text \<open>
  The constructor: \<open>evtfd\<close> is the descriptor \<open>eventfd()\<close> returned, \<open>ptr\<close> the address of the wake-up
  channel, \<open>cb\<close> the bound \<open>handleRead\<close>, \<open>this\<close> the loop's identity and \<open>inThread\<close> the thread's
  \<open>t_loopInThisThread\<close>; a second loop in a thread is only logged.
\<close>

definition EventLoop_new ::
  "bool \<Rightarrow> int \<Rightarrow> int \<Rightarrow> nat \<Rightarrow> 'cb \<Rightarrow> nat \<Rightarrow> nat option \<Rightarrow> (nat option \<times> ('cb, 'f) event_loop) res" where
  "EventLoop_new muduo_use_poll tid evtfd ptr cb this inThread =
     (let c = setReadCallback cb (Channel_new this evtfd);
          inThread' = (if inThread \<noteq> None then inThread else Some this)
      in case newDefaultPoller muduo_use_poll [ptr \<mapsto> c] of
           None \<Rightarrow> Inl Null_Deref
         | Some p \<Rightarrow> bindR (enableReading ptr p) (\<lambda>p1.
             Inr (inThread', \<lparr>looping = False, quit_flag = False, threadId = tid, pollReturnTime = 0,
                  poller = p1, wakeupFd = evtfd, wakeupChannel = ptr, activeChannels = [],
                  callingPendingFunctors = False, pendingFunctors = [], eventfd = 0\<rparr>)))"

text \<open>The destructor: \<open>t_loopInThisThread\<close>, the closed descriptor, and the poller as its own destructor finds it.\<close>

definition EventLoop_destroy :: "('cb, 'f) event_loop \<Rightarrow> (nat option \<times> int \<times> 'cb epoll_poller) res" where
  "EventLoop_destroy l =
     bindR (disbaleAll (wakeupChannel l) (poller l)) (\<lambda>p1.
     bindR (removeChannel (wakeupChannel l) p1) (\<lambda>p2. Inr (None, wakeupFd l, p2)))"

definition isInLoopThread :: "int \<Rightarrow> ('cb, 'f) event_loop \<Rightarrow> bool" where
  "isInLoopThread tid l \<longleftrightarrow> threadId l = tid"

definition wakeup :: "('cb, 'f) event_loop \<Rightarrow> ('cb, 'f) event_loop" where
  "wakeup l = l\<lparr>eventfd := Suc (eventfd l)\<rparr>"

definition EventLoop_handleRead :: "('cb, 'f) event_loop \<Rightarrow> ('cb, 'f) event_loop" where
  "EventLoop_handleRead l = l\<lparr>eventfd := 0\<rparr>"

definition EventLoop_quit :: "int \<Rightarrow> ('cb, 'f) event_loop \<Rightarrow> ('cb, 'f) event_loop" where
  "EventLoop_quit tid l =
     (let l1 = l\<lparr>quit_flag := True\<rparr> in if \<not> isInLoopThread tid l1 then wakeup l1 else l1)"

text \<open>\<open>queueInLoop\<close>: the locked \<open>emplace_back\<close>, then the wake-up where it is needed.\<close>

definition push_functor :: "'f \<Rightarrow> ('cb, 'f) event_loop \<Rightarrow> ('cb, 'f) event_loop" where
  "push_functor f l = l\<lparr>pendingFunctors := pendingFunctors l @ [f]\<rparr>"

definition queueInLoop :: "int \<Rightarrow> 'f \<Rightarrow> ('cb, 'f) event_loop \<Rightarrow> ('cb, 'f) event_loop" where
  "queueInLoop tid f l =
     (let l1 = push_functor f l
      in if \<not> isInLoopThread tid l1 \<or> callingPendingFunctors l1 then wakeup l1 else l1)"

definition runInLoop ::
  "('w \<Rightarrow> ('cb, 'f) event_loop) \<Rightarrow> (('cb, 'f) event_loop \<Rightarrow> 'w \<Rightarrow> 'w) \<Rightarrow> ('f \<Rightarrow> 'w \<Rightarrow> 'w res) \<Rightarrow>
   int \<Rightarrow> 'f \<Rightarrow> 'w \<Rightarrow> 'w res" where
  "runInLoop lget lput exec tid f w =
     (if isInLoopThread tid (lget w) then exec f w
      else Inr (lput (queueInLoop tid f (lget w)) w))"

fun run_functors :: "('f \<Rightarrow> 'w \<Rightarrow> 'w res) \<Rightarrow> 'f list \<Rightarrow> 'w \<Rightarrow> 'w res" where
  "run_functors exec [] w = Inr w"
| "run_functors exec (f # fs) w = bindR (exec f w) (run_functors exec fs)"

definition doPendingFunctions ::
  "('w \<Rightarrow> ('cb, 'f) event_loop) \<Rightarrow> (('cb, 'f) event_loop \<Rightarrow> 'w \<Rightarrow> 'w) \<Rightarrow> ('f \<Rightarrow> 'w \<Rightarrow> 'w res) \<Rightarrow>
   'w \<Rightarrow> 'w res" where
  "doPendingFunctions lget lput exec w =
     (let l = (lget w)\<lparr>callingPendingFunctors := True\<rparr>;
          functors = pendingFunctors l
      in bindR (run_functors exec functors (lput (l\<lparr>pendingFunctors := []\<rparr>) w)) (\<lambda>w1.
           Inr (lput ((lget w1)\<lparr>callingPendingFunctors := False\<rparr>) w1)))"

fun handle_active :: "(nat \<Rightarrow> 'w \<Rightarrow> 'w res) \<Rightarrow> nat list \<Rightarrow> 'w \<Rightarrow> 'w res" where
  "handle_active handle [] w = Inr w"
| "handle_active handle (ptr # ptrs) w = bindR (handle ptr w) (handle_active handle ptrs)"

text \<open>
  One round of the \<open>while\<close> loop: \<open>wait\<close> is the answer of \<open>epoll_wait\<close>, \<open>now\<close> the clock, \<open>handle\<close> the
  channels' \<open>handleEvent\<close>.
\<close>

definition loop_round ::
  "('w \<Rightarrow> ('cb, 'f) event_loop) \<Rightarrow> (('cb, 'f) event_loop \<Rightarrow> 'w \<Rightarrow> 'w) \<Rightarrow> ('f \<Rightarrow> 'w \<Rightarrow> 'w res) \<Rightarrow>
   (nat \<Rightarrow> 'w \<Rightarrow> 'w res) \<Rightarrow> (nat \<Rightarrow> errno + (c_int \<times> nat) list) \<Rightarrow> int \<Rightarrow> 'w \<Rightarrow> 'w res" where
  "loop_round lget lput exec handle wait now w =
     bindR (poll wait [] (poller (lget w))) (\<lambda>(active, p).
     bindR (handle_active handle active
              (lput ((lget w)\<lparr>activeChannels := active, poller := p, pollReturnTime := now\<rparr>) w)) (\<lambda>w1.
     doPendingFunctions lget lput exec w1))"

text \<open>
  \<open>loop()\<close> over a list of answers of the environment: it stops when \<open>quit_\<close> is seen, or when the
  list is used up (then the result is \<open>False\<close>: still looping).
\<close>

fun loop_rounds ::
  "('w \<Rightarrow> ('cb, 'f) event_loop) \<Rightarrow> (('cb, 'f) event_loop \<Rightarrow> 'w \<Rightarrow> 'w) \<Rightarrow> ('f \<Rightarrow> 'w \<Rightarrow> 'w res) \<Rightarrow>
   (nat \<Rightarrow> 'w \<Rightarrow> 'w res) \<Rightarrow> ((nat \<Rightarrow> errno + (c_int \<times> nat) list) \<times> int) list \<Rightarrow> 'w \<Rightarrow>
   (bool \<times> 'w) res" where
  "loop_rounds lget lput exec handle answers w =
     (if quit_flag (lget w) then Inr (True, lput ((lget w)\<lparr>looping := False\<rparr>) w)
      else case answers of
             [] \<Rightarrow> Inr (False, w)
           | (wait, now) # rest \<Rightarrow>
               bindR (loop_round lget lput exec handle wait now w)
                 (loop_rounds lget lput exec handle rest))"

declare loop_rounds.simps [simp del]

definition EventLoop_loop ::
  "('w \<Rightarrow> ('cb, 'f) event_loop) \<Rightarrow> (('cb, 'f) event_loop \<Rightarrow> 'w \<Rightarrow> 'w) \<Rightarrow> ('f \<Rightarrow> 'w \<Rightarrow> 'w res) \<Rightarrow>
   (nat \<Rightarrow> 'w \<Rightarrow> 'w res) \<Rightarrow> ((nat \<Rightarrow> errno + (c_int \<times> nat) list) \<times> int) list \<Rightarrow> 'w \<Rightarrow>
   (bool \<times> 'w) res" where
  "EventLoop_loop lget lput exec handle answers w =
     loop_rounds lget lput exec handle answers
       (lput ((lget w)\<lparr>looping := True, quit_flag := False\<rparr>) w)"

section \<open>The loop thread among other threads\<close>

text \<open>
  Where the loop thread stands: at the test of \<open>quit_\<close>, in \<open>poll\<close>, handling channels, between
  setting \<open>callingPendingFuntors_\<close> and the swap, running the swapped-out functors, or gone.
\<close>

datatype loop_pc = Testing | Polling | Handling | Swapping | Running | Stopped

text \<open>
  \<open>wakers\<close> counts the other threads between their push (or their store to \<open>quit_\<close>) and their
  write to the event descriptor. \<open>queued\<close> and \<open>executed\<close> are the history.
\<close>

record ('cb, 'f) loop_sys =
  lp :: "('cb, 'f) event_loop"
  pc :: loop_pc
  running :: "'f list"
  wakers :: nat
  queued :: "'f list"
  executed :: "'f list"

inductive loop_step :: "('cb, 'f) loop_sys \<Rightarrow> ('cb, 'f) loop_sys \<Rightarrow> bool" where
  other_push: "loop_step s (s\<lparr>lp := push_functor f (lp s), wakers := Suc (wakers s),
                              queued := queued s @ [f]\<rparr>)"
| other_quit: "loop_step s (s\<lparr>lp := (lp s)\<lparr>quit_flag := True\<rparr>, wakers := Suc (wakers s)\<rparr>)"
| other_wake: "wakers s = Suc n \<Longrightarrow> loop_step s (s\<lparr>lp := wakeup (lp s), wakers := n\<rparr>)"
| test_continue: "pc s = Testing \<Longrightarrow> \<not> quit_flag (lp s) \<Longrightarrow> loop_step s (s\<lparr>pc := Polling\<rparr>)"
| test_stop: "pc s = Testing \<Longrightarrow> quit_flag (lp s) \<Longrightarrow> loop_step s (s\<lparr>pc := Stopped\<rparr>)"
| poll_return: "pc s = Polling \<Longrightarrow> loop_step s (s\<lparr>pc := Handling\<rparr>)"
| handle_wakeup: "pc s = Handling \<Longrightarrow> loop_step s (s\<lparr>lp := EventLoop_handleRead (lp s)\<rparr>)"
| handle_queue: "pc s = Handling \<Longrightarrow>
    loop_step s (s\<lparr>lp := queueInLoop (threadId (lp s)) f (lp s), queued := queued s @ [f]\<rparr>)"
| handle_quit: "pc s = Handling \<Longrightarrow> loop_step s (s\<lparr>lp := EventLoop_quit (threadId (lp s)) (lp s)\<rparr>)"
| start_pending: "pc s = Handling \<Longrightarrow>
    loop_step s (s\<lparr>lp := (lp s)\<lparr>callingPendingFunctors := True\<rparr>, pc := Swapping\<rparr>)"
| swap: "pc s = Swapping \<Longrightarrow>
    loop_step s (s\<lparr>lp := (lp s)\<lparr>pendingFunctors := []\<rparr>, running := pendingFunctors (lp s),
                   pc := Running\<rparr>)"
| run_one: "pc s = Running \<Longrightarrow> running s = f # fs \<Longrightarrow>
    loop_step s (s\<lparr>running := fs, executed := executed s @ [f]\<rparr>)"
| run_queue: "pc s = Running \<Longrightarrow>
    loop_step s (s\<lparr>lp := queueInLoop (threadId (lp s)) f (lp s), queued := queued s @ [f]\<rparr>)"
| run_quit: "pc s = Running \<Longrightarrow> loop_step s (s\<lparr>lp := EventLoop_quit (threadId (lp s)) (lp s)\<rparr>)"
| end_pending: "pc s = Running \<Longrightarrow> running s = [] \<Longrightarrow>
    loop_step s (s\<lparr>lp := (lp s)\<lparr>callingPendingFunctors := False\<rparr>, pc := Testing\<rparr>)"

text \<open>\<open>loop()\<close> has set its flags and nothing is queued.\<close>

definition loop_start :: "('cb, 'f) loop_sys \<Rightarrow> bool" where
  "loop_start s \<longleftrightarrow> pc s = Testing \<and> \<not> quit_flag (lp s) \<and> \<not> callingPendingFunctors (lp s) \<and>
     pendingFunctors (lp s) = [] \<and> running s = [] \<and> wakers s = 0 \<and> queued s = [] \<and> executed s = []"

section \<open>Lemmas\<close>

definition loop_inv :: "('cb, 'f) loop_sys \<Rightarrow> bool" where
  "loop_inv s \<longleftrightarrow>
     executed s @ running s @ pendingFunctors (lp s) = queued s \<and>
     (callingPendingFunctors (lp s) \<longleftrightarrow> pc s \<in> {Swapping, Running}) \<and>
     (pc s \<noteq> Running \<longrightarrow> running s = []) \<and>
     (pc s \<in> {Testing, Polling, Running} \<longrightarrow> pendingFunctors (lp s) \<noteq> [] \<longrightarrow>
        0 < eventfd (lp s) \<or> 0 < wakers s) \<and>
     (pc s = Polling \<longrightarrow> quit_flag (lp s) \<longrightarrow> 0 < eventfd (lp s) \<or> 0 < wakers s)"

lemmas loop_op_defs = push_functor_def queueInLoop_def wakeup_def EventLoop_handleRead_def
  EventLoop_quit_def isInLoopThread_def Let_def

lemma loop_start_inv: "loop_start s \<Longrightarrow> loop_inv s"
  by (simp add: loop_start_def loop_inv_def)

lemma loop_step_inv:
  assumes "loop_inv s" and "loop_step s t"
  shows "loop_inv t"
  using assms(2,1)
  by (cases rule: loop_step.cases) (auto simp: loop_inv_def loop_op_defs)

interpretation loop_threads: invariant_system loop_start loop_step loop_inv
  by unfold_locales (auto intro: loop_start_inv loop_step_inv)

text \<open>The loop thread alone runs what it swapped out, and then everything queued.\<close>

lemma run_all:
  assumes "pc s = Running"
  shows "\<exists>t. loop_step\<^sup>*\<^sup>* s t \<and> pc t = Running \<and> running t = [] \<and>
    executed t = executed s @ running s \<and> lp t = lp s \<and> queued t = queued s"
  using assms
proof (induction "running s" arbitrary: s)
  case Nil
  then show ?case by (metis append_Nil2 rtranclp.rtrancl_refl)
next
  case (Cons f fs)
  let ?s = "s\<lparr>running := fs, executed := executed s @ [f]\<rparr>"
  have step: "loop_step s ?s" using Cons.prems Cons.hyps(2) by (intro run_one) simp_all
  from Cons.hyps(1) [of ?s] Cons.prems obtain t where t: "loop_step\<^sup>*\<^sup>* ?s t" "pc t = Running"
    "running t = []" "executed t = executed ?s @ running ?s" "lp t = lp ?s" "queued t = queued ?s"
    by auto
  from converse_rtranclp_into_rtranclp [of loop_step, OF step t(1)] t Cons.hyps(2) [symmetric]
  show ?case by auto
qed

lemma handling_drains:
  assumes pc: "pc s = Handling" and inv: "loop_inv s"
  shows "\<exists>t. loop_step\<^sup>*\<^sup>* s t \<and> pc t = Running \<and> executed t = queued s \<and>
    quit_flag (lp t) = quit_flag (lp s)"
proof -
  let ?s1 = "s\<lparr>lp := (lp s)\<lparr>callingPendingFunctors := True\<rparr>, pc := Swapping\<rparr>"
  let ?s2 = "?s1\<lparr>lp := (lp ?s1)\<lparr>pendingFunctors := []\<rparr>, running := pendingFunctors (lp ?s1),
                pc := Running\<rparr>"
  have "loop_step s ?s1" using pc by (rule start_pending)
  moreover have "loop_step ?s1 ?s2" by (rule swap) simp
  moreover obtain t where t: "loop_step\<^sup>*\<^sup>* ?s2 t" "pc t = Running"
    "executed t = executed ?s2 @ running ?s2" "lp t = lp ?s2"
    using run_all [of ?s2] by auto
  ultimately have "loop_step\<^sup>*\<^sup>* s t"
    using converse_rtranclp_into_rtranclp [of loop_step] by blast
  moreover have "executed t = queued s" using t(3) inv pc by (auto simp: loop_inv_def)
  ultimately show ?thesis using t(2,4) by auto
qed

lemma testing_drains:
  assumes pc: "pc s = Testing" and inv: "loop_inv s" and go: "\<not> quit_flag (lp s)"
  shows "\<exists>t. loop_step\<^sup>*\<^sup>* s t \<and> executed t = queued s"
proof -
  let ?s1 = "s\<lparr>pc := Polling\<rparr>" and ?s2 = "s\<lparr>pc := Handling\<rparr>"
  have a: "loop_step s ?s1" using pc go by (rule test_continue)
  have b: "loop_step ?s1 ?s2" using poll_return [of ?s1] by simp
  have "loop_inv ?s2" using loop_step_inv [OF loop_step_inv [OF inv a] b] .
  from handling_drains [OF _ this] obtain t where "loop_step\<^sup>*\<^sup>* ?s2 t" "executed t = queued s" by auto
  with a b show ?thesis using converse_rtranclp_into_rtranclp [of loop_step] by blast
qed

lemma loop_drains:
  assumes inv: "loop_inv s" and go: "\<not> quit_flag (lp s)" and alive: "pc s \<noteq> Stopped"
  shows "\<exists>t. loop_step\<^sup>*\<^sup>* s t \<and> executed t = queued s"
proof (cases "pc s")
  case Testing
  then show ?thesis using inv go by (rule testing_drains)
next
  case Polling
  let ?s = "s\<lparr>pc := Handling\<rparr>"
  have step: "loop_step s ?s" using Polling by (rule poll_return)
  from handling_drains [OF _ loop_step_inv [OF inv step]] show ?thesis
    using converse_rtranclp_into_rtranclp [of loop_step, OF step] by fastforce
next
  case Handling
  then show ?thesis using handling_drains inv by blast
next
  case Swapping
  let ?s = "s\<lparr>lp := (lp s)\<lparr>pendingFunctors := []\<rparr>, running := pendingFunctors (lp s), pc := Running\<rparr>"
  have step: "loop_step s ?s" using Swapping by (rule swap)
  obtain t where t: "loop_step\<^sup>*\<^sup>* ?s t" "executed t = executed ?s @ running ?s"
    using run_all [of ?s] by auto
  moreover have "executed ?s @ running ?s = queued s" using inv Swapping by (auto simp: loop_inv_def)
  ultimately show ?thesis using converse_rtranclp_into_rtranclp [of loop_step, OF step] by metis
next
  case Running
  from run_all [OF this] obtain t where t: "loop_step\<^sup>*\<^sup>* s t" "pc t = Running" "running t = []"
    "lp t = lp s" "queued t = queued s" by blast
  let ?t = "t\<lparr>lp := (lp t)\<lparr>callingPendingFunctors := False\<rparr>, pc := Testing\<rparr>"
  have step: "loop_step t ?t" using t(2,3) by (rule end_pending)
  have "loop_inv ?t" using loop_step_inv [OF loop_threads.steps_inv [OF t(1) inv] step] .
  from testing_drains [OF _ this] go t(4,5) obtain u where "loop_step\<^sup>*\<^sup>* ?t u" "executed u = queued s"
    by auto
  with t(1) step show ?thesis by (metis (no_types, lifting) rtranclp.rtrancl_into_rtrancl rtranclp_trans)
qed (use alive in simp)

section \<open>The loop inside a larger state\<close>

text \<open>
  What the loop's methods need of the state that holds it, and what the functors promise: while
  pending functors are being called, running one appends to the queue at most, and wakes the loop
  when it does.
\<close>

locale loop_host =
  fixes lget :: "'w \<Rightarrow> ('cb, 'f) event_loop" and lput :: "('cb, 'f) event_loop \<Rightarrow> 'w \<Rightarrow> 'w"
    and exec :: "'f \<Rightarrow> 'w \<Rightarrow> 'w res"
  assumes get_put: "lget (lput l w) = l"
    and exec_queues: "exec f w = Inr w' \<Longrightarrow> callingPendingFunctors (lget w) \<Longrightarrow>
      callingPendingFunctors (lget w') \<and> eventfd (lget w) \<le> eventfd (lget w') \<and>
      (\<exists>new. pendingFunctors (lget w') = pendingFunctors (lget w) @ new \<and>
         (new \<noteq> [] \<longrightarrow> 0 < eventfd (lget w')))"
begin

lemma run_functors_queues:
  assumes "run_functors exec fs w = Inr w'" and "callingPendingFunctors (lget w)"
  shows "callingPendingFunctors (lget w') \<and> eventfd (lget w) \<le> eventfd (lget w') \<and>
      (\<exists>new. pendingFunctors (lget w') = pendingFunctors (lget w) @ new \<and>
         (new \<noteq> [] \<longrightarrow> 0 < eventfd (lget w')))"
  using assms
proof (induction fs arbitrary: w)
  case (Cons f fs)
  then obtain w1 where w1: "exec f w = Inr w1" "run_functors exec fs w1 = Inr w'"
    by (auto simp: bindR_eq_Inr)
  from exec_queues [OF w1(1) Cons.prems(2)] obtain new1 where
    a: "callingPendingFunctors (lget w1)" "eventfd (lget w) \<le> eventfd (lget w1)"
    "pendingFunctors (lget w1) = pendingFunctors (lget w) @ new1"
    "new1 \<noteq> [] \<longrightarrow> 0 < eventfd (lget w1)" by blast
  from Cons.IH [OF w1(2) a(1)] obtain new2 where
    "callingPendingFunctors (lget w')" "eventfd (lget w1) \<le> eventfd (lget w')"
    "pendingFunctors (lget w') = pendingFunctors (lget w1) @ new2"
    "new2 \<noteq> [] \<longrightarrow> 0 < eventfd (lget w')" by blast
  with a show ?case by auto
qed simp

lemma doPending_wakes:
  assumes "doPendingFunctions lget lput exec w = Inr w'"
  shows "\<not> callingPendingFunctors (lget w') \<and>
    (pendingFunctors (lget w') \<noteq> [] \<longrightarrow> 0 < eventfd (lget w'))"
  using assms run_functors_queues
  by (fastforce simp: doPendingFunctions_def Let_def bindR_eq_Inr get_put)

end

section \<open>Properties\<close>

text \<open>
  C10: No queued functor is lost, run twice or run out of order, under every interleaving of the
  loop thread with other threads: what was executed, followed by what is being run, followed by
  what is pending, is exactly the sequence of queued functors; and whenever the loop thread is
  about to block in \<open>poll\<close> with functors pending, the event descriptor is already readable or a
  thread is on its way to make it readable, so the wake-up is not lost.
\<close>

theorem functors_exactly_once:
  assumes "reach loop_start loop_step s"
  shows "executed s @ running s @ pendingFunctors (lp s) = queued s \<and>
    (pc s = Polling \<and> pendingFunctors (lp s) \<noteq> [] \<longrightarrow> 0 < eventfd (lp s) \<or> 0 < wakers s)"
  using loop_threads.reach_inv [OF assms] by (simp add: loop_inv_def)

definition idle_loop :: "(nat, nat) loop_sys" where
  "idle_loop = \<lparr>lp = \<lparr>looping = True, quit_flag = False, threadId = 1, pollReturnTime = 0,
      poller = EpollPoller_new Map.empty, wakeupFd = 4, wakeupChannel = 0, activeChannels = [],
      callingPendingFunctors = False, pendingFunctors = [], eventfd = 0\<rparr>,
     pc = Testing, running = [], wakers = 0, queued = [], executed = []\<rparr>"

lemma idle_loop_start: "loop_start idle_loop"
  by (simp add: loop_start_def idle_loop_def)

lemma idle_loop_polls: "reach loop_start loop_step (idle_loop\<lparr>pc := Polling\<rparr>)"
proof (rule reach_step)
  show "reach loop_start loop_step idle_loop" by (rule reach_init) (rule idle_loop_start)
  show "loop_step idle_loop (idle_loop\<lparr>pc := Polling\<rparr>)"
    by (rule test_continue) (simp_all add: idle_loop_def)
qed

lemma polling_with_functor:
  "reach loop_start loop_step (idle_loop\<lparr>pc := Polling, lp := push_functor 7 (lp idle_loop),
     wakers := 1, queued := [7]\<rparr>)"
  using reach_step [OF idle_loop_polls other_push [of _ 7]] by (simp add: idle_loop_def)

text \<open>
  A functor queued before \<open>quit\<close> can be lost: when both calls come while the loop is at the end of
  \<open>doPendingFunctions\<close>, the test of \<open>quit_\<close> ends the loop with the functor still queued. So the \<open>connectDestroyed\<close> that the
  destructor of a server queues on its I/O loops may never run, because the threads are told to quit right after it.
\<close>

lemma functor_lost_at_quit:
  "\<exists>u s :: (nat, nat) loop_sys. reach loop_start loop_step u \<and> \<not> quit_flag (lp u) \<and> pendingFunctors (lp u) = [7] \<and>
     loop_step\<^sup>*\<^sup>* u s \<and> pc s = Stopped \<and> executed s = [] \<and> pendingFunctors (lp s) = [7]"
proof -
  let ?r = "reach loop_start loop_step"
  let ?a = "idle_loop\<lparr>pc := Handling\<rparr>"
  have "?r ?a" using reach_step [OF idle_loop_polls poll_return] by (simp add: idle_loop_def)
  from reach_step [OF reach_step [OF this start_pending] swap] have "?r (idle_loop\<lparr>pc := Running, lp := (lp idle_loop)\<lparr>callingPendingFunctors := True\<rparr>\<rparr>)"
    by (simp add: idle_loop_def)
  note run = reach_step [OF this other_push [of _ 7]]
  let ?u = "idle_loop\<lparr>pc := Running, lp := push_functor 7 ((lp idle_loop)\<lparr>callingPendingFunctors := True\<rparr>), wakers := 1, queued := [7]\<rparr>"
  have u: "?r ?u" using run by (simp add: idle_loop_def)
  let ?v = "?u\<lparr>lp := (lp ?u)\<lparr>quit_flag := True\<rparr>, wakers := 2\<rparr>"
  have 1: "loop_step ?u ?v" using other_quit [of ?u] by (simp add: numeral_2_eq_2)
  have 2: "loop_step ?v (?v\<lparr>lp := (lp ?v)\<lparr>callingPendingFunctors := False\<rparr>, pc := Testing\<rparr>)"
    by (rule end_pending) (simp_all add: idle_loop_def)
  let ?x = "?v\<lparr>lp := (lp ?v)\<lparr>callingPendingFunctors := False\<rparr>, pc := Testing\<rparr>"
  have 3: "loop_step ?x (?x\<lparr>pc := Stopped\<rparr>)" by (rule test_stop) simp_all
  note cr = converse_rtranclp_into_rtranclp [of loop_step]
  from u cr [OF 1 cr [OF 2 cr [OF 3 rtranclp.rtrancl_refl]]] show ?thesis
    by (intro exI [of _ ?u] exI [of _ "?x\<lparr>pc := Stopped\<rparr>"]) (simp add: idle_loop_def push_functor_def)
qed

theorem functors_exactly_once_witness:
  "\<exists>s :: (nat, nat) loop_sys. pc s = Polling \<and> pendingFunctors (lp s) = [7] \<and>
     executed s @ running s @ pendingFunctors (lp s) = queued s \<and>
     (0 < eventfd (lp s) \<or> 0 < wakers s)"
  using functors_exactly_once [OF polling_with_functor]
  by (intro exI [of _ "idle_loop\<lparr>pc := Polling, lp := push_functor 7 (lp idle_loop),
     wakers := 1, queued := [7]\<rparr>"]) (simp add: idle_loop_def push_functor_def)

text \<open>
  C15: Every queued functor gets its turn: from every reachable state of a loop that runs and was not
  asked to quit, the steps of the system lead to a state in which everything queued so far has been
  executed.
\<close>

theorem functors_get_executed:
  assumes "reach loop_start loop_step s" and "\<not> quit_flag (lp s)" and "pc s \<noteq> Stopped"
  shows "\<exists>t. loop_step\<^sup>*\<^sup>* s t \<and> executed t = queued s"
  using loop_drains [OF loop_threads.reach_inv [OF assms(1)] assms(2,3)] .

theorem functors_get_executed_witness:
  "\<exists>(s :: (nat, nat) loop_sys) t. pc s = Polling \<and> queued s = [7] \<and> executed s = [] \<and>
     loop_step\<^sup>*\<^sup>* s t \<and> executed t = [7]"
proof -
  let ?s = "idle_loop\<lparr>pc := Polling, lp := push_functor 7 (lp idle_loop), wakers := 1, queued := [7]\<rparr>"
  have s: "pc ?s = Polling" "queued ?s = [7]" "executed ?s = []"
    by (simp_all add: idle_loop_def)
  have "\<exists>t. loop_step\<^sup>*\<^sup>* ?s t \<and> executed t = queued ?s"
    by (rule functors_get_executed [OF polling_with_functor])
       (simp_all add: idle_loop_def push_functor_def)
  with s(2) obtain t where "loop_step\<^sup>*\<^sup>* ?s t" "executed t = [7]" by metis
  with s show ?thesis by blast
qed



text \<open>
  The constructor of \<open>EventLoop\<close> registers the wake-up channel for reading and leaves channels and
  kernel in agreement; with \<open>MUDUO_USE_POLL\<close> in the environment there is no poller and it
  dereferences a null pointer.
\<close>

theorem EventLoop_constructor:
  "(EventLoop_new True tid evtfd ptr cb this inThread :: (nat option \<times> ('cb, 'f) event_loop) res)
     = Inl Null_Deref \<and>
   (\<exists>l m c. (EventLoop_new False tid evtfd ptr cb this inThread :: (nat option \<times> ('cb, 'f) event_loop) res)
       = Inr (if inThread \<noteq> None then inThread else Some this, l) \<and>
     poller_inv (poller l) \<and> chan_heap (poller l) ptr = Some c \<and> isReading c \<and> readCallback c = Some cb \<and>
     ep_run (ctl_log (poller l)) Map.empty = Some m \<and> m evtfd = Some (ch_events c, ptr) \<and>
     pendingFunctors l = [] \<and> \<not> quit_flag l)"
proof -
  let ?c = "(Channel_new this evtfd)\<lparr>readCallback := Some cb\<rparr> :: 'cb channel"
  let ?p = "EpollPoller_new [ptr \<mapsto> ?c]"
  let ?c1 = "?c\<lparr>ch_events := mask_enableReading 0\<rparr>"
  have coh: "coherent {} ?p Map.empty"
    by (simp add: coherent_def EpollPoller_new_def distinct_fds_def chan_ok_def Channel_new_def NEW_def)
  have c: "chan_heap ?p ptr = Some ?c" by (simp add: EpollPoller_new_def)
  note res = channel_set_events_ok [OF coh c, of mask_enableReading]
  have "chan_heap (mask_result mask_enableReading ?c ptr ?p) ptr = Some (set_index ADDED ?c1)"
    by (simp add: mask_result_def update_result_def update_index_def Let_def Channel_new_def index_defs)
  moreover have "update_effect (?c\<lparr>ch_events := mask_enableReading (ch_events ?c)\<rparr>) ptr Map.empty evtfd
      = Some (ch_events ?c1, ptr)"
    by (simp add: update_effect_def Channel_new_def index_defs)
  ultimately show ?thesis
    using res coherentD(1) [OF res(2)]
    by (auto simp: EventLoop_new_def newDefaultPoller_def enableReading_def poller_inv_def Let_def
        isReading_def enableReading_reading set_index_def)
qed

end
