(* ===== verification/Tcp_Connection.thy ===== *)
theory Tcp_Connection
  imports Net_Buffer Net_Address Event_Loop
begin

text \<open>
  Connections (\<open>include/TcpConnection.hpp\<close>, \<open>src/TcpConnection.cpp\<close>, \<open>include/Callbacks.hpp\<close>) in a
  world of event loops. Loops, connections and channels are reached by number, as pointers reach
  them in the source; \<open>w_strings\<close> is the storage behind \<open>c_str()\<close> pointers, so that a pointer may
  outlive its string. Queued functors are the values of \<open>functor_t\<close>, one constructor per
  \<open>std::bind\<close> of the source, with the arguments it binds. What reaches the network or the
  application is recorded in order in \<open>w_trace\<close>. System calls are the fields of \<open>os_calls\<close>, the code
  of the application the fields of \<open>user_code\<close>; the argument \<open>tid\<close> is the calling thread.
  The handlers work on every extension of \<open>world\<close>; the server adds its own fields.
\<close>

section \<open>Data\<close>

datatype callback_t =
    Cb_wakeup nat
  | Cb_accept
  | Cb_handleRead nat
  | Cb_handleWrite nat
  | Cb_handleClose nat
  | Cb_handleError nat

datatype functor_t =
    F_sendInLoop nat nat size_t
  | F_shutdownInLoop nat
  | F_sendFileInLoop nat int int size_t
  | F_writeComplete nat nat
  | F_highWaterMark "nat option" nat size_t
  | F_connectEstablished nat
  | F_connectDestroyed nat
  | F_removeConnectionInLoop nat
  | F_listen

datatype StateE = kDisconnected | kConnecting | kConnected | KDisconnecting

record tcp_connection =
  c_loop :: nat
  c_name :: string
  c_state :: StateE
  c_reading :: bool
  c_sockfd :: int
  c_channel :: nat
  c_localAddr :: inet_address
  c_peerAddr :: inet_address
  connectionCallback :: "nat option"
  messageCallback :: "nat option"
  writeCompleteCallback :: "nat option"
  connCloseCallback :: bool
  highWaterMarkCallback :: "nat option"
  highWaterMark :: size_t
  inputBuffer :: net_buffer
  outputBuffer :: net_buffer

datatype net_event =
    Sent int bytes
  | Sent_file int int int nat
  | Sock sock_call
  | Connection_cb nat bool
  | Logged_error nat errno

record world =
  w_loops :: "nat \<Rightarrow> (callback_t, functor_t) event_loop"
  w_conns :: "nat \<rightharpoonup> tcp_connection"
  w_strings :: "nat \<rightharpoonup> bytes"
  w_trace :: "net_event list"

record os_calls =
  os_write :: "int \<Rightarrow> bytes \<Rightarrow> errno + nat"
  os_readv :: "int \<Rightarrow> nat list \<Rightarrow> errno + bytes"
  os_sendfile :: "int \<Rightarrow> int \<Rightarrow> int \<Rightarrow> nat \<Rightarrow> errno + nat"
  os_so_error :: "int \<Rightarrow> errno + errno"

record 'w user_code =
  on_connection :: "nat \<Rightarrow> nat \<Rightarrow> 'w \<Rightarrow> 'w res"
  on_message :: "nat \<Rightarrow> nat \<Rightarrow> int \<Rightarrow> 'w \<Rightarrow> 'w res"
  on_writeComplete :: "nat \<Rightarrow> nat \<Rightarrow> 'w \<Rightarrow> 'w res"
  on_highWaterMark :: "nat \<Rightarrow> nat \<Rightarrow> size_t \<Rightarrow> 'w \<Rightarrow> 'w res"
  on_close :: "nat \<Rightarrow> 'w \<Rightarrow> 'w res"
  on_threadInit :: "nat \<Rightarrow> nat \<Rightarrow> 'w \<Rightarrow> 'w res"

definition EWOULDBLOCK :: errno where "EWOULDBLOCK = 11"
definition EPIPE :: errno where "EPIPE = 32"
definition ECONNRESET :: errno where "ECONNRESET = 104"

section \<open>Access to the world\<close>

definition lget :: "nat \<Rightarrow> 'z world_scheme \<Rightarrow> (callback_t, functor_t) event_loop" where
  "lget lid w = w_loops w lid"

definition lput :: "nat \<Rightarrow> (callback_t, functor_t) event_loop \<Rightarrow> 'z world_scheme \<Rightarrow> 'z world_scheme" where
  "lput lid l w = w\<lparr>w_loops := (w_loops w)(lid := l)\<rparr>"

definition get_conn :: "nat \<Rightarrow> 'z world_scheme \<Rightarrow> tcp_connection res" where
  "get_conn cid w = (case w_conns w cid of None \<Rightarrow> Inl Dangling | Some c \<Rightarrow> Inr c)"

definition put_conn :: "nat \<Rightarrow> tcp_connection \<Rightarrow> 'z world_scheme \<Rightarrow> 'z world_scheme" where
  "put_conn cid c w = w\<lparr>w_conns := (w_conns w)(cid \<mapsto> c)\<rparr>"

definition emit :: "net_event list \<Rightarrow> 'z world_scheme \<Rightarrow> 'z world_scheme" where
  "emit es w = w\<lparr>w_trace := w_trace w @ es\<rparr>"

definition queue_on :: "int \<Rightarrow> nat \<Rightarrow> functor_t \<Rightarrow> 'z world_scheme \<Rightarrow> 'z world_scheme" where
  "queue_on tid lid f w = lput lid (queueInLoop tid f (lget lid w)) w"

definition conn_channel :: "tcp_connection \<Rightarrow> 'z world_scheme \<Rightarrow> callback_t channel res" where
  "conn_channel c w = deref (c_channel c) (poller (lget (c_loop c) w))"

definition with_channel ::
  "(nat \<Rightarrow> callback_t epoll_poller \<Rightarrow> callback_t epoll_poller res) \<Rightarrow> tcp_connection \<Rightarrow>
   'z world_scheme \<Rightarrow> 'z world_scheme res" where
  "with_channel f c w =
     bindR (f (c_channel c) (poller (lget (c_loop c) w))) (\<lambda>p.
       Inr (lput (c_loop c) ((lget (c_loop c) w)\<lparr>poller := p\<rparr>) w))"

section \<open>Construction\<close>

text \<open>
  The constructor: the channel at address \<open>ptr\<close> gets the four handlers, the socket its keep-alive
  option. \<open>CheckLoopNotNull\<close> only logs.
\<close>

definition TcpConnection_new ::
  "nat \<Rightarrow> nat \<Rightarrow> nat \<Rightarrow> string \<Rightarrow> int \<Rightarrow> inet_address \<Rightarrow> inet_address \<Rightarrow> 'z world_scheme \<Rightarrow> 'z world_scheme" where
  "TcpConnection_new cid ptr lid nameArg sockfd localAddr peerAddr w =
     (let ch = setErrorCallback (Cb_handleError cid) (setCloseCallback (Cb_handleClose cid)
                 (setWriteCallback (Cb_handleWrite cid) (setReadCallback (Cb_handleRead cid)
                   (Channel_new lid sockfd))));
          c = \<lparr>c_loop = lid, c_name = nameArg, c_state = kConnecting, c_reading = True,
               c_sockfd = sockfd, c_channel = ptr, c_localAddr = localAddr, c_peerAddr = peerAddr,
               connectionCallback = None, messageCallback = None, writeCompleteCallback = None,
               connCloseCallback = False, highWaterMarkCallback = None,
               highWaterMark = 64 * 1024 * 1024,
               inputBuffer = Buffer_new INIT_SIZE, outputBuffer = Buffer_new INIT_SIZE\<rparr>;
          l = lget lid w
      in emit (map Sock (setKeepAlive True sockfd))
           (put_conn cid c (lput lid (l\<lparr>poller := store ptr ch (poller l)\<rparr>) w)))"

text \<open>
  The destructor only logs; its members close the descriptor and free the channel.
\<close>

definition TcpConnection_destroy :: "nat \<Rightarrow> 'z world_scheme \<Rightarrow> 'z world_scheme res" where
  "TcpConnection_destroy cid w =
     bindR (get_conn cid w) (\<lambda>c.
       let l = lget (c_loop c) w; p = poller l in
       Inr (emit (map Sock (Socket_destroy (c_sockfd c)))
         (lput (c_loop c) (l\<lparr>poller := p\<lparr>chan_heap := (chan_heap p)(c_channel c := None)\<rparr>\<rparr>)
           (w\<lparr>w_conns := (w_conns w)(cid := None)\<rparr>))))"

text \<open>The setters; \<open>None\<close> is an empty function. The close callback is always the server's.\<close>

definition setConnectionCallback :: "nat option \<Rightarrow> tcp_connection \<Rightarrow> tcp_connection" where
  [simp]: "setConnectionCallback cb c = c\<lparr>connectionCallback := cb\<rparr>"

definition setMessageCallback :: "nat option \<Rightarrow> tcp_connection \<Rightarrow> tcp_connection" where
  [simp]: "setMessageCallback cb c = c\<lparr>messageCallback := cb\<rparr>"

definition setWriteCompleteCallback :: "nat option \<Rightarrow> tcp_connection \<Rightarrow> tcp_connection" where
  [simp]: "setWriteCompleteCallback cb c = c\<lparr>writeCompleteCallback := cb\<rparr>"

definition conn_setCloseCallback :: "tcp_connection \<Rightarrow> tcp_connection" where
  [simp]: "conn_setCloseCallback c = c\<lparr>connCloseCallback := True\<rparr>"

definition setHighWaterMarkback :: "nat option \<Rightarrow> size_t \<Rightarrow> tcp_connection \<Rightarrow> tcp_connection" where
  [simp]: "setHighWaterMarkback cb mark c = c\<lparr>highWaterMarkCallback := cb, highWaterMark := mark\<rparr>"

definition connected :: "tcp_connection \<Rightarrow> bool" where
  "connected c \<longleftrightarrow> c_state c = kConnected"

definition setState :: "StateE \<Rightarrow> nat \<Rightarrow> 'z world_scheme \<Rightarrow> 'z world_scheme res" where
  "setState st cid w = bindR (get_conn cid w) (\<lambda>c. Inr (put_conn cid (c\<lparr>c_state := st\<rparr>) w))"

section \<open>Sending\<close>

text \<open>
  The direct write of \<open>sendInLoop\<close>: the result is \<open>nwrote\<close>, \<open>remaining\<close> and \<open>faultError\<close>.
\<close>

definition send_direct ::
  "os_calls \<Rightarrow> int \<Rightarrow> nat \<Rightarrow> tcp_connection \<Rightarrow> int \<Rightarrow> bytes \<Rightarrow> size_t \<Rightarrow> 'z world_scheme \<Rightarrow>
   (nat \<times> size_t \<times> bool \<times> 'z world_scheme) res" where
  "send_direct os tid cid c fd mem len w =
     bindR (mem_read 0 (unat len) mem) (\<lambda>bs.
       case os_write os fd bs of
         Inr n \<Rightarrow>
           let remaining = len - of_nat n;
               w1 = emit [Sent fd (take n bs)] w
           in Inr (n, remaining, False,
                case writeCompleteCallback c of
                  Some cb \<Rightarrow> if remaining = 0 then queue_on tid (c_loop c) (F_writeComplete cb cid) w1 else w1
                | None \<Rightarrow> w1)
       | Inl e \<Rightarrow> Inr (0, len, e \<noteq> EWOULDBLOCK \<and> (e = EPIPE \<or> e = ECONNRESET), w))"

definition send_buffered ::
  "int \<Rightarrow> nat \<Rightarrow> tcp_connection \<Rightarrow> callback_t channel \<Rightarrow> bytes \<Rightarrow> nat \<Rightarrow> size_t \<Rightarrow> 'z world_scheme \<Rightarrow>
   'z world_scheme res" where
  "send_buffered tid cid c ch mem nwrote remaining w =
     (let oldLen = readableBytes (outputBuffer c);
          w1 = (if oldLen + remaining \<ge> highWaterMark c \<and> oldLen < highWaterMark c \<and> highWaterMark c \<noteq> 0
                then queue_on tid (c_loop c)
                       (F_highWaterMark (highWaterMarkCallback c) cid (oldLen + remaining)) w
                else w)
      in bindR (append_raw (outputBuffer c) (drop nwrote mem) remaining) (\<lambda>b.
           let w2 = put_conn cid (c\<lparr>outputBuffer := b\<rparr>) w1 in
           if \<not> isWriting ch then with_channel enableWriting c w2 else Inr w2))"

definition sendInLoop ::
  "os_calls \<Rightarrow> int \<Rightarrow> nat \<Rightarrow> bytes \<Rightarrow> size_t \<Rightarrow> 'z world_scheme \<Rightarrow> 'z world_scheme res" where
  "sendInLoop os tid cid mem len w =
     bindR (get_conn cid w) (\<lambda>c.
       if c_state c = kDisconnected then Inr w
       else bindR (conn_channel c w) (\<lambda>ch.
         bindR (if \<not> isWriting ch \<and> readableBytes (outputBuffer c) = 0
                then send_direct os tid cid c (ch_fd ch) mem len w
                else Inr (0, len, False, w)) (\<lambda>(nwrote, remaining, faultError, w1).
           if \<not> faultError \<and> remaining > 0
           then send_buffered tid cid c ch mem nwrote remaining w1
           else Inr w1)))"

text \<open>
  \<open>send\<close>: \<open>ptr\<close> is the address of the string's characters. From another thread only the pointer
  and the length are queued.
\<close>

definition send ::
  "os_calls \<Rightarrow> int \<Rightarrow> nat \<Rightarrow> nat \<Rightarrow> 'z world_scheme \<Rightarrow> 'z world_scheme res" where
  "send os tid cid ptr w =
     bindR (get_conn cid w) (\<lambda>c.
       if c_state c = kConnected
       then (case w_strings w ptr of
               None \<Rightarrow> Inl Dangling
             | Some buf \<Rightarrow>
                 if isInLoopThread tid (lget (c_loop c) w)
                 then sendInLoop os tid cid buf (of_nat (length buf)) w
                 else Inr (queue_on tid (c_loop c) (F_sendInLoop cid ptr (of_nat (length buf))) w))
       else Inr w)"

text \<open>Running the queued functor reads the string through the pointer.\<close>

definition run_sendInLoop ::
  "os_calls \<Rightarrow> int \<Rightarrow> nat \<Rightarrow> nat \<Rightarrow> size_t \<Rightarrow> 'z world_scheme \<Rightarrow> 'z world_scheme res" where
  "run_sendInLoop os tid cid ptr len w =
     (case w_strings w ptr of None \<Rightarrow> Inl Dangling | Some buf \<Rightarrow> sendInLoop os tid cid buf len w)"

text \<open>
  \<open>sendFileInLoop\<close>: \<open>sendfile\<close> advances \<open>offset\<close>; the continuation is queued with the advanced offset
  and the count it was called with.
\<close>

definition sendFileInLoop ::
  "os_calls \<Rightarrow> int \<Rightarrow> nat \<Rightarrow> int \<Rightarrow> int \<Rightarrow> size_t \<Rightarrow> 'z world_scheme \<Rightarrow> 'z world_scheme res" where
  "sendFileInLoop os tid cid fileDescriptor offset count w =
     bindR (get_conn cid w) (\<lambda>c.
       if c_state c = kDisconnected then Inr w
       else bindR (conn_channel c w) (\<lambda>ch.
         let (remaining, faultError, offset', w1) =
           (if \<not> isWriting ch \<and> readableBytes (outputBuffer c) = 0
            then (case os_sendfile os (c_sockfd c) fileDescriptor offset (unat count) of
                    Inr n \<Rightarrow>
                      let w2 = emit [Sent_file (c_sockfd c) fileDescriptor offset n] w in
                      (count - of_nat n, False, offset + int n,
                       case writeCompleteCallback c of
                         Some cb \<Rightarrow> if count - of_nat n = 0 then queue_on tid (c_loop c) (F_writeComplete cb cid) w2 else w2
                       | None \<Rightarrow> w2)
                  | Inl e \<Rightarrow> (count, e = EPIPE \<or> e = ECONNRESET, offset, w))
            else (count, False, offset, w))
         in if \<not> faultError \<and> remaining > 0
            then Inr (queue_on tid (c_loop c) (F_sendFileInLoop cid fileDescriptor offset' count) w1)
            else Inr w1))"

definition sendFile ::
  "os_calls \<Rightarrow> int \<Rightarrow> nat \<Rightarrow> int \<Rightarrow> int \<Rightarrow> size_t \<Rightarrow> 'z world_scheme \<Rightarrow> 'z world_scheme res" where
  "sendFile os tid cid fileDescriptor offset count w =
     bindR (get_conn cid w) (\<lambda>c.
       if connected c
       then if isInLoopThread tid (lget (c_loop c) w)
            then sendFileInLoop os tid cid fileDescriptor offset count w
            else runInLoop (lget (c_loop c)) (lput (c_loop c))
                   (\<lambda>f. sendFileInLoop os tid cid fileDescriptor offset count) tid
                   (F_sendFileInLoop cid fileDescriptor offset count) w
       else Inr w)"

section \<open>Closing\<close>

definition shutdownInLoop :: "nat \<Rightarrow> 'z world_scheme \<Rightarrow> 'z world_scheme res" where
  "shutdownInLoop cid w =
     bindR (get_conn cid w) (\<lambda>c. bindR (conn_channel c w) (\<lambda>ch.
       Inr (if \<not> isWriting ch then emit (map Sock (shutdownWrite (c_sockfd c))) w else w)))"

definition conn_shutdown :: "int \<Rightarrow> nat \<Rightarrow> 'z world_scheme \<Rightarrow> 'z world_scheme res" where
  "conn_shutdown tid cid w =
     bindR (get_conn cid w) (\<lambda>c.
       if c_state c = kConnected
       then bindR (setState kDisconnected cid w) (\<lambda>w1.
              runInLoop (lget (c_loop c)) (lput (c_loop c)) (\<lambda>f. shutdownInLoop cid) tid
                (F_shutdownInLoop cid) w1)
       else Inr w)"

text \<open>Calling \<open>connectionCallback_\<close>; an empty \<open>std::function\<close> throws.\<close>

definition call_connectionCallback :: "'z world_scheme user_code \<Rightarrow> nat \<Rightarrow> 'z world_scheme \<Rightarrow> 'z world_scheme res" where
  "call_connectionCallback user cid w =
     bindR (get_conn cid w) (\<lambda>c.
       case connectionCallback c of
         None \<Rightarrow> Inl Bad_Function_Call
       | Some cb \<Rightarrow> on_connection user cb cid (emit [Connection_cb cid (connected c)] w))"

definition connectEstablished :: "'z world_scheme user_code \<Rightarrow> nat \<Rightarrow> 'z world_scheme \<Rightarrow> 'z world_scheme res" where
  "connectEstablished user cid w =
     bindR (setState kConnected cid w) (\<lambda>w1.
     bindR (get_conn cid w1) (\<lambda>c.
     bindR (with_channel (\<lambda>ptr p. bindR (deref ptr p) (\<lambda>ch. Inr (store ptr (channel_tie cid ch) p))) c w1) (\<lambda>w2.
     bindR (with_channel enableReading c w2) (\<lambda>w3.
     call_connectionCallback user cid w3))))"

definition connectDestroyed :: "'z world_scheme user_code \<Rightarrow> nat \<Rightarrow> 'z world_scheme \<Rightarrow> 'z world_scheme res" where
  "connectDestroyed user cid w =
     bindR (get_conn cid w) (\<lambda>c.
     bindR (if c_state c = kConnected
            then bindR (setState kDisconnected cid w) (\<lambda>w1.
                 bindR (with_channel disbaleAll c w1) (\<lambda>w2.
                 call_connectionCallback user cid w2))
            else Inr w) (\<lambda>w3.
     with_channel removeChannel c w3))"

definition handleClose :: "'z world_scheme user_code \<Rightarrow> nat \<Rightarrow> 'z world_scheme \<Rightarrow> 'z world_scheme res" where
  "handleClose user cid w =
     bindR (get_conn cid w) (\<lambda>c.
     bindR (with_channel disbaleAll c w) (\<lambda>w1.
     bindR (call_connectionCallback user cid w1) (\<lambda>w2.
     bindR (get_conn cid w2) (\<lambda>c2.
       if connCloseCallback c2 then on_close user cid w2 else Inl Bad_Function_Call))))"

definition handleError :: "os_calls \<Rightarrow> nat \<Rightarrow> 'z world_scheme \<Rightarrow> 'z world_scheme res" where
  "handleError os cid w =
     bindR (get_conn cid w) (\<lambda>c. bindR (conn_channel c w) (\<lambda>ch.
       let err = (case os_so_error os (ch_fd ch) of Inl e \<Rightarrow> e | Inr optval \<Rightarrow> optval)
       in Inr (emit [Logged_error cid err] w)))"

section \<open>Readable and writable\<close>

definition handleRead ::
  "os_calls \<Rightarrow> 'z world_scheme user_code \<Rightarrow> int \<Rightarrow> nat \<Rightarrow> 'z world_scheme \<Rightarrow> 'z world_scheme res" where
  "handleRead os user receiveTime cid w =
     bindR (get_conn cid w) (\<lambda>c. bindR (conn_channel c w) (\<lambda>ch.
     bindR (readFd (os_readv os) (ch_fd ch) (inputBuffer c)) (\<lambda>(n, savedErrno, b).
       let w1 = put_conn cid (c\<lparr>inputBuffer := b\<rparr>) w in
       if n > 0 then (case messageCallback c of
                        None \<Rightarrow> Inl Bad_Function_Call
                      | Some cb \<Rightarrow> on_message user cb cid receiveTime w1)
       else if n = 0 then handleClose user cid w1
       else handleError os cid w1)))"

text \<open>
  \<open>handleWrite\<close>: \<open>write_done\<close> is its inner part after \<open>n\<close> bytes went out.
\<close>

definition write_done :: "int \<Rightarrow> nat \<Rightarrow> tcp_connection \<Rightarrow> size_t \<Rightarrow> 'z world_scheme \<Rightarrow> 'z world_scheme res" where
  "write_done tid cid c n w =
     (let b = retrieve (outputBuffer c) n;
          w1 = put_conn cid (c\<lparr>outputBuffer := b\<rparr>) w
      in if readableBytes b = 0
         then bindR (with_channel disableWriting c w1) (\<lambda>w2.
                let w3 = (case writeCompleteCallback c of
                            Some cb \<Rightarrow> queue_on tid (c_loop c) (F_writeComplete cb cid) w2
                          | None \<Rightarrow> w2)
                in if c_state c = kDisconnected then shutdownInLoop cid w3 else Inr w3)
         else Inr w1)"

definition handleWrite :: "os_calls \<Rightarrow> int \<Rightarrow> nat \<Rightarrow> 'z world_scheme \<Rightarrow> 'z world_scheme res" where
  "handleWrite os tid cid w =
     bindR (get_conn cid w) (\<lambda>c. bindR (conn_channel c w) (\<lambda>ch.
       if isWriting ch
       then bindR (writeFd (os_write os) (ch_fd ch) (outputBuffer c)) (\<lambda>(n, savedErrno).
              if n > 0
              then write_done tid cid c (of_int n)
                     (emit [Sent (ch_fd ch) (take (nat n) (content (outputBuffer c)))] w)
              else Inr w)
       else Inr w))"

section \<open>Lemmas\<close>

lemma lens [simp]:
  "lget a (lput b l w) = (if a = b then l else lget a w)"
  "w_conns (lput b l w) = w_conns w" "w_strings (lput b l w) = w_strings w"
  "w_trace (lput b l w) = w_trace w"
  by (simp_all add: lget_def lput_def)

lemma put_conn_simps [simp]:
  "lget a (put_conn cid c w) = lget a w" "w_conns (put_conn cid c w) = (w_conns w)(cid \<mapsto> c)"
  "w_strings (put_conn cid c w) = w_strings w" "w_trace (put_conn cid c w) = w_trace w"
  by (simp_all add: lget_def put_conn_def)

lemma emit_simps [simp]:
  "lget a (emit es w) = lget a w" "w_conns (emit es w) = w_conns w"
  "w_strings (emit es w) = w_strings w" "w_trace (emit es w) = w_trace w @ es"
  by (simp_all add: lget_def emit_def)

lemma queue_on_simps [simp]:
  "poller (lget a (queue_on tid lid f w)) = poller (lget a w)"
  "threadId (lget a (queue_on tid lid f w)) = threadId (lget a w)"
  "w_conns (queue_on tid lid f w) = w_conns w" "w_strings (queue_on tid lid f w) = w_strings w"
  "w_trace (queue_on tid lid f w) = w_trace w"
  by (simp_all add: queue_on_def loop_op_defs)

lemma get_conn_Inr [simp]: "get_conn cid w = Inr c \<longleftrightarrow> w_conns w cid = Some c"
  by (auto simp: get_conn_def split: option.splits)

lemma get_conn_Some [simp]: "w_conns w cid = Some c \<Longrightarrow> get_conn cid w = Inr c"
  by simp

end
