(* ===== verification/Loop_Threads.thy ===== *)
theory Loop_Threads
  imports Event_Loop
begin

text \<open>
  Threads that run event loops: \<open>CurrentThread\<close>, \<open>Thread\<close>, \<open>EventLoopThread\<close> and
  \<open>EventLoopThreadPool\<close>. The start of a loop thread and its end are a protocol between the owner
  (\<open>startLoop\<close>, the destructor) and the new thread (the lambda of \<open>Thread::start\<close>, \<open>threadFunc\<close>),
  given as a step relation with one step per access to shared state. The pool is a record; a
  started thread contributes the loop that \<open>startLoop\<close> returned, obtained through a parameter.
\<close>

section \<open>CurrentThread and Thread\<close>

text \<open>\<open>cacheTid\<close> and \<open>tid\<close>: \<open>gettid\<close> is the answer of the system call, the result is the new cache.\<close>

definition cacheTid :: "int \<Rightarrow> int \<Rightarrow> int" where
  "cacheTid gettid t_cachedTid = (if t_cachedTid = 0 then gettid else t_cachedTid)"

definition current_tid :: "int \<Rightarrow> int \<Rightarrow> int \<times> int" where
  "current_tid gettid t_cachedTid =
     (let t = (if t_cachedTid = 0 then cacheTid gettid t_cachedTid else t_cachedTid) in (t, t))"

record thread_info =
  th_started :: bool
  th_joined :: bool
  th_tid :: int
  th_name :: string

text \<open>The counter \<open>numCreated_\<close> is passed and returned.\<close>

definition setDefaultName :: "nat \<Rightarrow> thread_info \<Rightarrow> nat \<times> thread_info" where
  "setDefaultName numCreated t =
     (let num = Suc numCreated
      in (num, if th_name t = [] then t\<lparr>th_name := ''Thread'' @ to_string num\<rparr> else t))"

definition Thread_new :: "string \<Rightarrow> nat \<Rightarrow> nat \<times> thread_info" where
  "Thread_new name numCreated =
     setDefaultName numCreated \<lparr>th_started = False, th_joined = False, th_tid = 0, th_name = name\<rparr>"

text \<open>
  \<open>start\<close> up to the creation of the native thread, the first statement of the lambda that thread runs,
  and \<open>join\<close> up to the wait. The semaphore and the waits are steps of the relation below.
\<close>

definition Thread_start :: "thread_info \<Rightarrow> thread_info" where
  [simp]: "Thread_start t = t\<lparr>th_started := True\<rparr>"

definition Thread_body :: "int \<Rightarrow> thread_info \<Rightarrow> thread_info" where
  [simp]: "Thread_body tid t = t\<lparr>th_tid := tid\<rparr>"

definition Thread_join :: "thread_info \<Rightarrow> thread_info" where
  [simp]: "Thread_join t = t\<lparr>th_joined := True\<rparr>"

text \<open>What the destructor does with the native thread.\<close>

definition Thread_detaches :: "thread_info \<Rightarrow> bool" where
  "Thread_detaches t \<longleftrightarrow> th_started t \<and> \<not> th_joined t"

section \<open>EventLoopThread\<close>

text \<open>
  Where the owner stands: before \<open>startLoop\<close>, at \<open>sem_wait\<close> in \<open>Thread::start\<close>, at \<open>cond_.wait\<close>,
  returned from \<open>startLoop\<close>; in the destructor between the test of \<open>loop_\<close> and \<open>quit\<close>, at \<open>join\<close>,
  and after it.
\<close>

datatype owner_pc = O_idle | O_semwait | O_condwait | O_have | O_quit | O_join | O_end

text \<open>
  Where the thread stands: not created, at the store of \<open>tid_\<close>, at \<open>sem_post\<close>, at the construction
  of the loop and the initialisation callback, at the publication of \<open>loop_\<close>, at the start of
  \<open>loop()\<close>, inside its \<open>while\<close>, at the reset of \<open>loop_\<close>, finished.
\<close>

datatype child_pc = T_none | T_tid | T_post | T_build | T_publish | T_enter | T_loop | T_reset | T_done

record loop_thread =
  elt_owner :: owner_pc
  elt_child :: child_pc
  elt_thread :: thread_info
  elt_sem :: nat
  elt_loop :: "nat option"
  elt_built :: bool
  elt_quit :: bool
  elt_exiting :: bool
  elt_result :: "nat option"

definition EventLoopThread_new :: "string \<Rightarrow> nat \<Rightarrow> loop_thread" where
  "EventLoopThread_new name numCreated =
     \<lparr>elt_owner = O_idle, elt_child = T_none, elt_thread = snd (Thread_new name numCreated), elt_sem = 0,
      elt_loop = None, elt_built = False, elt_quit = False, elt_exiting = False, elt_result = None\<rparr>"

text \<open>
  The steps. \<open>l\<close> is the address of the \<open>EventLoop\<close> on the thread's stack and \<open>tid\<close> the answer of
  \<open>gettid\<close>. \<open>child_loop_exit\<close> is the test of \<open>quit_\<close> that ends the loop; while it is false the loop
  goes on.
\<close>

inductive elt_step :: "int \<Rightarrow> nat \<Rightarrow> loop_thread \<Rightarrow> loop_thread \<Rightarrow> bool" for tid l where
  owner_start: "elt_owner s = O_idle \<Longrightarrow> \<not> th_started (elt_thread s) \<Longrightarrow>
    elt_step tid l s (s\<lparr>elt_owner := O_semwait, elt_child := T_tid,
      elt_thread := Thread_start (elt_thread s)\<rparr>)"
| child_tid: "elt_child s = T_tid \<Longrightarrow>
    elt_step tid l s (s\<lparr>elt_child := T_post, elt_thread := Thread_body tid (elt_thread s)\<rparr>)"
| child_post: "elt_child s = T_post \<Longrightarrow>
    elt_step tid l s (s\<lparr>elt_child := T_build, elt_sem := Suc (elt_sem s)\<rparr>)"
| owner_sem: "elt_owner s = O_semwait \<Longrightarrow> elt_sem s = Suc n \<Longrightarrow>
    elt_step tid l s (s\<lparr>elt_owner := O_condwait, elt_sem := n\<rparr>)"
| child_build: "elt_child s = T_build \<Longrightarrow>
    elt_step tid l s (s\<lparr>elt_child := T_publish, elt_built := True\<rparr>)"
| child_publish: "elt_child s = T_publish \<Longrightarrow>
    elt_step tid l s (s\<lparr>elt_child := T_enter, elt_loop := Some l\<rparr>)"
| owner_got: "elt_owner s = O_condwait \<Longrightarrow> elt_loop s = Some k \<Longrightarrow>
    elt_step tid l s (s\<lparr>elt_owner := O_have, elt_result := Some k\<rparr>)"
| child_enter: "elt_child s = T_enter \<Longrightarrow>
    elt_step tid l s (s\<lparr>elt_child := T_loop, elt_quit := False\<rparr>)"
| child_loop_exit: "elt_child s = T_loop \<Longrightarrow> elt_quit s \<Longrightarrow>
    elt_step tid l s (s\<lparr>elt_child := T_reset\<rparr>)"
| child_reset: "elt_child s = T_reset \<Longrightarrow>
    elt_step tid l s (s\<lparr>elt_child := T_done, elt_loop := None, elt_built := False\<rparr>)"
| owner_destroy: "elt_owner s \<in> {O_idle, O_have} \<Longrightarrow> elt_loop s \<noteq> None \<Longrightarrow>
    elt_step tid l s (s\<lparr>elt_owner := O_quit, elt_exiting := True\<rparr>)"
| owner_destroy_null: "elt_owner s \<in> {O_idle, O_have} \<Longrightarrow> elt_loop s = None \<Longrightarrow>
    elt_step tid l s (s\<lparr>elt_owner := O_end, elt_exiting := True\<rparr>)"
| owner_quit: "elt_owner s = O_quit \<Longrightarrow>
    elt_step tid l s (s\<lparr>elt_owner := O_join, elt_quit := True, elt_thread := Thread_join (elt_thread s)\<rparr>)"
| owner_join: "elt_owner s = O_join \<Longrightarrow> elt_child s = T_done \<Longrightarrow>
    elt_step tid l s (s\<lparr>elt_owner := O_end\<rparr>)"

inductive_cases elt_stepE: "elt_step tid l s t"

section \<open>EventLoopThreadPool\<close>

record thread_pool =
  pool_baseLoop :: nat
  pool_name :: string
  pool_started :: bool
  pool_numThreads :: int
  pool_next :: nat
  pool_threads :: "string list"
  pool_loops :: "nat list"

definition EventLoopThreadPool_new :: "nat \<Rightarrow> string \<Rightarrow> thread_pool" where
  "EventLoopThreadPool_new baseLoop nameArg =
     \<lparr>pool_baseLoop = baseLoop, pool_name = nameArg, pool_started = False, pool_numThreads = 0,
      pool_next = 0, pool_threads = [], pool_loops = []\<rparr>"

definition pool_setThreadNum :: "int \<Rightarrow> thread_pool \<Rightarrow> thread_pool" where
  "pool_setThreadNum numThreads p = p\<lparr>pool_numThreads := numThreads\<rparr>"

text \<open>
  The \<open>for\<close> loop of \<open>start\<close>: \<open>startLoop name\<close> creates an \<open>EventLoopThread\<close> of that name, starts it
  and returns its loop. \<open>threads_[i]\<close> is the thread just pushed as long as \<open>threads_\<close> was empty at
  the start; otherwise an older thread is started again.
\<close>

fun start_threads ::
  "(string \<Rightarrow> 'w \<Rightarrow> (nat \<times> 'w) res) \<Rightarrow> nat list \<Rightarrow> thread_pool \<Rightarrow> 'w \<Rightarrow> (thread_pool \<times> 'w) res" where
  "start_threads startLoop [] p w = Inr (p, w)"
| "start_threads startLoop (i # is) p w =
     (let name = pool_name p @ to_string i;
          threads = pool_threads p @ [name]
      in bindR (startLoop (threads ! i) w) (\<lambda>(loop, w1).
           start_threads startLoop is
             (p\<lparr>pool_threads := threads, pool_loops := pool_loops p @ [loop]\<rparr>) w1))"

definition pool_start ::
  "(string \<Rightarrow> 'w \<Rightarrow> (nat \<times> 'w) res) \<Rightarrow> (nat \<Rightarrow> 'w \<Rightarrow> 'w res) option \<Rightarrow> thread_pool \<Rightarrow> 'w \<Rightarrow>
   (thread_pool \<times> 'w) res" where
  "pool_start startLoop cb p w =
     bindR (start_threads startLoop [0 ..< nat (pool_numThreads p)] (p\<lparr>pool_started := True\<rparr>) w) (\<lambda>(p1, w1).
       case cb of
         Some f \<Rightarrow> if pool_numThreads p1 = 0 then bindR (f (pool_baseLoop p1) w1) (\<lambda>w2. Inr (p1, w2)) else Inr (p1, w1)
       | None \<Rightarrow> Inr (p1, w1))"

definition getNextLoop :: "thread_pool \<Rightarrow> nat \<times> thread_pool" where
  "getNextLoop p =
     (if pool_loops p \<noteq> []
      then let n = Suc (pool_next p)
           in (pool_loops p ! pool_next p, p\<lparr>pool_next := if n \<ge> length (pool_loops p) then 0 else n\<rparr>)
      else (pool_baseLoop p, p))"

definition getAllLoops :: "thread_pool \<Rightarrow> nat list" where
  "getAllLoops p = (if pool_loops p = [] then [pool_baseLoop p] else pool_loops p)"

definition pool_inv :: "thread_pool \<Rightarrow> bool" where
  "pool_inv p \<longleftrightarrow> length (pool_threads p) = length (pool_loops p) \<and>
     (if pool_loops p = [] then pool_next p = 0 else pool_next p < length (pool_loops p))"

fun next_loops :: "nat \<Rightarrow> thread_pool \<Rightarrow> nat list \<times> thread_pool" where
  "next_loops 0 p = ([], p)"
| "next_loops (Suc n) p =
     (let (l, p1) = getNextLoop p; (ls, p2) = next_loops n p1 in (l # ls, p2))"

section \<open>Lemmas\<close>

lemma getNextLoop_inv: "pool_inv p \<Longrightarrow> pool_inv (snd (getNextLoop p))"
  by (auto simp: pool_inv_def getNextLoop_def Let_def)

lemma getNextLoop_simps [simp]:
  "pool_loops (snd (getNextLoop p)) = pool_loops p"
  "pool_baseLoop (snd (getNextLoop p)) = pool_baseLoop p"
  by (simp_all add: getNextLoop_def Let_def)

lemma getNextLoop_next:
  "pool_inv p \<Longrightarrow> pool_loops p \<noteq> [] \<Longrightarrow>
   pool_next (snd (getNextLoop p)) = Suc (pool_next p) mod length (pool_loops p)"
  by (cases "Suc (pool_next p) < length (pool_loops p)")
     (auto simp: getNextLoop_def Let_def pool_inv_def not_less le_Suc_eq)

lemma next_loops_Suc:
  "fst (next_loops (Suc n) p) = fst (getNextLoop p) # fst (next_loops n (snd (getNextLoop p)))"
  "snd (next_loops (Suc n) p) = snd (next_loops n (snd (getNextLoop p)))"
  by (simp_all add: Let_def split: prod.split)

lemma next_loops_inv: "pool_inv p \<Longrightarrow> pool_inv (snd (next_loops n p))"
  by (induction n arbitrary: p) (simp_all add: next_loops_Suc(2) getNextLoop_inv del: next_loops.simps(2))

lemma next_loops_nth:
  assumes "pool_inv p" and "i < n"
  shows "fst (next_loops n p) ! i =
    (if pool_loops p = [] then pool_baseLoop p
     else pool_loops p ! ((pool_next p + i) mod length (pool_loops p)))"
  using assms
proof (induction n arbitrary: p i)
  case (Suc n)
  let ?p = "snd (getNextLoop p)"
  have eq: "fst (next_loops (Suc n) p) = fst (getNextLoop p) # fst (next_loops n ?p)"
    by (rule next_loops_Suc)
  show ?case
  proof (cases i)
    case 0
    then show ?thesis using Suc.prems(1) unfolding eq by (simp add: getNextLoop_def Let_def pool_inv_def)
  next
    case (Suc j)
    with Suc.prems have j: "j < n" by simp
    from Suc.IH [OF getNextLoop_inv [OF Suc.prems(1)] j] getNextLoop_next [OF Suc.prems(1)] Suc
    show ?thesis unfolding eq by (auto simp: mod_simps)
  qed
qed simp

lemma length_next_loops: "length (fst (next_loops n p)) = n"
  by (induction n arbitrary: p) (simp_all add: next_loops_Suc(1) del: next_loops.simps(2))

lemma start_threads_ok:
  assumes "start_threads startLoop [length (pool_threads p) ..< n] p w = Inr (p', w')"
    and "length (pool_threads p) = length (pool_loops p)" and "length (pool_threads p) \<le> n"
  shows "pool_threads p' = pool_threads p @ map (\<lambda>i. pool_name p @ to_string i) [length (pool_threads p) ..< n] \<and>
    length (pool_loops p') = n \<and> (\<exists>new. pool_loops p' = pool_loops p @ new) \<and>
    pool_next p' = pool_next p \<and> pool_baseLoop p' = pool_baseLoop p \<and> pool_numThreads p' = pool_numThreads p \<and>
    pool_started p' = pool_started p"
  using assms
proof (induction "n - length (pool_threads p)" arbitrary: p w)
  case 0
  then show ?case by simp
next
  case (Suc k)
  let ?i = "length (pool_threads p)" and ?name = "pool_name p @ to_string (length (pool_threads p))"
  have up: "[?i ..< n] = ?i # [Suc ?i ..< n]" using Suc.hyps(2) by (simp add: upt_conv_Cons)
  from Suc.prems(1) up obtain loop w1 where
    s: "startLoop ?name w = Inr (loop, w1)"
    and rest: "start_threads startLoop [Suc ?i ..< n]
      (p\<lparr>pool_threads := pool_threads p @ [?name], pool_loops := pool_loops p @ [loop]\<rparr>) w1 = Inr (p', w')"
    by (auto simp: Let_def bindR_eq_Inr)
  let ?p = "p\<lparr>pool_threads := pool_threads p @ [?name], pool_loops := pool_loops p @ [loop]\<rparr>"
  have "pool_threads p' = pool_threads ?p @ map (\<lambda>i. pool_name ?p @ to_string i) [length (pool_threads ?p) ..< n] \<and>
    length (pool_loops p') = n \<and> (\<exists>new. pool_loops p' = pool_loops ?p @ new) \<and>
    pool_next p' = pool_next ?p \<and> pool_baseLoop p' = pool_baseLoop ?p \<and> pool_numThreads p' = pool_numThreads ?p \<and>
    pool_started p' = pool_started ?p"
    by (rule Suc.hyps(1)) (use rest Suc.prems Suc.hyps(2) in simp_all)
  then show ?case using up by auto
qed

subsection \<open>The start and the end of a loop thread\<close>

definition elt_init :: "loop_thread \<Rightarrow> bool" where
  "elt_init s \<longleftrightarrow> (\<exists>name k. s = EventLoopThread_new name k)"

text \<open>Which positions of the two go together.\<close>

fun phases :: "owner_pc \<Rightarrow> child_pc \<Rightarrow> bool" where
  "phases O_idle c \<longleftrightarrow> c = T_none"
| "phases O_semwait c \<longleftrightarrow> c \<in> {T_tid, T_post, T_build, T_publish, T_enter, T_loop}"
| "phases O_condwait c \<longleftrightarrow> c \<in> {T_build, T_publish, T_enter, T_loop}"
| "phases O_have c \<longleftrightarrow> c \<in> {T_enter, T_loop}"
| "phases O_quit c \<longleftrightarrow> c \<in> {T_enter, T_loop}"
| "phases O_join c \<longleftrightarrow> c \<in> {T_enter, T_loop, T_reset, T_done}"
| "phases O_end c \<longleftrightarrow> c \<in> {T_none, T_done}"

definition elt_inv :: "int \<Rightarrow> nat \<Rightarrow> loop_thread \<Rightarrow> bool" where
  "elt_inv tid l s \<longleftrightarrow> phases (elt_owner s) (elt_child s) \<and>
     (th_started (elt_thread s) \<longleftrightarrow> elt_child s \<noteq> T_none) \<and>
     (elt_child s \<notin> {T_none, T_tid} \<longrightarrow> th_tid (elt_thread s) = tid) \<and>
     elt_sem s = (if elt_owner s = O_semwait \<and> elt_child s \<notin> {T_tid, T_post} then 1 else 0) \<and>
     elt_loop s = (if elt_child s \<in> {T_enter, T_loop, T_reset} then Some l else None) \<and>
     (elt_built s \<longleftrightarrow> elt_child s \<in> {T_publish, T_enter, T_loop, T_reset}) \<and>
     (elt_owner s \<in> {O_have, O_quit, O_join} \<longrightarrow> elt_result s = Some l) \<and>
     (elt_quit s \<longrightarrow> elt_owner s \<in> {O_join, O_end})"

lemma elt_init_inv: "elt_init s \<Longrightarrow> elt_inv tid l s"
  by (auto simp: elt_init_def elt_inv_def EventLoopThread_new_def Thread_new_def setDefaultName_def Let_def split: if_splits)

lemma elt_step_inv:
  assumes "elt_inv tid l s" and "elt_step tid l s t"
  shows "elt_inv tid l t"
  using assms(2,1) unfolding elt_inv_def
  by (cases rule: elt_step.cases; cases "elt_owner s"; simp; cases "elt_child s"; simp)

interpretation elt: invariant_system elt_init "elt_step tid l" "elt_inv tid l" for tid l
  by unfold_locales (auto intro: elt_init_inv elt_step_inv)

text \<open>From every point between the creation of the thread and its loop, the publication is reached.\<close>

lemma elt_publishes:
  assumes inv: "elt_inv tid l s" and w: "elt_owner s \<in> {O_semwait, O_condwait}"
  shows "\<exists>t. (elt_step tid l)\<^sup>*\<^sup>* s t \<and> elt_owner t = elt_owner s \<and> elt_child t \<in> {T_enter, T_loop} \<and> elt_inv tid l t"
proof -
  have c: "elt_child s \<in> {T_tid, T_post, T_build, T_publish, T_enter, T_loop}"
    using inv w by (auto simp: elt_inv_def)
  define s1 where "s1 = (if elt_child s = T_tid
    then s\<lparr>elt_child := T_post, elt_thread := (elt_thread s)\<lparr>th_tid := tid\<rparr>\<rparr> else s)"
  define s2 where "s2 = (if elt_child s1 = T_post then s1\<lparr>elt_child := T_build, elt_sem := Suc (elt_sem s1)\<rparr> else s1)"
  define s3 where "s3 = (if elt_child s2 = T_build then s2\<lparr>elt_child := T_publish, elt_built := True\<rparr> else s2)"
  define s4 where "s4 = (if elt_child s3 = T_publish then s3\<lparr>elt_child := T_enter, elt_loop := Some l\<rparr> else s3)"
  have "(elt_step tid l)\<^sup>*\<^sup>* s s1" using r_into_rtranclp [of "elt_step tid l", OF child_tid] by (simp add: s1_def)
  moreover have "(elt_step tid l)\<^sup>*\<^sup>* s1 s2"
    using r_into_rtranclp [of "elt_step tid l", OF child_post] by (simp add: s2_def)
  moreover have "(elt_step tid l)\<^sup>*\<^sup>* s2 s3"
    using r_into_rtranclp [of "elt_step tid l", OF child_build] by (simp add: s3_def)
  moreover have "(elt_step tid l)\<^sup>*\<^sup>* s3 s4"
    using r_into_rtranclp [of "elt_step tid l", OF child_publish] by (simp add: s4_def)
  ultimately have all: "(elt_step tid l)\<^sup>*\<^sup>* s s4" by (meson rtranclp_trans)
  moreover have "elt_owner s4 = elt_owner s" "elt_child s4 \<in> {T_enter, T_loop}"
    using c by (auto simp: s1_def s2_def s3_def s4_def)
  ultimately show ?thesis using elt.steps_inv [OF all inv] by blast
qed

section \<open>Properties\<close>

text \<open>
  \<open>startLoop\<close> returns a usable loop: whenever it has returned and the destructor has not begun,
  the pointer it returned is the address of the loop the thread built, that loop is published and
  alive, and the thread's id is recorded.
\<close>

theorem startLoop_usable:
  assumes "reach elt_init (elt_step tid l) s" and "elt_owner s = O_have"
  shows "elt_result s = Some l \<and> elt_loop s = Some l \<and> elt_built s \<and> th_started (elt_thread s) \<and>
    th_tid (elt_thread s) = tid"
  using elt.reach_inv [OF assms(1)] assms(2) by (auto simp: elt_inv_def)

text \<open>The state after a complete start, with the thread about to enter \<open>loop()\<close>.\<close>

definition elt_entering :: loop_thread where
  "elt_entering = (EventLoopThread_new ''sub0'' 0)\<lparr>elt_owner := O_have, elt_child := T_enter,
     elt_thread := \<lparr>th_started = True, th_joined = False, th_tid = 12, th_name = ''sub0''\<rparr>,
     elt_loop := Some 3, elt_built := True, elt_result := Some 3\<rparr>"

lemma elt_entering_reach: "reach elt_init (elt_step 12 3) elt_entering"
proof -
  let ?R = "reach elt_init (elt_step 12 3)"
  let ?s0 = "EventLoopThread_new ''sub0'' 0"
  have s0: "?R ?s0" by (rule reach_init) (auto simp: elt_init_def)
  have s1: "?R (?s0\<lparr>elt_owner := O_semwait, elt_child := T_tid, elt_thread := Thread_start (elt_thread ?s0)\<rparr>)"
    by (rule reach_step [OF s0 owner_start]) (simp_all add: EventLoopThread_new_def Thread_new_def setDefaultName_def Let_def)
  note s2 = reach_step [OF s1 child_tid, simplified]
  note s3 = reach_step [OF s2 child_post, simplified]
  have "elt_sem ?s0 = 0" by (simp add: EventLoopThread_new_def)
  note s4 = reach_step [OF s3 owner_sem, of 0, simplified, simplified this]
  note s5 = reach_step [OF s4 child_build, simplified]
  note s6 = reach_step [OF s5 child_publish, simplified]
  note s7 = reach_step [OF s6 owner_got, of 3, simplified]
  from s7 show ?thesis
    by (simp add: elt_entering_def EventLoopThread_new_def Thread_new_def setDefaultName_def Let_def)
qed

theorem startLoop_usable_witness:
  "elt_result elt_entering = Some 3 \<and> elt_loop elt_entering = Some 3 \<and> elt_built elt_entering \<and>
   th_started (elt_thread elt_entering) \<and> th_tid (elt_thread elt_entering) = 12"
  by (rule startLoop_usable [OF elt_entering_reach]) (simp add: elt_entering_def)



text \<open>
  The destructor of \<open>EventLoopThread\<close> can hang: if it runs after the loop is published but
  before the thread enters \<open>loop()\<close>, then \<open>loop()\<close> resets \<open>quit_\<close>, and from there on no sequence of
  steps ends the thread or lets \<open>join\<close> return. If \<open>loop()\<close> has been entered, \<open>quit\<close> is effective
  and the destructor can finish.
\<close>

theorem quit_before_loop_is_lost:
  "(\<exists>s. reach elt_init (elt_step 12 3) s \<and> elt_owner s = O_join \<and>
     (\<forall>t. (elt_step 12 3)\<^sup>*\<^sup>* s t \<longrightarrow> elt_owner t = O_join \<and> elt_child t = T_loop)) \<and>
   (\<exists>s. reach elt_init (elt_step 12 3) s \<and> elt_owner s = O_end \<and> th_joined (elt_thread s))"
proof -
  let ?R = "reach elt_init (elt_step 12 3)"
  have e: "elt_owner elt_entering = O_have" "elt_child elt_entering = T_enter" "elt_loop elt_entering = Some 3"
    by (simp_all add: elt_entering_def)
  let ?q = "elt_entering\<lparr>elt_owner := O_quit, elt_exiting := True\<rparr>"
  have q: "?R ?q" by (rule reach_step [OF elt_entering_reach owner_destroy]) (simp_all add: e)
  let ?j = "?q\<lparr>elt_owner := O_join, elt_quit := True, elt_thread := Thread_join (elt_thread ?q)\<rparr>"
  have j: "?R ?j" by (rule reach_step [OF q owner_quit]) simp
  let ?s = "?j\<lparr>elt_child := T_loop, elt_quit := False\<rparr>"
  have s: "?R ?s" by (rule reach_step [OF j child_enter]) (simp add: e)
  have stuck: "elt_owner t = O_join \<and> elt_child t = T_loop \<and> \<not> elt_quit t" if "(elt_step 12 3)\<^sup>*\<^sup>* ?s t" for t
    using that by (induction rule: rtranclp_induct) (auto elim: elt_stepE)
  let ?a = "elt_entering\<lparr>elt_child := T_loop, elt_quit := False\<rparr>"
  have a: "?R ?a" by (rule reach_step [OF elt_entering_reach child_enter]) (simp add: e)
  have b: "?R (?a\<lparr>elt_owner := O_quit, elt_exiting := True\<rparr>)"
    by (rule reach_step [OF a owner_destroy]) (simp_all add: e)
  note c = reach_step [OF b owner_quit, simplified]
  note d = reach_step [OF c child_loop_exit, simplified]
  note f = reach_step [OF d child_reset, simplified]
  note g = reach_step [OF f owner_join, simplified]
  have "\<exists>s. ?R s \<and> elt_owner s = O_end \<and> th_joined (elt_thread s)"
    by (rule exI, rule conjI, rule g) simp
  moreover have "elt_owner ?s = O_join" by simp
  ultimately show ?thesis using s stuck by blast
qed

theorem quit_before_loop_is_lost_witness:
  "\<exists>s. reach elt_init (elt_step 12 3) s \<and> elt_owner s = O_join \<and> (\<forall>t. elt_step 12 3 s t \<longrightarrow> elt_owner t = O_join)"
  using quit_before_loop_is_lost by blast

text \<open>
  Connections are spread round robin: the \<open>i\<close>-th of \<open>n\<close> calls of \<open>getNextLoop\<close> returns the loop
  \<open>i\<close> places after the current position, cyclically, always one of \<open>getAllLoops\<close>; without threads it
  is always the base loop. The position stays within the list.
\<close>

theorem getNextLoop_round_robin:
  assumes "pool_inv p"
  shows "(\<forall>i < n. fst (next_loops n p) ! i =
      getAllLoops p ! (if pool_loops p = [] then 0 else (pool_next p + i) mod length (pool_loops p)) \<and>
      fst (next_loops n p) ! i \<in> set (getAllLoops p)) \<and> pool_inv (snd (next_loops n p))"
proof -
  have "(pool_next p + i) mod length (pool_loops p) < length (pool_loops p)" if "pool_loops p \<noteq> []" for i
    using that by simp
  then show ?thesis
    using next_loops_nth [OF assms] next_loops_inv [OF assms] by (simp add: getAllLoops_def)
qed

theorem getNextLoop_round_robin_witness:
  "fst (next_loops 4 ((EventLoopThreadPool_new 0 ''s'')\<lparr>pool_loops := [5, 6, 7], pool_threads := [''a'', ''b'', ''c'']\<rparr>)) ! 3 = 5"
proof -
  let ?p = "(EventLoopThreadPool_new 0 ''s'')\<lparr>pool_loops := [5, 6, 7], pool_threads := [''a'', ''b'', ''c'']\<rparr>"
  have "pool_inv ?p" by (simp add: pool_inv_def EventLoopThreadPool_new_def)
  from getNextLoop_round_robin [OF this, of 4] show ?thesis
    by (simp add: EventLoopThreadPool_new_def getAllLoops_def)
qed

text \<open>
  \<open>EventLoopThreadPool::start\<close> on a new pool of \<open>n\<close> threads, when every thread starts, yields
  exactly \<open>n\<close> threads named after the pool and their index and \<open>n\<close> loops, in a state from which
  \<open>getNextLoop\<close> distributes; \<open>n = 0\<close> leaves only the base loop.
\<close>

theorem pool_start_creates:
  assumes "pool_start startLoop cb (pool_setThreadNum n (EventLoopThreadPool_new base name)) w = Inr (p, w')"
  shows "pool_started p \<and> length (pool_loops p) = nat n \<and>
    pool_threads p = map (\<lambda>i. name @ to_string i) [0 ..< nat n] \<and> pool_inv p \<and>
    (n \<le> 0 \<longrightarrow> getAllLoops p = [base])"
proof -
  let ?p = "(pool_setThreadNum n (EventLoopThreadPool_new base name))\<lparr>pool_started := True\<rparr>"
  from assms obtain w1 where st: "start_threads startLoop [0 ..< nat n] ?p w = Inr (p, w1)"
    by (auto simp: pool_start_def bindR_eq_Inr pool_setThreadNum_def split: option.splits if_splits)
  have z: "length (pool_threads ?p) = 0" by (simp add: pool_setThreadNum_def EventLoopThreadPool_new_def)
  have "start_threads startLoop [length (pool_threads ?p) ..< nat n] ?p w = Inr (p, w1)"
    using st unfolding z .
  from start_threads_ok [OF this] show ?thesis
    by (cases "n \<le> 0") (auto simp: pool_setThreadNum_def EventLoopThreadPool_new_def pool_inv_def getAllLoops_def)
qed

theorem pool_start_creates_witness:
  "\<exists>p w'. pool_start (\<lambda>s w. Inr (length s + w, Suc w)) None
       (pool_setThreadNum 2 (EventLoopThreadPool_new 0 ''s'')) 8 = Inr (p, w') \<and>
     length (pool_loops p) = 2 \<and> pool_threads p = [''s0'', ''s1'']"
proof -
  let ?s = "\<lambda>s w. Inr (length s + w, Suc w)"
  have t: "to_string 0 = ''0''" "to_string (Suc 0) = ''1''"
    by code_simp+
  obtain p w' where p: "pool_start ?s None (pool_setThreadNum 2 (EventLoopThreadPool_new 0 ''s'')) 8 = Inr (p, w')"
    by (simp add: pool_start_def pool_setThreadNum_def EventLoopThreadPool_new_def upt_rec Let_def t)
  from pool_start_creates [OF p] have "length (pool_loops p) = 2" "pool_threads p = [''s0'', ''s1'']"
    by (simp_all add: upt_rec t)
  with p show ?thesis by blast
qed

end
