(* ===== verification/Tcp_Server.thy ===== *)
theory Tcp_Server
  imports Tcp_Connection Loop_Threads
begin

text \<open>
  The server: \<open>Acceptor\<close>, \<open>TcpServer\<close> and the example \<open>EchoServer\<close> of \<open>src/testserver.cpp\<close>. The state
  \<open>server_world\<close> extends the world of connections and loops with the server's members. \<open>exec_functor\<close>
  and \<open>call_callback\<close> dispatch the queued functors and the channel callbacks to the functions the
  source binds, and \<open>server_round\<close> is one round of a loop of the server. A connection is owned by
  the shared pointers in \<open>connections_\<close> and in the queued functors; \<open>release\<close> destroys the ones
  nobody owns at the end of a round, which is where the vector of executed functors is destroyed.
  Functors that bind \<open>this\<close> do not own.
\<close>

section \<open>State\<close>

record acceptor =
  acc_sockfd :: int
  acc_channel :: nat
  acc_listenning :: bool
  acc_callback :: bool

record server_world = world +
  s_loop :: nat
  s_ipPort :: string
  s_name :: string
  s_acceptor :: acceptor
  s_pool :: thread_pool
  s_connectionCallback :: "nat option"
  s_messageCallback :: "nat option"
  s_writeCompleteCallback :: "nat option"
  s_threadInitCallback :: "nat option"
  s_started :: int
  s_nextConnId :: int
  s_connections :: "string \<rightharpoonup> nat"
  s_fresh :: nat

text \<open>
  The system calls of the server, and which loggers are registered. \<open>os_client_len\<close> is the value of the uninitialised length in
  \<open>Socket::Accept\<close>; \<open>os_gettid\<close> and \<open>os_eventfd\<close> answer for the loop of the given number.
\<close>

record server_os = os_calls +
  os_socket :: int
  os_accept4 :: "int \<Rightarrow> nat \<Rightarrow> errno + (int \<times> inet_address)"
  os_client_len :: nat
  os_getsockname :: "int \<Rightarrow> errno + inet_address"
  os_gettid :: "nat \<Rightarrow> int"
  os_eventfd :: "nat \<Rightarrow> int"
  os_use_poll :: bool
  os_inet_addr :: "string \<Rightarrow> 32 word"
  os_has_logger :: "string \<Rightarrow> bool"

type_synonym server_code = "server_world user_code"

section \<open>Acceptor\<close>

text \<open>The constructor; it does not use \<open>reuseport\<close>.\<close>

definition Acceptor_new :: "int \<Rightarrow> nat \<Rightarrow> nat \<Rightarrow> inet_address \<Rightarrow> bool \<Rightarrow> server_world \<Rightarrow> server_world" where
  "Acceptor_new sockfd ptr lid listenAddr reuseport w =
     (let ch = setReadCallback Cb_accept (Channel_new lid sockfd);
          l = lget lid w
      in emit (map Sock (setReuseAddr True sockfd @ setReusePort True sockfd @ bindAddress sockfd listenAddr))
           ((lput lid (l\<lparr>poller := store ptr ch (poller l)\<rparr>) w)
              \<lparr>s_acceptor := \<lparr>acc_sockfd = sockfd, acc_channel = ptr, acc_listenning = False, acc_callback = False\<rparr>\<rparr>))"

definition with_accept_channel ::
  "(nat \<Rightarrow> callback_t epoll_poller \<Rightarrow> callback_t epoll_poller res) \<Rightarrow> server_world \<Rightarrow> server_world res" where
  "with_accept_channel f w =
     bindR (f (acc_channel (s_acceptor w)) (poller (lget (s_loop w) w))) (\<lambda>p.
       Inr (lput (s_loop w) ((lget (s_loop w) w)\<lparr>poller := p\<rparr>) w))"

definition setNewConnectionCallback :: "server_world \<Rightarrow> server_world" where
  [simp]: "setNewConnectionCallback w = w\<lparr>s_acceptor := (s_acceptor w)\<lparr>acc_callback := True\<rparr>\<rparr>"

text \<open>The destructor; its members free the channel and close the descriptor.\<close>

definition Acceptor_destroy :: "server_world \<Rightarrow> server_world res" where
  "Acceptor_destroy w =
     bindR (with_accept_channel disbaleAll w) (\<lambda>w1.
     bindR (with_accept_channel removeChannel w1) (\<lambda>w2.
       let a = s_acceptor w2; l = lget (s_loop w2) w2; p = poller l in
       Inr (emit (map Sock (Socket_destroy (acc_sockfd a)))
         (lput (s_loop w2) (l\<lparr>poller := p\<lparr>chan_heap := (chan_heap p)(acc_channel a := None)\<rparr>\<rparr>) w2))))"

definition Acceptor_listen :: "server_world \<Rightarrow> server_world res" where
  "Acceptor_listen w =
     (let a = s_acceptor w;
          w1 = emit (map Sock (Socket_Listen (acc_sockfd a))) (w\<lparr>s_acceptor := a\<lparr>acc_listenning := True\<rparr>\<rparr>)
      in with_accept_channel enableReading w1)"

section \<open>TcpServer\<close>

definition removeConnectionInLoop :: "int \<Rightarrow> nat \<Rightarrow> server_world \<Rightarrow> server_world res" where
  "removeConnectionInLoop tid cid w =
     bindR (get_conn cid w) (\<lambda>c.
       Inr (queue_on tid (c_loop c) (F_connectDestroyed cid)
              (w\<lparr>s_connections := (s_connections w)(c_name c := None)\<rparr>)))"

definition removeConnection :: "int \<Rightarrow> nat \<Rightarrow> server_world \<Rightarrow> server_world res" where
  "removeConnection tid cid w =
     runInLoop (lget (s_loop w)) (lput (s_loop w)) (\<lambda>f. removeConnectionInLoop tid cid) tid
       (F_removeConnectionInLoop cid) w"

text \<open>The application's code with the close callback the server sets.\<close>

definition server_user :: "int \<Rightarrow> server_code \<Rightarrow> server_code" where
  "server_user tid user = user\<lparr>on_close := removeConnection tid\<rparr>"

text \<open>
  \<open>InetAddress localAddr(local)\<close> with \<open>local\<close> zeroed when \<open>getsockname\<close> fails; the failure is
  logged through the logger \<open>asyclogger\<close>, whose pointer is null when no logger has this name.
\<close>

definition local_address :: "server_os \<Rightarrow> int \<Rightarrow> inet_address res" where
  "local_address os sockfd =
     (case os_getsockname os sockfd of
        Inr a \<Rightarrow> Inr a
      | Inl e \<Rightarrow> if os_has_logger os ''asyclogger'' then Inr \<lparr>sin_family = 0, sin_port = 0, s_addr = 0\<rparr>
                 else Inl Null_Deref)"

definition newConnection ::
  "server_os \<Rightarrow> server_code \<Rightarrow> int \<Rightarrow> int \<Rightarrow> inet_address \<Rightarrow> server_world \<Rightarrow> server_world res" where
  "newConnection os user tid sockfd peerAddr w =
     (let (ioLoop, pool1) = getNextLoop (s_pool w);
          connName = s_name w @ ''-'' @ s_ipPort w @ to_string (nat (s_nextConnId w));
          cid = s_fresh w
      in if s_nextConnId w \<ge> 2 ^ 31 - 1 then Inl Int_Overflow
         else bindR (local_address os sockfd) (\<lambda>localAddr.
           let w1 = w\<lparr>s_pool := pool1, s_nextConnId := s_nextConnId w + 1, s_fresh := Suc (Suc cid)\<rparr>;
               w2 = TcpConnection_new cid (Suc cid) ioLoop connName sockfd localAddr peerAddr w1;
               w3 = w2\<lparr>s_connections := (s_connections w2)(connName \<mapsto> cid)\<rparr>
           in bindR (get_conn cid w3) (\<lambda>c.
                let w4 = put_conn cid (conn_setCloseCallback
                           (setWriteCompleteCallback (s_writeCompleteCallback w)
                             (setMessageCallback (s_messageCallback w)
                               (setConnectionCallback (s_connectionCallback w) c)))) w3
                in runInLoop (lget ioLoop) (lput ioLoop) (\<lambda>f. connectEstablished (server_user tid user) cid) tid
                     (F_connectEstablished cid) w4)))"

definition Acceptor_handleRead ::
  "server_os \<Rightarrow> server_code \<Rightarrow> int \<Rightarrow> server_world \<Rightarrow> server_world res" where
  "Acceptor_handleRead os user tid w =
     (let a = s_acceptor w;
          (connfd, peerAddr) =
            Socket_Accept (os_accept4 os) (os_client_len os) (acc_sockfd a)
              (InetAddress_new (os_inet_addr os) 0 ''127.0.0.1'')
      in if connfd \<ge> 0
         then if acc_callback a then newConnection os user tid connfd peerAddr w
              else Inr (emit (map Sock (Socket_destroy connfd)) w)
         else Inr w)"

text \<open>Dispatch of queued functors and of channel callbacks.\<close>

definition exec_functor ::
  "server_os \<Rightarrow> server_code \<Rightarrow> int \<Rightarrow> functor_t \<Rightarrow> server_world \<Rightarrow> server_world res" where
  "exec_functor os user tid f w =
     (case f of
        F_sendInLoop cid ptr len \<Rightarrow> run_sendInLoop (os_calls.truncate os) tid cid ptr len w
      | F_shutdownInLoop cid \<Rightarrow> shutdownInLoop cid w
      | F_sendFileInLoop cid fd off count \<Rightarrow> sendFileInLoop (os_calls.truncate os) tid cid fd off count w
      | F_writeComplete cb cid \<Rightarrow> on_writeComplete user cb cid w
      | F_highWaterMark cb cid n \<Rightarrow>
          (case cb of None \<Rightarrow> Inl Bad_Function_Call | Some g \<Rightarrow> on_highWaterMark user g cid n w)
      | F_connectEstablished cid \<Rightarrow> connectEstablished (server_user tid user) cid w
      | F_connectDestroyed cid \<Rightarrow> connectDestroyed (server_user tid user) cid w
      | F_removeConnectionInLoop cid \<Rightarrow> removeConnectionInLoop tid cid w
      | F_listen \<Rightarrow> Acceptor_listen w)"

definition call_callback ::
  "server_os \<Rightarrow> server_code \<Rightarrow> int \<Rightarrow> int \<Rightarrow> callback_t \<Rightarrow> server_world \<Rightarrow> server_world res" where
  "call_callback os user tid now cb w =
     (case cb of
        Cb_wakeup lid \<Rightarrow> Inr (lput lid (EventLoop_handleRead (lget lid w)) w)
      | Cb_accept \<Rightarrow> Acceptor_handleRead os user tid w
      | Cb_handleRead cid \<Rightarrow> handleRead (os_calls.truncate os) (server_user tid user) now cid w
      | Cb_handleWrite cid \<Rightarrow> handleWrite (os_calls.truncate os) tid cid w
      | Cb_handleClose cid \<Rightarrow> handleClose (server_user tid user) cid w
      | Cb_handleError cid \<Rightarrow> handleError (os_calls.truncate os) cid w)"

definition handle_channel ::
  "server_os \<Rightarrow> server_code \<Rightarrow> int \<Rightarrow> int \<Rightarrow> nat \<Rightarrow> nat \<Rightarrow> server_world \<Rightarrow> server_world res" where
  "handle_channel os user tid now lid ptr =
     handleEvent (\<lambda>w. deref ptr (poller (lget lid w))) (\<lambda>cid w. w_conns w cid \<noteq> None)
       (call_callback os user tid now)"

text \<open>Shared ownership of connections.\<close>

fun functor_owns :: "nat \<Rightarrow> functor_t \<Rightarrow> bool" where
  "functor_owns cid (F_sendFileInLoop c fd off n) = (c = cid)"
| "functor_owns cid (F_writeComplete cb c) = (c = cid)"
| "functor_owns cid (F_highWaterMark cb c n) = (c = cid)"
| "functor_owns cid (F_connectEstablished c) = (c = cid)"
| "functor_owns cid (F_connectDestroyed c) = (c = cid)"
| "functor_owns cid (F_removeConnectionInLoop c) = (c = cid)"
| "functor_owns cid f = False"

definition owned :: "nat \<Rightarrow> tcp_connection \<Rightarrow> server_world \<Rightarrow> bool" where
  "owned cid c w \<longleftrightarrow> s_connections w (c_name c) = Some cid \<or>
     list_ex (\<lambda>lid. list_ex (functor_owns cid) (pendingFunctors (lget lid w))) (s_loop w # pool_loops (s_pool w))"

fun release_conns :: "nat list \<Rightarrow> server_world \<Rightarrow> server_world res" where
  "release_conns [] w = Inr w"
| "release_conns (cid # cids) w =
     (case w_conns w cid of
        Some c \<Rightarrow> if owned cid c w then release_conns cids w
                  else bindR (TcpConnection_destroy cid w) (release_conns cids)
      | None \<Rightarrow> release_conns cids w)"

definition release :: "server_world \<Rightarrow> server_world res" where
  "release w = release_conns [0 ..< s_fresh w] w"

definition server_round ::
  "server_os \<Rightarrow> server_code \<Rightarrow> nat \<Rightarrow> (nat \<Rightarrow> errno + (c_int \<times> nat) list) \<Rightarrow> int \<Rightarrow> server_world \<Rightarrow> server_world res" where
  "server_round os user lid wait now w =
     (let tid = threadId (lget lid w) in
      bindR (loop_round (lget lid) (lput lid) (exec_functor os user tid)
               (handle_channel os user tid now lid) wait now w) release)"

text \<open>
  The descriptors of a loop and of the listening socket: the answers of \<open>eventfd\<close> and \<open>socket\<close>. A failure is logged as
  fatal and returned all the same.
\<close>

definition createEventfd :: "server_os \<Rightarrow> nat \<Rightarrow> int" where
  [simp]: "createEventfd os lid = os_eventfd os lid"

definition createNonblocking :: "server_os \<Rightarrow> int" where
  [simp]: "createNonblocking os = os_socket os"

text \<open>\<open>EventLoopThread::startLoop\<close> for the pool: the loop on the new thread's stack, initialised.\<close>

definition start_loop_thread ::
  "server_os \<Rightarrow> server_code \<Rightarrow> string \<Rightarrow> server_world \<Rightarrow> (nat \<times> server_world) res" where
  "start_loop_thread os user name w =
     (let lid = s_fresh w; ptr = Suc lid in
      bindR (EventLoop_new (os_use_poll os) (os_gettid os lid) (createEventfd os lid) ptr (Cb_wakeup lid) lid None) (\<lambda>(t, l).
      let w1 = lput lid l (w\<lparr>s_fresh := Suc (Suc lid)\<rparr>) in
      bindR (case s_threadInitCallback w of None \<Rightarrow> Inr w1 | Some cb \<Rightarrow> on_threadInit user cb lid w1) (\<lambda>w2.
      Inr (lid, w2))))"

definition TcpServer_new ::
  "server_os \<Rightarrow> nat \<Rightarrow> inet_address \<Rightarrow> string \<Rightarrow> bool \<Rightarrow> world \<Rightarrow> nat \<Rightarrow> server_world res" where
  "TcpServer_new os lid listenAddr nameArg reusePort w fresh =
     bindR (toIpPort listenAddr) (\<lambda>ipPort.
       let w0 = world.extend w
             (server_world.fields lid ipPort nameArg
                \<lparr>acc_sockfd = 0, acc_channel = 0, acc_listenning = False, acc_callback = False\<rparr>
                (EventLoopThreadPool_new lid nameArg) None None None None 0 1 Map.empty (Suc fresh));
           w1 = Acceptor_new (createNonblocking os) fresh lid listenAddr reusePort w0
       in Inr (setNewConnectionCallback w1))"

definition server_setThreadInitCallback :: "nat option \<Rightarrow> server_world \<Rightarrow> server_world" where
  [simp]: "server_setThreadInitCallback cb w = w\<lparr>s_threadInitCallback := cb\<rparr>"

definition server_setConnectionCallback :: "nat option \<Rightarrow> server_world \<Rightarrow> server_world" where
  [simp]: "server_setConnectionCallback cb w = w\<lparr>s_connectionCallback := cb\<rparr>"

definition server_setMessageCallback :: "nat option \<Rightarrow> server_world \<Rightarrow> server_world" where
  [simp]: "server_setMessageCallback cb w = w\<lparr>s_messageCallback := cb\<rparr>"

definition server_setWriteCompleteCallbakc :: "nat option \<Rightarrow> server_world \<Rightarrow> server_world" where
  [simp]: "server_setWriteCompleteCallbakc cb w = w\<lparr>s_writeCompleteCallback := cb\<rparr>"

text \<open>\<open>setThreadNum\<close> sets a local variable with the member's name; only the pool learns the number.\<close>

definition TcpServer_setThreadNum :: "int \<Rightarrow> server_world \<Rightarrow> server_world" where
  "TcpServer_setThreadNum numThreads w = w\<lparr>s_pool := pool_setThreadNum numThreads (s_pool w)\<rparr>"

definition TcpServer_start :: "server_os \<Rightarrow> server_code \<Rightarrow> int \<Rightarrow> server_world \<Rightarrow> server_world res" where
  "TcpServer_start os user tid w =
     (let w0 = w\<lparr>s_started := s_started w + 1\<rparr> in
      if s_started w = 0
      then bindR (pool_start (start_loop_thread os user)
                    (map_option (on_threadInit user) (s_threadInitCallback w)) (s_pool w0) w0) (\<lambda>(p, w1).
             let w2 = w1\<lparr>s_pool := p\<rparr> in
             runInLoop (lget (s_loop w2)) (lput (s_loop w2)) (\<lambda>f. Acceptor_listen) tid F_listen w2)
      else Inr w0)"

text \<open>The destructor; \<open>order\<close> is the iteration order of the hash map.\<close>

fun destroy_conns :: "server_code \<Rightarrow> int \<Rightarrow> string list \<Rightarrow> server_world \<Rightarrow> server_world res" where
  "destroy_conns user tid [] w = Inr w"
| "destroy_conns user tid (name # names) w =
     (case s_connections w name of
        None \<Rightarrow> destroy_conns user tid names w
      | Some cid \<Rightarrow>
          bindR (get_conn cid w) (\<lambda>c.
          bindR (runInLoop (lget (c_loop c)) (lput (c_loop c))
                   (\<lambda>f. connectDestroyed (server_user tid user) cid) tid (F_connectDestroyed cid)
                   (w\<lparr>s_connections := (s_connections w)(name := None)\<rparr>)) (\<lambda>w1.
          bindR (release w1) (destroy_conns user tid names))))"

text \<open>
  The members go after the body: the thread pool, whose \<open>EventLoopThread\<close>s tell their loops to quit (the
  joining is in \<open>Loop_Threads\<close>), then the acceptor.
\<close>

fun quit_loops :: "int \<Rightarrow> nat list \<Rightarrow> server_world \<Rightarrow> server_world" where
  "quit_loops tid [] w = w"
| "quit_loops tid (lid # lids) w = quit_loops tid lids (lput lid (EventLoop_quit tid (lget lid w)) w)"

definition TcpServer_destroy :: "server_code \<Rightarrow> int \<Rightarrow> string list \<Rightarrow> server_world \<Rightarrow> server_world res" where
  "TcpServer_destroy user tid order w =
     bindR (destroy_conns user tid order w) (\<lambda>w1.
       Acceptor_destroy (quit_loops tid (pool_loops (s_pool w1)) w1))"

section \<open>EchoServer\<close>

text \<open>
  \<open>onMessage\<close>: \<open>msg\<close> is a local string; its characters live at a fresh address until the function
  returns. \<open>ptr\<close> is the address of the characters. \<open>onConnection\<close> only logs the line \<open>connection_line\<close>.
\<close>

definition connection_line :: "tcp_connection \<Rightarrow> string res" where
  "connection_line c =
     bindR (toIpPort (c_peerAddr c)) (\<lambda>s.
       Inr ((if connected c then ''Connection UP : '' else ''Connection DOWN : '') @ s))"

definition EchoServer_onConnection :: "nat \<Rightarrow> 'z world_scheme \<Rightarrow> 'z world_scheme res" where
  "EchoServer_onConnection cid w =
     bindR (get_conn cid w) (\<lambda>c. bindR (connection_line c) (\<lambda>line. Inr w))"

definition EchoServer_onMessage ::
  "os_calls \<Rightarrow> int \<Rightarrow> nat \<Rightarrow> nat \<Rightarrow> 'z world_scheme \<Rightarrow> 'z world_scheme res" where
  "EchoServer_onMessage os tid ptr cid w =
     bindR (get_conn cid w) (\<lambda>c.
     bindR (retrieveAllAsString (inputBuffer c)) (\<lambda>(msg, b).
       let w1 = (put_conn cid (c\<lparr>inputBuffer := b\<rparr>) w)\<lparr>w_strings := (w_strings w)(ptr \<mapsto> msg)\<rparr> in
       bindR (send os tid cid ptr w1) (\<lambda>w2.
         Inr (w2\<lparr>w_strings := (w_strings w2)(ptr := None)\<rparr>))))"

definition echo_user :: "os_calls \<Rightarrow> int \<Rightarrow> server_code" where
  "echo_user os tid =
     \<lparr>on_connection = \<lambda>cb cid w. EchoServer_onConnection cid w,
      on_message = \<lambda>cb cid t w. EchoServer_onMessage os tid 0 cid w,
      on_writeComplete = \<lambda>cb cid w. Inr w, on_highWaterMark = \<lambda>cb cid n w. Inr w,
      on_close = \<lambda>cid w. Inr w, on_threadInit = \<lambda>cb lid w. Inr w\<rparr>"

definition EchoServer_new :: "server_os \<Rightarrow> nat \<Rightarrow> inet_address \<Rightarrow> string \<Rightarrow> world \<Rightarrow> nat \<Rightarrow> server_world res" where
  "EchoServer_new os lid addr name w fresh =
     bindR (TcpServer_new os lid addr name False w fresh) (\<lambda>w1.
       Inr (TcpServer_setThreadNum 3
              (server_setMessageCallback (Some 0) (server_setConnectionCallback (Some 0) w1))))"

definition EchoServer_start :: "server_os \<Rightarrow> int \<Rightarrow> server_world \<Rightarrow> server_world res" where
  "EchoServer_start os tid w = TcpServer_start os (echo_user (os_calls.truncate os) tid) tid w"

end
