(* ===== verification/Handler_Frame.thy ===== *)
theory Handler_Frame
  imports Tcp_Connection
begin

text \<open>
  Relations between the world before and after an operation. A relation that is reflexive and
  transitive and holds for the elementary accesses to the world (the interface \<open>world_relation\<close>)
  holds for every method of \<open>TcpConnection\<close> that returns. Two instances: what a method may do to the
  queue of a loop, and that it leaves the report of a channel alone.
\<close>

section \<open>The interface\<close>

definition keeps :: "('w \<Rightarrow> 'w \<Rightarrow> bool) \<Rightarrow> 'w \<Rightarrow> 'w res \<Rightarrow> bool" where
  "keeps R w m \<longleftrightarrow> (\<forall>w'. m = Inr w' \<longrightarrow> R w w')"

lemma keeps_simps [simp]: "keeps R w (Inr w') = R w w'" "keeps R w (Inl e)"
  by (simp_all add: keeps_def)

lemma keeps_read: "(\<And>x. m = Inr x \<Longrightarrow> keeps R w (f x)) \<Longrightarrow> keeps R w (bindR m f)"
  by (cases m) auto

lemma keepsD: "keeps R w m \<Longrightarrow> m = Inr w' \<Longrightarrow> R w w'"
  by (simp add: keeps_def)

text \<open>The registration operations the connection applies to its channel.\<close>

definition channel_ops :: "(nat \<Rightarrow> callback_t epoll_poller \<Rightarrow> callback_t epoll_poller res) set" where
  "channel_ops = insert removeChannel (range channel_set_events)"

lemma channel_ops_simps [simp]:
  "channel_set_events f \<in> channel_ops" "removeChannel \<in> channel_ops"
  "enableReading \<in> channel_ops" "enableWriting \<in> channel_ops" "disableWriting \<in> channel_ops" "disbaleAll \<in> channel_ops"
  by (auto simp: channel_ops_def enableReading_def enableWriting_def disableWriting_def disbaleAll_def)

locale world_relation =
  fixes R :: "'z world_scheme \<Rightarrow> 'z world_scheme \<Rightarrow> bool"
  assumes R_refl: "R w w" and R_trans: "R u v \<Longrightarrow> R v w \<Longrightarrow> R u w"
    and R_put: "R w (put_conn cid c w)" and R_emit: "R w (emit es w)" and R_queue: "R w (queue_on tid lid g w)"
    and R_channel: "f \<in> channel_ops \<Longrightarrow> with_channel f c w = Inr w' \<Longrightarrow> R w w'"
begin

lemma basic [simp]: "R w w" "R w (put_conn cid c w)" "R w (emit es w)" "R w (queue_on tid lid f w)"
  "R w (queue_on tid lid f (emit es w))"
  by (auto intro: R_refl R_put R_emit R_queue R_trans [OF R_emit R_queue])

lemma keeps_bindR: "keeps R w m \<Longrightarrow> (\<And>w1. m = Inr w1 \<Longrightarrow> keeps R w1 (f w1)) \<Longrightarrow> keeps R w (bindR m f)"
  by (auto simp: keeps_def bindR_eq_Inr intro: R_trans)

lemma keeps_after: "R w w1 \<Longrightarrow> keeps R w1 m \<Longrightarrow> keeps R w m"
  by (auto simp: keeps_def intro: R_trans)

lemma keeps_with_channel [simp]: "f \<in> channel_ops \<Longrightarrow> keeps R w (with_channel f c w)"
  by (simp add: keeps_def R_channel)

lemma keeps_setState [simp]: "keeps R w (setState st cid w)"
  by (auto simp: setState_def intro: keeps_read)

lemma keeps_shutdownInLoop [simp]: "keeps R w (shutdownInLoop cid w)"
  by (auto simp: shutdownInLoop_def intro!: keeps_read)

lemma keeps_handleError [simp]: "keeps R w (handleError os cid w)"
  by (auto simp: handleError_def Let_def intro!: keeps_read)

subsection \<open>Sending\<close>

lemma keeps_send_buffered: "keeps R w (send_buffered tid cid c ch mem n r w)"
proof -
  have "keeps R w (if \<not> isWriting ch then with_channel enableWriting c (put_conn cid c' w1)
      else Inr (put_conn cid c' w1))" if "R w w1" for c' w1
    using that by (auto intro!: keeps_after [OF _ keeps_with_channel] intro: R_trans [OF _ R_put])
  then show ?thesis by (auto simp: send_buffered_def Let_def intro!: keeps_read)
qed

lemma R_send_direct:
  assumes sd: "send_direct os tid cid c fd mem len w = Inr (n, r, f, w1)"
  shows "R w w1"
proof -
  from sd obtain bs where "mem_read 0 (unat len) mem = Inr bs"
    by (auto simp: send_direct_def bindR_eq_Inr)
  with sd show ?thesis
    by (cases "os_write os fd bs")
       (auto simp: send_direct_def Let_def split: option.splits if_splits)
qed

lemma keeps_sendInLoop [simp]: "keeps R w (sendInLoop os tid cid mem len w)"
proof -
  have "keeps R w (if \<not> f \<and> r > 0 then send_buffered tid cid c ch mem n r w1 else Inr w1)"
    if "(if b then send_direct os tid cid c (ch_fd ch) mem len w else Inr (0, len, False, w)) =
      Inr (n, r, f, w1)" for b c ch n r f w1
  proof -
    have "R w w1" using that R_send_direct by (fastforce split: if_splits)
    then show ?thesis by (auto intro: keeps_after [OF _ keeps_send_buffered])
  qed
  then show ?thesis by (fastforce simp: sendInLoop_def intro!: keeps_read)
qed

lemma keeps_send [simp]: "keeps R w (send os tid cid ptr w)"
  unfolding send_def by (rule keeps_read) (auto split: option.split)

lemma keeps_run_sendInLoop [simp]: "keeps R w (run_sendInLoop os tid cid ptr len w)"
  by (auto simp: run_sendInLoop_def split: option.split)

lemma keeps_sendFileInLoop [simp]: "keeps R w (sendFileInLoop os tid cid fd off count w)"
  unfolding sendFileInLoop_def
  by (rule keeps_read)
     (auto simp: Let_def split: option.split sum.split intro!: keeps_read intro: R_trans [OF basic(5)] R_trans [OF R_emit])

lemma keeps_write_done: "keeps R w (write_done tid cid c n w)"
proof -
  have "keeps R w1 (let w3 = (case writeCompleteCallback c of
          Some cb \<Rightarrow> queue_on tid (c_loop c) (F_writeComplete cb cid) w1 | None \<Rightarrow> w1)
        in if c_state c = kDisconnected then shutdownInLoop cid w3 else Inr w3)" for w1
    by (auto simp: Let_def split: option.split intro!: keeps_after [OF _ keeps_shutdownInLoop])
  then show ?thesis
    unfolding write_done_def Let_def
    by (auto intro!: keeps_bindR intro: keeps_after [OF R_put keeps_with_channel])
qed

lemma keeps_handleWrite [simp]: "keeps R w (handleWrite os tid cid w)"
  unfolding handleWrite_def
  by (auto intro!: keeps_read keeps_after [OF R_emit keeps_write_done] split: prod.split)

subsection \<open>Establishing, reading, closing\<close>

lemma keeps_call_connectionCallback:
  assumes "\<And>cb w. keeps R w (on_connection user cb cid w)"
  shows "keeps R w (call_connectionCallback user cid w)"
proof -
  have "keeps R w (on_connection user cb cid (emit es w))" for cb es by (rule keeps_after [OF R_emit assms])
  then show ?thesis by (auto simp: call_connectionCallback_def intro!: keeps_read split: option.split)
qed

lemma keeps_connectDestroyed:
  assumes u: "\<And>cb w. keeps R w (on_connection user cb cid w)"
  shows "keeps R w (connectDestroyed user cid w)"
proof -
  have "keeps R w (bindR (setState kDisconnected cid w) (\<lambda>w1.
      bindR (with_channel disbaleAll c w1) (\<lambda>w2. call_connectionCallback user cid w2)))" for c
    by (intro keeps_bindR [OF keeps_setState] keeps_bindR [OF keeps_with_channel] keeps_call_connectionCallback u) simp
  then show ?thesis
    unfolding connectDestroyed_def
    by (intro keeps_read keeps_bindR [where f = "with_channel removeChannel c" for c]) auto
qed

lemma keeps_handleClose:
  assumes "\<And>cb w. keeps R w (on_connection user cb cid w)" and "\<And>w. keeps R w (on_close user cid w)"
  shows "keeps R w (handleClose user cid w)"
  unfolding handleClose_def
  by (rule keeps_read, rule keeps_bindR [OF keeps_with_channel], simp,
      rule keeps_bindR [OF keeps_call_connectionCallback [OF assms(1)]], rule keeps_read) (simp add: assms(2))

lemma keeps_handleRead:
  assumes "\<And>cb w. keeps R w (on_connection user cb cid w)" and "\<And>w. keeps R w (on_close user cid w)"
    and "\<And>cb t w. keeps R w (on_message user cb cid t w)"
  shows "keeps R w (handleRead os user t cid w)"
proof -
  have put: "keeps R w (on_message user cb cid t (put_conn cid c w))" "keeps R w (handleClose user cid (put_conn cid c w))"
    "keeps R w (handleError os cid (put_conn cid c w))" for c cb t
    by (rule keeps_after [OF R_put assms(3)], rule keeps_after [OF R_put keeps_handleClose [OF assms(1,2)]],
        rule keeps_after [OF R_put keeps_handleError])
  show ?thesis
    unfolding handleRead_def Let_def
    by (rule keeps_read, rule keeps_read, rule keeps_read) (simp add: put split: option.split prod.split)
qed

end

text \<open>Establishing also ties the channel to the connection.\<close>

locale tie_relation = world_relation +
  assumes R_tie: "with_channel (\<lambda>ptr p. bindR (deref ptr p) (\<lambda>ch. Inr (store ptr (channel_tie obj ch) p))) c w = Inr w' \<Longrightarrow> R w w'"
begin

lemma keeps_tie: "keeps R w (with_channel (\<lambda>ptr p. bindR (deref ptr p) (\<lambda>ch. Inr (store ptr (channel_tie obj ch) p))) c w)"
  by (simp add: keeps_def R_tie)

lemma keeps_connectEstablished:
  assumes "\<And>cb w. keeps R w (on_connection user cb cid w)"
  shows "keeps R w (connectEstablished user cid w)"
  unfolding connectEstablished_def
  by (rule keeps_bindR [OF keeps_setState], rule keeps_read, rule keeps_bindR [OF keeps_tie],
      rule keeps_bindR [OF keeps_with_channel], simp, rule keeps_call_connectionCallback [OF assms])

end

section \<open>The queues of the loops\<close>

text \<open>
  Besides the poller, the operations change a loop only by queueing: the queue grows at its
  end, and while pending functors are being called every addition wakes the loop.
\<close>

definition loop_ext :: "nat \<Rightarrow> 'z world_scheme \<Rightarrow> 'z world_scheme \<Rightarrow> bool" where
  "loop_ext a w w' \<longleftrightarrow> threadId (lget a w') = threadId (lget a w) \<and>
     callingPendingFunctors (lget a w') = callingPendingFunctors (lget a w) \<and>
     eventfd (lget a w) \<le> eventfd (lget a w') \<and>
     (\<exists>new. pendingFunctors (lget a w') = pendingFunctors (lget a w) @ new \<and>
        (new \<noteq> [] \<and> callingPendingFunctors (lget a w) \<longrightarrow> 0 < eventfd (lget a w')))"

lemma loop_ext_trans: "loop_ext a u v \<Longrightarrow> loop_ext a v w \<Longrightarrow> loop_ext a u w"
  by (auto simp: loop_ext_def)

lemma loop_ext_lget: "lget a w' = lget a w \<Longrightarrow> loop_ext a w w'"
  by (simp add: loop_ext_def)

lemma loop_ext_poller [simp]: "loop_ext a w (lput b ((lget b w)\<lparr>poller := p\<rparr>) w)"
  by (simp add: loop_ext_def)

interpretation lq: tie_relation "loop_ext a" for a
  by unfold_locales
     (auto simp: loop_ext_lget with_channel_def bindR_eq_Inr intro: loop_ext_trans,
      simp add: loop_ext_def queue_on_def loop_op_defs)

lemma keeps_threadId: "keeps (loop_ext a) w m \<Longrightarrow> m = Inr w' \<Longrightarrow> threadId (lget a w') = threadId (lget a w)"
  by (simp add: keeps_def loop_ext_def)

section \<open>The trace\<close>

definition trace_grows :: "'z world_scheme \<Rightarrow> 'z world_scheme \<Rightarrow> bool" where
  "trace_grows w w' \<longleftrightarrow> (\<exists>es. w_trace w' = w_trace w @ es)"

interpretation tr: tie_relation trace_grows
  by unfold_locales (auto simp: trace_grows_def with_channel_def bindR_eq_Inr)

section \<open>The report and the guard of a channel\<close>

definition report_kept :: "nat \<Rightarrow> nat \<Rightarrow> 'z world_scheme \<Rightarrow> 'z world_scheme \<Rightarrow> bool" where
  "report_kept a ptr w w' \<longleftrightarrow>
     (\<forall>ch. chan_heap (poller (lget a w)) ptr = Some ch \<longrightarrow>
        (\<exists>ch'. chan_heap (poller (lget a w')) ptr = Some ch' \<and> same_report ch ch'))"

lemma report_kept_trans: "report_kept a ptr u v \<Longrightarrow> report_kept a ptr v w \<Longrightarrow> report_kept a ptr u w"
  unfolding report_kept_def using same_report_trans by metis

lemma report_kept_poller: "poller (lget a w') = poller (lget a w) \<Longrightarrow> report_kept a ptr w w'"
  by (simp add: report_kept_def)

text \<open>Registration changes mask and index, \<open>tie\<close> the guard.\<close>

lemma same_report_simps [simp]:
  "same_report c (d\<lparr>ch_events := e\<rparr>) = same_report c d" "same_report c (set_index i d) = same_report c d"
  "same_report c (channel_tie obj d) = same_report c d"
  by (simp_all add: same_report_def set_index_def channel_tie_def)

lemma channel_ops_report:
  assumes "f \<in> channel_ops" and "f q p = Inr p'" and "chan_heap p ptr = Some ch"
  shows "\<exists>ch'. chan_heap p' ptr = Some ch' \<and> same_report ch ch'"
  using assms
  by (auto simp: channel_ops_def channel_set_events_def updateChannel_def removeChannel_def poller_update_def Let_def
      bindR_eq_Inr deref_def split: if_splits option.splits)

interpretation rep: tie_relation "report_kept a ptr" for a ptr
  by unfold_locales
     (auto simp: report_kept_poller with_channel_def bindR_eq_Inr intro: report_kept_trans,
      auto simp: report_kept_def dest: channel_ops_report)

text \<open>Only \<open>tie\<close> changes the guard.\<close>

definition tie_kept :: "nat \<Rightarrow> nat \<Rightarrow> 'z world_scheme \<Rightarrow> 'z world_scheme \<Rightarrow> bool" where
  "tie_kept a ptr w w' \<longleftrightarrow>
     (\<forall>ch. chan_heap (poller (lget a w)) ptr = Some ch \<longrightarrow>
        (\<exists>ch'. chan_heap (poller (lget a w')) ptr = Some ch' \<and> ch_tied ch' = ch_tied ch \<and> ch_tie ch' = ch_tie ch))"

lemma tie_kept_trans: "tie_kept a ptr u v \<Longrightarrow> tie_kept a ptr v w \<Longrightarrow> tie_kept a ptr u w"
  unfolding tie_kept_def by metis

lemma tie_kept_poller: "poller (lget a w') = poller (lget a w) \<Longrightarrow> tie_kept a ptr w w'"
  by (simp add: tie_kept_def)

lemma channel_ops_tie:
  assumes "f \<in> channel_ops" and "f q p = Inr p'" and "chan_heap p ptr = Some ch"
  shows "\<exists>ch'. chan_heap p' ptr = Some ch' \<and> ch_tied ch' = ch_tied ch \<and> ch_tie ch' = ch_tie ch"
  using assms
  by (auto simp: channel_ops_def channel_set_events_def updateChannel_def removeChannel_def poller_update_def Let_def
      bindR_eq_Inr deref_def set_index_def split: if_splits option.splits)

interpretation tied: world_relation "tie_kept a ptr" for a ptr
  by unfold_locales
     (auto simp: tie_kept_poller with_channel_def bindR_eq_Inr intro: tie_kept_trans,
      auto simp: tie_kept_def dest: channel_ops_tie)

end
