(* ===== verification/Connection_Lemmas.thy ===== *)
theory Connection_Lemmas
  imports Handler_Frame
begin

text \<open>
  What the methods of \<open>TcpConnection\<close> do to a well-formed connection: sending, draining, a run of
  sends and writability events, establishing and closing. The last section has connections to
  evaluate the theorems at.
\<close>

section \<open>Well-formed connections\<close>

definition conn_ok :: "nat \<Rightarrow> tcp_connection \<Rightarrow> callback_t channel \<Rightarrow> 'z world_scheme \<Rightarrow> bool" where
  "conn_ok cid c ch w \<longleftrightarrow>
     w_conns w cid = Some c \<and> buf_inv (inputBuffer c) \<and> buf_inv (outputBuffer c) \<and>
     chan_heap (poller (lget (c_loop c) w)) (c_channel c) = Some ch \<and> ch_fd ch = c_sockfd c \<and>
     poller_inv (poller (lget (c_loop c) w))"

text \<open>Output is waiting exactly when the channel asks for writability.\<close>

definition out_sync :: "tcp_connection \<Rightarrow> callback_t channel \<Rightarrow> bool" where
  "out_sync c ch \<longleftrightarrow> (isWriting ch \<longleftrightarrow> content (outputBuffer c) \<noteq> [])"

text \<open>The bytes the kernel accepted on a descriptor.\<close>

fun wire_of :: "int \<Rightarrow> net_event list \<Rightarrow> bytes" where
  "wire_of fd [] = []"
| "wire_of fd (Sent fd' bs # es) = (if fd' = fd then bs @ wire_of fd es else wire_of fd es)"
| "wire_of fd (e # es) = wire_of fd es"

definition wire :: "int \<Rightarrow> 'z world_scheme \<Rightarrow> bytes" where
  "wire fd w = wire_of fd (w_trace w)"

definition no_fault :: "os_calls \<Rightarrow> bool" where
  "no_fault os \<longleftrightarrow> (\<forall>fd bs. os_write os fd bs \<noteq> Inl EPIPE \<and> os_write os fd bs \<noteq> Inl ECONNRESET)"

section \<open>Lemmas\<close>

lemma wire_of_append: "wire_of fd (es @ es') = wire_of fd es @ wire_of fd es'"
proof (induction es)
  case (Cons e es)
  then show ?case by (cases e) simp_all
qed simp

lemma wire_simps [simp]:
  "wire fd (lput a l w) = wire fd w" "wire fd (put_conn cid c w) = wire fd w"
  "wire fd (queue_on tid lid f w) = wire fd w"
  "wire fd (emit es w) = wire fd w @ wire_of fd es"
  by (simp_all add: wire_def wire_of_append)

lemma conn_okD:
  assumes "conn_ok cid c ch w"
  shows "w_conns w cid = Some c" "buf_inv (inputBuffer c)" "buf_inv (outputBuffer c)"
    "chan_heap (poller (lget (c_loop c) w)) (c_channel c) = Some ch" "ch_fd ch = c_sockfd c"
    "poller_inv (poller (lget (c_loop c) w))" "get_conn cid w = Inr c" "conn_channel c w = Inr ch"
  using assms by (auto simp: conn_ok_def conn_channel_def)

lemma conn_ok_frame [simp]:
  "conn_ok cid c ch (emit es w) = conn_ok cid c ch w"
  "conn_ok cid c ch (queue_on tid lid f w) = conn_ok cid c ch w"
  by (simp_all add: conn_ok_def)

lemma conn_ok_put:
  "conn_ok cid c ch w \<Longrightarrow> buf_inv (inputBuffer c') \<Longrightarrow> buf_inv (outputBuffer c') \<Longrightarrow>
   c_loop c' = c_loop c \<Longrightarrow> c_channel c' = c_channel c \<Longrightarrow> c_sockfd c' = c_sockfd c \<Longrightarrow>
   conn_ok cid c' ch (put_conn cid c' w)"
  by (simp add: conn_ok_def)

text \<open>The channel after a mask method.\<close>

definition mask_chan :: "(c_int \<Rightarrow> c_int) \<Rightarrow> 'cb channel \<Rightarrow> 'cb channel" where
  "mask_chan f ch = (let ch1 = ch\<lparr>ch_events := f (ch_events ch)\<rparr> in set_index (update_index ch1) ch1)"

lemma mask_chan_simps [simp]:
  "ch_events (mask_chan f ch) = f (ch_events ch)" "ch_fd (mask_chan f ch) = ch_fd ch"
  by (simp_all add: mask_chan_def Let_def)

lemma with_channel_mask:
  assumes ok: "conn_ok cid c ch w"
  shows "\<exists>p. with_channel (channel_set_events f) c w =
      Inr (lput (c_loop c) ((lget (c_loop c) w)\<lparr>poller := p\<rparr>) w) \<and>
    conn_ok cid c (mask_chan f ch) (lput (c_loop c) ((lget (c_loop c) w)\<lparr>poller := p\<rparr>) w)"
proof -
  note d = conn_okD [OF ok]
  obtain m where coh: "coherent {} (poller (lget (c_loop c) w)) m"
    using d(6) unfolding poller_inv_def by blast
  let ?p = "mask_result f ch (c_channel c) (poller (lget (c_loop c) w))"
  note r = channel_set_events_ok [OF coh d(4), of f]
  have "chan_heap ?p (c_channel c) = Some (mask_chan f ch)"
    by (simp add: mask_result_def update_result_def mask_chan_def Let_def)
  moreover have "poller_inv ?p" using r(2) unfolding poller_inv_def by blast
  ultimately have "conn_ok cid c (mask_chan f ch) (lput (c_loop c) ((lget (c_loop c) w)\<lparr>poller := ?p\<rparr>) w)"
    using ok by (simp add: conn_ok_def)
  with r(1) show ?thesis by (auto simp: with_channel_def)
qed

lemma isWriting_masks [simp]:
  "isWriting (mask_chan mask_enableWriting ch)" "\<not> isWriting (mask_chan mask_disableWriting ch)"
  "\<not> isWriting (mask_chan mask_disbaleAll ch)"
  by (simp_all add: isWriting_def enableWriting_writing disableWriting_not_writing disbaleAll_none
      noneEvent_def)

subsection \<open>Sending\<close>

lemma send_buffered_ok:
  assumes ok: "conn_ok cid c ch w" and fits: "buf_fits (outputBuffer c) (unat remaining)"
    and mem: "unat remaining \<le> length (drop nwrote mem)"
  shows "\<exists>w' b ch'. send_buffered tid cid c ch mem nwrote remaining w = Inr w' \<and>
    conn_ok cid (c\<lparr>outputBuffer := b\<rparr>) ch' w' \<and> isWriting ch' \<and>
    append_raw (outputBuffer c) (drop nwrote mem) remaining = Inr b \<and>
    content b = content (outputBuffer c) @ take (unat remaining) (drop nwrote mem) \<and>
    w_trace w' = w_trace w \<and> w_strings w' = w_strings w"
proof -
  note d = conn_okD [OF ok]
  obtain b where b: "append_raw (outputBuffer c) (drop nwrote mem) remaining = Inr b" "buf_inv b"
    "content b = content (outputBuffer c) @ take (unat remaining) (drop nwrote mem)"
    using append_raw_ok [OF d(3) fits mem] by blast
  let ?old = "readableBytes (outputBuffer c)"
  define w1 where "w1 = (if ?old + remaining \<ge> highWaterMark c \<and> ?old < highWaterMark c \<and> highWaterMark c \<noteq> 0
      then queue_on tid (c_loop c) (F_highWaterMark (highWaterMarkCallback c) cid (?old + remaining)) w
      else w)"
  define w2 where "w2 = put_conn cid (c\<lparr>outputBuffer := b\<rparr>) w1"
  have ok1: "conn_ok cid c ch w1" using ok by (simp add: w1_def)
  have ok2: "conn_ok cid (c\<lparr>outputBuffer := b\<rparr>) ch w2"
    unfolding w2_def by (rule conn_ok_put [OF ok1]) (use d b in simp_all)
  have tr: "w_trace w2 = w_trace w" "w_strings w2 = w_strings w" by (simp_all add: w2_def w1_def)
  have eq: "send_buffered tid cid c ch mem nwrote remaining w =
      (if \<not> isWriting ch then with_channel enableWriting c w2 else Inr w2)"
    by (simp add: send_buffered_def Let_def b(1) w1_def w2_def)
  show ?thesis
  proof (cases "isWriting ch")
    case True
    with eq ok2 b tr show ?thesis by auto
  next
    case False
    have "with_channel enableWriting c w2 = with_channel enableWriting (c\<lparr>outputBuffer := b\<rparr>) w2"
      by (simp add: with_channel_def)
    with with_channel_mask [OF ok2, of mask_enableWriting] False eq b tr show ?thesis
      by (fastforce simp: enableWriting_def)
  qed
qed

text \<open>The answers of \<open>write\<close> on which the data is given up.\<close>

definition write_faults :: "os_calls \<Rightarrow> int \<Rightarrow> bytes \<Rightarrow> bool" where
  "write_faults os fd bs \<longleftrightarrow> os_write os fd bs = Inl EPIPE \<or> os_write os fd bs = Inl ECONNRESET"

lemma readable_0: "buf_inv b \<Longrightarrow> readableBytes b = 0 \<longleftrightarrow> content b = []"
  using length_content [of b] by (metis length_0_conv unat_eq_zero)

text \<open>The world after the kernel has taken \<open>n\<close> bytes of a direct write.\<close>

definition after_write :: "int \<Rightarrow> nat \<Rightarrow> tcp_connection \<Rightarrow> bytes \<Rightarrow> size_t \<Rightarrow> nat \<Rightarrow> 'z world_scheme \<Rightarrow> 'z world_scheme" where
  "after_write tid cid c mem len n w =
     (let w1 = emit [Sent (c_sockfd c) (take n mem)] w in
      case writeCompleteCallback c of
        Some cb \<Rightarrow> if len - of_nat n = 0 then queue_on tid (c_loop c) (F_writeComplete cb cid) w1 else w1
      | None \<Rightarrow> w1)"

text \<open>\<open>sendInLoop\<close> gives up, or buffers what is left after the bytes the kernel has taken, which is everything unless it wrote directly.\<close>

lemma sendInLoop_cases:
  assumes ok: "conn_ok cid c ch w" and st: "c_state c \<noteq> kDisconnected" and len: "unat len = length mem" and wr: "write_ok (os_write os)"
  obtains (fault) "content (outputBuffer c) = []" "write_faults os (c_sockfd c) mem" "sendInLoop os tid cid mem len w = Inr w"
  | (buffer) n rem w1 where "n \<le> length mem" "unat rem = length mem - n"
      "sendInLoop os tid cid mem len w = (if rem > 0 then send_buffered tid cid c ch mem n rem w1 else Inr w1)"
      "n = 0 \<and> w1 = w \<or> content (outputBuffer c) = [] \<and> w1 = after_write tid cid c mem len n w"
proof (cases "\<not> isWriting ch \<and> readableBytes (outputBuffer c) = 0")
  case False
  have "sendInLoop os tid cid mem len w = (if len > 0 then send_buffered tid cid c ch mem 0 len w else Inr w)"
    using st by (simp add: sendInLoop_def conn_okD [OF ok] if_not_P [OF False])
  with buffer [of 0 len w] len show ?thesis by simp
next
  case direct: True
  note d = conn_okD [OF ok]
  have empty: "content (outputBuffer c) = []" using direct readable_0 [OF d(3)] by simp
  have rd: "mem_read 0 (unat len) mem = Inr mem" using len by simp
  have eq: "sendInLoop os tid cid mem len w = (if \<not> f \<and> r > 0 then send_buffered tid cid c ch mem n r w1 else Inr w1)"
    if "send_direct os tid cid c (c_sockfd c) mem len w = Inr (n, r, f, w1)" for n r f w1
    using st that by (simp add: sendInLoop_def d(5,7,8) if_P [OF direct])
  show ?thesis
  proof (cases "os_write os (c_sockfd c) mem")
    case (Inl e)
    have sd: "send_direct os tid cid c (c_sockfd c) mem len w = Inr (0, len, write_faults os (c_sockfd c) mem, w)"
      using Inl rd by (auto simp: send_direct_def write_faults_def EPIPE_def ECONNRESET_def EWOULDBLOCK_def)
    show ?thesis
    proof (cases "write_faults os (c_sockfd c) mem")
      case True
      with fault [OF empty] eq [OF sd] show ?thesis by simp
    next
      case False
      with buffer [of 0 len w] eq [OF sd] len show ?thesis by simp
    qed
  next
    case (Inr n)
    have n: "n \<le> length mem" using wr Inr by (auto simp: write_ok_def)
    have "n < 2 ^ 64" using n len unat_size_lt [of len] by linarith
    then have rem: "unat (len - of_nat n) = length mem - n"
      using n len by (subst unat_size_sub) (simp_all add: unat_size_of_nat)
    have "send_direct os tid cid c (c_sockfd c) mem len w = Inr (n, len - of_nat n, False, after_write tid cid c mem len n w)"
      using Inr rd by (simp add: send_direct_def after_write_def Let_def)
    from buffer [OF n rem _ disjI2 [OF conjI [OF empty refl]]] eq [OF this] show ?thesis by simp
  qed
qed

lemma sendInLoop_ok:
  assumes ok: "conn_ok cid c ch w" and sync: "out_sync c ch" and st: "c_state c \<noteq> kDisconnected"
    and len: "unat len = length mem" and fits: "buf_fits (outputBuffer c) (length mem)"
    and wr: "write_ok (os_write os)"
    and nf: "content (outputBuffer c) = [] \<Longrightarrow> \<not> write_faults os (c_sockfd c) mem"
  shows "\<exists>w' b ch'. sendInLoop os tid cid mem len w = Inr w' \<and>
    conn_ok cid (c\<lparr>outputBuffer := b\<rparr>) ch' w' \<and> out_sync (c\<lparr>outputBuffer := b\<rparr>) ch' \<and>
    wire (c_sockfd c) w' @ content b = wire (c_sockfd c) w @ content (outputBuffer c) @ mem \<and>
    unat (writerIndex b) \<le> unat (writerIndex (outputBuffer c)) + length mem \<and> w_strings w' = w_strings w"
proof -
  note d = conn_okD [OF ok]
  let ?P = "\<lambda>w' b ch'. sendInLoop os tid cid mem len w = Inr w' \<and>
    conn_ok cid (c\<lparr>outputBuffer := b\<rparr>) ch' w' \<and> out_sync (c\<lparr>outputBuffer := b\<rparr>) ch' \<and>
    wire (c_sockfd c) w' @ content b = wire (c_sockfd c) w @ content (outputBuffer c) @ mem \<and>
    unat (writerIndex b) \<le> unat (writerIndex (outputBuffer c)) + length mem \<and> w_strings w' = w_strings w"
  from ok st len wr show ?thesis
  proof (cases rule: sendInLoop_cases [where tid = tid])
    case fault
    with nf show ?thesis by simp
  next
    case (buffer n rem w1)
    have ok1: "conn_ok cid c ch w1" and w1: "wire (c_sockfd c) w1 @ content (outputBuffer c) @ drop n mem = wire (c_sockfd c) w @ content (outputBuffer c) @ mem"
        "w_strings w1 = w_strings w"
      using buffer(4) ok by (auto simp: after_write_def Let_def split: option.split)
    show ?thesis
    proof (cases "rem > 0")
      case True
      have f: "buf_fits (outputBuffer c) (unat rem)" "unat rem \<le> length (drop n mem)" using fits buffer(2) by (simp_all add: buf_fits_def)
      obtain w' b ch' where r: "send_buffered tid cid c ch mem n rem w1 = Inr w'"
        "conn_ok cid (c\<lparr>outputBuffer := b\<rparr>) ch' w'" "isWriting ch'" "append_raw (outputBuffer c) (drop n mem) rem = Inr b"
        "content b = content (outputBuffer c) @ take (unat rem) (drop n mem)" "w_trace w' = w_trace w1" "w_strings w' = w_strings w1"
        using send_buffered_ok [OF ok1 f] by blast
      have ne: "content b \<noteq> []" using r(5) True f(2) word_greater_zero_iff [of rem] by (auto simp: unat_eq_zero)
      have "?P w' b ch'" using r ne True buffer(2,3) w1 append_raw_writer [OF d(3) f(1) r(4)] by (auto simp: out_sync_def wire_def)
      then show ?thesis by blast
    next
      case False
      then have "n = length mem" using buffer(1,2) by (simp add: word_gt_0)
      with False buffer(3) ok1 sync w1 have "?P w1 (outputBuffer c) ch" by simp
      then show ?thesis by blast
    qed
  qed
qed

text \<open>On a fault the data is given up and nothing else changes.\<close>

lemma sendInLoop_fault:
  assumes ok: "conn_ok cid c ch w" and sync: "out_sync c ch" and st: "c_state c \<noteq> kDisconnected"
    and len: "unat len = length mem" and empty: "content (outputBuffer c) = []"
    and fault: "write_faults os (c_sockfd c) mem"
  shows "sendInLoop os tid cid mem len w = Inr w"
proof -
  note d = conn_okD [OF ok]
  have direct: "\<not> isWriting ch \<and> readableBytes (outputBuffer c) = 0"
    using sync empty readable_0 [OF d(3)] by (simp add: out_sync_def)
  have "mem_read 0 (unat len) mem = Inr mem" using len by simp
  then have "send_direct os tid cid c (c_sockfd c) mem len w = Inr (0, len, True, w)"
    using fault by (auto simp: send_direct_def write_faults_def EPIPE_def ECONNRESET_def EWOULDBLOCK_def)
  then show ?thesis using st by (simp add: sendInLoop_def d(5,7,8) if_P [OF direct])
qed

subsection \<open>Draining\<close>

definition drained_events :: "tcp_connection \<Rightarrow> net_buffer \<Rightarrow> net_event list" where
  "drained_events c b =
     (if content b = [] \<and> c_state c = kDisconnected then map Sock (shutdownWrite (c_sockfd c)) else [])"

lemma write_done_ok:
  fixes n :: size_t
  assumes ok: "conn_ok cid c ch w" and wr: "isWriting ch"
  defines "b \<equiv> retrieve (outputBuffer c) n"
  shows "\<exists>w' ch'. write_done tid cid c n w = Inr w' \<and>
    conn_ok cid (c\<lparr>outputBuffer := b\<rparr>) ch' w' \<and> out_sync (c\<lparr>outputBuffer := b\<rparr>) ch' \<and>
    w_trace w' = w_trace w @ drained_events c b \<and> w_strings w' = w_strings w"
proof -
  note d = conn_okD [OF ok]
  have inv: "buf_inv b" unfolding b_def using d(3) by (rule retrieve_inv)
  let ?c = "c\<lparr>outputBuffer := b\<rparr>"
  define w1 where "w1 = put_conn cid ?c w"
  have ok1: "conn_ok cid ?c ch w1"
    unfolding w1_def by (rule conn_ok_put [OF ok]) (use d inv in simp_all)
  show ?thesis
  proof (cases "readableBytes b = 0")
    case False
    then have "write_done tid cid c n w = Inr w1"
      by (simp add: write_done_def Let_def b_def [symmetric] w1_def)
    moreover have "content b \<noteq> []" using False readable_0 [OF inv] by simp
    ultimately show ?thesis using ok1 wr
      by (intro exI [of _ w1] exI [of _ ch]) (simp add: out_sync_def drained_events_def w1_def)
  next
    case True
    then have empty: "content b = []" using readable_0 [OF inv] by simp
    obtain p where p: "with_channel disableWriting c w1 =
        Inr (lput (c_loop c) ((lget (c_loop c) w1)\<lparr>poller := p\<rparr>) w1)"
      "conn_ok cid ?c (mask_chan mask_disableWriting ch)
         (lput (c_loop c) ((lget (c_loop c) w1)\<lparr>poller := p\<rparr>) w1)"
      using with_channel_mask [OF ok1, of mask_disableWriting]
      by (auto simp: with_channel_def disableWriting_def)
    define w3 where "w3 = (let w2 = lput (c_loop c) ((lget (c_loop c) w1)\<lparr>poller := p\<rparr>) w1 in
      case writeCompleteCallback c of
        Some cb \<Rightarrow> queue_on tid (c_loop c) (F_writeComplete cb cid) w2 | None \<Rightarrow> w2)"
    have ok3: "conn_ok cid ?c (mask_chan mask_disableWriting ch) w3"
      using p(2) by (auto simp: w3_def Let_def split: option.split)
    have tr: "w_trace w3 = w_trace w" "w_strings w3 = w_strings w"
      by (auto simp: w3_def Let_def w1_def split: option.split)
    have sh: "shutdownInLoop cid w3 = Inr (emit (map Sock (shutdownWrite (c_sockfd c))) w3)"
      by (simp add: shutdownInLoop_def conn_okD(7,8) [OF ok3])
    have eq: "write_done tid cid c n w = (if c_state c = kDisconnected then shutdownInLoop cid w3 else Inr w3)"
      using True p(1) by (simp add: write_done_def Let_def b_def [symmetric] w1_def [symmetric] w3_def)
    have none: "emit [] w3 = w3" by (simp add: emit_def)
    show ?thesis
      by (intro exI [of _ "emit (drained_events c b) w3"] exI [of _ "mask_chan mask_disableWriting ch"])
         (use eq sh ok3 tr empty none in \<open>simp add: drained_events_def out_sync_def\<close>)
  qed
qed

lemma handleWrite_ok:
  assumes ok: "conn_ok cid c ch w" and sync: "out_sync c ch" and wr: "write_ok (os_write os)"
  shows "\<exists>w' b ch'. handleWrite os tid cid w = Inr w' \<and>
    conn_ok cid (c\<lparr>outputBuffer := b\<rparr>) ch' w' \<and> out_sync (c\<lparr>outputBuffer := b\<rparr>) ch' \<and>
    wire (c_sockfd c) w' @ content b = wire (c_sockfd c) w @ content (outputBuffer c) \<and>
    unat (writerIndex b) \<le> unat (writerIndex (outputBuffer c)) \<and> w_strings w' = w_strings w \<and>
    (\<forall>n. os_write os (c_sockfd c) (content (outputBuffer c)) = Inr n \<longrightarrow> content b = drop n (content (outputBuffer c)))"
proof -
  note d = conn_okD [OF ok]
  show ?thesis
  proof (cases "isWriting ch \<and> (\<exists>n > 0. os_write os (c_sockfd c) (content (outputBuffer c)) = Inr n)")
    case False
    then have zero: "n = 0" if "isWriting ch" "os_write os (c_sockfd c) (content (outputBuffer c)) = Inr n" for n
      using that by simp
    have "handleWrite os tid cid w = Inr w"
    proof (cases "isWriting ch")
      case True
      with zero d show ?thesis by (cases "os_write os (c_sockfd c) (content (outputBuffer c))")
          (simp_all add: handleWrite_def writeFd_ok)
    qed (use d in \<open>simp add: handleWrite_def\<close>)
    with zero ok sync show ?thesis
      by (intro exI [of _ w] exI [of _ "outputBuffer c"] exI [of _ ch]) (auto simp: out_sync_def)
  next
    case True
    then obtain n where n: "n > 0" "os_write os (c_sockfd c) (content (outputBuffer c)) = Inr n"
      and w: "isWriting ch" by blast
    let ?w = "emit [Sent (c_sockfd c) (take n (content (outputBuffer c)))] w"
    let ?b = "retrieve (outputBuffer c) (of_int (int n))"
    have "n \<le> length (content (outputBuffer c))" using wr n by (auto simp: write_ok_def)
    moreover have "length (content (outputBuffer c)) < 2 ^ 64"
      using length_content [OF d(3)] unat_size_lt by metis
    ultimately have un: "unat (of_nat n :: size_t) = n" by (simp add: unat_size_of_nat)
    have "handleWrite os tid cid w = write_done tid cid c (of_int (int n)) ?w"
      using n w d by (simp add: handleWrite_def writeFd_ok)
    with write_done_ok [of cid c ch ?w tid "of_int (int n)"] ok w obtain w' ch' where
      r: "handleWrite os tid cid w = Inr w'" "conn_ok cid (c\<lparr>outputBuffer := ?b\<rparr>) ch' w'"
        "out_sync (c\<lparr>outputBuffer := ?b\<rparr>) ch'" "w_trace w' = w_trace ?w @ drained_events c ?b"
        "w_strings w' = w_strings w"
      by auto
    have "wire_of (c_sockfd c) (drained_events c ?b) = []"
      by (simp add: drained_events_def shutdownWrite_def)
    then have "wire (c_sockfd c) w' = wire (c_sockfd c) w @ take n (content (outputBuffer c))"
      using r(4) by (simp add: wire_def wire_of_append)
    moreover have "content ?b = drop n (content (outputBuffer c))"
      using retrieve_content [OF d(3)] un by simp
    ultimately show ?thesis using r n(2) retrieve_writer [OF d(3)]
      by (intro exI [of _ w'] exI [of _ ?b] exI [of _ ch']) simp
  qed
qed

subsection \<open>A run of sends and writability events\<close>

text \<open>
  What the loop thread does with one established connection: the application sends strings, the
  poller reports writability; \<open>os\<close> answers the system calls of that step.
\<close>

datatype conn_action = Act_send nat | Act_writable

fun conn_act :: "int \<Rightarrow> nat \<Rightarrow> os_calls \<times> conn_action \<Rightarrow> 'z world_scheme \<Rightarrow> 'z world_scheme res" where
  "conn_act tid cid (os, Act_send ptr) w = send os tid cid ptr w"
| "conn_act tid cid (os, Act_writable) w = handleWrite os tid cid w"

fun conn_run :: "int \<Rightarrow> nat \<Rightarrow> (os_calls \<times> conn_action) list \<Rightarrow> 'z world_scheme \<Rightarrow> 'z world_scheme res" where
  "conn_run tid cid [] w = Inr w"
| "conn_run tid cid (a # as) w = bindR (conn_act tid cid a w) (conn_run tid cid as)"

fun sent_bytes :: "(nat \<rightharpoonup> bytes) \<Rightarrow> (os_calls \<times> conn_action) list \<Rightarrow> bytes" where
  "sent_bytes strings [] = []"
| "sent_bytes strings ((os, Act_send ptr) # as) = the (strings ptr) @ sent_bytes strings as"
| "sent_bytes strings ((os, Act_writable) # as) = sent_bytes strings as"

definition actions_ok :: "(nat \<rightharpoonup> bytes) \<Rightarrow> (os_calls \<times> conn_action) list \<Rightarrow> bool" where
  "actions_ok strings as \<longleftrightarrow>
     (\<forall>(os, a) \<in> set as. write_ok (os_write os) \<and> no_fault os \<and>
        (case a of Act_send ptr \<Rightarrow> strings ptr \<noteq> None | Act_writable \<Rightarrow> True))"

text \<open>The state of an established connection whose loop runs in thread \<open>tid\<close>.\<close>

definition conn_live :: "int \<Rightarrow> nat \<Rightarrow> tcp_connection \<Rightarrow> 'z world_scheme \<Rightarrow> bool" where
  "conn_live tid cid c w \<longleftrightarrow> (\<exists>ch. conn_ok cid c ch w \<and> out_sync c ch) \<and>
     c_state c = kConnected \<and> threadId (lget (c_loop c) w) = tid"

lemma send_live:
  assumes live: "conn_live tid cid c w" and buf: "w_strings w ptr = Some bs"
    and fits: "buf_fits (outputBuffer c) (length bs)" and wr: "write_ok (os_write os)" and nf: "no_fault os"
  shows "\<exists>w' b. send os tid cid ptr w = Inr w' \<and> conn_live tid cid (c\<lparr>outputBuffer := b\<rparr>) w' \<and>
    wire (c_sockfd c) w' @ content b = wire (c_sockfd c) w @ content (outputBuffer c) @ bs \<and>
    unat (writerIndex b) \<le> unat (writerIndex (outputBuffer c)) + length bs \<and> w_strings w' = w_strings w"
proof -
  from live obtain ch where ok: "conn_ok cid c ch w" and sync: "out_sync c ch"
    and st: "c_state c = kConnected" and th: "threadId (lget (c_loop c) w) = tid"
    by (auto simp: conn_live_def)
  have "length bs < 2 ^ 64" using fits vec_max_size_lt by (simp add: buf_fits_def)
  then have len: "unat (of_nat (length bs) :: size_t) = length bs" by (rule unat_size_of_nat)
  have "\<not> write_faults os (c_sockfd c) bs" using nf by (simp add: no_fault_def write_faults_def)
  with sendInLoop_ok [OF ok sync _ len fits wr, of tid] st obtain w' b ch' where
    r: "sendInLoop os tid cid bs (of_nat (length bs)) w = Inr w'"
      "conn_ok cid (c\<lparr>outputBuffer := b\<rparr>) ch' w'" "out_sync (c\<lparr>outputBuffer := b\<rparr>) ch'"
      "wire (c_sockfd c) w' @ content b = wire (c_sockfd c) w @ content (outputBuffer c) @ bs"
      "unat (writerIndex b) \<le> unat (writerIndex (outputBuffer c)) + length bs" "w_strings w' = w_strings w"
    by auto
  moreover have "send os tid cid ptr w = Inr w'"
    using r(1) st th buf conn_okD [OF ok] by (simp add: send_def isInLoopThread_def)
  moreover have "conn_live tid cid (c\<lparr>outputBuffer := b\<rparr>) w'"
    using r st th keeps_threadId [OF lq.keeps_sendInLoop r(1)] by (auto simp: conn_live_def)
  ultimately show ?thesis by blast
qed

lemma handleWrite_live:
  assumes live: "conn_live tid cid c w" and wr: "write_ok (os_write os)"
  shows "\<exists>w' b. handleWrite os tid cid w = Inr w' \<and> conn_live tid cid (c\<lparr>outputBuffer := b\<rparr>) w' \<and>
    wire (c_sockfd c) w' @ content b = wire (c_sockfd c) w @ content (outputBuffer c) \<and>
    unat (writerIndex b) \<le> unat (writerIndex (outputBuffer c)) \<and> w_strings w' = w_strings w \<and>
    (\<forall>n. os_write os (c_sockfd c) (content (outputBuffer c)) = Inr n \<longrightarrow> content b = drop n (content (outputBuffer c)))"
proof -
  from live obtain ch where ok: "conn_ok cid c ch w" and sync: "out_sync c ch"
    and st: "c_state c = kConnected" and th: "threadId (lget (c_loop c) w) = tid"
    by (auto simp: conn_live_def)
  from handleWrite_ok [OF ok sync wr] obtain w' b ch' where
    r: "handleWrite os tid cid w = Inr w'"
      "conn_ok cid (c\<lparr>outputBuffer := b\<rparr>) ch' w'" "out_sync (c\<lparr>outputBuffer := b\<rparr>) ch'"
      "wire (c_sockfd c) w' @ content b = wire (c_sockfd c) w @ content (outputBuffer c)"
      "unat (writerIndex b) \<le> unat (writerIndex (outputBuffer c))" "w_strings w' = w_strings w"
      "\<forall>n. os_write os (c_sockfd c) (content (outputBuffer c)) = Inr n \<longrightarrow> content b = drop n (content (outputBuffer c))"
    by blast
  moreover have "conn_live tid cid (c\<lparr>outputBuffer := b\<rparr>) w'"
    using r st th keeps_threadId [OF lq.keeps_handleWrite r(1)] by (auto simp: conn_live_def)
  ultimately show ?thesis by blast
qed

lemma conn_run_stream:
  assumes "conn_live tid cid c w" and "actions_ok (w_strings w) as"
    and "buf_fits (outputBuffer c) (length (sent_bytes (w_strings w) as))"
  shows "\<exists>w' b. conn_run tid cid as w = Inr w' \<and> conn_live tid cid (c\<lparr>outputBuffer := b\<rparr>) w' \<and>
    wire (c_sockfd c) w' @ content b =
      wire (c_sockfd c) w @ content (outputBuffer c) @ sent_bytes (w_strings w) as"
  using assms
proof (induction as arbitrary: w c)
  case Nil
  then show ?case by (intro exI [of _ w] exI [of _ "outputBuffer c"]) simp
next
  case (Cons x as)
  obtain os a where x: "x = (os, a)" by force
  from Cons.prems(2) x have wr: "write_ok (os_write os)" and nf: "no_fault os"
    and rest: "actions_ok (w_strings w) as"
    and ptr: "a = Act_send p \<Longrightarrow> w_strings w p \<noteq> None" for p
    by (auto simp: actions_ok_def)
  define new where "new = (case a of Act_send p \<Rightarrow> the (w_strings w p) | Act_writable \<Rightarrow> [])"
  have all: "sent_bytes (w_strings w) (x # as) = new @ sent_bytes (w_strings w) as"
    by (cases a) (simp_all add: x new_def)
  have "\<exists>w1 b. conn_act tid cid x w = Inr w1 \<and> conn_live tid cid (c\<lparr>outputBuffer := b\<rparr>) w1 \<and>
      wire (c_sockfd c) w1 @ content b = wire (c_sockfd c) w @ content (outputBuffer c) @ new \<and>
      unat (writerIndex b) \<le> unat (writerIndex (outputBuffer c)) + length new \<and> w_strings w1 = w_strings w"
  proof (cases a)
    case (Act_send p)
    then obtain bs where bs: "w_strings w p = Some bs" "new = bs" using ptr new_def by fastforce
    have "buf_fits (outputBuffer c) (length bs)" using Cons.prems(3) all bs by (simp add: buf_fits_def)
    from send_live [OF Cons.prems(1) bs(1) this wr nf] bs(2) Act_send x show ?thesis by simp
  next
    case Act_writable
    with handleWrite_live [OF Cons.prems(1) wr] x show ?thesis by (auto simp: new_def)
  qed
  then obtain w1 b where s: "conn_act tid cid x w = Inr w1" "conn_live tid cid (c\<lparr>outputBuffer := b\<rparr>) w1"
    "wire (c_sockfd c) w1 @ content b = wire (c_sockfd c) w @ content (outputBuffer c) @ new"
    "unat (writerIndex b) \<le> unat (writerIndex (outputBuffer c)) + length new" "w_strings w1 = w_strings w"
    by blast
  have "buf_fits (outputBuffer (c\<lparr>outputBuffer := b\<rparr>)) (length (sent_bytes (w_strings w1) as))"
    using s(4,5) Cons.prems(3) all by (simp add: buf_fits_def)
  from Cons.IH [OF s(2) _ this] s rest all show ?case by fastforce
qed

subsection \<open>Establishing and closing\<close>

lemma setState_ok:
  "conn_ok cid c ch w \<Longrightarrow> setState st cid w = Inr (put_conn cid (c\<lparr>c_state := st\<rparr>) w) \<and>
     conn_ok cid (c\<lparr>c_state := st\<rparr>) ch (put_conn cid (c\<lparr>c_state := st\<rparr>) w)"
  by (auto simp: setState_def conn_ok_def)

lemma poller_inv_tie:
  assumes inv: "poller_inv p" and c: "chan_heap p ptr = Some c"
  shows "poller_inv (store ptr (channel_tie obj c) p)"
proof -
  from inv obtain m where coh: "coherent {} p m" unfolding poller_inv_def by blast
  have "coherent {} (store ptr (channel_tie obj c) p) m"
    by (rule coherent_local [OF coh c, where c' = "channel_tie obj c"])
       (use coherentD(1) [OF coh] coherentD(3) [OF coh c] in \<open>auto simp: chan_ok_def channel_tie_def\<close>)
  then show ?thesis unfolding poller_inv_def by blast
qed

lemma with_channel_tie:
  assumes ok: "conn_ok cid c ch w"
  shows "\<exists>p. with_channel (\<lambda>ptr p. bindR (deref ptr p) (\<lambda>ch. Inr (store ptr (channel_tie obj ch) p))) c w =
      Inr (lput (c_loop c) ((lget (c_loop c) w)\<lparr>poller := p\<rparr>) w) \<and>
    conn_ok cid c (channel_tie obj ch) (lput (c_loop c) ((lget (c_loop c) w)\<lparr>poller := p\<rparr>) w)"
  using poller_inv_tie [OF conn_okD(6,4) [OF ok], of obj] ok
  by (auto simp: with_channel_def conn_ok_def channel_tie_def)

lemma call_connectionCallback_ok:
  "w_conns w cid = Some c \<Longrightarrow> connectionCallback c = Some cb \<Longrightarrow>
   call_connectionCallback user cid w = on_connection user cb cid (emit [Connection_cb cid (connected c)] w)"
  by (simp add: call_connectionCallback_def)

lemma mask_chan_tie [simp]:
  "ch_tie (mask_chan f ch) = ch_tie ch" "ch_tied (mask_chan f ch) = ch_tied ch"
  by (simp_all add: mask_chan_def Let_def set_index_def)

lemma connectEstablished_ok:
  assumes ok: "conn_ok cid c ch w" and cb: "connectionCallback c = Some cb"
  shows "\<exists>w' ch'. connectEstablished user cid w = on_connection user cb cid w' \<and>
    conn_ok cid (c\<lparr>c_state := kConnected\<rparr>) ch' w' \<and> isReading ch' \<and> ch_tied ch' \<and> ch_tie ch' = Some cid \<and>
    isWriting ch' = isWriting ch \<and> w_trace w' = w_trace w @ [Connection_cb cid True]"
proof -
  let ?c = "c\<lparr>c_state := kConnected\<rparr>"
  define w1 where "w1 = put_conn cid ?c w"
  have s: "setState kConnected cid w = Inr w1" "conn_ok cid ?c ch w1"
    using setState_ok [OF ok] by (simp_all add: w1_def)
  obtain p where p: "with_channel (\<lambda>ptr p. bindR (deref ptr p) (\<lambda>ch. Inr (store ptr (channel_tie cid ch) p))) ?c w1 =
      Inr (lput (c_loop c) ((lget (c_loop c) w1)\<lparr>poller := p\<rparr>) w1)"
    "conn_ok cid ?c (channel_tie cid ch) (lput (c_loop c) ((lget (c_loop c) w1)\<lparr>poller := p\<rparr>) w1)"
    using with_channel_tie [OF s(2), of cid] by auto
  define w2 where "w2 = lput (c_loop c) ((lget (c_loop c) w1)\<lparr>poller := p\<rparr>) w1"
  obtain q where q: "with_channel enableReading ?c w2 = Inr (lput (c_loop c) ((lget (c_loop c) w2)\<lparr>poller := q\<rparr>) w2)"
    "conn_ok cid ?c (mask_chan mask_enableReading (channel_tie cid ch))
       (lput (c_loop c) ((lget (c_loop c) w2)\<lparr>poller := q\<rparr>) w2)"
    using with_channel_mask [OF p(2), of mask_enableReading] unfolding enableReading_def w2_def by auto
  define w3 where "w3 = lput (c_loop c) ((lget (c_loop c) w2)\<lparr>poller := q\<rparr>) w2"
  have conn: "w_conns w3 cid = Some ?c" by (simp add: w3_def w2_def w1_def)
  have "connectEstablished user cid w = call_connectionCallback user cid w3"
    using s(1) p(1) q(1) conn_okD(7) [OF s(2)] by (simp add: connectEstablished_def w2_def w3_def)
  also have "\<dots> = on_connection user cb cid (emit [Connection_cb cid True] w3)"
    using call_connectionCallback_ok [OF conn, of cb user] cb by (simp add: connected_def)
  finally show ?thesis
    using q(2) by (intro exI [of _ "emit [Connection_cb cid True] w3"]
        exI [of _ "mask_chan mask_enableReading (channel_tie cid ch)"])
      (simp add: w3_def w2_def w1_def isReading_def isWriting_def enableReading_reading
        reading_masks_keep_writing channel_tie_def)
qed

lemma with_channel_remove:
  assumes ok: "conn_ok cid c ch w"
  shows "\<exists>p m. with_channel removeChannel c w = Inr (lput (c_loop c) ((lget (c_loop c) w)\<lparr>poller := p\<rparr>) w) \<and>
    conn_ok cid c (set_index NEW ch) (lput (c_loop c) ((lget (c_loop c) w)\<lparr>poller := p\<rparr>) w) \<and>
    channels p (c_sockfd c) = None \<and> ep_run (ctl_log p) Map.empty = Some m \<and> m (c_sockfd c) = None"
proof -
  note d = conn_okD [OF ok]
  obtain m where coh: "coherent {} (poller (lget (c_loop c) w)) m"
    using d(6) unfolding poller_inv_def by blast
  define p where "p = (poller (lget (c_loop c) w))\<lparr>
      chan_heap := (chan_heap (poller (lget (c_loop c) w)))(c_channel c \<mapsto> set_index NEW ch),
      channels := (channels (poller (lget (c_loop c) w)))(ch_fd ch := None),
      ctl_log := ctl_log (poller (lget (c_loop c) w)) @
        (if ch_index ch = ADDED then [(EPOLL_CTL_DEL, ch_fd ch, ch_events ch, c_channel c)] else [])\<rparr>"
  have r: "removeChannel (c_channel c) (poller (lget (c_loop c) w)) = Inr p"
    "coherent {} p (m(c_sockfd c := None))"
    using removeChannel_ok [OF coh d(4)] d(5) unfolding p_def by simp_all
  have "chan_heap p (c_channel c) = Some (set_index NEW ch)" "channels p (c_sockfd c) = None"
    using d(5) by (simp_all add: p_def)
  then show ?thesis
    using r(1) r(2) coherentD(1) [OF r(2)] ok
    by (intro exI [of _ p] exI [of _ "m(c_sockfd c := None)"])
       (auto simp: with_channel_def conn_ok_def poller_inv_def)
qed

lemma with_channel_disbaleAll:
  assumes ok: "conn_ok cid c ch w"
  shows "\<exists>p. with_channel disbaleAll c w = Inr (lput (c_loop c) ((lget (c_loop c) w)\<lparr>poller := p\<rparr>) w) \<and>
    conn_ok cid c (mask_chan mask_disbaleAll ch) (lput (c_loop c) ((lget (c_loop c) w)\<lparr>poller := p\<rparr>) w)"
  unfolding disbaleAll_def using with_channel_mask [OF ok] .

text \<open>\<open>handleClose\<close> up to the close callback.\<close>

lemma handleClose_ok:
  assumes ok: "conn_ok cid c ch w" and cb: "connectionCallback c = Some cb"
  shows "\<exists>w1 ch'. handleClose user cid w = bindR (on_connection user cb cid w1) (\<lambda>w2.
      bindR (get_conn cid w2) (\<lambda>c2. if connCloseCallback c2 then on_close user cid w2 else Inl Bad_Function_Call)) \<and>
    conn_ok cid c ch' w1 \<and> isNoneEvent ch' \<and> w_trace w1 = w_trace w @ [Connection_cb cid (connected c)] \<and>
    (\<exists>p. w1 = emit [Connection_cb cid (connected c)] (lput (c_loop c) ((lget (c_loop c) w)\<lparr>poller := p\<rparr>) w))"
proof -
  obtain p where p: "with_channel disbaleAll c w = Inr (lput (c_loop c) ((lget (c_loop c) w)\<lparr>poller := p\<rparr>) w)"
    "conn_ok cid c (mask_chan mask_disbaleAll ch) (lput (c_loop c) ((lget (c_loop c) w)\<lparr>poller := p\<rparr>) w)"
    using with_channel_disbaleAll [OF ok] by blast
  define w1 where "w1 = lput (c_loop c) ((lget (c_loop c) w)\<lparr>poller := p\<rparr>) w"
  have "call_connectionCallback user cid w1 = on_connection user cb cid (emit [Connection_cb cid (connected c)] w1)"
    by (rule call_connectionCallback_ok) (use ok cb in \<open>simp_all add: w1_def conn_ok_def\<close>)
  then have "handleClose user cid w = bindR (on_connection user cb cid (emit [Connection_cb cid (connected c)] w1)) (\<lambda>w2.
      bindR (get_conn cid w2) (\<lambda>c2. if connCloseCallback c2 then on_close user cid w2 else Inl Bad_Function_Call))"
    using p(1) conn_okD(7) [OF ok] by (simp add: handleClose_def w1_def)
  then show ?thesis using p(2)
    by (intro exI [of _ "emit [Connection_cb cid (connected c)] w1"] exI [of _ "mask_chan mask_disbaleAll ch"])
       (auto simp: w1_def isNoneEvent_def disbaleAll_none)
qed

text \<open>The application's connection callback returns and leaves this connection as it finds it.\<close>

definition connection_cb_ok :: "'z world_scheme user_code \<Rightarrow> nat \<Rightarrow> nat \<Rightarrow> tcp_connection \<Rightarrow> bool" where
  "connection_cb_ok user cb cid c \<longleftrightarrow>
     (\<forall>w ch. conn_ok cid c ch w \<longrightarrow>
        (\<exists>w' ch'. on_connection user cb cid w = Inr w' \<and> conn_ok cid c ch' w' \<and> w_trace w' = w_trace w))"

lemma connectDestroyed_ok:
  assumes ok: "conn_ok cid c ch w" and st: "c_state c = kConnected" and cb: "connectionCallback c = Some cb"
    and user: "connection_cb_ok user cb cid (c\<lparr>c_state := kDisconnected\<rparr>)"
  shows "\<exists>w' ch' m. connectDestroyed user cid w = Inr w' \<and>
    conn_ok cid (c\<lparr>c_state := kDisconnected\<rparr>) ch' w' \<and> ch_index ch' = NEW \<and>
    w_trace w' = w_trace w @ [Connection_cb cid False] \<and>
    channels (poller (lget (c_loop c) w')) (c_sockfd c) = None \<and>
    ep_run (ctl_log (poller (lget (c_loop c) w'))) Map.empty = Some m \<and> m (c_sockfd c) = None"
proof -
  let ?c = "c\<lparr>c_state := kDisconnected\<rparr>"
  define w1 where "w1 = put_conn cid ?c w"
  have s: "setState kDisconnected cid w = Inr w1" "conn_ok cid ?c ch w1"
    using setState_ok [OF ok] by (simp_all add: w1_def)
  obtain p where p: "with_channel disbaleAll ?c w1 = Inr (lput (c_loop c) ((lget (c_loop c) w1)\<lparr>poller := p\<rparr>) w1)"
    "conn_ok cid ?c (mask_chan mask_disbaleAll ch) (lput (c_loop c) ((lget (c_loop c) w1)\<lparr>poller := p\<rparr>) w1)"
    using with_channel_disbaleAll [OF s(2)] by auto
  define w2 where "w2 = lput (c_loop c) ((lget (c_loop c) w1)\<lparr>poller := p\<rparr>) w1"
  define w2' where "w2' = emit [Connection_cb cid False] w2"
  have ok2: "conn_ok cid ?c (mask_chan mask_disbaleAll ch) w2'" using p(2) by (simp add: w2'_def w2_def)
  have call: "call_connectionCallback user cid w2 = on_connection user cb cid w2'"
    using call_connectionCallback_ok [of w2 cid ?c cb user] cb conn_okD(1) [OF p(2)]
    by (simp add: w2_def w2'_def connected_def)
  obtain w3 ch3 where w3: "on_connection user cb cid w2' = Inr w3" "conn_ok cid ?c ch3 w3" "w_trace w3 = w_trace w2'"
    using user ok2 unfolding connection_cb_ok_def by blast
  obtain q m where q: "with_channel removeChannel ?c w3 = Inr (lput (c_loop c) ((lget (c_loop c) w3)\<lparr>poller := q\<rparr>) w3)"
    "conn_ok cid ?c (set_index NEW ch3) (lput (c_loop c) ((lget (c_loop c) w3)\<lparr>poller := q\<rparr>) w3)"
    "channels q (c_sockfd c) = None" "ep_run (ctl_log q) Map.empty = Some m" "m (c_sockfd c) = None"
    using with_channel_remove [OF w3(2)] by auto
  have same: "with_channel f ?c = (with_channel f c :: 'a world_scheme \<Rightarrow> _)" for f
    by (simp add: with_channel_def fun_eq_iff)
  have "connectDestroyed user cid w = Inr (lput (c_loop c) ((lget (c_loop c) w3)\<lparr>poller := q\<rparr>) w3)"
    using s(1) p(1) q(1) call w3(1) st conn_okD(7) [OF ok]
    by (simp add: connectDestroyed_def w2_def same)
  then show ?thesis using q w3(3)
    by (intro exI [of _ "lput (c_loop c) ((lget (c_loop c) w3)\<lparr>poller := q\<rparr>) w3"] exI [of _ "set_index NEW ch3"] exI [of _ m])
       (simp add: w2'_def w2_def w1_def)
qed

section \<open>A connection to look at\<close>

definition demo_loop :: "(callback_t, functor_t) event_loop" where
  "demo_loop = \<lparr>looping = True, quit_flag = False, threadId = 1, pollReturnTime = 0,
     poller = EpollPoller_new [5 \<mapsto> Channel_new 0 7], wakeupFd = 4, wakeupChannel = 0,
     activeChannels = [], callingPendingFunctors = False, pendingFunctors = [], eventfd = 0\<rparr>"

definition demo_conn :: tcp_connection where
  "demo_conn = \<lparr>c_loop = 0, c_name = ''demo'', c_state = kConnected, c_reading = True, c_sockfd = 7,
     c_channel = 5, c_localAddr = InetAddress_new (\<lambda>_. 16777343) 80 ''127.0.0.1'', c_peerAddr = InetAddress_new (\<lambda>_. 16777343) 81 ''127.0.0.1'',
     connectionCallback = Some 0, messageCallback = Some 0, writeCompleteCallback = None,
     connCloseCallback = True, highWaterMarkCallback = None, highWaterMark = 4,
     inputBuffer = Buffer_new INIT_SIZE, outputBuffer = Buffer_new INIT_SIZE\<rparr>"

definition demo_world :: world where
  "demo_world = \<lparr>w_loops = \<lambda>_. demo_loop, w_conns = [0 \<mapsto> demo_conn],
     w_strings = [0 \<mapsto> ''hello'', 1 \<mapsto> ''world''], w_trace = []\<rparr>"

text \<open>A kernel that takes \<open>k\<close> bytes of every write and delivers \<open>inp\<close> on every read.\<close>

definition demo_os :: "nat \<Rightarrow> bytes \<Rightarrow> os_calls" where
  "demo_os k inp = \<lparr>os_write = (\<lambda>fd bs. Inr (min k (length bs))),
     os_readv = (\<lambda>fd lens. Inr (take (sum_list lens) inp)),
     os_sendfile = (\<lambda>out file off n. Inr (min k n)), os_so_error = (\<lambda>fd. Inr 0)\<rparr>"

definition demo_user :: "'w user_code" where
  "demo_user = \<lparr>on_connection = \<lambda>cb cid w. Inr w, on_message = \<lambda>cb cid t w. Inr w,
     on_writeComplete = \<lambda>cb cid w. Inr w, on_highWaterMark = \<lambda>cb cid n w. Inr w,
     on_close = \<lambda>cid w. Inr w, on_threadInit = \<lambda>cb lid w. Inr w\<rparr>"

lemma demo_poller_inv: "poller_inv (EpollPoller_new [5 \<mapsto> Channel_new 0 7])"
  unfolding poller_inv_def
  by (rule exI [of _ Map.empty])
     (simp add: coherent_def EpollPoller_new_def distinct_fds_def chan_ok_def Channel_new_def NEW_def)

lemma demo_conn_ok: "conn_ok 0 demo_conn (Channel_new 0 7) demo_world"
  using demo_poller_inv
  by (simp add: conn_ok_def demo_world_def demo_conn_def demo_loop_def lget_def buf_inv_new EpollPoller_new_def
      Channel_new_def)

lemma demo_out_sync: "out_sync demo_conn (Channel_new 0 7)"
  by (simp add: out_sync_def isWriting_def Channel_new_def demo_conn_def content_new)

lemma demo_live: "conn_live 1 0 demo_conn demo_world"
  using demo_conn_ok demo_out_sync
  by (auto simp: conn_live_def) (simp_all add: demo_conn_def demo_world_def lget_def demo_loop_def)

lemma demo_os_ok: "write_ok (os_write (demo_os k inp))" "no_fault (demo_os k inp)"
  "readv_ok (os_readv (demo_os k inp))"
  by (simp_all add: write_ok_def no_fault_def readv_ok_def demo_os_def)

lemma demo_fits: "n \<le> 2 ^ 62 \<Longrightarrow> buf_fits (outputBuffer demo_conn) n"
  by (simp add: demo_conn_def buf_fits_new)

text \<open>The same connection with two bytes of output waiting.\<close>

definition busy_conn :: tcp_connection where
  "busy_conn = demo_conn\<lparr>outputBuffer :=
     \<lparr>buf_data = replicate 8 (CHR 0x00) @ ''ab'', readerIndex = 8, writerIndex = 10\<rparr>\<rparr>"

definition busy_chan :: "callback_t channel" where
  "busy_chan = (Channel_new 0 7)\<lparr>ch_events := writeEvent\<rparr>"

definition busy_world :: world where
  "busy_world = demo_world\<lparr>w_loops := \<lambda>_. demo_loop\<lparr>poller := EpollPoller_new [5 \<mapsto> busy_chan]\<rparr>,
     w_conns := [0 \<mapsto> busy_conn]\<rparr>"

lemma busy_content: "content (outputBuffer busy_conn) = ''ab''"
  by (simp add: busy_conn_def content_def readableBytes_def)

lemma busy_conn_ok: "conn_ok 0 busy_conn busy_chan busy_world"
proof -
  have "buf_inv (outputBuffer busy_conn)"
    by (simp add: busy_conn_def buf_inv_def vec_max_size_def CHEAP_PREPEND_def)
  moreover have "poller_inv (EpollPoller_new [5 \<mapsto> busy_chan])"
    unfolding poller_inv_def
    by (rule exI [of _ Map.empty])
       (simp add: coherent_def EpollPoller_new_def distinct_fds_def chan_ok_def busy_chan_def Channel_new_def NEW_def)
  ultimately show ?thesis
    by (simp add: conn_ok_def busy_world_def busy_conn_def demo_conn_def lget_def buf_inv_new EpollPoller_new_def
        busy_chan_def Channel_new_def)
qed

lemma busy_out_sync: "out_sync busy_conn busy_chan"
  by (simp add: out_sync_def busy_content) (simp add: busy_chan_def isWriting_def event_defs)

lemma busy_fits: "n \<le> 2 ^ 62 \<Longrightarrow> buf_fits (outputBuffer busy_conn) n"
  by (simp add: busy_conn_def buf_fits_def vec_max_size_def)

end
