(* ===== verification/Connection_Props.thy ===== *)
theory Connection_Props
  imports Connection_Lemmas
begin

text \<open>
  The properties of \<open>TcpConnection\<close>: the byte stream it writes, its half close, its high-water mark,
  what reading delivers, and its registration at the beginning and the end of its life. The last
  ones state where the code departs from what it means to do.
\<close>

section \<open>The byte stream\<close>



text \<open>
  C29: A send whose \<open>write\<close> fails, when no output waits: after \<open>EPIPE\<close> or \<open>ECONNRESET\<close>, and on a connection
  that is already disconnected, the data is given up and nothing changes. After any other error
  (\<open>EWOULDBLOCK\<close>, but also \<open>EINTR\<close> and the rest) nothing is lost: all of the data is buffered and the
  channel asks for writability.
\<close>

theorem send_write_error:
  assumes ok: "conn_ok cid c ch w" and sync: "out_sync c ch" and empty: "content (outputBuffer c) = []"
    and len: "unat len = length mem" "mem \<noteq> []" and fits: "buf_fits (outputBuffer c) (length mem)"
    and err: "os_write os (c_sockfd c) mem = Inl e"
  shows "if c_state c = kDisconnected \<or> e = EPIPE \<or> e = ECONNRESET then sendInLoop os tid cid mem len w = Inr w
    else \<exists>w' b ch'. sendInLoop os tid cid mem len w = Inr w' \<and> conn_ok cid (c\<lparr>outputBuffer := b\<rparr>) ch' w' \<and>
      isWriting ch' \<and> content b = mem \<and> w_trace w' = w_trace w"
proof (cases "c_state c = kDisconnected \<or> e = EPIPE \<or> e = ECONNRESET")
  case True
  then show ?thesis
    using sendInLoop_fault [OF ok sync _ len(1) empty, of os tid] err conn_okD(7) [OF ok]
    by (cases "c_state c = kDisconnected") (auto simp: sendInLoop_def write_faults_def)
next
  case False
  note d = conn_okD [OF ok]
  have direct: "\<not> isWriting ch \<and> readableBytes (outputBuffer c) = 0"
    using sync empty readable_0 [OF d(3)] by (simp add: out_sync_def)
  have "send_direct os tid cid c (c_sockfd c) mem len w = Inr (0, len, False, w)"
    using err len(1) False by (simp add: send_direct_def)
  moreover have "len > 0" using len by (metis length_0_conv unat_eq_zero word_gt_0)
  ultimately have "sendInLoop os tid cid mem len w = send_buffered tid cid c ch mem 0 len w"
    using False by (simp add: sendInLoop_def d(5,7,8) if_P [OF direct])
  with send_buffered_ok [OF ok, of len 0 mem tid] fits len(1) empty False show ?thesis by auto
qed

theorem send_write_error_witness:
  "sendInLoop ((demo_os 2 [])\<lparr>os_write := \<lambda>fd bs. Inl EPIPE\<rparr>) 1 0 ''abc'' 3 demo_world = Inr demo_world \<and>
   (\<exists>w' b. sendInLoop ((demo_os 2 [])\<lparr>os_write := \<lambda>fd bs. Inl EWOULDBLOCK\<rparr>) 1 0 ''abc'' 3 demo_world = Inr w' \<and>
      w_conns w' 0 = Some (demo_conn\<lparr>outputBuffer := b\<rparr>) \<and> content b = ''abc'')"
proof -
  have c: "content (outputBuffer demo_conn) = []" "unat (3 :: size_t) = length ''abc''" "''abc'' \<noteq> []"
    "buf_fits (outputBuffer demo_conn) (length ''abc'')" "c_state demo_conn = kConnected"
    by (simp_all add: demo_conn_def content_new buf_fits_new)
  note err = send_write_error [OF demo_conn_ok demo_out_sync c(1-4), of _ _ 1]
  show ?thesis
    using err [of "(demo_os 2 [])\<lparr>os_write := \<lambda>fd bs. Inl EPIPE\<rparr>" EPIPE]
      err [of "(demo_os 2 [])\<lparr>os_write := \<lambda>fd bs. Inl EWOULDBLOCK\<rparr>" EWOULDBLOCK] c(5)
    by (auto simp: EWOULDBLOCK_def EPIPE_def ECONNRESET_def conn_ok_def)
qed

section \<open>Half close\<close>



section \<open>High-water mark\<close>

lemma sendInLoop_highWaterMark:
  assumes ok: "conn_ok cid c ch w" and sync: "out_sync c ch" and st: "c_state c \<noteq> kDisconnected"
    and wait: "content (outputBuffer c) \<noteq> []" and len: "unat len = length mem" "mem \<noteq> []"
    and fits: "buf_fits (outputBuffer c) (length mem)"
  shows "\<exists>w'. sendInLoop os tid cid mem len w = Inr w' \<and>
    (let old = length (content (outputBuffer c)); new = old + length mem in
     pendingFunctors (lget (c_loop c) w') = pendingFunctors (lget (c_loop c) w) @
       (if old < unat (highWaterMark c) \<and> unat (highWaterMark c) \<le> new
        then [F_highWaterMark (highWaterMarkCallback c) cid (of_nat new)] else []))"
proof -
  note d = conn_okD [OF ok]
  let ?old = "readableBytes (outputBuffer c)"
  have wr: "isWriting ch" using sync wait by (simp add: out_sync_def)
  have old: "unat ?old = length (content (outputBuffer c))" using length_content [OF d(3)] by simp
  have b: "unat ?old + unat len < 2 ^ 64"
    using fits len(1) unat_readable [OF d(3)] vec_max_size_lt by (simp add: buf_fits_def)
  have sum: "unat (?old + len) = length (content (outputBuffer c)) + length mem"
    using unat_size_add [OF b] old len(1) by simp
  have sum': "?old + len = of_nat (length (content (outputBuffer c)) + length mem)"
    by (simp only: sum [symmetric]) simp
  have hwm: "(?old + len \<ge> highWaterMark c \<and> ?old < highWaterMark c \<and> highWaterMark c \<noteq> 0) \<longleftrightarrow>
      length (content (outputBuffer c)) < unat (highWaterMark c) \<and>
      unat (highWaterMark c) \<le> length (content (outputBuffer c)) + length mem"
    by (auto simp: word_le_nat_alt word_less_nat_alt sum old)
  have f: "buf_fits (outputBuffer c) (unat len)" "unat len \<le> length (drop 0 mem)" using fits len by simp_all
  obtain bb where bb: "append_raw (outputBuffer c) mem len = Inr bb"
    using append_raw_ok [OF d(3) f] by auto
  have "sendInLoop os tid cid mem len w = send_buffered tid cid c ch mem 0 len w"
    using st wr len by (simp add: sendInLoop_def d(7,8)) (metis length_0_conv unat_0 word_gt_0)
  then show ?thesis using bb wr hwm sum'
    by (auto simp: send_buffered_def Let_def queue_on_def loop_op_defs)
qed



section \<open>Reading\<close>

lemma handleRead_data:
  assumes ok: "conn_ok cid c ch w" and cb: "messageCallback c = Some cb"
    and fits: "length (buf_data (inputBuffer c)) + 65536 \<le> vec_max_size" and rd: "readv_ok (os_readv os)"
    and bs: "os_readv os (c_sockfd c) (read_iov (inputBuffer c)) = Inr bs"
  shows "\<exists>b. buf_inv b \<and> content b = content (inputBuffer c) @ bs \<and>
    length (buf_data b) \<le> length (buf_data (inputBuffer c)) + length bs \<and>
    conn_ok cid (c\<lparr>inputBuffer := b\<rparr>) ch (put_conn cid (c\<lparr>inputBuffer := b\<rparr>) w) \<and>
    handleRead os user t cid w =
      (if bs \<noteq> [] then on_message user cb cid t (put_conn cid (c\<lparr>inputBuffer := b\<rparr>) w)
       else handleClose user cid (put_conn cid (c\<lparr>inputBuffer := b\<rparr>) w))"
proof -
  note d = conn_okD [OF ok]
  obtain b where b: "readFd (os_readv os) (c_sockfd c) (inputBuffer c) = Inr (int (length bs), None, b)"
    "buf_inv b" "content b = content (inputBuffer c) @ bs"
    using readFd_data [of _ "os_readv os", OF d(2) fits bs rd] by blast
  have "conn_ok cid (c\<lparr>inputBuffer := b\<rparr>) ch (put_conn cid (c\<lparr>inputBuffer := b\<rparr>) w)"
    by (rule conn_ok_put [OF ok]) (use d b in simp_all)
  moreover have "handleRead os user t cid w =
      (if bs \<noteq> [] then on_message user cb cid t (put_conn cid (c\<lparr>inputBuffer := b\<rparr>) w)
       else handleClose user cid (put_conn cid (c\<lparr>inputBuffer := b\<rparr>) w))"
    using b by (simp add: handleRead_def d(7,8,5) cb)
  ultimately show ?thesis using b(2,3) readFd_capacity [of _ "os_readv os", OF d(2) fits bs rd b(1)] by blast
qed

text \<open>
  C30: \<open>handleRead\<close> gives the application everything the kernel delivered, appended to what the input
  buffer still held; on end of file it closes the connection without calling the message callback;
  on an error of \<open>readv\<close> it logs the socket's error and changes nothing else.
\<close>

theorem handleRead_delivers:
  assumes ok: "conn_ok cid c ch w" and cb: "messageCallback c = Some cb"
    and fits: "length (buf_data (inputBuffer c)) + 65536 \<le> vec_max_size"
    and rd: "readv_ok (os_readv os)"
  shows "(case os_readv os (c_sockfd c) (read_iov (inputBuffer c)) of
      Inr [] \<Rightarrow> \<exists>w1. handleRead os user t cid w = handleClose user cid w1 \<and>
        (\<exists>b. content b = content (inputBuffer c) \<and> conn_ok cid (c\<lparr>inputBuffer := b\<rparr>) ch w1) \<and> w_trace w1 = w_trace w
    | Inr bs \<Rightarrow> \<exists>b w1. content b = content (inputBuffer c) @ bs \<and>
        conn_ok cid (c\<lparr>inputBuffer := b\<rparr>) ch w1 \<and> w_trace w1 = w_trace w \<and>
        handleRead os user t cid w = on_message user cb cid t w1
    | Inl e \<Rightarrow> handleRead os user t cid w = Inr (emit [Logged_error cid
        (case os_so_error os (c_sockfd c) of Inl e \<Rightarrow> e | Inr optval \<Rightarrow> optval)] w))"
proof -
  note d = conn_okD [OF ok]
  show ?thesis
  proof (cases "os_readv os (c_sockfd c) (read_iov (inputBuffer c))")
    case (Inl e)
    have self: "put_conn cid (c\<lparr>inputBuffer := inputBuffer c\<rparr>) w = w"
      using d(1) by (simp add: put_conn_def fun_upd_idem)
    have "handleRead os user t cid w = handleError os cid w"
      using readFd_error [of "os_readv os", OF Inl] self by (simp add: handleRead_def d(7,8,5))
    then show ?thesis using Inl by (simp add: handleError_def d(7,8,5))
  next
    case (Inr bs)
    obtain b where b: "content b = content (inputBuffer c) @ bs"
      "conn_ok cid (c\<lparr>inputBuffer := b\<rparr>) ch (put_conn cid (c\<lparr>inputBuffer := b\<rparr>) w)"
      and h: "handleRead os user t cid w =
        (if bs \<noteq> [] then on_message user cb cid t (put_conn cid (c\<lparr>inputBuffer := b\<rparr>) w)
         else handleClose user cid (put_conn cid (c\<lparr>inputBuffer := b\<rparr>) w))"
      using handleRead_data [OF ok cb fits rd Inr] by blast
    show ?thesis
    proof (cases bs)
      case Nil
      with Inr b h show ?thesis by auto
    next
      case (Cons x xs)
      have "handleRead os user t cid w = on_message user cb cid t (put_conn cid (c\<lparr>inputBuffer := b\<rparr>) w)"
        "w_trace (put_conn cid (c\<lparr>inputBuffer := b\<rparr>) w) = w_trace w"
        using h Cons by simp_all
      with b have "\<exists>b w1. content b = content (inputBuffer c) @ bs \<and>
          conn_ok cid (c\<lparr>inputBuffer := b\<rparr>) ch w1 \<and> w_trace w1 = w_trace w \<and>
          handleRead os user t cid w = on_message user cb cid t w1" by blast
      with Inr Cons show ?thesis by simp
    qed
  qed
qed

theorem handleRead_delivers_witness:
  "\<exists>b w1. content b = ''ping'' \<and> conn_ok 0 (demo_conn\<lparr>inputBuffer := b\<rparr>) (Channel_new 0 7) w1 \<and>
     handleRead (demo_os 9 ''ping'') demo_user 3 0 demo_world = Inr w1"
proof -
  let ?os = "demo_os 9 ''ping''"
  have cb: "messageCallback demo_conn = Some 0" by (simp add: demo_conn_def)
  have fits: "length (buf_data (inputBuffer demo_conn)) + 65536 \<le> vec_max_size"
    by (simp add: demo_conn_def Buffer_new_def vec_max_size_def CHEAP_PREPEND_def INIT_SIZE_def)
  have "sum_list (read_iov (inputBuffer demo_conn)) \<ge> 4"
    by (simp add: demo_conn_def read_iov_def Buffer_new_def writableBytes_def buf_size_def
        CHEAP_PREPEND_def INIT_SIZE_def EXTRABUF_def)
  then have r: "os_readv ?os (c_sockfd demo_conn) (read_iov (inputBuffer demo_conn)) = Inr ''ping''"
    by (simp add: demo_os_def)
  have "content (inputBuffer demo_conn) = []" by (simp add: demo_conn_def content_new)
  with handleRead_delivers [OF demo_conn_ok cb fits demo_os_ok(3) [of 9 "''ping''"], of demo_user 3] r
  show ?thesis by (auto simp: demo_user_def)
qed

section \<open>The beginning and the end of a connection\<close>

text \<open>
  \<open>connectEstablished\<close> hands the application a connection that is connected, tied to its channel
  and registered for reading, after exactly one connection event; \<open>connectDestroyed\<close> on a connected
  connection tells the application that it is no longer connected, and leaves neither the poller nor
  the kernel with an entry for its descriptor.
\<close>

theorem connection_lifecycle:
  assumes ok: "conn_ok cid c ch w" and cb: "connectionCallback c = Some cb"
    and user: "connection_cb_ok user cb cid (c\<lparr>c_state := kDisconnected\<rparr>)"
  shows "(\<exists>w1 ch1. connectEstablished user cid w = on_connection user cb cid w1 \<and>
      conn_ok cid (c\<lparr>c_state := kConnected\<rparr>) ch1 w1 \<and> isReading ch1 \<and> ch_tied ch1 \<and> ch_tie ch1 = Some cid \<and>
      w_trace w1 = w_trace w @ [Connection_cb cid True]) \<and>
    (c_state c = kConnected \<longrightarrow>
      (\<exists>w2 m. connectDestroyed user cid w = Inr w2 \<and>
         w_conns w2 cid = Some (c\<lparr>c_state := kDisconnected\<rparr>) \<and>
         w_trace w2 = w_trace w @ [Connection_cb cid False] \<and>
         channels (poller (lget (c_loop c) w2)) (c_sockfd c) = None \<and>
         ep_run (ctl_log (poller (lget (c_loop c) w2))) Map.empty = Some m \<and> m (c_sockfd c) = None))"
proof (intro conjI impI)
  show "\<exists>w1 ch1. connectEstablished user cid w = on_connection user cb cid w1 \<and>
      conn_ok cid (c\<lparr>c_state := kConnected\<rparr>) ch1 w1 \<and> isReading ch1 \<and> ch_tied ch1 \<and> ch_tie ch1 = Some cid \<and>
      w_trace w1 = w_trace w @ [Connection_cb cid True]"
    using connectEstablished_ok [OF ok cb] by blast
  assume "c_state c = kConnected"
  from connectDestroyed_ok [OF ok this cb user]
  show "\<exists>w2 m. connectDestroyed user cid w = Inr w2 \<and>
         w_conns w2 cid = Some (c\<lparr>c_state := kDisconnected\<rparr>) \<and>
         w_trace w2 = w_trace w @ [Connection_cb cid False] \<and>
         channels (poller (lget (c_loop c) w2)) (c_sockfd c) = None \<and>
         ep_run (ctl_log (poller (lget (c_loop c) w2))) Map.empty = Some m \<and> m (c_sockfd c) = None"
    by (auto simp: conn_ok_def)
qed

lemma demo_connection_cb_ok: "connection_cb_ok demo_user cb cid c"
  by (auto simp: connection_cb_ok_def demo_user_def)

theorem connection_lifecycle_witness:
  "\<exists>w2. connectDestroyed demo_user 0 demo_world = Inr w2 \<and> w_trace w2 = [Connection_cb 0 False]"
proof -
  have cb: "connectionCallback demo_conn = Some 0" and st: "c_state demo_conn = kConnected"
    by (simp_all add: demo_conn_def)
  have "w_trace demo_world = []" by (simp add: demo_world_def)
  with connection_lifecycle [OF demo_conn_ok cb demo_connection_cb_ok] st show ?thesis by auto
qed

text \<open>
  When the peer closes, the application is told so while \<open>connected()\<close> still answers true:
  \<open>handleClose\<close> does not change the state, so its connection event is indistinguishable from the one
  of a new connection, and \<open>connectDestroyed\<close>, which runs later, announces the end a second time,
  now with \<open>connected()\<close> false. The channel is unregistered before the first of them.
\<close>

theorem peer_close_announced_twice:
  assumes ok: "conn_ok cid c ch w" and cb: "connectionCallback c = Some cb" and st: "c_state c = kConnected"
    and close: "connCloseCallback c"
    and user: "connection_cb_ok user cb cid c" "connection_cb_ok user cb cid (c\<lparr>c_state := kDisconnected\<rparr>)"
    and on_close: "\<And>w. on_close user cid w = Inr w"
  shows "\<exists>w1 w2. handleClose user cid w = Inr w1 \<and> w_conns w1 cid = Some c \<and> connected c \<and>
    w_trace w1 = w_trace w @ [Connection_cb cid True] \<and>
    connectDestroyed user cid w1 = Inr w2 \<and> w_trace w2 = w_trace w @ [Connection_cb cid True, Connection_cb cid False]"
proof -
  obtain w0 ch0 where h: "handleClose user cid w = bindR (on_connection user cb cid w0) (\<lambda>w2.
      bindR (get_conn cid w2) (\<lambda>c2. if connCloseCallback c2 then on_close user cid w2 else Inl Bad_Function_Call))"
    "conn_ok cid c ch0 w0" "w_trace w0 = w_trace w @ [Connection_cb cid (connected c)]"
    using handleClose_ok [OF ok cb] by blast
  obtain w1 ch1 where w1: "on_connection user cb cid w0 = Inr w1" "conn_ok cid c ch1 w1" "w_trace w1 = w_trace w0"
    using user(1) h(2) unfolding connection_cb_ok_def by blast
  have con: "connected c" using st by (simp add: connected_def)
  have "handleClose user cid w = Inr w1" using h(1) w1(1) conn_okD(7) [OF w1(2)] close on_close by simp
  with connectDestroyed_ok [OF w1(2) st cb user(2)] w1 h con show ?thesis
    by (fastforce simp: conn_ok_def)
qed

theorem peer_close_announced_twice_witness:
  "\<exists>w1 w2. handleClose demo_user 0 demo_world = Inr w1 \<and> connectDestroyed demo_user 0 w1 = Inr w2 \<and>
     w_trace w2 = [Connection_cb 0 True, Connection_cb 0 False]"
proof -
  have c: "connectionCallback demo_conn = Some 0" "c_state demo_conn = kConnected" "connCloseCallback demo_conn"
    by (simp_all add: demo_conn_def)
  have on_close: "on_close demo_user 0 w = Inr w" for w :: world by (simp add: demo_user_def)
  have "w_trace demo_world = []" by (simp add: demo_world_def)
  with peer_close_announced_twice [OF demo_conn_ok c demo_connection_cb_ok demo_connection_cb_ok on_close]
  show ?thesis by auto
qed

section \<open>Where the code departs from its purpose\<close>

text \<open>
  After a partial \<open>sendfile\<close> the continuation starts at the right offset but asks for the
  whole count again, not for what remains: \<open>n\<close> bytes sent of \<open>count\<close> queue a request that reaches
  \<open>n\<close> bytes past the end of the requested range.
\<close>

theorem sendFile_overshoots:
  assumes "conn_live tid cid c w" and "content (outputBuffer c) = []"
    and "os_sendfile os (c_sockfd c) fd off (unat count) = Inr n" and "n < unat count"
  shows "\<exists>w'. sendFile os tid cid fd off count w = Inr w' \<and>
    w_trace w' = w_trace w @ [Sent_file (c_sockfd c) fd off n] \<and>
    pendingFunctors (lget (c_loop c) w') =
      pendingFunctors (lget (c_loop c) w) @ [F_sendFileInLoop cid fd (off + int n) count] \<and>
    (off + int n) + uint count = (off + uint count) + int n"
proof -
  from assms(1) obtain ch where ok: "conn_ok cid c ch w" and sync: "out_sync c ch"
    and st: "c_state c = kConnected" and th: "threadId (lget (c_loop c) w) = tid"
    by (auto simp: conn_live_def)
  note d = conn_okD [OF ok]
  have direct: "\<not> isWriting ch \<and> readableBytes (outputBuffer c) = 0"
    using sync assms(2) readable_0 [OF d(3)] by (simp add: out_sync_def)
  have "count \<noteq> of_nat n" using assms(4) by (auto simp: unat_of_nat)
  then have rem: "0 < count - of_nat n" "count - of_nat n \<noteq> 0" by (simp_all add: word_gt_0)
  have "sendFile os tid cid fd off count w = Inr (queue_on tid (c_loop c)
      (F_sendFileInLoop cid fd (off + int n) count) (emit [Sent_file (c_sockfd c) fd off n] w))"
    using st th assms(3) rem
    by (simp add: sendFile_def sendFileInLoop_def connected_def isInLoopThread_def d(7,8) if_P [OF direct] Let_def
        split: option.split)
  then show ?thesis by (simp add: queue_on_def loop_op_defs)
qed

theorem sendFile_overshoots_witness:
  "\<exists>w'. sendFile (demo_os 3 []) 1 0 9 0 10 demo_world = Inr w' \<and>
     pendingFunctors (lget 0 w') = [F_sendFileInLoop 0 9 3 10]"
proof -
  have "content (outputBuffer demo_conn) = []"
    "os_sendfile (demo_os 3 []) (c_sockfd demo_conn) 9 0 (unat (10 :: size_t)) = Inr 3" "3 < unat (10 :: size_t)"
    by (simp_all add: demo_conn_def content_new demo_os_def)
  moreover have "pendingFunctors (lget (c_loop demo_conn) demo_world) = []" "c_loop demo_conn = 0"
    by (simp_all add: demo_world_def lget_def demo_loop_def demo_conn_def)
  ultimately show ?thesis using sendFile_overshoots [OF demo_live, of "demo_os 3 []" 9 0 10 3] by auto
qed

text \<open>
  \<open>send\<close> from another thread queues the pointer \<open>c_str()\<close> and not the characters: if the string is
  gone when the loop runs the functor, the functor reads through a dangling pointer, although the
  call of \<open>send\<close> itself succeeded.
\<close>

theorem queued_send_dangles:
  assumes "w_conns w cid = Some c" and "c_state c = kConnected" and "w_strings w ptr = Some buf"
    and "threadId (lget (c_loop c) w) \<noteq> tid"
  shows "\<exists>w1. send os tid cid ptr w = Inr w1 \<and> w_trace w1 = w_trace w \<and>
    pendingFunctors (lget (c_loop c) w1) =
      pendingFunctors (lget (c_loop c) w) @ [F_sendInLoop cid ptr (of_nat (length buf))] \<and>
    run_sendInLoop os tid' cid ptr (of_nat (length buf)) (w1\<lparr>w_strings := (w_strings w1)(ptr := None)\<rparr>) = Inl Dangling"
  using assms by (simp add: send_def isInLoopThread_def run_sendInLoop_def) (simp add: queue_on_def loop_op_defs)

theorem queued_send_dangles_witness:
  "\<exists>w1. send (demo_os 9 []) 2 0 1 demo_world = Inr w1 \<and>
     pendingFunctors (lget 0 w1) = [F_sendInLoop 0 1 5] \<and>
     run_sendInLoop (demo_os 9 []) 1 0 1 5 (w1\<lparr>w_strings := (w_strings w1)(1 := None)\<rparr>) = Inl Dangling"
proof -
  have "w_conns demo_world 0 = Some demo_conn" "c_state demo_conn = kConnected"
    "w_strings demo_world 1 = Some ''world''" "threadId (lget (c_loop demo_conn) demo_world) \<noteq> 2"
    by (simp_all add: demo_world_def demo_conn_def lget_def demo_loop_def)
  note r = queued_send_dangles [OF this, of "demo_os 9 []" 1]
  have "pendingFunctors (lget (c_loop demo_conn) demo_world) = []" "c_loop demo_conn = 0"
    by (simp_all add: demo_world_def lget_def demo_loop_def demo_conn_def)
  with r show ?thesis by fastforce
qed

end
