(* ===== verification/Server_Props.thy ===== *)
theory Server_Props
  imports Tcp_Server Connection_Props
begin

text \<open>
  Properties of the server: the interface \<open>loop_host\<close> of the event loop holds for the server's
  functors, connection names are unique, a closed connection is released, and the echo server
  echoes.
\<close>

section \<open>The server's functors respect the loop\<close>

definition user_ext :: "nat \<Rightarrow> 'z world_scheme user_code \<Rightarrow> bool" where
  "user_ext a user \<longleftrightarrow> (\<forall>cb cid w. keeps (loop_ext a) w (on_connection user cb cid w)) \<and>
     (\<forall>cb cid w. keeps (loop_ext a) w (on_writeComplete user cb cid w)) \<and>
     (\<forall>cb cid n w. keeps (loop_ext a) w (on_highWaterMark user cb cid n w))"

lemma loop_ext_more [simp]:
  "loop_ext a w (w\<lparr>s_connections := m\<rparr>)" "loop_ext a w (w\<lparr>s_acceptor := ac\<rparr>)"
  by (simp_all add: loop_ext_lget lget_def)

lemma keeps_removeConnectionInLoop: "keeps (loop_ext a) w (removeConnectionInLoop tid cid w)"
  unfolding removeConnectionInLoop_def
  by (rule keeps_read) (auto intro: loop_ext_trans [OF loop_ext_more(1) lq.R_queue])

lemma keeps_with_accept_channel [simp]: "keeps (loop_ext a) w (with_accept_channel f w)"
  by (auto simp: with_accept_channel_def intro: keeps_read)

lemma keeps_Acceptor_listen: "keeps (loop_ext a) w (Acceptor_listen w)"
  unfolding Acceptor_listen_def Let_def
  by (rule lq.keeps_after [OF _ keeps_with_accept_channel])
     (rule loop_ext_trans [OF loop_ext_more(2) lq.R_emit])

lemma keeps_exec_functor:
  assumes u: "user_ext a user"
  shows "keeps (loop_ext a) w (exec_functor os user tid f w)"
proof -
  have "keeps (loop_ext a) w (on_connection (server_user tid user) cb cid w)" for cb cid w
    using u by (simp add: user_ext_def server_user_def)
  note facts = lq.keeps_connectEstablished [OF this] lq.keeps_connectDestroyed [OF this]
    keeps_removeConnectionInLoop keeps_Acceptor_listen
  show ?thesis
    using u facts by (cases f) (auto simp: exec_functor_def user_ext_def split: option.split)
qed

lemma connection_line_ok: "connection_line c = Inr ((if connected c then ''Connection UP : '' else ''Connection DOWN : '') @
    inet_ntop (s_addr (c_peerAddr c)) @ '':'' @ to_string (unat (toPort (c_peerAddr c))))"
  by (simp add: connection_line_def toIpPort_ok)

lemma EchoServer_onConnection_ok: "w_conns w cid \<noteq> None \<Longrightarrow> EchoServer_onConnection cid w = Inr w"
  by (auto simp: EchoServer_onConnection_def get_conn_def connection_line_ok)

lemma EchoServer_onConnection_same: "EchoServer_onConnection cid w = Inr w' \<Longrightarrow> w' = w"
  by (auto simp: EchoServer_onConnection_def bindR_eq_Inr)

lemma user_ext_echo: "user_ext a (echo_user os tid)"
  by (auto simp: user_ext_def echo_user_def keeps_def loop_ext_lget dest: EchoServer_onConnection_same)

interpretation echo_loop: loop_host "lget lid" "lput lid" "exec_functor os (echo_user os' tid) tid"
  for lid os os' tid
proof
  fix l and w :: server_world
  show "lget lid (lput lid l w) = l" by simp
next
  fix f and w w' :: server_world
  assume "exec_functor os (echo_user os' tid) tid f w = Inr w'" "callingPendingFunctors (lget lid w)"
  with keeps_exec_functor [OF user_ext_echo, of lid w os os' tid tid f]
  show "callingPendingFunctors (lget lid w') \<and> eventfd (lget lid w) \<le> eventfd (lget lid w') \<and>
    (\<exists>new. pendingFunctors (lget lid w') = pendingFunctors (lget lid w) @ new \<and>
       (new \<noteq> [] \<longrightarrow> 0 < eventfd (lget lid w')))"
    by (auto simp: keeps_def loop_ext_def)
qed

text \<open>
  The echo server's loop never goes to sleep on work: whatever the functors it runs do, when
  \<open>doPendingFunctions\<close> returns with functors queued, its event descriptor is readable, so the next
  \<open>epoll_wait\<close> returns at once.
\<close>

theorem server_loop_not_asleep:
  assumes "doPendingFunctions (lget lid) (lput lid) (exec_functor os (echo_user os' tid) tid) w = Inr w'"
  shows "\<not> callingPendingFunctors (lget lid w') \<and>
    (pendingFunctors (lget lid w') \<noteq> [] \<longrightarrow> 0 < eventfd (lget lid w'))"
  using echo_loop.doPending_wakes [OF assms] .

section \<open>Demonstration server\<close>

definition demo_server :: "(string \<rightharpoonup> nat) \<Rightarrow> server_world" where
  "demo_server conns = world.extend demo_world
     (server_world.fields 0 ''10.0.0.1:80'' ''srv''
        \<lparr>acc_sockfd = 3, acc_channel = 4, acc_listenning = True, acc_callback = True\<rparr>
        (EventLoopThreadPool_new 0 ''srv'') (Some 0) (Some 0) None None 1 1 conns 6)"

lemma demo_server_simps [simp]:
  "w_loops (demo_server conns) = w_loops demo_world" "w_conns (demo_server conns) = w_conns demo_world"
  "w_strings (demo_server conns) = w_strings demo_world" "w_trace (demo_server conns) = w_trace demo_world"
  "s_loop (demo_server conns) = 0" "s_name (demo_server conns) = ''srv''"
  "s_ipPort (demo_server conns) = ''10.0.0.1:80''" "s_pool (demo_server conns) = EventLoopThreadPool_new 0 ''srv''"
  "s_connections (demo_server conns) = conns" "s_fresh (demo_server conns) = 6"
  "s_nextConnId (demo_server conns) = 1" "s_connectionCallback (demo_server conns) = Some 0"
  "s_messageCallback (demo_server conns) = Some 0" "s_started (demo_server conns) = 1"
  by (simp_all add: demo_server_def world.defs server_world.defs)

lemma conn_ok_same_world:
  "w_loops w' = w_loops w \<Longrightarrow> w_conns w' = w_conns w \<Longrightarrow> conn_ok cid c ch w' = conn_ok cid c ch w"
  by (simp add: conn_ok_def lget_def)

lemma demo_server_conn_ok: "conn_ok 0 demo_conn (Channel_new 0 7) (demo_server conns)"
  using demo_conn_ok conn_ok_same_world [of "demo_server conns" demo_world] by simp

lemma demo_server_lget: "lget a (demo_server conns) = demo_loop"
  by (simp add: lget_def demo_world_def)

lemma demo_server_live: "conn_live 1 0 demo_conn (demo_server conns)"
  using demo_server_conn_ok demo_out_sync
  by (auto simp: conn_live_def demo_server_lget) (simp_all add: demo_conn_def demo_loop_def)

definition demo_server_os :: server_os where
  "demo_server_os = os_calls.extend (demo_os 9 ''ping'')
     (server_os.fields 3 (\<lambda>fd n. Inr (9, InetAddress_new (\<lambda>_. 0) 81 ''10.0.0.9'')) 0
        (\<lambda>fd. Inr (InetAddress_new (\<lambda>_. 0) 80 ''10.0.0.1'')) int int False (\<lambda>_. 0) (\<lambda>n. n = ''asynclogger''))"

theorem server_loop_not_asleep_witness:
  "\<exists>w'. doPendingFunctions (lget 0) (lput 0) (exec_functor demo_server_os (echo_user (demo_os 9 []) 1) 1)
      (lput 0 (push_functor (F_removeConnectionInLoop 0) demo_loop) (demo_server Map.empty)) = Inr w' \<and>
     pendingFunctors (lget 0 w') = [F_connectDestroyed 0] \<and> 0 < eventfd (lget 0 w')"
proof -
  let ?w = "lput 0 (push_functor (F_removeConnectionInLoop 0) demo_loop) (demo_server Map.empty)"
  have "\<exists>w'. doPendingFunctions (lget 0) (lput 0) (exec_functor demo_server_os (echo_user (demo_os 9 []) 1) 1) ?w = Inr w'
      \<and> pendingFunctors (lget 0 w') = [F_connectDestroyed 0]"
    by (simp add: doPendingFunctions_def exec_functor_def removeConnectionInLoop_def get_conn_def
        push_functor_def demo_loop_def demo_world_def Let_def)
       (simp add: demo_conn_def queue_on_def queueInLoop_def push_functor_def Let_def isInLoopThread_def wakeup_def
         lget_def lput_def)
  then obtain w' where w': "doPendingFunctions (lget 0) (lput 0)
      (exec_functor demo_server_os (echo_user (demo_os 9 []) 1) 1) ?w = Inr w'"
    "pendingFunctors (lget 0 w') = [F_connectDestroyed 0]" by blast
  from server_loop_not_asleep [OF w'(1)] w' show ?thesis by auto
qed

section \<open>New connections\<close>

text \<open>Every registered name is the server's prefix followed by a number already used.\<close>

definition names_inv :: "server_world \<Rightarrow> bool" where
  "names_inv w \<longleftrightarrow> 1 \<le> s_nextConnId w \<and>
     (\<forall>n cid. s_connections w n = Some cid \<longrightarrow> cid < s_fresh w \<and>
        (\<exists>k. int k < s_nextConnId w \<and> n = s_name w @ ''-'' @ s_ipPort w @ to_string k))"

text \<open>The kernel hands out a descriptor no channel of the loop uses, the allocator an unused address.\<close>

definition accept_fresh :: "nat \<Rightarrow> int \<Rightarrow> server_world \<Rightarrow> bool" where
  "accept_fresh io sockfd w \<longleftrightarrow>
     (\<forall>q cq. chan_heap (poller (lget io w)) q = Some cq \<longrightarrow> ch_fd cq \<noteq> sockfd) \<and>
     chan_heap (poller (lget io w)) (Suc (s_fresh w)) = None"

lemma newConnection_eq:
  fixes os :: server_os and sockfd :: int and peerAddr :: inet_address
  assumes here: "local_address os sockfd = Inr localAddr" and small: "s_nextConnId w < 2 ^ 31 - 1" and nxt: "getNextLoop (s_pool w) = (io, pool1)"
  defines "connName \<equiv> s_name w @ ''-'' @ s_ipPort w @ to_string (nat (s_nextConnId w))"
  defines "w2 \<equiv> TcpConnection_new (s_fresh w) (Suc (s_fresh w)) io connName sockfd localAddr peerAddr
      (w\<lparr>s_pool := pool1, s_nextConnId := s_nextConnId w + 1, s_fresh := Suc (Suc (s_fresh w))\<rparr>)"
  defines "c \<equiv> (the (w_conns w2 (s_fresh w)))\<lparr>connectionCallback := s_connectionCallback w,
      messageCallback := s_messageCallback w, writeCompleteCallback := s_writeCompleteCallback w, connCloseCallback := True\<rparr>"
  shows "newConnection os user tid sockfd peerAddr w =
    runInLoop (lget io) (lput io) (\<lambda>f. connectEstablished (server_user tid user) (s_fresh w)) tid
      (F_connectEstablished (s_fresh w))
      (put_conn (s_fresh w) c (w2\<lparr>s_connections := (s_connections w)(connName \<mapsto> s_fresh w)\<rparr>))"
proof -
  have conns: "w_conns w2 (s_fresh w) \<noteq> None" "s_connections w2 = s_connections w"
    by (simp_all add: w2_def TcpConnection_new_def Let_def emit_def put_conn_def lput_def)
  then obtain c0 where c0: "w_conns w2 (s_fresh w) = Some c0" by blast
  show ?thesis
    using small c0 conns(2) here
    unfolding newConnection_def nxt Let_def c_def w2_def connName_def
    by (simp add: get_conn_def)
qed

lemma newConnection_ok:
  assumes here: "local_address os sockfd = Inr localAddr" and inv: "names_inv w"
    and small: "s_nextConnId w < 2 ^ 31 - 1" and nxt: "getNextLoop (s_pool w) = (io, pool1)"
    and fresh: "accept_fresh io sockfd w" and poll: "poller_inv (poller (lget io w))"
  shows "\<exists>w4 c ch. newConnection os user tid sockfd peerAddr w =
      runInLoop (lget io) (lput io) (\<lambda>f. connectEstablished (server_user tid user) (s_fresh w)) tid
        (F_connectEstablished (s_fresh w)) w4 \<and>
    conn_ok (s_fresh w) c ch w4 \<and> out_sync c ch \<and> c_state c = kConnecting \<and> c_loop c = io \<and> c_sockfd c = sockfd \<and>
    content (inputBuffer c) = [] \<and> content (outputBuffer c) = [] \<and>
    connectionCallback c = s_connectionCallback w \<and> messageCallback c = s_messageCallback w \<and> connCloseCallback c \<and>
    s_connections w (c_name c) = None \<and> s_connections w4 = (s_connections w)(c_name c \<mapsto> s_fresh w) \<and>
    names_inv w4 \<and> (\<forall>cid w5. removeConnectionInLoop tid cid w4 = Inr w5 \<longrightarrow> names_inv w5) \<and>
    writeCompleteCallback c = s_writeCompleteCallback w \<and> c_channel c = Suc (s_fresh w) \<and> c_peerAddr c = peerAddr \<and>
    readCallback ch = Some (Cb_handleRead (s_fresh w)) \<and> writeCallback ch = Some (Cb_handleWrite (s_fresh w)) \<and>
    closeCallback ch = Some (Cb_handleClose (s_fresh w)) \<and> errorCallback ch = Some (Cb_handleError (s_fresh w)) \<and>
    w_conns w4 = (w_conns w)(s_fresh w \<mapsto> c) \<and> w_trace w4 = w_trace w @ map Sock (setKeepAlive True sockfd) \<and>
    lget io w4 = (lget io w)\<lparr>poller := store (Suc (s_fresh w)) ch (poller (lget io w))\<rparr> \<and>
    (\<forall>a. a \<noteq> io \<longrightarrow> lget a w4 = lget a w) \<and> ch_index ch = NEW \<and> \<not> ch_tied ch \<and>
    c_name c = s_name w @ ''-'' @ s_ipPort w @ to_string (nat (s_nextConnId w)) \<and>
    world.more w4 = world.more (w\<lparr>s_pool := pool1, s_nextConnId := s_nextConnId w + 1, s_fresh := Suc (Suc (s_fresh w)),
      s_connections := (s_connections w)(c_name c \<mapsto> s_fresh w)\<rparr>) \<and>
    inputBuffer c = Buffer_new INIT_SIZE \<and> outputBuffer c = Buffer_new INIT_SIZE \<and> highWaterMark c = 64 * 1024 * 1024"
proof -
  define connName where "connName = s_name w @ ''-'' @ s_ipPort w @ to_string (nat (s_nextConnId w))"
  define w2 where "w2 = TcpConnection_new (s_fresh w) (Suc (s_fresh w)) io connName sockfd localAddr peerAddr
      (w\<lparr>s_pool := pool1, s_nextConnId := s_nextConnId w + 1, s_fresh := Suc (Suc (s_fresh w))\<rparr>)"
  define c where "c = (the (w_conns w2 (s_fresh w)))\<lparr>connectionCallback := s_connectionCallback w,
      messageCallback := s_messageCallback w, writeCompleteCallback := s_writeCompleteCallback w, connCloseCallback := True\<rparr>"
  define w4 where "w4 = put_conn (s_fresh w) c (w2\<lparr>s_connections := (s_connections w)(connName \<mapsto> s_fresh w)\<rparr>)"
  define ch where "ch = (Channel_new io sockfd)\<lparr>readCallback := Some (Cb_handleRead (s_fresh w)),
      writeCallback := Some (Cb_handleWrite (s_fresh w)), closeCallback := Some (Cb_handleClose (s_fresh w)),
      errorCallback := Some (Cb_handleError (s_fresh w))\<rparr>"
  have eq: "newConnection os user tid sockfd peerAddr w =
      runInLoop (lget io) (lput io) (\<lambda>f. connectEstablished (server_user tid user) (s_fresh w)) tid
        (F_connectEstablished (s_fresh w)) w4"
    unfolding w4_def c_def w2_def connName_def by (rule newConnection_eq [OF here small nxt])
  have new: "s_connections w connName = None"
  proof (rule ccontr)
    assume "s_connections w connName \<noteq> None"
    then obtain k where "int k < s_nextConnId w" "connName = s_name w @ ''-'' @ s_ipPort w @ to_string k"
      using inv unfolding names_inv_def by blast
    then show False by (simp add: connName_def to_string_inj)
  qed
  have w4: "lget io w4 = (lget io w)\<lparr>poller := store (Suc (s_fresh w)) ch (poller (lget io w))\<rparr>"
    "w_conns w4 (s_fresh w) = Some c" "s_connections w4 = (s_connections w)(connName \<mapsto> s_fresh w)"
    "s_name w4 = s_name w" "s_ipPort w4 = s_ipPort w" "s_nextConnId w4 = s_nextConnId w + 1"
    "s_fresh w4 = Suc (Suc (s_fresh w))" "w_conns w4 = (w_conns w)(s_fresh w \<mapsto> c)"
    "w_trace w4 = w_trace w @ map Sock (setKeepAlive True sockfd)" "\<forall>a. a \<noteq> io \<longrightarrow> lget a w4 = lget a w"
    by (simp_all add: w4_def w2_def ch_def TcpConnection_new_def Let_def emit_def put_conn_def lput_def lget_def)
  have more: "world.more w4 = world.more (w\<lparr>s_pool := pool1, s_nextConnId := s_nextConnId w + 1, s_fresh := Suc (Suc (s_fresh w)),
      s_connections := (s_connections w)(connName \<mapsto> s_fresh w)\<rparr>)"
    by (cases w) (simp add: w4_def w2_def TcpConnection_new_def Let_def emit_def put_conn_def lput_def)
  have c: "c_state c = kConnecting" "c_loop c = io" "c_sockfd c = sockfd" "c_channel c = Suc (s_fresh w)"
    "inputBuffer c = Buffer_new INIT_SIZE" "outputBuffer c = Buffer_new INIT_SIZE" "c_name c = connName"
    "connectionCallback c = s_connectionCallback w" "messageCallback c = s_messageCallback w" "connCloseCallback c"
    "writeCompleteCallback c = s_writeCompleteCallback w" "c_peerAddr c = peerAddr" "highWaterMark c = 64 * 1024 * 1024"
    by (simp_all add: c_def w2_def TcpConnection_new_def Let_def)
  obtain m where coh: "coherent {} (poller (lget io w)) m" using poll unfolding poller_inv_def by blast
  have "coherent {} (store (Suc (s_fresh w)) ch (poller (lget io w))) m"
    by (rule coherent_alloc [OF coh]) (use fresh in \<open>auto simp: accept_fresh_def ch_def Channel_new_def NEW_def\<close>)
  then have ok: "conn_ok (s_fresh w) c ch w4"
    by (simp add: conn_ok_def w4(1,2) c buf_inv_new poller_inv_def) (auto simp: ch_def Channel_new_def)
  have sync: "out_sync c ch" by (simp add: out_sync_def c content_new ch_def Channel_new_def isWriting_def)
  have old: "cid < s_fresh w \<and> (\<exists>k. int k \<le> s_nextConnId w \<and> n = s_name w @ ''-'' @ s_ipPort w @ to_string k)"
    if "s_connections w n = Some cid" for n cid
    using inv that unfolding names_inv_def by (meson less_imp_le)
  have pos: "1 \<le> s_nextConnId w" using inv by (simp add: names_inv_def)
  have names: "names_inv w4"
    unfolding names_inv_def w4
  proof (intro conjI allI impI)
    fix n cid assume n: "((s_connections w)(connName \<mapsto> s_fresh w)) n = Some cid"
    show "cid < Suc (Suc (s_fresh w))" using n old by (force split: if_splits)
    show "\<exists>k. int k < s_nextConnId w + 1 \<and> n = s_name w @ ''-'' @ s_ipPort w @ to_string k"
      using n old [of n cid] pos by (auto simp: connName_def intro: exI [of _ "nat (s_nextConnId w)"] split: if_splits)
  qed (use pos in simp)
  have "names_inv w5" if "removeConnectionInLoop tid cid w4 = Inr w5" for cid w5
    using that names by (auto simp: removeConnectionInLoop_def bindR_eq_Inr names_inv_def queue_on_def lput_def split: if_splits)
  with eq ok sync c names new w4 more show ?thesis
    by (intro exI [of _ w4] exI [of _ c] exI [of _ ch])
       (simp add: content_new, simp add: ch_def Channel_new_def NEW_def connName_def)
qed

text \<open>
  C28: A new connection is registered under a name no other connection has, with a fresh, unconnected
  \<open>TcpConnection\<close> whose callbacks are the server's and whose buffers are empty, in the loop the pool
  chose; its \<open>connectEstablished\<close> is then run or queued in that loop. Removing a connection
  keeps the naming discipline. (The counter is an \<open>int\<close>: the 2147483647th connection overflows it.)
\<close>

theorem newConnection_unique_name:
  assumes here: "local_address os sockfd = Inr localAddr" and inv: "names_inv w"
    and small: "s_nextConnId w < 2 ^ 31 - 1" and nxt: "getNextLoop (s_pool w) = (io, pool1)"
    and fresh: "accept_fresh io sockfd w" and poll: "poller_inv (poller (lget io w))"
  shows "\<exists>w4 c ch. newConnection os user tid sockfd peerAddr w =
      runInLoop (lget io) (lput io) (\<lambda>f. connectEstablished (server_user tid user) (s_fresh w)) tid
        (F_connectEstablished (s_fresh w)) w4 \<and>
    conn_ok (s_fresh w) c ch w4 \<and> out_sync c ch \<and> c_state c = kConnecting \<and> c_loop c = io \<and> c_sockfd c = sockfd \<and>
    content (inputBuffer c) = [] \<and> content (outputBuffer c) = [] \<and>
    connectionCallback c = s_connectionCallback w \<and> messageCallback c = s_messageCallback w \<and> connCloseCallback c \<and>
    s_connections w (c_name c) = None \<and> s_connections w4 = (s_connections w)(c_name c \<mapsto> s_fresh w) \<and>
    names_inv w4 \<and> (\<forall>cid w5. removeConnectionInLoop tid cid w4 = Inr w5 \<longrightarrow> names_inv w5)"
  using newConnection_ok [OF assms, of user tid peerAddr] by blast

theorem newConnection_unique_name_witness:
  "\<exists>w4 c. newConnection demo_server_os (echo_user (demo_os 9 []) 1) 1 9 (InetAddress_new (\<lambda>_. 0) 81 ''x'') (demo_server Map.empty) =
      runInLoop (lget 0) (lput 0) (\<lambda>f. connectEstablished (server_user 1 (echo_user (demo_os 9 []) 1)) 6) 1
        (F_connectEstablished 6) w4 \<and>
     w_conns w4 6 = Some c \<and> c_state c = kConnecting \<and> s_connections w4 = [c_name c \<mapsto> 6]"
proof -
  let ?w = "demo_server Map.empty"
  have n: "names_inv ?w" by (simp add: names_inv_def)
  have s: "s_nextConnId ?w < 2 ^ 31 - 1" by simp
  have g: "getNextLoop (s_pool ?w) = (0, EventLoopThreadPool_new 0 ''srv'')"
    by (simp add: getNextLoop_def EventLoopThreadPool_new_def)
  have f: "accept_fresh 0 9 ?w"
    by (simp add: accept_fresh_def demo_server_lget demo_loop_def EpollPoller_new_def Channel_new_def)
  have p: "poller_inv (poller (lget 0 ?w))" using demo_poller_inv by (simp add: demo_server_lget demo_loop_def)
  have h: "local_address demo_server_os 9 = Inr (InetAddress_new (\<lambda>_. 0) 80 ''10.0.0.1'')"
    by (simp add: local_address_def demo_server_os_def os_calls.defs server_os.defs)
  from newConnection_unique_name [OF h n s g f p, of "echo_user (demo_os 9 []) 1" 1 "InetAddress_new (\<lambda>_. 0) 81 ''x''"]
  show ?thesis by (fastforce simp: conn_ok_def)
qed

text \<open>
  A failing \<open>getsockname\<close> takes the server down: \<open>newConnection\<close> reports it through a logger
  whose name is misspelt, and unless a logger of that name was registered, the pointer it calls
  through is null.
\<close>

theorem getsockname_failure_null_logger:
  assumes "os_getsockname os sockfd = Inl e" and "\<not> os_has_logger os ''asyclogger''"
    and "s_nextConnId w < 2 ^ 31 - 1"
  shows "newConnection os user tid sockfd peerAddr w = Inl Null_Deref"
  using assms by (simp add: newConnection_def local_address_def Let_def split: prod.split)

theorem getsockname_failure_null_logger_witness:
  "newConnection (demo_server_os\<lparr>os_getsockname := \<lambda>_. Inl 9\<rparr>) (echo_user (demo_os 9 []) 1) 1 9
     (InetAddress_new (\<lambda>_. 0) 81 ''x'') (demo_server Map.empty) = Inl Null_Deref"
  by (rule getsockname_failure_null_logger [where e = 9])
     (simp_all add: demo_server_os_def os_calls.defs server_os.defs)

section \<open>The end of a connection\<close>

text \<open>Operations that leave the server's members, the other connections and the queue alone.\<close>

definition quiet :: "nat \<Rightarrow> nat \<Rightarrow> 'z world_scheme \<Rightarrow> 'z world_scheme \<Rightarrow> bool" where
  "quiet cid a w w' \<longleftrightarrow> world.more w' = world.more w \<and>
     pendingFunctors (lget a w') = pendingFunctors (lget a w) \<and> threadId (lget a w') = threadId (lget a w) \<and>
     (\<forall>k. k \<noteq> cid \<longrightarrow> w_conns w' k = w_conns w k)"

lemma quiet_trans: "quiet cid a u v \<Longrightarrow> quiet cid a v w \<Longrightarrow> quiet cid a u w"
  by (simp add: quiet_def)

lemma more_basic [simp]:
  "world.more (put_conn cid c w) = world.more w" "world.more (emit es w) = world.more w"
  "world.more (lput b l w) = world.more w"
  by (simp_all add: put_conn_def emit_def lput_def)

lemma quiet_basic: "quiet cid a w (put_conn cid c w)" "quiet cid a w (emit es w)"
  by (simp_all add: quiet_def)

lemma quiet_with_channel: "with_channel f c w = Inr w' \<Longrightarrow> quiet cid a w w'"
  by (auto simp: with_channel_def bindR_eq_Inr quiet_def)

lemma quiet_setState: "setState st cid w = Inr w' \<Longrightarrow> quiet cid a w w'"
  by (auto simp: setState_def bindR_eq_Inr quiet_def)

lemma quiet_callback:
  "call_connectionCallback user cid w = Inr w' \<Longrightarrow> (\<And>cb w. w_conns w cid \<noteq> None \<Longrightarrow> on_connection user cb cid w = Inr w) \<Longrightarrow> quiet cid a w w'"
  by (auto simp: call_connectionCallback_def bindR_eq_Inr quiet_def split: option.splits)

lemma quiet_connectDestroyed:
  assumes r: "connectDestroyed user cid w = Inr w'" and u: "\<And>cb w. w_conns w cid \<noteq> None \<Longrightarrow> on_connection user cb cid w = Inr w"
  shows "quiet cid a w w'"
proof -
  from r obtain c w3 where 3: "with_channel removeChannel c w3 = Inr w'"
    and 1: "(if c_state c = kConnected then bindR (setState kDisconnected cid w) (\<lambda>w1.
        bindR (with_channel disbaleAll c w1) (\<lambda>w2. call_connectionCallback user cid w2)) else Inr w) = Inr w3"
    by (auto simp: connectDestroyed_def bindR_eq_Inr)
  have "quiet cid a w w3"
    using 1 by (auto simp: bindR_eq_Inr split: if_splits
      intro: quiet_trans [OF quiet_trans [OF quiet_setState quiet_with_channel] quiet_callback [OF _ u]])
       (simp add: quiet_def)
  then show ?thesis using quiet_with_channel [OF 3] by (rule quiet_trans)
qed

lemma server_more:
  assumes "world.more w' = world.more (w :: server_world)"
  shows "s_loop w' = s_loop w" "s_connections w' = s_connections w" "s_pool w' = s_pool w" "s_fresh w' = s_fresh w"
  using assms by (cases w; cases w'; simp)+

text \<open>Releasing when exactly one connection has no owner.\<close>

lemma release_conns_one:
  assumes "distinct cids" and "cid \<in> set cids" and c: "w_conns w cid = Some c" and un: "\<not> owned cid c w"
    and others: "\<And>k ck. k \<noteq> cid \<Longrightarrow> w_conns w k = Some ck \<Longrightarrow> s_connections w (c_name ck) = Some k"
  shows "release_conns cids w = TcpConnection_destroy cid w"
proof -
  have keep: "release_conns ks u = Inr u"
    if "\<And>k ck. k \<in> set ks \<Longrightarrow> w_conns u k = Some ck \<Longrightarrow> s_connections u (c_name ck) = Some k" for ks u
    using that by (induction ks) (auto simp: owned_def split: option.split)
  obtain as bs where split: "cids = as @ cid # bs" using assms(2) by (meson split_list)
  have pre: "release_conns (as @ ks) w = release_conns ks w" for ks
    using assms(1) unfolding split
    by (induction as) (auto simp: owned_def others split: option.split)
  obtain w' where w': "TcpConnection_destroy cid w = Inr w'"
    using c by (simp add: TcpConnection_destroy_def Let_def)
  have "w_conns w' = (w_conns w)(cid := None)" "s_connections w' = s_connections w"
    using w' c by (auto simp: TcpConnection_destroy_def Let_def emit_def lput_def)
  then have "release_conns bs w' = Inr w'"
    using others assms(1) by (intro keep) (auto simp: split split: if_splits)
  then show ?thesis using pre [of "cid # bs"] c un w' by (simp add: split)
qed

lemma handleClose_server:
  assumes ok: "conn_ok cid c ch w" and st: "c_state c = kConnected" and cb: "connectionCallback c = Some cb"
    and close: "connCloseCallback c" and here: "s_loop w = c_loop c" "threadId (lget (c_loop c) w) = tid"
    and user: "\<And>cb w. w_conns w cid \<noteq> None \<Longrightarrow> on_connection user cb cid w = Inr w"
  shows "\<exists>w1 ch1. handleClose (server_user tid user) cid w = Inr w1 \<and> conn_ok cid c ch1 w1 \<and>
    w_trace w1 = w_trace w @ [Connection_cb cid True] \<and>
    s_loop w1 = s_loop w \<and> s_pool w1 = s_pool w \<and> s_fresh w1 = s_fresh w \<and>
    s_connections w1 = (s_connections w)(c_name c := None) \<and> w_conns w1 = w_conns w \<and>
    threadId (lget (c_loop c) w1) = tid \<and>
    pendingFunctors (lget (c_loop c) w1) = pendingFunctors (lget (c_loop c) w) @ [F_connectDestroyed cid]"
proof -
  have u: "on_connection (server_user tid user) cb cid w = Inr w" if "w_conns w cid \<noteq> None" for w
    using user [OF that] by (simp add: server_user_def)
  obtain w0 ch0 p where h: "handleClose (server_user tid user) cid w =
      bindR (on_connection (server_user tid user) cb cid w0) (\<lambda>w2. bindR (get_conn cid w2) (\<lambda>c2.
        if connCloseCallback c2 then on_close (server_user tid user) cid w2 else Inl Bad_Function_Call))"
    "conn_ok cid c ch0 w0" "w_trace w0 = w_trace w @ [Connection_cb cid (connected c)]"
    "w0 = emit [Connection_cb cid (connected c)] (lput (c_loop c) ((lget (c_loop c) w)\<lparr>poller := p\<rparr>) w)"
    using handleClose_ok [OF ok cb] by blast
  have more: "world.more w0 = world.more w" using h(4) by simp
  note f = server_more [OF more]
  have l0: "threadId (lget (c_loop c) w0) = tid" "pendingFunctors (lget (c_loop c) w0) = pendingFunctors (lget (c_loop c) w)"
    "w_conns w0 = w_conns w"
    using h(4) here(2) by simp_all
  define w1 where "w1 = queue_on tid (c_loop c) (F_connectDestroyed cid)
      (w0\<lparr>s_connections := (s_connections w0)(c_name c := None)\<rparr>)"
  have "handleClose (server_user tid user) cid w = removeConnection tid cid w0"
    using h(1) u close conn_okD(7) [OF h(2)] by (simp add: server_user_def)
  also have "\<dots> = Inr w1"
    using f(1) here(1) l0(1) conn_okD(7) [OF h(2)]
    by (simp add: removeConnection_def runInLoop_def isInLoopThread_def removeConnectionInLoop_def w1_def)
  finally have eq: "handleClose (server_user tid user) cid w = Inr w1" .
  have "conn_ok cid c ch0 w1" using h(2) by (simp add: w1_def) (simp add: conn_ok_def lget_def)
  moreover have "pendingFunctors (lget (c_loop c) w1) = pendingFunctors (lget (c_loop c) w) @ [F_connectDestroyed cid]"
    using l0(2) by (simp add: w1_def queue_on_def loop_op_defs) (simp add: lget_def)
  moreover have "threadId (lget (c_loop c) w1) = tid" "w_conns w1 = w_conns w"
    "s_connections w1 = (s_connections w)(c_name c := None)"
    "s_loop w1 = s_loop w" "s_pool w1 = s_pool w" "s_fresh w1 = s_fresh w" "w_trace w1 = w_trace w0"
    using l0 f by (simp_all add: w1_def) (simp_all add: lget_def queue_on_def lput_def)
  ultimately show ?thesis using eq h(3) st by (auto simp: connected_def)
qed



section \<open>The echo server\<close>

lemma retrieveAll_ok:
  assumes inv: "buf_inv b"
  shows "\<exists>b'. retrieveAllAsString b = Inr (content b, b') \<and> buf_inv b' \<and> content b' = [] \<and> buf_data b' = buf_data b"
proof -
  have len: "unat (readableBytes b) = length (content b)" using length_content [OF inv] by simp
  show ?thesis
    using retrieveAsString_ok [OF inv, of "readableBytes b"] retrieve_inv [OF inv] retrieve_content [OF inv] len
    by (simp add: retrieveAllAsString_def) (simp add: retrieve_def retrieveAll_def)
qed

lemma EchoServer_onMessage_ok:
  assumes live: "conn_live tid cid c w" and wr: "write_ok (os_write os)" and nf: "no_fault os"
    and fits: "buf_fits (outputBuffer c) (length (content (inputBuffer c)))"
  shows "\<exists>w' b1 b2. EchoServer_onMessage os tid ptr cid w = Inr w' \<and>
    conn_live tid cid (c\<lparr>inputBuffer := b1, outputBuffer := b2\<rparr>) w' \<and> content b1 = [] \<and>
    wire (c_sockfd c) w' @ content b2 = wire (c_sockfd c) w @ content (outputBuffer c) @ content (inputBuffer c) \<and>
    buf_data b1 = buf_data (inputBuffer c) \<and>
    unat (writerIndex b2) \<le> unat (writerIndex (outputBuffer c)) + length (content (inputBuffer c))"
proof -
  from live obtain ch where ok: "conn_ok cid c ch w" and sync: "out_sync c ch"
    and st: "c_state c = kConnected" and th: "threadId (lget (c_loop c) w) = tid"
    by (auto simp: conn_live_def)
  obtain b1 where b1: "retrieveAllAsString (inputBuffer c) = Inr (content (inputBuffer c), b1)" "buf_inv b1" "content b1 = []"
    "buf_data b1 = buf_data (inputBuffer c)"
    using retrieveAll_ok [OF conn_okD(2) [OF ok]] by blast
  let ?c = "c\<lparr>inputBuffer := b1\<rparr>"
  define w1 where "w1 = (put_conn cid ?c w)\<lparr>w_strings := (w_strings w)(ptr \<mapsto> content (inputBuffer c))\<rparr>"
  have same: "w_loops w1 = w_loops (put_conn cid ?c w)" "w_conns w1 = w_conns (put_conn cid ?c w)"
    by (simp_all add: w1_def)
  have ok1: "conn_ok cid ?c ch w1"
    unfolding conn_ok_same_world [OF same] by (rule conn_ok_put [OF ok]) (use conn_okD [OF ok] b1 in simp_all)
  have live1: "conn_live tid cid ?c w1"
    using ok1 sync st th by (auto simp: conn_live_def out_sync_def lget_def same(1)) (auto simp: w1_def put_conn_def)
  have str: "w_strings w1 ptr = Some (content (inputBuffer c))" by (simp add: w1_def)
  have wire1: "wire fd w1 = wire fd w" for fd by (simp add: wire_def w1_def)
  obtain w2 b2 where s: "send os tid cid ptr w1 = Inr w2" "conn_live tid cid (?c\<lparr>outputBuffer := b2\<rparr>) w2"
    "wire (c_sockfd c) w2 @ content b2 = wire (c_sockfd c) w1 @ content (outputBuffer c) @ content (inputBuffer c)"
    "unat (writerIndex b2) \<le> unat (writerIndex (outputBuffer c)) + length (content (inputBuffer c))"
    using send_live [OF live1 str _ wr nf] fits by auto
  let ?w = "w2\<lparr>w_strings := (w_strings w2)(ptr := None)\<rparr>"
  have "EchoServer_onMessage os tid ptr cid w = Inr ?w"
    using s(1) b1(1) conn_okD(7) [OF ok] by (simp add: EchoServer_onMessage_def Let_def w1_def)
  moreover have "conn_live tid cid (c\<lparr>inputBuffer := b1, outputBuffer := b2\<rparr>) ?w"
    using s(2) conn_ok_same_world [of ?w w2] by (simp add: conn_live_def lget_def)
  moreover have "wire (c_sockfd c) ?w = wire (c_sockfd c) w2" by (simp add: wire_def)
  ultimately show ?thesis using s(3,4) b1(3,4) wire1 by (intro exI [of _ ?w] exI [of _ b1] exI [of _ b2]) simp
qed

lemma handleRead_echo:
  assumes live: "conn_live tid cid c w" and cb: "messageCallback c = Some cb"
    and fits: "length (buf_data (inputBuffer c)) + 65536 \<le> vec_max_size"
      "unat (writerIndex (outputBuffer c)) + length (content (inputBuffer c)) + length bs \<le> vec_max_size"
    and os: "readv_ok (os_readv os)" "write_ok (os_write os)" "no_fault os"
    and bs: "os_readv os (c_sockfd c) (read_iov (inputBuffer c)) = Inr bs" "bs \<noteq> []"
  shows "\<exists>w' b b1 b2. handleRead os (server_user tid (echo_user os tid)) t cid w = Inr w' \<and>
    conn_live tid cid (c\<lparr>inputBuffer := b1, outputBuffer := b2\<rparr>) w' \<and> content b1 = [] \<and>
    wire (c_sockfd c) w' @ content b2 =
      wire (c_sockfd c) w @ content (outputBuffer c) @ content (inputBuffer c) @ bs \<and>
    length (buf_data b1) \<le> length (buf_data (inputBuffer c)) + length bs \<and>
    unat (writerIndex b2) \<le> unat (writerIndex (outputBuffer c)) + length (content (inputBuffer c)) + length bs \<and>
    buf_inv b \<and> content b = content (inputBuffer c) @ bs \<and>
    EchoServer_onMessage os tid 0 cid (put_conn cid (c\<lparr>inputBuffer := b\<rparr>) w) = Inr w'"
proof -
  from live obtain ch where ok: "conn_ok cid c ch w" and sync: "out_sync c ch"
    and st: "c_state c = kConnected" and th: "threadId (lget (c_loop c) w) = tid"
    by (auto simp: conn_live_def)
  let ?u = "server_user tid (echo_user os tid)"
  obtain b where b: "content b = content (inputBuffer c) @ bs"
    "conn_ok cid (c\<lparr>inputBuffer := b\<rparr>) ch (put_conn cid (c\<lparr>inputBuffer := b\<rparr>) w)"
    "handleRead os ?u t cid w = on_message ?u cb cid t (put_conn cid (c\<lparr>inputBuffer := b\<rparr>) w)"
    "length (buf_data b) \<le> length (buf_data (inputBuffer c)) + length bs" "buf_inv b"
    using handleRead_data [OF ok cb fits(1) os(1) bs(1), of ?u t] bs(2) by auto
  let ?c = "c\<lparr>inputBuffer := b\<rparr>" and ?w = "put_conn cid (c\<lparr>inputBuffer := b\<rparr>) w"
  have live1: "conn_live tid cid ?c ?w" using b(2) sync st th by (auto simp: conn_live_def out_sync_def)
  have "buf_fits (outputBuffer ?c) (length (content (inputBuffer ?c)))" using fits(2) b(1) by (simp add: buf_fits_def)
  from EchoServer_onMessage_ok [OF live1 os(2,3) this, of 0] obtain w' b1 b2 where
    r: "EchoServer_onMessage os tid 0 cid ?w = Inr w'"
      "conn_live tid cid (?c\<lparr>inputBuffer := b1, outputBuffer := b2\<rparr>) w'" "content b1 = []"
      "wire (c_sockfd c) w' @ content b2 = wire (c_sockfd c) ?w @ content (outputBuffer c) @ content b"
      "buf_data b1 = buf_data b" "unat (writerIndex b2) \<le> unat (writerIndex (outputBuffer c)) + length (content b)"
    by auto
  then show ?thesis using b
    by (intro exI [of _ w'] exI [of _ b] exI [of _ b1] exI [of _ b2]) (simp add: server_user_def echo_user_def)
qed

text \<open>
  The echo server echoes: when bytes arrive on an established connection, \<open>handleRead\<close> with the
  server's \<open>onMessage\<close> leaves nothing in the input buffer and sends back what was in it followed by
  what arrived, after all output that was still waiting, whatever part of it the kernel takes now.
\<close>

theorem echo_server_echoes:
  assumes live: "conn_live tid cid c w" and cb: "messageCallback c = Some cb"
    and fits: "length (buf_data (inputBuffer c)) + 65536 \<le> vec_max_size"
      "unat (writerIndex (outputBuffer c)) + length (content (inputBuffer c)) + length bs \<le> vec_max_size"
    and os: "readv_ok (os_readv os)" "write_ok (os_write os)" "no_fault os"
    and bs: "os_readv os (c_sockfd c) (read_iov (inputBuffer c)) = Inr bs" "bs \<noteq> []"
  shows "\<exists>w' b1 b2. handleRead os (server_user tid (echo_user os tid)) t cid w = Inr w' \<and>
    conn_live tid cid (c\<lparr>inputBuffer := b1, outputBuffer := b2\<rparr>) w' \<and> content b1 = [] \<and>
    wire (c_sockfd c) w' @ content b2 =
      wire (c_sockfd c) w @ content (outputBuffer c) @ content (inputBuffer c) @ bs"
  using handleRead_echo [OF assms, of t] by blast

theorem echo_server_echoes_witness:
  "\<exists>w' b1 b2. handleRead (demo_os 2 ''ping'') (server_user 1 (echo_user (demo_os 2 ''ping'') 1)) 0 0 (demo_server Map.empty) = Inr w' \<and>
     conn_live 1 0 (demo_conn\<lparr>inputBuffer := b1, outputBuffer := b2\<rparr>) w' \<and> wire 7 w' @ content b2 = ''ping''"
proof -
  let ?os = "demo_os 2 ''ping''"
  have c: "messageCallback demo_conn = Some 0" "content (inputBuffer demo_conn) = []" "content (outputBuffer demo_conn) = []"
    "c_sockfd demo_conn = 7"
    by (simp_all add: demo_conn_def content_new)
  have f1: "length (buf_data (inputBuffer demo_conn)) + 65536 \<le> vec_max_size"
    by (simp add: demo_conn_def Buffer_new_def vec_max_size_def CHEAP_PREPEND_def INIT_SIZE_def)
  have f2: "unat (writerIndex (outputBuffer demo_conn)) + length (content (inputBuffer demo_conn)) + length ''ping'' \<le> vec_max_size"
    using demo_fits [of 4] c(2) by (simp add: buf_fits_def)
  have "sum_list (read_iov (inputBuffer demo_conn)) \<ge> 4"
    by (simp add: demo_conn_def read_iov_def Buffer_new_def writableBytes_def buf_size_def
        CHEAP_PREPEND_def INIT_SIZE_def EXTRABUF_def)
  then have r: "os_readv ?os (c_sockfd demo_conn) (read_iov (inputBuffer demo_conn)) = Inr ''ping''"
    by (simp add: demo_os_def)
  have "wire 7 (demo_server Map.empty) = []" by (simp add: wire_def demo_world_def)
  with echo_server_echoes [OF demo_server_live [of Map.empty] c(1) f1 f2 demo_os_ok(3,1,2) r, of 0] c
  show ?thesis by fastforce
qed

section \<open>Starting the server\<close>

lemma with_accept_channel_mask:
  assumes inv: "poller_inv (poller (lget (s_loop w) w))"
    and ch: "chan_heap (poller (lget (s_loop w) w)) (acc_channel (s_acceptor w)) = Some ch"
  shows "\<exists>p m. with_accept_channel (channel_set_events f) w =
      Inr (lput (s_loop w) ((lget (s_loop w) w)\<lparr>poller := p\<rparr>) w) \<and> poller_inv p \<and>
      chan_heap p = (chan_heap (poller (lget (s_loop w) w)))(acc_channel (s_acceptor w) \<mapsto> mask_chan f ch) \<and>
      eventListSize p = eventListSize (poller (lget (s_loop w) w)) \<and> ep_run (ctl_log p) Map.empty = Some m \<and>
      (f (ch_events ch) \<noteq> noneEvent \<longrightarrow> m (ch_fd ch) = Some (f (ch_events ch), acc_channel (s_acceptor w)))"
proof -
  obtain m where coh: "coherent {} (poller (lget (s_loop w) w)) m" using inv unfolding poller_inv_def by blast
  note r = channel_set_events_ok [OF coh ch, of f]
  let ?p = "mask_result f ch (acc_channel (s_acceptor w)) (poller (lget (s_loop w) w))"
  let ?m = "update_effect (ch\<lparr>ch_events := f (ch_events ch)\<rparr>) (acc_channel (s_acceptor w)) m"
  have "f (ch_events ch) \<noteq> noneEvent \<longrightarrow> ?m (ch_fd ch) = Some (f (ch_events ch), acc_channel (s_acceptor w))"
    by (simp add: update_effect_def isNoneEvent_def)
  moreover have "chan_heap ?p = (chan_heap (poller (lget (s_loop w) w)))(acc_channel (s_acceptor w) \<mapsto> mask_chan f ch)"
    "eventListSize ?p = eventListSize (poller (lget (s_loop w) w))"
    by (simp_all add: mask_result_def update_result_def mask_chan_def Let_def)
  ultimately show ?thesis using r coherentD(1) [OF r(2)]
    by (intro exI [of _ ?p] exI [of _ ?m]) (auto simp: with_accept_channel_def poller_inv_def)
qed

lemma Acceptor_listen_ok:
  assumes inv: "poller_inv (poller (lget (s_loop w) w))"
    and ch: "chan_heap (poller (lget (s_loop w) w)) (acc_channel (s_acceptor w)) = Some ch"
  shows "\<exists>p m. Acceptor_listen w = Inr (lput (s_loop w) ((lget (s_loop w) w)\<lparr>poller := p\<rparr>)
        (emit [Sock (Call_listen (acc_sockfd (s_acceptor w)) 1024)] (w\<lparr>s_acceptor := (s_acceptor w)\<lparr>acc_listenning := True\<rparr>\<rparr>))) \<and>
      poller_inv p \<and> chan_heap p = (chan_heap (poller (lget (s_loop w) w)))(acc_channel (s_acceptor w) \<mapsto> mask_chan mask_enableReading ch) \<and>
      eventListSize p = eventListSize (poller (lget (s_loop w) w)) \<and> ep_run (ctl_log p) Map.empty = Some m \<and>
      m (ch_fd ch) = Some (mask_enableReading (ch_events ch), acc_channel (s_acceptor w))"
proof -
  let ?a = "s_acceptor w"
  let ?w = "emit [Sock (Call_listen (acc_sockfd ?a) 1024)] (w\<lparr>s_acceptor := ?a\<lparr>acc_listenning := True\<rparr>\<rparr>)"
  have l: "lget k ?w = lget k w" "s_loop ?w = s_loop w" "acc_channel (s_acceptor ?w) = acc_channel ?a" for k
    by (simp_all add: lget_def emit_def)
  have "Acceptor_listen w = with_accept_channel enableReading ?w" by (simp add: Acceptor_listen_def Let_def Socket_Listen_def)
  moreover have "mask_enableReading (ch_events ch) \<noteq> noneEvent"
    using enableReading_reading [of "ch_events ch"] by (auto simp: noneEvent_def)
  ultimately show ?thesis
    using with_accept_channel_mask [of ?w ch mask_enableReading, unfolded l, OF inv ch] unfolding enableReading_def by metis
qed

text \<open>
  The first \<open>start\<close> of a server without threads, called in the loop's thread, puts the socket in
  the listening state and registers the accept channel for reading in the kernel; every further
  \<open>start\<close> changes nothing but the counter.
\<close>

theorem server_starts_once:
  assumes inv: "poller_inv (poller (lget (s_loop w) w))"
    and ch: "chan_heap (poller (lget (s_loop w) w)) (acc_channel (s_acceptor w)) = Some ch"
    and thr: "pool_numThreads (s_pool w) = 0" "s_threadInitCallback w = None" "threadId (lget (s_loop w) w) = tid"
    and new: "s_started w = 0"
  shows "\<exists>w1 m. TcpServer_start os user tid w = Inr w1 \<and> s_started w1 = 1 \<and> acc_listenning (s_acceptor w1) \<and>
    w_trace w1 = w_trace w @ [Sock (Call_listen (acc_sockfd (s_acceptor w)) 1024)] \<and>
    ep_run (ctl_log (poller (lget (s_loop w) w1))) Map.empty = Some m \<and>
    m (ch_fd ch) = Some (mask_enableReading (ch_events ch), acc_channel (s_acceptor w)) \<and>
    TcpServer_start os user tid w1 = Inr (w1\<lparr>s_started := 2\<rparr>)"
proof -
  let ?a = "s_acceptor w"
  define w0 where "w0 = w\<lparr>s_started := 1, s_pool := (s_pool w)\<lparr>pool_started := True\<rparr>\<rparr>"
  let ?w2 = "emit [Sock (Call_listen (acc_sockfd ?a) 1024)] (w0\<lparr>s_acceptor := ?a\<lparr>acc_listenning := True\<rparr>\<rparr>)"
  have l0: "lget k w0 = lget k w" "s_loop w0 = s_loop w" "s_acceptor w0 = ?a" for k by (simp_all add: w0_def lget_def)
  obtain p m where p: "Acceptor_listen w0 = Inr (lput (s_loop w) ((lget (s_loop w) w)\<lparr>poller := p\<rparr>) ?w2)"
      "ep_run (ctl_log p) Map.empty = Some m" "m (ch_fd ch) = Some (mask_enableReading (ch_events ch), acc_channel ?a)"
    using Acceptor_listen_ok [of w0 ch] inv ch unfolding l0 by blast
  let ?w1 = "lput (s_loop w) ((lget (s_loop w) w)\<lparr>poller := p\<rparr>) ?w2"
  have "pool_start (start_loop_thread os user) None (s_pool w) (w\<lparr>s_started := 1\<rparr>) =
      Inr ((s_pool w)\<lparr>pool_started := True\<rparr>, w\<lparr>s_started := 1\<rparr>)"
    using thr(1) by (simp add: pool_start_def)
  moreover have "isInLoopThread tid (lget (s_loop w) w0)" using thr(3) by (simp add: isInLoopThread_def l0)
  ultimately have start: "TcpServer_start os user tid w = Inr ?w1"
    using new thr(2) p(1) by (simp add: TcpServer_start_def Let_def runInLoop_def w0_def)
  have w1: "s_started ?w1 = 1" "acc_listenning (s_acceptor ?w1)" "poller (lget (s_loop w) ?w1) = p"
    "w_trace ?w1 = w_trace w @ [Sock (Call_listen (acc_sockfd ?a) 1024)]"
    by simp_all (simp_all add: lput_def emit_def w0_def)
  have "TcpServer_start os user tid ?w1 = Inr (?w1\<lparr>s_started := 2\<rparr>)"
    using w1(1) by (simp add: TcpServer_start_def Let_def)
  with start w1 p(2,3) show ?thesis by (intro exI [of _ ?w1] exI [of _ m]) simp
qed

theorem server_starts_once_witness:
  "\<exists>w1. TcpServer_start demo_server_os (echo_user (demo_os 9 []) 1) 1
       ((demo_server Map.empty)\<lparr>s_started := 0, s_acceptor := \<lparr>acc_sockfd = 7, acc_channel = 5, acc_listenning = False, acc_callback = True\<rparr>\<rparr>)
     = Inr w1 \<and> acc_listenning (s_acceptor w1) \<and> w_trace w1 = [Sock (Call_listen 7 1024)]"
proof -
  let ?w = "(demo_server Map.empty)\<lparr>s_started := 0, s_acceptor := \<lparr>acc_sockfd = 7, acc_channel = 5, acc_listenning = False, acc_callback = True\<rparr>\<rparr>"
  have l: "lget k ?w = demo_loop" for k by (simp add: lget_def demo_world_def)
  have a: "poller_inv (poller (lget (s_loop ?w) ?w))" using demo_poller_inv by (simp add: l demo_loop_def)
  have b: "chan_heap (poller (lget (s_loop ?w) ?w)) (acc_channel (s_acceptor ?w)) = Some (Channel_new 0 7)"
    unfolding l by (simp add: demo_loop_def EpollPoller_new_def)
  have c: "pool_numThreads (s_pool ?w) = 0" "s_threadInitCallback ?w = None" "threadId (lget (s_loop ?w) ?w) = 1" "s_started ?w = 0"
    unfolding l by (simp_all add: EventLoopThreadPool_new_def demo_server_def world.defs server_world.defs demo_loop_def)
  have t: "w_trace ?w = []" by (simp add: demo_world_def)
  from server_starts_once [OF a b c, of demo_server_os "echo_user (demo_os 9 []) 1"] t show ?thesis by auto
qed

section \<open>The default high-water mark\<close>

text \<open>
  The guard before the high-water-mark callback tests the mark, not the callback. A connection
  made by the server has a mark of 64 MiB and no callback, so the send that lifts its backlog to the mark
  queues an empty function, and the loop that runs it throws \<open>std::bad_function_call\<close>.
\<close>

theorem default_highWaterMark_throws:
  assumes ok: "conn_ok cid c ch w" and sync: "out_sync c ch" and st: "c_state c \<noteq> kDisconnected"
    and none: "highWaterMarkCallback c = None"
    and wait: "content (outputBuffer c) \<noteq> []" and len: "unat len = length mem" "mem \<noteq> []"
    and fits: "buf_fits (outputBuffer c) (length mem)"
    and cross: "length (content (outputBuffer c)) < unat (highWaterMark c)"
      "unat (highWaterMark c) \<le> length (content (outputBuffer c)) + length mem"
  shows "\<exists>w' f. sendInLoop os tid cid mem len w = Inr w' \<and>
    pendingFunctors (lget (c_loop c) w') = pendingFunctors (lget (c_loop c) w) @ [f] \<and>
    (\<forall>os' user tid' w''. exec_functor os' user tid' f w'' = Inl Bad_Function_Call)"
  using sendInLoop_highWaterMark [OF ok sync st wait len fits, of os tid] none cross
  by (auto simp: Let_def exec_functor_def)

theorem default_highWaterMark_throws_witness:
  "\<exists>w' f. sendInLoop (demo_os 2 []) 1 0 ''cd'' 2 busy_world = Inr w' \<and> pendingFunctors (lget 0 w') = [f] \<and>
     (\<forall>os' user tid' w''. exec_functor os' user tid' f w'' = Inl Bad_Function_Call)"
proof -
  have c: "c_state busy_conn \<noteq> kDisconnected" "highWaterMarkCallback busy_conn = None" "content (outputBuffer busy_conn) \<noteq> []"
    "unat (2 :: size_t) = length ''cd''" "''cd'' \<noteq> []" "buf_fits (outputBuffer busy_conn) (length ''cd'')"
    "length (content (outputBuffer busy_conn)) < unat (highWaterMark busy_conn)"
    "unat (highWaterMark busy_conn) \<le> length (content (outputBuffer busy_conn)) + length ''cd''"
    by (simp_all add: busy_content busy_fits) (simp_all add: busy_conn_def demo_conn_def)
  have "pendingFunctors (lget (c_loop busy_conn) busy_world) = []" "c_loop busy_conn = 0"
    by (simp_all add: busy_world_def lget_def demo_loop_def busy_conn_def demo_conn_def)
  with default_highWaterMark_throws [OF busy_conn_ok busy_out_sync c, of "demo_os 2 []" 1] show ?thesis by simp
qed

end
