(* ===== verification/Server_Rounds.thy ===== *)
theory Server_Rounds
  imports Server_Props
begin

text \<open>
  The components together: one round of the server's event loop from \<open>epoll_wait\<close> to the release of
  connections. The callbacks a channel's report fires leave the report alone, so the dispatcher,
  which reads the channel again before each test, calls exactly the callbacks of the report; with
  this, a round that accepts a client yields an established connection, and a round that finds it
  readable echoes.
\<close>

section \<open>Callbacks leave the report alone\<close>

lemma report_kept_conns [simp]: "report_kept a ptr w (w\<lparr>s_connections := m\<rparr>)"
  by (simp add: report_kept_def lget_def)

lemma keeps_runInLoop:
  assumes "keeps (report_kept a ptr) w (f g w)"
  shows "keeps (report_kept a ptr) w (runInLoop (lget b) (lput b) f tid g w)"
  using assms by (simp add: runInLoop_def) (simp add: queue_on_def [symmetric])

lemma report_removeConnection: "keeps (report_kept a ptr) w (removeConnection tid cid w)"
  unfolding removeConnection_def removeConnectionInLoop_def
  by (rule keeps_runInLoop, rule keeps_read) (auto intro: report_kept_trans [OF report_kept_conns rep.R_queue])

text \<open>The echo server's message callback also stores and frees its local string.\<close>

locale message_relation = world_relation +
  assumes R_strings: "R w (w\<lparr>w_strings := st\<rparr>)"
begin

lemma keeps_onMessage: "keeps R w (EchoServer_onMessage os tid k cid w)"
proof -
  have "keeps R w (send os tid cid k ((put_conn cid c w)\<lparr>w_strings := st\<rparr>))" for c st
    by (rule keeps_after [OF R_trans [OF R_put R_strings] keeps_send])
  then show ?thesis
    unfolding EchoServer_onMessage_def Let_def
    by (intro keeps_read) (auto intro!: keeps_bindR R_strings split: prod.split)
qed

end

interpretation rep_msg: message_relation "report_kept a ptr" for a ptr
  by unfold_locales (simp add: report_kept_def lget_def)

interpretation tie_msg: message_relation "tie_kept a ptr" for a ptr
  by unfold_locales (simp add: tie_kept_def lget_def)

interpretation tr_msg: message_relation trace_grows
  by unfold_locales (simp add: trace_grows_def)

lemma report_echo_user:
  "keeps (report_kept a ptr) w (on_connection (server_user tid (echo_user os tid)) cb cid w)"
  "keeps (report_kept a ptr) w (on_message (server_user tid (echo_user os tid)) cb cid t w)"
  "keeps (report_kept a ptr) w (on_close (server_user tid (echo_user os tid)) cid w)"
  by (auto simp: server_user_def echo_user_def rep_msg.keeps_onMessage report_removeConnection keeps_def [of _ _ "EchoServer_onConnection c w" for c w]
      dest: EchoServer_onConnection_same)

text \<open>The callbacks that belong to a connection.\<close>

fun of_connection :: "callback_t \<Rightarrow> bool" where
  "of_connection (Cb_handleRead cid) = True"
| "of_connection (Cb_handleWrite cid) = True"
| "of_connection (Cb_handleClose cid) = True"
| "of_connection (Cb_handleError cid) = True"
| "of_connection cb = False"

lemma report_call_callback:
  assumes "of_connection cb"
  shows "keeps (report_kept a ptr) w (call_callback os (echo_user os' tid) tid now cb w)"
  using assms rep.keeps_handleRead [OF report_echo_user(1,3,2)] rep.keeps_handleClose [OF report_echo_user(1,3)]
  by (cases cb) (simp_all add: call_callback_def)

lemma keeps_report_connection:
  assumes "\<And>cb. Some cb \<in> F \<Longrightarrow> of_connection cb"
  shows "keeps_report (\<lambda>w. deref ptr (poller (lget a w))) (call_callback os (echo_user os' tid) tid now) F"
  using report_call_callback [OF assms] unfolding keeps_report_def keeps_def report_kept_def deref_Inr by metis

lemma dispatch_fired:
  assumes ch: "chan_heap (poller (lget lid w)) ptr = Some ch" and alive: "w_conns w cid \<noteq> None"
    and tie: "ch_tied ch" "ch_tie ch = Some cid"
    and cbs: "readCallback ch = Some (Cb_handleRead cid)" "writeCallback ch = Some (Cb_handleWrite cid)"
      "closeCallback ch = Some (Cb_handleClose cid)" "errorCallback ch = Some (Cb_handleError cid)"
  shows "handle_channel os (echo_user os' tid) tid now lid ptr w =
    call_all (call_callback os (echo_user os' tid) tid now) (fired ch) w"
proof -
  have "of_connection cb" if "Some cb \<in> set (fired ch)" for cb
    using that cbs by (auto simp: fired_def split: if_splits)
  from handleEventWithGuard_fired [OF keeps_report_connection [OF this]] ch alive tie show ?thesis
    by (simp add: handle_channel_def handleEvent_def)
qed

section \<open>Sending without queueing\<close>

text \<open>What the connection would hold stays below the high-water mark.\<close>

definition below_mark :: "tcp_connection \<Rightarrow> nat \<Rightarrow> bool" where
  "below_mark c n \<longleftrightarrow> length (content (outputBuffer c)) + n < unat (highWaterMark c)"

lemma below_mark_word:
  assumes below: "below_mark c (unat len)" and inv: "buf_inv (outputBuffer c)" and r: "unat r \<le> unat len"
  shows "\<not> readableBytes (outputBuffer c) + r \<ge> highWaterMark c"
proof -
  have sum: "unat (readableBytes (outputBuffer c)) + unat r < unat (highWaterMark c)"
    using below r length_content [OF inv] by (simp add: below_mark_def)
  then have "unat (readableBytes (outputBuffer c)) + unat r < 2 ^ 64" using unat_size_lt [of "highWaterMark c"] by linarith
  then have "unat (readableBytes (outputBuffer c) + r) = unat (readableBytes (outputBuffer c)) + unat r"
    by (rule unat_size_add)
  with sum show ?thesis by (simp add: word_le_nat_alt)
qed

lemma quiet_refl [simp]: "quiet cid a w w"
  by (simp add: quiet_def)

lemma quiet_strings: "quiet cid a w (w\<lparr>w_strings := st\<rparr>)"
  by (simp add: quiet_def lget_def)

lemma quiet_send_buffered:
  assumes "send_buffered tid cid c ch mem n r w = Inr w'" and "\<not> readableBytes (outputBuffer c) + r \<ge> highWaterMark c"
  shows "quiet cid a w w'"
proof -
  from assms obtain b where "(if \<not> isWriting ch then with_channel enableWriting c (put_conn cid (c\<lparr>outputBuffer := b\<rparr>) w)
      else Inr (put_conn cid (c\<lparr>outputBuffer := b\<rparr>) w)) = Inr w'"
    by (fastforce simp: send_buffered_def Let_def bindR_eq_Inr simp del: linorder_not_le)
  then show ?thesis
    using quiet_basic(1) [of cid a w] by (auto split: if_splits intro: quiet_trans quiet_with_channel)
qed

lemma quiet_sendInLoop:
  assumes res: "sendInLoop os tid cid mem len w = Inr w'" and c: "w_conns w cid = Some c"
    and wc: "writeCompleteCallback c = None" and inv: "buf_inv (outputBuffer c)"
    and len: "unat len = length mem" and below: "below_mark c (unat len)" and wr: "write_ok (os_write os)"
  shows "quiet cid a w w'"
proof (cases "c_state c = kDisconnected")
  case True
  then show ?thesis using res c by (simp add: sendInLoop_def)
next
  case False
  then obtain ch n r f w1 where
    first: "(if \<not> isWriting ch \<and> readableBytes (outputBuffer c) = 0 then send_direct os tid cid c (ch_fd ch) mem len w
        else Inr (0, len, False, w)) = Inr (n, r, f, w1)"
    and rest: "(if \<not> f \<and> r > 0 then send_buffered tid cid c ch mem n r w1 else Inr w1) = Inr w'"
    using res c by (auto simp: sendInLoop_def bindR_eq_Inr)
  have small: "k \<le> length mem \<Longrightarrow> unat (len - of_nat k) \<le> length mem" for k
    using len unat_size_lt [of len] by (subst unat_size_sub) (simp_all add: unat_size_of_nat)
  have w1: "quiet cid a w w1 \<and> unat r \<le> unat len"
    using first wc len wr
    by (cases "os_write os (ch_fd ch) mem")
       (auto simp: send_direct_def Let_def write_ok_def quiet_basic small split: if_splits)
  show ?thesis
  proof (cases "\<not> f \<and> r > 0")
    case True
    with rest have "send_buffered tid cid c ch mem n r w1 = Inr w'" by simp
    from quiet_trans [OF _ quiet_send_buffered [OF this below_mark_word [OF below inv]]] w1 show ?thesis by blast
  next
    case False
    with rest w1 show ?thesis by (simp split: if_splits)
  qed
qed

lemma quiet_onMessage:
  assumes res: "EchoServer_onMessage os tid ptr cid w = Inr w'" and c: "w_conns w cid = Some c"
    and wc: "writeCompleteCallback c = None" and inv: "buf_inv (inputBuffer c)" "buf_inv (outputBuffer c)"
    and here: "threadId (lget (c_loop c) w) = tid"
    and below: "below_mark c (length (content (inputBuffer c)))" and wr: "write_ok (os_write os)"
  shows "quiet cid a w w'"
proof -
  obtain b where b: "retrieveAllAsString (inputBuffer c) = Inr (content (inputBuffer c), b)"
    using retrieveAll_ok [OF inv(1)] by blast
  let ?c = "c\<lparr>inputBuffer := b\<rparr>" and ?msg = "content (inputBuffer c)"
  define w1 where "w1 = (put_conn cid ?c w)\<lparr>w_strings := (w_strings w)(ptr \<mapsto> ?msg)\<rparr>"
  have q1: "quiet cid a w w1" unfolding w1_def by (rule quiet_trans [OF quiet_basic(1) quiet_strings])
  from res c b obtain w2 where w2: "send os tid cid ptr w1 = Inr w2" "w' = w2\<lparr>w_strings := (w_strings w2)(ptr := None)\<rparr>"
    by (auto simp: EchoServer_onMessage_def Let_def bindR_eq_Inr w1_def)
  have w1: "w_conns w1 cid = Some ?c" "w_strings w1 ptr = Some ?msg" "threadId (lget (c_loop c) w1) = tid"
    using here by (simp_all add: w1_def) (simp add: lget_def put_conn_def)
  have "length ?msg < 2 ^ 64" using length_content [OF inv(1)] unat_size_lt by metis
  then have len: "unat (of_nat (length ?msg) :: size_t) = length ?msg" by (rule unat_size_of_nat)
  have "quiet cid a w1 w2"
  proof (cases "c_state c = kConnected")
    case True
    then have "sendInLoop os tid cid ?msg (of_nat (length ?msg)) w1 = Inr w2"
      using w2(1) w1 by (simp add: send_def isInLoopThread_def)
    from quiet_sendInLoop [OF this w1(1)] wc inv len below wr show ?thesis by (simp add: below_mark_def)
  next
    case False
    then show ?thesis using w2(1) w1 by (simp add: send_def)
  qed
  with q1 w2(2) show ?thesis by (auto intro: quiet_trans quiet_strings)
qed

section \<open>Rounds\<close>

text \<open>
  An established connection as the server leaves it between rounds: live, its channel tied to it and
  with the handlers the constructor set, the application's callbacks set, no write-complete callback.
\<close>

definition conn_chan :: "nat \<Rightarrow> callback_t channel \<Rightarrow> bool" where
  "conn_chan cid ch \<longleftrightarrow> ch_tied ch \<and> ch_tie ch = Some cid \<and> readCallback ch = Some (Cb_handleRead cid) \<and>
     writeCallback ch = Some (Cb_handleWrite cid) \<and> closeCallback ch = Some (Cb_handleClose cid) \<and>
     errorCallback ch = Some (Cb_handleError cid)"

definition established :: "int \<Rightarrow> nat \<Rightarrow> tcp_connection \<Rightarrow> server_world \<Rightarrow> bool" where
  "established tid cid c w \<longleftrightarrow> conn_live tid cid c w \<and>
     (\<exists>ch. chan_heap (poller (lget (c_loop c) w)) (c_channel c) = Some ch \<and> conn_chan cid ch) \<and>
     connectionCallback c \<noteq> None \<and> messageCallback c \<noteq> None \<and> writeCompleteCallback c = None \<and> connCloseCallback c"

text \<open>Between rounds nothing is queued on the loop, and every connection is in the server's map.\<close>

definition between_rounds :: "nat \<Rightarrow> server_world \<Rightarrow> bool" where
  "between_rounds lid w \<longleftrightarrow> pendingFunctors (lget lid w) = [] \<and>
     (\<forall>k ck. w_conns w k = Some ck \<longrightarrow> s_connections w (c_name ck) = Some k)"

lemma established_world:
  assumes est: "established tid cid c w" and conns: "w_conns w' cid = w_conns w cid"
    and l: "poller (lget (c_loop c) w') = poller (lget (c_loop c) w)" "threadId (lget (c_loop c) w') = threadId (lget (c_loop c) w)"
  shows "established tid cid c w'"
  using assms unfolding established_def conn_live_def conn_ok_def by simp

lemma release_all:
  assumes "\<And>k ck. w_conns w k = Some ck \<Longrightarrow> s_connections w (c_name ck) = Some k"
  shows "release w = Inr w"
proof -
  have "release_conns ks w = Inr w" for ks
    using assms by (induction ks) (auto simp: owned_def split: option.split)
  then show ?thesis by (simp add: release_def)
qed

lemma poller_inv_report:
  assumes inv: "poller_inv p" and c: "chan_heap p ptr = Some c"
  shows "poller_inv (store ptr (set_revents ev c) p)"
proof -
  from inv obtain m where coh: "coherent {} p m" unfolding poller_inv_def by blast
  have "coherent {} (store ptr (set_revents ev c) p) m"
    by (rule coherent_local [OF coh c, where c' = "set_revents ev c"])
       (use coherentD(1) [OF coh] coherentD(3) [OF coh c] in \<open>auto simp: chan_ok_def set_revents_def\<close>)
  then show ?thesis unfolding poller_inv_def by blast
qed

text \<open>A poll that reports one channel.\<close>

lemma poll_one:
  assumes "wait (eventListSize p) = Inr [(ev, ptr)]" and "chan_heap p ptr = Some ch" and "poller_inv p"
  shows "\<exists>p'. poll wait [] p = Inr ([ptr], p') \<and> poller_inv p' \<and>
    chan_heap p' = (chan_heap p)(ptr \<mapsto> set_revents ev ch)"
  using assms poller_inv_report [OF assms(3,2), of ev]
  by (auto simp: poll_def poller_inv_def coherentD(5) intro!: coherent_event_list)

text \<open>
  A round in which one channel is reported, its handler returns, nothing gets queued and no
  connection loses its last owner: the round is the handler.
\<close>

lemma server_round_one:
  assumes wait: "wait (eventListSize (poller (lget lid w))) = Inr [(ev, ptr)]"
    and ch: "chan_heap (poller (lget lid w)) ptr = Some ch" and inv: "poller_inv (poller (lget lid w))"
    and handler: "\<And>p. poller_inv p \<Longrightarrow> chan_heap p = (chan_heap (poller (lget lid w)))(ptr \<mapsto> set_revents ev ch) \<Longrightarrow>
      \<exists>w'. handle_channel os user (threadId (lget lid w)) now lid ptr
          (lput lid ((lget lid w)\<lparr>activeChannels := [ptr], poller := p, pollReturnTime := now\<rparr>) w) = Inr w' \<and>
        between_rounds lid w' \<and> Q w'"
    and frame: "\<And>w' l. Q w' \<Longrightarrow> poller l = poller (lget lid w') \<Longrightarrow> threadId l = threadId (lget lid w') \<Longrightarrow> Q (lput lid l w')"
  shows "\<exists>w'. server_round os user lid wait now w = Inr w' \<and> between_rounds lid w' \<and> Q w'"
proof -
  obtain p where p: "poll wait [] (poller (lget lid w)) = Inr ([ptr], p)" "poller_inv p"
    "chan_heap p = (chan_heap (poller (lget lid w)))(ptr \<mapsto> set_revents ev ch)"
    using poll_one [of wait "poller (lget lid w)" ev ptr ch, OF wait ch inv] by blast
  from handler [OF p(2,3)] obtain w1 where w1: "handle_channel os user (threadId (lget lid w)) now lid ptr
      (lput lid ((lget lid w)\<lparr>activeChannels := [ptr], poller := p, pollReturnTime := now\<rparr>) w) = Inr w1"
    "between_rounds lid w1" "Q w1" by blast
  let ?w = "lput lid ((lget lid w1)\<lparr>pendingFunctors := [], callingPendingFunctors := False\<rparr>) w1"
  have "loop_round (lget lid) (lput lid) (exec_functor os user (threadId (lget lid w)))
      (handle_channel os user (threadId (lget lid w)) now lid) wait now w = Inr ?w"
    using p(1) w1(1,2) by (simp add: loop_round_def doPendingFunctions_def Let_def between_rounds_def) (simp add: lput_def)
  moreover have "between_rounds lid ?w" using w1(2) by (simp add: between_rounds_def) (simp add: lput_def)
  moreover have "Q ?w" by (rule frame [OF w1(3)]) simp_all
  moreover have "release ?w = Inr ?w"
    using \<open>between_rounds lid ?w\<close> by (intro release_all) (simp add: between_rounds_def)
  ultimately show ?thesis by (simp add: server_round_def)
qed

section \<open>Rounds of an established connection\<close>

lemma conn_chan_kept:
  assumes "chan_heap (poller (lget a w)) ptr = Some ch" and "conn_chan cid ch"
    and "report_kept a ptr w w'" and "tie_kept a ptr w w'"
  shows "\<exists>ch'. chan_heap (poller (lget a w')) ptr = Some ch' \<and> conn_chan cid ch'"
  using assms by (fastforce simp: report_kept_def tie_kept_def same_report_def conn_chan_def)

text \<open>The world in which the reported channel's handler runs.\<close>

lemma conn_live_polled:
  assumes live: "conn_live tid cid c w" and inv: "poller_inv p" and ch: "chan_heap (poller (lget (c_loop c) w)) (c_channel c) = Some ch"
    and p: "chan_heap p = (chan_heap (poller (lget (c_loop c) w)))(c_channel c \<mapsto> set_revents ev ch)"
  shows "conn_live tid cid c (lput (c_loop c) ((lget (c_loop c) w)\<lparr>activeChannels := xs, poller := p, pollReturnTime := now\<rparr>) w)"
  using live inv ch p by (auto simp: conn_live_def conn_ok_def out_sync_def isWriting_def set_revents_def)

lemma between_rounds_quiet:
  assumes "between_rounds lid w" and q: "quiet cid lid w w'" and "w_conns w cid = Some c" and "w_conns w' cid = Some c'"
    and "c_name c' = c_name c"
  shows "between_rounds lid w'"
proof -
  have "world.more w' = world.more w" using q by (simp add: quiet_def)
  then have "s_connections w' = s_connections w" by (rule server_more(2))
  moreover have "s_connections w (c_name ck) = Some k" if "w_conns w' k = Some ck" for k ck
    using assms that by (cases "k = cid") (auto simp: between_rounds_def quiet_def)
  ultimately show ?thesis using assms(1) q by (simp add: between_rounds_def quiet_def)
qed

lemma fired_conn_chan:
  assumes "conn_chan cid ch"
  shows "fired (set_revents EPOLLIN ch) = [Some (Cb_handleRead cid)]"
    "fired (set_revents EPOLLOUT ch) = [Some (Cb_handleWrite cid)]"
  using assms by (simp_all add: fired_def conn_chan_def set_revents_def event_defs)

lemma truncate_os [simp]:
  "os_readv (os_calls.truncate os) = os_readv os" "os_write (os_calls.truncate os) = os_write os"
  "os_so_error (os_calls.truncate os) = os_so_error os"
  by (simp_all add: os_calls.defs)

lemma call_all_one: "call_all call [Some f] w = call f w"
  by (cases "call f w") (simp_all add: call_if_set_def)

lemma handle_one:
  assumes "chan_heap (poller (lget lid w)) ptr = Some ch" and "conn_chan cid ch" and "w_conns w cid \<noteq> None"
    and "fired ch = [Some cb]"
  shows "handle_channel os (echo_user os' tid) tid now lid ptr w = call_callback os (echo_user os' tid) tid now cb w"
  using dispatch_fired [OF assms(1,3), of os os' tid now] assms(2,4) by (simp add: conn_chan_def call_all_one del: call_all.simps)

lemma echo_handler:
  fixes os :: server_os
  defines "o' \<equiv> os_calls.truncate os"
  assumes est: "established tid cid c w" and btw: "between_rounds (c_loop c) w"
    and fits: "length (buf_data (inputBuffer c)) + 65536 \<le> vec_max_size"
      "unat (writerIndex (outputBuffer c)) + length (content (inputBuffer c)) + length bs \<le> vec_max_size"
      "below_mark c (length (content (inputBuffer c)) + length bs)"
    and os: "readv_ok (os_readv os)" "write_ok (os_write os)" "no_fault o'"
    and bs: "os_readv os (c_sockfd c) (read_iov (inputBuffer c)) = Inr bs" "bs \<noteq> []"
  shows "\<exists>w' b1 b2. handleRead o' (server_user tid (echo_user o' tid)) t cid w = Inr w' \<and>
    established tid cid (c\<lparr>inputBuffer := b1, outputBuffer := b2\<rparr>) w' \<and> between_rounds (c_loop c) w' \<and> content b1 = [] \<and>
    wire (c_sockfd c) w' @ content b2 =
      wire (c_sockfd c) w @ content (outputBuffer c) @ content (inputBuffer c) @ bs \<and>
    length (buf_data b1) \<le> length (buf_data (inputBuffer c)) + length bs \<and>
    unat (writerIndex b2) \<le> unat (writerIndex (outputBuffer c)) + length (content (inputBuffer c)) + length bs \<and>
    trace_grows w w'"
proof -
  let ?u = "server_user tid (echo_user o' tid)"
  from est obtain ch cb where live: "conn_live tid cid c w" and cb: "messageCallback c = Some cb"
    and ch: "chan_heap (poller (lget (c_loop c) w)) (c_channel c) = Some ch" "conn_chan cid ch"
    by (auto simp: established_def)
  from live obtain ch0 where ok: "conn_ok cid c ch0 w" and th: "threadId (lget (c_loop c) w) = tid" by (auto simp: conn_live_def)
  note d = conn_okD [OF ok]
  obtain w' b b1 b2 where r: "handleRead o' ?u t cid w = Inr w'"
    "conn_live tid cid (c\<lparr>inputBuffer := b1, outputBuffer := b2\<rparr>) w'" "content b1 = []"
    "wire (c_sockfd c) w' @ content b2 = wire (c_sockfd c) w @ content (outputBuffer c) @ content (inputBuffer c) @ bs"
    "length (buf_data b1) \<le> length (buf_data (inputBuffer c)) + length bs"
    "unat (writerIndex b2) \<le> unat (writerIndex (outputBuffer c)) + length (content (inputBuffer c)) + length bs"
    and b: "buf_inv b" "content b = content (inputBuffer c) @ bs"
    "EchoServer_onMessage o' tid 0 cid (put_conn cid (c\<lparr>inputBuffer := b\<rparr>) w) = Inr w'"
    using handleRead_echo [OF live cb fits(1,2), of o' t] os bs unfolding o'_def truncate_os by blast
  have rep: "report_kept (c_loop c) (c_channel c) w w'"
    using keepsD [OF rep_msg.keeps_onMessage b(3), of "c_loop c" "c_channel c"] by (rule report_kept_trans [OF rep.R_put])
  have tie: "tie_kept (c_loop c) (c_channel c) w w'"
    using keepsD [OF tie_msg.keeps_onMessage b(3), of "c_loop c" "c_channel c"] by (rule tie_kept_trans [OF tied.R_put])
  have "quiet cid (c_loop c) (put_conn cid (c\<lparr>inputBuffer := b\<rparr>) w) w'"
    by (rule quiet_onMessage [OF b(3), where c = "c\<lparr>inputBuffer := b\<rparr>"])
       (use est b d th fits(3) os(2) in \<open>simp_all add: established_def below_mark_def o'_def\<close>)
  then have q: "quiet cid (c_loop c) w w'" using quiet_basic(1) by (rule quiet_trans [rotated])
  have conns: "w_conns w' cid = Some (c\<lparr>inputBuffer := b1, outputBuffer := b2\<rparr>)"
    using r(2) by (auto simp: conn_live_def conn_ok_def)
  have "between_rounds (c_loop c) w'" by (rule between_rounds_quiet [OF btw q d(1) conns]) simp
  moreover have "established tid cid (c\<lparr>inputBuffer := b1, outputBuffer := b2\<rparr>) w'"
    using r(2) conn_chan_kept [OF ch rep tie] est by (simp add: established_def)
  moreover have "trace_grows w w'"
    using keepsD [OF tr_msg.keeps_onMessage b(3)] by (rule tr.R_trans [OF tr.R_put])
  ultimately show ?thesis using r by blast
qed

text \<open>
  A round that reports one event of an established connection, for which the dispatcher calls one
  handler: the round does what the handler does.
\<close>

lemma connection_round:
  fixes os :: server_os
  assumes est: "established tid cid c w" and btw: "between_rounds (c_loop c) w"
    and wait: "wait (eventListSize (poller (lget (c_loop c) w))) = Inr [(ev, c_channel c)]"
    and fires: "\<And>ch. conn_chan cid ch \<Longrightarrow> fired (set_revents ev ch) = [Some cb]"
    and call: "\<And>w0. established tid cid c w0 \<Longrightarrow> between_rounds (c_loop c) w0 \<Longrightarrow> w_trace w0 = w_trace w \<Longrightarrow>
      \<exists>w'. call_callback os (echo_user o' tid) tid now cb w0 = Inr w' \<and> between_rounds (c_loop c) w' \<and>
        (\<exists>b1 b2. established tid cid (c\<lparr>inputBuffer := b1, outputBuffer := b2\<rparr>) w' \<and> P b1 b2 (w_trace w'))"
  shows "\<exists>w'. server_round os (echo_user o' tid) (c_loop c) wait now w = Inr w' \<and> between_rounds (c_loop c) w' \<and>
    (\<exists>b1 b2. established tid cid (c\<lparr>inputBuffer := b1, outputBuffer := b2\<rparr>) w' \<and> P b1 b2 (w_trace w'))"
proof -
  from est obtain ch where ch: "chan_heap (poller (lget (c_loop c) w)) (c_channel c) = Some ch" "conn_chan cid ch"
    and live: "conn_live tid cid c w"
    by (auto simp: established_def)
  then have th: "threadId (lget (c_loop c) w) = tid" and inv: "poller_inv (poller (lget (c_loop c) w))"
    by (auto simp: conn_live_def conn_ok_def)
  show ?thesis
  proof (rule server_round_one [of wait "c_loop c" w, OF wait ch(1) inv], goal_cases handler frame)
    case (handler p)
    let ?w = "lput (c_loop c) ((lget (c_loop c) w)\<lparr>activeChannels := [c_channel c], poller := p, pollReturnTime := now\<rparr>) w"
    have chan: "chan_heap (poller (lget (c_loop c) ?w)) (c_channel c) = Some (set_revents ev ch)"
      "conn_chan cid (set_revents ev ch)"
      using handler(2) ch(2) by (simp_all add: conn_chan_def set_revents_def)
    have est': "established tid cid c ?w"
      using est chan conn_live_polled [OF live handler(1) ch(1) handler(2)] by (simp add: established_def)
    then have "w_conns ?w cid \<noteq> None" by (auto simp: established_def conn_live_def conn_ok_def)
    note one = handle_one [OF chan this fires [OF ch(2)], of os o' tid now]
    have "between_rounds (c_loop c) ?w" using btw by (simp add: between_rounds_def) (simp add: lput_def)
    from call [OF est' this] show ?case unfolding th one by simp
  next
    case (frame w' l)
    then obtain b1 b2 where "established tid cid (c\<lparr>inputBuffer := b1, outputBuffer := b2\<rparr>) w'" "P b1 b2 (w_trace w')"
      by blast
    with frame(2,3) established_world [of tid cid "c\<lparr>inputBuffer := b1, outputBuffer := b2\<rparr>" w' "lput (c_loop c) l w'"]
    show ?case by (intro exI [of _ b1] exI [of _ b2]) simp
  qed
qed

lemma echo_round_ok:
  fixes os :: server_os
  defines "o' \<equiv> os_calls.truncate os"
  assumes est: "established tid cid c w" and btw: "between_rounds (c_loop c) w"
    and wait: "wait (eventListSize (poller (lget (c_loop c) w))) = Inr [(EPOLLIN, c_channel c)]"
    and fits: "length (buf_data (inputBuffer c)) + 65536 \<le> vec_max_size"
      "unat (writerIndex (outputBuffer c)) + length (content (inputBuffer c)) + length bs \<le> vec_max_size"
      "below_mark c (length (content (inputBuffer c)) + length bs)"
    and os: "readv_ok (os_readv os)" "write_ok (os_write os)" "no_fault o'"
    and bs: "os_readv os (c_sockfd c) (read_iov (inputBuffer c)) = Inr bs" "bs \<noteq> []"
  shows "\<exists>w'. server_round os (echo_user o' tid) (c_loop c) wait now w = Inr w' \<and> between_rounds (c_loop c) w' \<and>
    (\<exists>b1 b2. established tid cid (c\<lparr>inputBuffer := b1, outputBuffer := b2\<rparr>) w' \<and> content b1 = [] \<and>
      wire (c_sockfd c) w' @ content b2 =
        wire (c_sockfd c) w @ content (outputBuffer c) @ content (inputBuffer c) @ bs \<and>
      length (buf_data b1) \<le> length (buf_data (inputBuffer c)) + length bs \<and>
      unat (writerIndex b2) \<le> unat (writerIndex (outputBuffer c)) + length (content (inputBuffer c)) + length bs \<and>
      trace_grows w w')"
  unfolding wire_def trace_grows_def
proof (rule connection_round [where wait = wait, OF est btw wait fired_conn_chan(1)], assumption)
  fix w0 assume w0: "established tid cid c w0" "between_rounds (c_loop c) w0" and trace: "w_trace w0 = w_trace w"
  from echo_handler [OF w0 fits os [unfolded o'_def] bs, of now, folded o'_def]
  show "\<exists>w'. call_callback os (echo_user o' tid) tid now (Cb_handleRead cid) w0 = Inr w' \<and> between_rounds (c_loop c) w' \<and>
    (\<exists>b1 b2. established tid cid (c\<lparr>inputBuffer := b1, outputBuffer := b2\<rparr>) w' \<and> content b1 = [] \<and>
      wire_of (c_sockfd c) (w_trace w') @ content b2 =
        wire_of (c_sockfd c) (w_trace w) @ content (outputBuffer c) @ content (inputBuffer c) @ bs \<and>
      length (buf_data b1) \<le> length (buf_data (inputBuffer c)) + length bs \<and>
      unat (writerIndex b2) \<le> unat (writerIndex (outputBuffer c)) + length (content (inputBuffer c)) + length bs \<and>
      (\<exists>es. w_trace w' = w_trace w @ es))"
    unfolding wire_def trace_grows_def trace call_callback_def o'_def by auto
qed

section \<open>The writable round\<close>

lemma quiet_shutdownInLoop: "shutdownInLoop cid w = Inr w' \<Longrightarrow> quiet cid a w w'"
  by (auto simp: shutdownInLoop_def bindR_eq_Inr quiet_basic split: if_splits)

lemma quiet_write_done:
  assumes res: "write_done tid cid c n w = Inr w'" and wc: "writeCompleteCallback c = None"
  shows "quiet cid a w w'"
proof -
  let ?w = "put_conn cid (c\<lparr>outputBuffer := retrieve (outputBuffer c) n\<rparr>) w"
  have "w' = ?w \<or> (\<exists>w2. with_channel disableWriting c ?w = Inr w2 \<and> (shutdownInLoop cid w2 = Inr w' \<or> w' = w2))"
    using res wc by (auto simp: write_done_def Let_def bindR_eq_Inr split: if_splits)
  with quiet_basic(1) [of cid a w] show ?thesis
    by (auto intro: quiet_trans [OF quiet_trans [OF quiet_basic(1) quiet_with_channel] quiet_shutdownInLoop]
        quiet_trans [OF quiet_basic(1) quiet_with_channel])
qed

lemma quiet_handleWrite:
  assumes "handleWrite os tid cid w = Inr w'" and "w_conns w cid = Some c" and "writeCompleteCallback c = None"
  shows "quiet cid a w w'"
  using assms quiet_trans [OF quiet_basic(2) quiet_write_done]
  by (auto simp: handleWrite_def bindR_eq_Inr split: if_splits)

lemma write_round_ok:
  fixes os :: server_os
  assumes est: "established tid cid c w" and btw: "between_rounds (c_loop c) w"
    and wait: "wait (eventListSize (poller (lget (c_loop c) w))) = Inr [(EPOLLOUT, c_channel c)]"
    and wr: "write_ok (os_write os)"
  shows "\<exists>w'. server_round os (echo_user o' tid) (c_loop c) wait now w = Inr w' \<and> between_rounds (c_loop c) w' \<and>
    (\<exists>b1 b2. established tid cid (c\<lparr>inputBuffer := b1, outputBuffer := b2\<rparr>) w' \<and>
      b1 = inputBuffer c \<and> wire (c_sockfd c) w' @ content b2 = wire (c_sockfd c) w @ content (outputBuffer c) \<and>
      unat (writerIndex b2) \<le> unat (writerIndex (outputBuffer c)) \<and>
      (\<forall>n. os_write os (c_sockfd c) (content (outputBuffer c)) = Inr n \<longrightarrow> content b2 = drop n (content (outputBuffer c))) \<and>
      trace_grows w w')"
  unfolding wire_def trace_grows_def
proof (rule connection_round [where wait = wait, OF est btw wait fired_conn_chan(2)], assumption)
  fix w0 assume w0: "established tid cid c w0" "between_rounds (c_loop c) w0" and trace: "w_trace w0 = w_trace w"
  from w0(1) obtain ch where live: "conn_live tid cid c w0" and conn: "w_conns w0 cid = Some c"
    and ch: "chan_heap (poller (lget (c_loop c) w0)) (c_channel c) = Some ch" "conn_chan cid ch"
    by (auto simp: established_def conn_live_def conn_ok_def)
  let ?os = "os_calls.truncate os"
  obtain w' b where r: "handleWrite ?os tid cid w0 = Inr w'" "conn_live tid cid (c\<lparr>outputBuffer := b\<rparr>) w'"
    "wire (c_sockfd c) w' @ content b = wire (c_sockfd c) w0 @ content (outputBuffer c)"
    "unat (writerIndex b) \<le> unat (writerIndex (outputBuffer c))"
    "\<forall>n. os_write os (c_sockfd c) (content (outputBuffer c)) = Inr n \<longrightarrow> content b = drop n (content (outputBuffer c))"
    using handleWrite_live [OF live, of ?os] wr unfolding truncate_os by blast
  have "\<exists>ch'. chan_heap (poller (lget (c_loop c) w')) (c_channel c) = Some ch' \<and> conn_chan cid ch'"
    by (rule conn_chan_kept [OF ch keepsD [OF rep.keeps_handleWrite r(1)] keepsD [OF tied.keeps_handleWrite r(1)]])
  with r(2) w0(1) have est': "established tid cid (c\<lparr>outputBuffer := b\<rparr>) w'" by (simp add: established_def)
  then have "w_conns w' cid = Some (c\<lparr>outputBuffer := b\<rparr>)" by (auto simp: established_def conn_live_def conn_ok_def)
  then have btw': "between_rounds (c_loop c) w'"
    using between_rounds_quiet [OF w0(2) quiet_handleWrite [OF r(1) conn] conn] w0(1) by (simp add: established_def)
  have "\<exists>es. w_trace w' = w_trace w @ es"
    using keepsD [OF tr.keeps_handleWrite r(1)] trace by (simp add: trace_grows_def)
  with r est' btw' trace
  show "\<exists>w'. call_callback os (echo_user o' tid) tid now (Cb_handleWrite cid) w0 = Inr w' \<and> between_rounds (c_loop c) w' \<and>
    (\<exists>b1 b2. established tid cid (c\<lparr>inputBuffer := b1, outputBuffer := b2\<rparr>) w' \<and> b1 = inputBuffer c \<and>
      wire_of (c_sockfd c) (w_trace w') @ content b2 = wire_of (c_sockfd c) (w_trace w) @ content (outputBuffer c) \<and>
      unat (writerIndex b2) \<le> unat (writerIndex (outputBuffer c)) \<and>
      (\<forall>n. os_write os (c_sockfd c) (content (outputBuffer c)) = Inr n \<longrightarrow> content b2 = drop n (content (outputBuffer c))) \<and>
      (\<exists>es. w_trace w' = w_trace w @ es))"
    by (intro exI [of _ w'] conjI exI [of _ "inputBuffer c"] exI [of _ b]) (simp_all add: call_callback_def wire_def)
qed

section \<open>Sessions\<close>

text \<open>
  A session: rounds of the connection's loop in which it is the one with an event, either readable
  with the given bytes or writable. \<open>os\<close> answers the system calls of that round.
\<close>

datatype round_event = Readable bytes | Writable

fun event_bytes :: "round_event \<Rightarrow> bytes" where
  "event_bytes (Readable bs) = bs"
| "event_bytes Writable = []"

fun server_rounds :: "int \<Rightarrow> nat \<Rightarrow> nat \<Rightarrow> (server_os \<times> round_event) list \<Rightarrow> server_world \<Rightarrow> server_world res" where
  "server_rounds tid lid ptr [] w = Inr w"
| "server_rounds tid lid ptr ((os, ev) # rs) w =
     bindR (server_round os (echo_user (os_calls.truncate os) tid) lid
              (\<lambda>n. Inr [(case ev of Readable bs \<Rightarrow> EPOLLIN | Writable \<Rightarrow> EPOLLOUT, ptr)]) 0 w)
       (server_rounds tid lid ptr rs)"

text \<open>
  The kernel in a round: \<open>write\<close> takes a prefix and does not fail for good, and a readable socket
  delivers the bytes, of which there are at most 65536, to any buffers with room for them.
\<close>

definition round_ok :: "int \<Rightarrow> server_os \<times> round_event \<Rightarrow> bool" where
  "round_ok fd = (\<lambda>(os, ev). write_ok (os_write os) \<and> no_fault (os_calls.truncate os) \<and> readv_ok (os_readv os) \<and>
     (\<forall>bs. ev = Readable bs \<longrightarrow> bs \<noteq> [] \<and> (\<forall>iov. 65536 \<le> sum_list iov \<longrightarrow> os_readv os fd iov = Inr bs)))"

lemma read_iov_room: "65536 \<le> sum_list (read_iov b)"
  by (simp add: read_iov_def Let_def EXTRABUF_def word_less_nat_alt)

lemma wire_grows: "trace_grows w w' \<Longrightarrow> length (wire fd w) \<le> length (wire fd w')"
  by (auto simp: trace_grows_def wire_def wire_of_append)

text \<open>Room for \<open>n\<close> more bytes in both buffers and below the high-water mark.\<close>

definition session_room :: "tcp_connection \<Rightarrow> nat \<Rightarrow> bool" where
  "session_room c n \<longleftrightarrow> length (buf_data (inputBuffer c)) + n + 65536 \<le> vec_max_size \<and>
     unat (writerIndex (outputBuffer c)) + n \<le> vec_max_size \<and> below_mark c n"

lemma session_round:
  fixes os :: server_os
  assumes est: "established tid cid c w" and btw: "between_rounds (c_loop c) w" and inp: "content (inputBuffer c) = []"
    and room: "session_room c (length (event_bytes ev) + k)" and ok: "round_ok (c_sockfd c) (os, ev)"
  shows "\<exists>w1 b1 b2. server_round os (echo_user (os_calls.truncate os) tid) (c_loop c)
      (\<lambda>n. Inr [(case ev of Readable bs \<Rightarrow> EPOLLIN | Writable \<Rightarrow> EPOLLOUT, c_channel c)]) 0 w = Inr w1 \<and>
    between_rounds (c_loop c) w1 \<and> established tid cid (c\<lparr>inputBuffer := b1, outputBuffer := b2\<rparr>) w1 \<and> content b1 = [] \<and>
    wire (c_sockfd c) w1 @ content b2 = wire (c_sockfd c) w @ content (outputBuffer c) @ event_bytes ev \<and>
    session_room (c\<lparr>inputBuffer := b1, outputBuffer := b2\<rparr>) k"
proof -
  have os: "readv_ok (os_readv os)" "write_ok (os_write os)" "no_fault (os_calls.truncate os)"
    using ok by (simp_all add: round_ok_def)
  have less: "length (content b2) \<le> length (content (outputBuffer c)) + length (event_bytes ev)"
    if "wire (c_sockfd c) w1 @ content b2 = wire (c_sockfd c) w @ content (outputBuffer c) @ event_bytes ev" "trace_grows w w1"
    for w1 b2
    using arg_cong [OF that(1), of length] wire_grows [OF that(2), of "c_sockfd c"] by simp
  show ?thesis
  proof (cases ev)
    case (Readable bs)
    have bs: "bs \<noteq> []" "os_readv os (c_sockfd c) (read_iov (inputBuffer c)) = Inr bs"
      using ok read_iov_room [of "inputBuffer c"] by (auto simp: round_ok_def Readable)
    have f: "length (buf_data (inputBuffer c)) + 65536 \<le> vec_max_size"
      "unat (writerIndex (outputBuffer c)) + length (content (inputBuffer c)) + length bs \<le> vec_max_size"
      "below_mark c (length (content (inputBuffer c)) + length bs)"
      using room inp by (auto simp: session_room_def below_mark_def Readable)
    from echo_round_ok [where wait = "\<lambda>n. Inr [(EPOLLIN, c_channel c)]", OF est btw refl f os bs(2,1), of 0]
    obtain w1 b1 b2 where r: "server_round os (echo_user (os_calls.truncate os) tid) (c_loop c) (\<lambda>n. Inr [(EPOLLIN, c_channel c)]) 0 w = Inr w1"
      "between_rounds (c_loop c) w1" "established tid cid (c\<lparr>inputBuffer := b1, outputBuffer := b2\<rparr>) w1" "content b1 = []"
      "wire (c_sockfd c) w1 @ content b2 = wire (c_sockfd c) w @ content (outputBuffer c) @ event_bytes ev"
      "length (buf_data b1) \<le> length (buf_data (inputBuffer c)) + length bs"
      "unat (writerIndex b2) \<le> unat (writerIndex (outputBuffer c)) + length bs" "trace_grows w w1"
      unfolding inp Readable by auto
    have "session_room (c\<lparr>inputBuffer := b1, outputBuffer := b2\<rparr>) k"
      using room r(6,7) less [OF r(5,8)] by (simp add: session_room_def below_mark_def Readable)
    with r show ?thesis by (intro exI [of _ w1] exI [of _ b1] exI [of _ b2]) (simp add: Readable)
  next
    case Writable
    from write_round_ok [where wait = "\<lambda>n. Inr [(EPOLLOUT, c_channel c)]" and o' = "os_calls.truncate os" and now = 0,
        OF est btw refl os(2)]
    obtain w1 b2 where r: "server_round os (echo_user (os_calls.truncate os) tid) (c_loop c) (\<lambda>n. Inr [(EPOLLOUT, c_channel c)]) 0 w = Inr w1"
      "between_rounds (c_loop c) w1" "established tid cid (c\<lparr>inputBuffer := inputBuffer c, outputBuffer := b2\<rparr>) w1"
      "wire (c_sockfd c) w1 @ content b2 = wire (c_sockfd c) w @ content (outputBuffer c) @ event_bytes ev"
      "unat (writerIndex b2) \<le> unat (writerIndex (outputBuffer c))" "trace_grows w w1"
      unfolding Writable by auto
    have "session_room (c\<lparr>inputBuffer := inputBuffer c, outputBuffer := b2\<rparr>) k"
      using room r(5) less [OF r(4,6)] by (simp add: session_room_def below_mark_def Writable)
    with r inp show ?thesis by (intro exI [of _ w1] exI [of _ "inputBuffer c"] exI [of _ b2]) (simp add: Writable)
  qed
qed

section \<open>The accepting round\<close>

lemma quiet_connectEstablished:
  assumes r: "connectEstablished user cid w = Inr w'" and u: "\<And>cb w. w_conns w cid \<noteq> None \<Longrightarrow> on_connection user cb cid w = Inr w"
  shows "quiet cid a w w'"
proof -
  from r obtain w1 c w2 w3 where "setState kConnected cid w = Inr w1"
    "with_channel (\<lambda>ptr p. bindR (deref ptr p) (\<lambda>ch. Inr (store ptr (channel_tie cid ch) p))) c w1 = Inr w2"
    "with_channel enableReading c w2 = Inr w3" "call_connectionCallback user cid w3 = Inr w'"
    by (auto simp: connectEstablished_def bindR_eq_Inr)
  then show ?thesis
    using quiet_callback [OF _ u] by (meson quiet_setState quiet_with_channel quiet_trans)
qed

lemma echo_onConnection: "w_conns w cid \<noteq> None \<Longrightarrow> on_connection (server_user tid (echo_user os tid')) cb cid w = Inr w"
  using EchoServer_onConnection_ok by (simp add: server_user_def echo_user_def)

text \<open>\<open>connectEstablished\<close> on a connection as \<open>newConnection\<close> constructs it.\<close>

lemma connectEstablished_establishes:
  assumes ok: "conn_ok cid c ch w" and sync: "out_sync c ch" and cb: "connectionCallback c = Some cb"
    and cbs: "messageCallback c \<noteq> None" "writeCompleteCallback c = None" "connCloseCallback c"
    and ch: "readCallback ch = Some (Cb_handleRead cid)" "writeCallback ch = Some (Cb_handleWrite cid)"
      "closeCallback ch = Some (Cb_handleClose cid)" "errorCallback ch = Some (Cb_handleError cid)"
    and th: "threadId (lget (c_loop c) w) = tid"
  shows "\<exists>w'. connectEstablished (server_user tid (echo_user o' tid)) cid w = Inr w' \<and>
    established tid cid (c\<lparr>c_state := kConnected\<rparr>) w' \<and> (\<forall>a. quiet cid a w w') \<and> (\<forall>a ptr. report_kept a ptr w w') \<and>
    w_trace w' = w_trace w @ [Connection_cb cid True]"
proof -
  let ?u = "server_user tid (echo_user o' tid)" and ?c = "c\<lparr>c_state := kConnected\<rparr>"
  obtain w' ch' where e: "connectEstablished ?u cid w = on_connection ?u cb cid w'"
    "conn_ok cid ?c ch' w'" "ch_tied ch'" "ch_tie ch' = Some cid"
    "isWriting ch' = isWriting ch" "w_trace w' = w_trace w @ [Connection_cb cid True]"
    using connectEstablished_ok [OF ok cb, of ?u] by blast
  have "w_conns w' cid \<noteq> None" using conn_okD(1) [OF e(2)] by simp
  then have est: "connectEstablished ?u cid w = Inr w'" using e(1) echo_onConnection by simp
  have q: "quiet cid a w w'" for a by (rule quiet_connectEstablished [OF est echo_onConnection])
  have kept: "report_kept a ptr w w'" for a ptr
    by (rule keepsD [OF rep.keeps_connectEstablished [OF report_echo_user(1)] est])
  have "same_report ch ch'"
    using kept [of "c_loop c" "c_channel c"] conn_okD(4) [OF ok] conn_okD(4) [OF e(2)] by (simp add: report_kept_def)
  then have "conn_chan cid ch'" using e(3,4) ch by (simp add: conn_chan_def same_report_def)
  moreover have "out_sync ?c ch'" using sync e(5) by (simp add: out_sync_def)
  moreover have "threadId (lget (c_loop c) w') = tid" using q th by (simp add: quiet_def)
  ultimately have "established tid cid ?c w'"
    using e(2) conn_okD(4) [OF e(2)] cb cbs by (auto simp: established_def conn_live_def)
  with est q kept e(6) show ?thesis by blast
qed

text \<open>Registering a connection keeps the state between rounds.\<close>

lemma registered_all:
  assumes btw: "between_rounds lid w" and reg: "s_connections w (c_name c) = None" "s_connections w' = (s_connections w)(c_name c \<mapsto> cid)"
    and conns: "w_conns w' = (w_conns w)(cid \<mapsto> c)" and k: "w_conns w' k = Some ck"
  shows "s_connections w' (c_name ck) = Some k"
proof (cases "k = cid")
  case False
  then have "s_connections w (c_name ck) = Some k" using k btw conns by (simp add: between_rounds_def)
  with reg show ?thesis by (cases "c_name ck = c_name c") auto
qed (use k reg conns in simp)

text \<open>
  \<open>newConnection\<close> in a server without threads: the connection is established at once, and the
  reports of the other channels stay.
\<close>

lemma newConnection_here:
  assumes here: "local_address os sockfd = Inr localAddr" and names: "names_inv w" and small: "s_nextConnId w < 2 ^ 31 - 1"
    and base: "pool_loops (s_pool w) = []" "pool_baseLoop (s_pool w) = lid" "threadId (lget lid w) = tid"
    and fresh: "accept_fresh lid sockfd w" and inv: "poller_inv (poller (lget lid w))"
    and cbs: "s_connectionCallback w = Some cb" "s_messageCallback w \<noteq> None" "s_writeCompleteCallback w = None"
    and btw: "between_rounds lid w"
  shows "\<exists>w' c. newConnection os (echo_user o' tid) tid sockfd peerAddr w = Inr w' \<and> established tid (s_fresh w) c w' \<and>
    between_rounds lid w' \<and> c_loop c = lid \<and> c_sockfd c = sockfd \<and> c_peerAddr c = peerAddr \<and>
    content (inputBuffer c) = [] \<and> content (outputBuffer c) = [] \<and>
    s_connections w' = (s_connections w)(c_name c \<mapsto> s_fresh w) \<and> s_connections w (c_name c) = None \<and>
    w_trace w' = w_trace w @ map Sock (setKeepAlive True sockfd) @ [Connection_cb (s_fresh w) True] \<and>
    (\<forall>ptr. ptr \<noteq> Suc (s_fresh w) \<longrightarrow> report_kept lid ptr w w')"
proof -
  let ?u = "server_user tid (echo_user o' tid)" and ?cid = "s_fresh w"
  have nxt: "getNextLoop (s_pool w) = (lid, s_pool w)" using base(1,2) by (simp add: getNextLoop_def)
  obtain w4 c ch where n: "newConnection os (echo_user o' tid) tid sockfd peerAddr w =
      runInLoop (lget lid) (lput lid) (\<lambda>f. connectEstablished ?u ?cid) tid (F_connectEstablished ?cid) w4"
    and ok: "conn_ok ?cid c ch w4" and sync: "out_sync c ch" and c: "c_loop c = lid" "c_sockfd c = sockfd"
      "content (inputBuffer c) = []" "content (outputBuffer c) = []" "connectionCallback c = Some cb"
      "messageCallback c = s_messageCallback w" "connCloseCallback c" "writeCompleteCallback c = None" "c_channel c = Suc ?cid"
      "c_peerAddr c = peerAddr"
    and reg: "s_connections w (c_name c) = None" "s_connections w4 = (s_connections w)(c_name c \<mapsto> ?cid)"
    and ch: "readCallback ch = Some (Cb_handleRead ?cid)" "writeCallback ch = Some (Cb_handleWrite ?cid)"
      "closeCallback ch = Some (Cb_handleClose ?cid)" "errorCallback ch = Some (Cb_handleError ?cid)"
    and w4: "w_conns w4 = (w_conns w)(?cid \<mapsto> c)" "w_trace w4 = w_trace w @ map Sock (setKeepAlive True sockfd)"
      "lget lid w4 = (lget lid w)\<lparr>poller := store (Suc ?cid) ch (poller (lget lid w))\<rparr>"
    using newConnection_ok [OF here names small nxt fresh inv, of "echo_user o' tid" tid peerAddr] cbs by auto
  have th4: "threadId (lget lid w4) = tid" using base(3) by (simp add: w4(3))
  obtain w' where e: "connectEstablished ?u ?cid w4 = Inr w'" "established tid ?cid (c\<lparr>c_state := kConnected\<rparr>) w'"
    "quiet ?cid lid w4 w'" "\<And>ptr. report_kept lid ptr w4 w'" "w_trace w' = w_trace w4 @ [Connection_cb ?cid True]"
    using connectEstablished_establishes [OF ok sync c(5) _ c(8,7) ch, of tid o'] c(1,6) cbs(2) th4 by auto
  have new: "newConnection os (echo_user o' tid) tid sockfd peerAddr w = Inr w'"
    using n e(1) th4 by (simp add: runInLoop_def isInLoopThread_def)
  have conn': "w_conns w' ?cid = Some (c\<lparr>c_state := kConnected\<rparr>)"
    using e(2) by (auto simp: established_def conn_live_def conn_ok_def)
  have more: "world.more w' = world.more w4" using e(3) by (simp add: quiet_def)
  have "between_rounds lid w4"
    using registered_all [OF btw reg w4(1)] btw by (simp add: between_rounds_def w4(3))
  then have "between_rounds lid w'" by (rule between_rounds_quiet [OF _ e(3) conn_okD(1) [OF ok] conn']) simp
  moreover have "report_kept lid ptr w w'" if "ptr \<noteq> Suc ?cid" for ptr
    by (rule report_kept_trans [OF _ e(4)]) (use that in \<open>simp add: report_kept_def w4(3)\<close>)
  ultimately show ?thesis
    using new e(2,5) c reg w4(2) server_more(2) [OF more]
    by (intro exI [of _ w'] exI [of _ "c\<lparr>c_state := kConnected\<rparr>"]) simp
qed

lemma guard_read_only:
  assumes ch: "chan w = Inr c" and rev: "ch_revents c = EPOLLIN" and call: "call_if_set call (readCallback c) w = Inr w'"
    and ch': "chan w' = Inr c'" "ch_revents c' = EPOLLIN"
  shows "handleEventWithGuard chan call w = Inr w'"
  using assms by (simp add: handleEventWithGuard_def test_and_call_def event_defs)

lemma accept_handler:
  fixes os :: server_os
  assumes ach: "chan_heap (poller (lget lid w)) (acc_channel (s_acceptor w)) = Some ach" "ch_revents ach = EPOLLIN"
      "readCallback ach = Some Cb_accept" "\<not> ch_tied ach" "acc_callback (s_acceptor w)"
    and accept: "os_accept4 os (acc_sockfd (s_acceptor w)) (os_client_len os) = Inr (connfd, peer)" "0 \<le> connfd"
      "os_getsockname os connfd = Inr localAddr"
    and names: "names_inv w" "s_nextConnId w < 2 ^ 31 - 1"
    and base: "pool_loops (s_pool w) = []" "pool_baseLoop (s_pool w) = lid" "threadId (lget lid w) = tid"
    and fresh: "accept_fresh lid connfd w" and inv: "poller_inv (poller (lget lid w))"
    and cbs: "s_connectionCallback w = Some cb" "s_messageCallback w \<noteq> None" "s_writeCompleteCallback w = None"
    and btw: "between_rounds lid w"
  shows "\<exists>w'. handle_channel os (echo_user o' tid) tid now lid (acc_channel (s_acceptor w)) w = Inr w' \<and> between_rounds lid w' \<and>
    (\<exists>c. established tid (s_fresh w) c w' \<and> c_loop c = lid \<and> c_sockfd c = connfd \<and> c_peerAddr c = peer \<and>
      content (inputBuffer c) = [] \<and> content (outputBuffer c) = [] \<and>
      s_connections w (c_name c) = None \<and> s_connections w' = (s_connections w)(c_name c \<mapsto> s_fresh w) \<and>
      w_trace w' = w_trace w @ map Sock (setKeepAlive True connfd) @ [Connection_cb (s_fresh w) True])"
proof -
  let ?ptr = "acc_channel (s_acceptor w)"
  have ptr: "?ptr \<noteq> Suc (s_fresh w)" using fresh ach(1) by (auto simp: accept_fresh_def)
  have "local_address os connfd = Inr localAddr" using accept(3) by (simp add: local_address_def)
  from newConnection_here [OF this names base fresh inv cbs btw, of o' peer] ptr obtain w' c where
    n: "newConnection os (echo_user o' tid) tid connfd peer w = Inr w'" "between_rounds lid w'" "report_kept lid ?ptr w w'"
    and c: "established tid (s_fresh w) c w' \<and> c_loop c = lid \<and> c_sockfd c = connfd \<and> c_peerAddr c = peer \<and>
    content (inputBuffer c) = [] \<and> content (outputBuffer c) = [] \<and>
    s_connections w (c_name c) = None \<and> s_connections w' = (s_connections w)(c_name c \<mapsto> s_fresh w) \<and>
    w_trace w' = w_trace w @ map Sock (setKeepAlive True connfd) @ [Connection_cb (s_fresh w) True]"
    by auto
  obtain ch' where ch': "chan_heap (poller (lget lid w')) ?ptr = Some ch'" "ch_revents ch' = EPOLLIN"
    using n(3) ach(1,2) by (auto simp: report_kept_def same_report_def)
  have "call_callback os (echo_user o' tid) tid now Cb_accept w = Inr w'"
    using n(1) accept(1,2) ach(5) by (simp add: call_callback_def Acceptor_handleRead_def Socket_Accept_def Let_def)
  then have "handleEventWithGuard (\<lambda>w. deref ?ptr (poller (lget lid w))) (call_callback os (echo_user o' tid) tid now) w = Inr w'"
    using ach(1-3) ch' by (intro guard_read_only [where c = ach and c' = ch']) (simp_all add: call_if_set_def)
  then have "handle_channel os (echo_user o' tid) tid now lid ?ptr w = Inr w'"
    using ach(1,4) by (simp add: handle_channel_def handleEvent_def)
  with n(2) c show ?thesis by blast
qed

section \<open>Handing a connection to another thread\<close>

lemma connectEstablished_eventfd:
  assumes "connectEstablished (server_user tid (echo_user o' tid)) cid w = Inr w'"
  shows "eventfd (lget a w') = eventfd (lget a w)"
proof -
  have chan: "with_channel f c w = Inr w' \<Longrightarrow> eventfd (lget a w') = eventfd (lget a w)" for f c and w w' :: server_world
    by (auto simp: with_channel_def bindR_eq_Inr)
  have cb: "call_connectionCallback (server_user tid (echo_user o' tid)) cid w = Inr w' \<Longrightarrow> eventfd (lget a w') = eventfd (lget a w)"
    for w w' :: server_world
    using echo_onConnection [of _ cid tid o' tid] by (auto simp: call_connectionCallback_def bindR_eq_Inr split: option.splits)
  show ?thesis
    using assms by (auto simp: connectEstablished_def setState_def bindR_eq_Inr dest!: chan cb)
qed

text \<open>A round in which only the wake-up channel is reported: the queued functors run.\<close>

lemma wakeup_round:
  assumes wait: "wait (eventListSize (poller (lget lid w))) = Inr [(EPOLLIN, ptr)]"
    and ch: "chan_heap (poller (lget lid w)) ptr = Some ch" "readCallback ch = Some (Cb_wakeup lid)" "\<not> ch_tied ch"
    and inv: "poller_inv (poller (lget lid w))"
  shows "\<exists>p. poller_inv p \<and> chan_heap p = (chan_heap (poller (lget lid w)))(ptr \<mapsto> set_revents EPOLLIN ch) \<and>
    server_round os user lid wait now w =
      bindR (doPendingFunctions (lget lid) (lput lid) (exec_functor os user (threadId (lget lid w)))
        (lput lid ((lget lid w)\<lparr>activeChannels := [ptr], poller := p, pollReturnTime := now, eventfd := 0\<rparr>) w)) release"
proof -
  obtain p where p: "poll wait [] (poller (lget lid w)) = Inr ([ptr], p)" "poller_inv p"
    "chan_heap p = (chan_heap (poller (lget lid w)))(ptr \<mapsto> set_revents EPOLLIN ch)"
    using poll_one [of wait "poller (lget lid w)" EPOLLIN ptr ch, OF wait ch(1) inv] by blast
  let ?l = "(lget lid w)\<lparr>activeChannels := [ptr], poller := p, pollReturnTime := now\<rparr>"
  let ?w = "lput lid ?l w" and ?w1 = "lput lid (?l\<lparr>eventfd := 0\<rparr>) w"
  have "call_callback os user (threadId (lget lid w)) now (Cb_wakeup lid) ?w = Inr ?w1"
    by (simp add: call_callback_def EventLoop_handleRead_def) (simp add: lput_def)
  then have "handleEventWithGuard (\<lambda>w. deref ptr (poller (lget lid w))) (call_callback os user (threadId (lget lid w)) now) ?w = Inr ?w1"
    by (intro guard_read_only [where c = "set_revents EPOLLIN ch" and c' = "set_revents EPOLLIN ch"])
       (simp_all add: p(3) set_revents_def call_if_set_def ch(2))
  then have "handle_channel os user (threadId (lget lid w)) now lid ptr ?w = Inr ?w1"
    by (simp add: handle_channel_def handleEvent_def p(3) ch(3)) (simp add: set_revents_def ch(3))
  then show ?thesis using p by (intro exI [of _ p]) (simp add: server_round_def loop_round_def)
qed

lemma queued_establish_round:
  assumes pend: "pendingFunctors (lget io w) = [F_connectEstablished cid]"
    and reg: "\<And>k ck. w_conns w k = Some ck \<Longrightarrow> s_connections w (c_name ck) = Some k"
    and ok: "conn_ok cid c ch w" "out_sync c ch" "c_loop c = io" "threadId (lget io w) = th"
    and ccb: "connectionCallback c = Some cb" "messageCallback c \<noteq> None" "writeCompleteCallback c = None" "connCloseCallback c"
    and chs: "readCallback ch = Some (Cb_handleRead cid)" "writeCallback ch = Some (Cb_handleWrite cid)"
      "closeCallback ch = Some (Cb_handleClose cid)" "errorCallback ch = Some (Cb_handleError cid)"
    and wk: "chan_heap (poller (lget io w)) ptr = Some wch" "readCallback wch = Some (Cb_wakeup io)" "\<not> ch_tied wch" "ptr \<noteq> c_channel c"
  shows "\<exists>w'. server_round os (echo_user o' th) io (\<lambda>n. Inr [(EPOLLIN, ptr)]) now w = Inr w' \<and>
    established th cid (c\<lparr>c_state := kConnected\<rparr>) w' \<and> between_rounds io w' \<and> eventfd (lget io w') = 0 \<and>
    w_trace w' = w_trace w @ [Connection_cb cid True]"
proof -
  have inv: "poller_inv (poller (lget io w))" using conn_okD(6) [OF ok(1)] ok(3) by simp
  let ?l = "\<lambda>p. (lget io w)\<lparr>activeChannels := [ptr], poller := p, pollReturnTime := now, eventfd := 0\<rparr>"
  obtain p where p: "poller_inv p" "chan_heap p = (chan_heap (poller (lget io w)))(ptr \<mapsto> set_revents EPOLLIN wch)"
    and round: "server_round os (echo_user o' th) io (\<lambda>n. Inr [(EPOLLIN, ptr)]) now w =
      bindR (doPendingFunctions (lget io) (lput io) (exec_functor os (echo_user o' th) th) (lput io (?l p) w)) release"
    using wakeup_round [where wait = "\<lambda>n. Inr [(EPOLLIN, ptr)]", OF refl wk(1-3) inv, of os "echo_user o' th" now] unfolding ok(4) by blast
  define w2 where "w2 = lput io ((?l p)\<lparr>callingPendingFunctors := True, pendingFunctors := []\<rparr>) w"
  have ok2: "conn_ok cid c ch w2" using ok(1,3) p wk(4) by (auto simp: w2_def conn_ok_def)
  have l2: "threadId (lget (c_loop c) w2) = th" using ok(3,4) by (simp add: w2_def)
  obtain w3 where e: "connectEstablished (server_user th (echo_user o' th)) cid w2 = Inr w3"
    "established th cid (c\<lparr>c_state := kConnected\<rparr>) w3" "quiet cid io w2 w3" "w_trace w3 = w_trace w2 @ [Connection_cb cid True]"
    using connectEstablished_establishes [OF ok2 ok(2) ccb chs l2, of o'] by blast
  have fd3: "eventfd (lget io w3) = 0" using connectEstablished_eventfd [OF e(1)] by (simp add: w2_def)
  let ?w4 = "lput io ((lget io w3)\<lparr>callingPendingFunctors := False\<rparr>) w3"
  have doP: "doPendingFunctions (lget io) (lput io) (exec_functor os (echo_user o' th) th) (lput io (?l p) w) = Inr ?w4"
    using pend e(1) by (simp add: doPendingFunctions_def Let_def exec_functor_def w2_def) (simp add: lput_def)
  have "between_rounds io w2" using reg by (simp add: between_rounds_def w2_def) (simp add: lput_def)
  moreover have "w_conns w3 cid = Some (c\<lparr>c_state := kConnected\<rparr>)" using e(2) by (auto simp: established_def conn_live_def conn_ok_def)
  ultimately have "between_rounds io w3" by (rule between_rounds_quiet [OF _ e(3) conn_okD(1) [OF ok2]]) simp
  then have btw4: "between_rounds io ?w4" by (simp add: between_rounds_def) (simp add: lput_def)
  then have "release ?w4 = Inr ?w4" by (intro release_all) (simp add: between_rounds_def)
  with round doP have "server_round os (echo_user o' th) io (\<lambda>n. Inr [(EPOLLIN, ptr)]) now w = Inr ?w4" by simp
  moreover have "established th cid (c\<lparr>c_state := kConnected\<rparr>) ?w4" by (rule established_world [OF e(2)]) simp_all
  ultimately show ?thesis using btw4 fd3 e(4) by (intro exI [of _ ?w4]) (simp add: w2_def)
qed

lemma handover_ok:
  assumes here: "local_address os sockfd = Inr localAddr" and names: "names_inv w" and small: "s_nextConnId w < 2 ^ 31 - 1"
    and nxt: "getNextLoop (s_pool w) = (io, pool1)" "threadId (lget io w) \<noteq> tid"
    and fresh: "accept_fresh io sockfd w" and inv: "poller_inv (poller (lget io w))"
    and cbs: "s_connectionCallback w = Some cb" "s_messageCallback w \<noteq> None" "s_writeCompleteCallback w = None"
    and btw: "between_rounds io w"
  shows "\<exists>w1 c ch. newConnection os user tid sockfd peerAddr w = Inr w1 \<and>
    pendingFunctors (lget io w1) = [F_connectEstablished (s_fresh w)] \<and> 0 < eventfd (lget io w1) \<and>
    conn_ok (s_fresh w) c ch w1 \<and> out_sync c ch \<and> c_loop c = io \<and> c_sockfd c = sockfd \<and> c_peerAddr c = peerAddr \<and>
    content (inputBuffer c) = [] \<and> content (outputBuffer c) = [] \<and>
    connectionCallback c = Some cb \<and> messageCallback c \<noteq> None \<and> writeCompleteCallback c = None \<and> connCloseCallback c \<and>
    readCallback ch = Some (Cb_handleRead (s_fresh w)) \<and> writeCallback ch = Some (Cb_handleWrite (s_fresh w)) \<and>
    closeCallback ch = Some (Cb_handleClose (s_fresh w)) \<and> errorCallback ch = Some (Cb_handleError (s_fresh w)) \<and>
    c_channel c = Suc (s_fresh w) \<and> s_connections w (c_name c) = None \<and> s_connections w1 = (s_connections w)(c_name c \<mapsto> s_fresh w) \<and>
    w_conns w1 = (w_conns w)(s_fresh w \<mapsto> c) \<and> w_trace w1 = w_trace w @ map Sock (setKeepAlive True sockfd) \<and>
    threadId (lget io w1) = threadId (lget io w) \<and> wakeupChannel (lget io w1) = wakeupChannel (lget io w) \<and>
    poller (lget io w1) = store (Suc (s_fresh w)) ch (poller (lget io w))"
proof -
  obtain w4 c ch where n: "newConnection os user tid sockfd peerAddr w =
      runInLoop (lget io) (lput io) (\<lambda>f. connectEstablished (server_user tid user) (s_fresh w)) tid (F_connectEstablished (s_fresh w)) w4"
    and ok: "conn_ok (s_fresh w) c ch w4" "out_sync c ch"
    and c: "c_loop c = io" "c_sockfd c = sockfd" "c_peerAddr c = peerAddr" "c_channel c = Suc (s_fresh w)"
      "content (inputBuffer c) = []" "content (outputBuffer c) = []" "connectionCallback c = Some cb"
      "messageCallback c = s_messageCallback w" "connCloseCallback c" "writeCompleteCallback c = None"
      "readCallback ch = Some (Cb_handleRead (s_fresh w))" "writeCallback ch = Some (Cb_handleWrite (s_fresh w))"
      "closeCallback ch = Some (Cb_handleClose (s_fresh w))" "errorCallback ch = Some (Cb_handleError (s_fresh w))"
    and reg: "s_connections w (c_name c) = None" "s_connections w4 = (s_connections w)(c_name c \<mapsto> s_fresh w)"
    and w4: "w_conns w4 = (w_conns w)(s_fresh w \<mapsto> c)" "w_trace w4 = w_trace w @ map Sock (setKeepAlive True sockfd)"
      "lget io w4 = (lget io w)\<lparr>poller := store (Suc (s_fresh w)) ch (poller (lget io w))\<rparr>"
    using newConnection_ok [OF here names small nxt(1) fresh inv, of user tid peerAddr] cbs by auto
  let ?w1 = "queue_on tid io (F_connectEstablished (s_fresh w)) w4"
  have new: "newConnection os user tid sockfd peerAddr w = Inr ?w1"
    using n nxt(2) by (simp add: runInLoop_def isInLoopThread_def queue_on_def w4(3))
  have q: "pendingFunctors (lget io ?w1) = [F_connectEstablished (s_fresh w)]" "0 < eventfd (lget io ?w1)"
    "wakeupChannel (lget io ?w1) = wakeupChannel (lget io w)"
    using btw nxt(2) by (simp_all add: queue_on_def loop_op_defs w4(3) between_rounds_def isInLoopThread_def)
  have "s_connections ?w1 = s_connections w4" by (simp add: queue_on_def lput_def)
  with new q ok c reg w4 cbs(2) show ?thesis by (intro exI [of _ ?w1] exI [of _ c] exI [of _ ch]) simp
qed

end
