(* ===== verification/Server_Sessions.thy ===== *)
theory Server_Sessions
  imports Server_Rounds
begin

text \<open>
  The properties of whole rounds and sessions of the server, with the server they are evaluated at.
\<close>

section \<open>A server to look at\<close>

text \<open>One established connection whose output buffer is \<open>b\<close> and whose channel asks for \<open>e\<close>.\<close>

definition tied_chan :: "c_int \<Rightarrow> callback_t channel" where
  "tied_chan e = (Channel_new 0 7)\<lparr>ch_events := e, ch_index := ADDED, ch_tie := Some 0, ch_tied := True,
     readCallback := Some (Cb_handleRead 0), writeCallback := Some (Cb_handleWrite 0),
     closeCallback := Some (Cb_handleClose 0), errorCallback := Some (Cb_handleError 0)\<rparr>"

definition tied_poller :: "c_int \<Rightarrow> callback_t epoll_poller" where
  "tied_poller e = (EpollPoller_new [5 \<mapsto> tied_chan e])\<lparr>channels := [7 \<mapsto> 5], ctl_log := [(EPOLL_CTL_ADD, 7, e, 5)]\<rparr>"

definition tied_conn :: "net_buffer \<Rightarrow> tcp_connection" where
  "tied_conn b = demo_conn\<lparr>highWaterMark := 64 * 1024 * 1024, outputBuffer := b\<rparr>"

definition tied_server :: "net_buffer \<Rightarrow> c_int \<Rightarrow> server_world" where
  "tied_server b e = (demo_server [''demo'' \<mapsto> 0])\<lparr>w_loops := \<lambda>_. demo_loop\<lparr>poller := tied_poller e\<rparr>, w_conns := [0 \<mapsto> tied_conn b]\<rparr>"

text \<open>A kernel that takes \<open>k\<close> bytes of every write and delivers \<open>inp\<close> on every read.\<close>

definition session_os :: "nat \<Rightarrow> bytes \<Rightarrow> server_os" where
  "session_os k inp = os_calls.extend (demo_os k inp)
     (server_os.fields 3 (\<lambda>fd n. Inr (9, InetAddress_new (\<lambda>_. 0) 81 ''10.0.0.9'')) 0
        (\<lambda>fd. Inr (InetAddress_new (\<lambda>_. 0) 80 ''10.0.0.1'')) int int False (\<lambda>_. 0) (\<lambda>n. n = ''asynclogger''))"

lemma session_os_simps [simp]:
  "os_calls.truncate (session_os k inp) = demo_os k inp"
  "os_readv (session_os k inp) = os_readv (demo_os k inp)" "os_write (session_os k inp) = os_write (demo_os k inp)"
  by (simp_all add: session_os_def os_calls.defs)

lemma tied_poller_inv: "e \<noteq> noneEvent \<Longrightarrow> poller_inv (tied_poller e)"
  unfolding poller_inv_def
  by (rule exI [of _ "[7 \<mapsto> (e, 5)]"])
     (simp add: coherent_def tied_poller_def EpollPoller_new_def distinct_fds_def chan_ok_def tied_chan_def Channel_new_def
       ADDED_def NEW_def DELETED_def isNoneEvent_def)

lemma tied_server_loop: "lget a (tied_server b e) = demo_loop\<lparr>poller := tied_poller e\<rparr>"
  by (simp add: tied_server_def lget_def)

lemma tied_chan_heap: "chan_heap (poller (lget a (tied_server b e))) 5 = Some (tied_chan e)"
  by (simp add: tied_server_loop tied_poller_def EpollPoller_new_def)

lemma tied_conn_simps [simp]:
  "c_loop (tied_conn b) = 0" "c_channel (tied_conn b) = 5" "c_sockfd (tied_conn b) = 7" "outputBuffer (tied_conn b) = b"
  "content (inputBuffer (tied_conn b)) = []" "w_conns (tied_server b e) 0 = Some (tied_conn b)"
  by (simp_all add: tied_conn_def demo_conn_def content_new tied_server_def)

lemma tied_established:
  assumes "buf_inv b" and "e \<noteq> noneEvent" and "isWriting (tied_chan e) \<longleftrightarrow> content b \<noteq> []"
  shows "established 1 0 (tied_conn b) (tied_server b e)"
proof -
  have "conn_ok 0 (tied_conn b) (tied_chan e) (tied_server b e)"
    using assms(1) tied_poller_inv [OF assms(2)] tied_chan_heap [of 0 b e]
    by (simp add: conn_ok_def) (simp add: tied_server_loop tied_chan_def Channel_new_def tied_conn_def demo_conn_def buf_inv_new)
  moreover have "conn_chan 0 (tied_chan e)" by (simp add: conn_chan_def tied_chan_def)
  ultimately show ?thesis
    using assms(3) tied_chan_heap [of 0 b e]
    by (auto simp: established_def conn_live_def out_sync_def tied_server_loop) (simp_all add: tied_conn_def demo_conn_def demo_loop_def)
qed

lemma tied_between: "between_rounds 0 (tied_server b e)"
  by (auto simp: between_rounds_def tied_server_loop) (auto simp: demo_loop_def tied_server_def tied_conn_def demo_conn_def split: if_splits)

lemma tied_wire: "wire 7 (tied_server b e) = []"
  by (simp add: wire_def tied_server_def demo_world_def)

lemma tied_idle:
  "established 1 0 (tied_conn (Buffer_new INIT_SIZE)) (tied_server (Buffer_new INIT_SIZE) readEvent)"
  by (rule tied_established)
     (simp_all add: buf_inv_new content_new isWriting_def tied_chan_def event_defs)

lemma tied_idle_room: "n \<le> 2 ^ 16 \<Longrightarrow> session_room (tied_conn (Buffer_new INIT_SIZE)) n"
  by (simp add: session_room_def below_mark_def content_new)
     (simp add: tied_conn_def demo_conn_def Buffer_new_def vec_max_size_def CHEAP_PREPEND_def INIT_SIZE_def)

section \<open>Properties\<close>

text \<open>
  A whole round of the server's loop: when \<open>epoll_wait\<close> reports the channel of an established
  connection readable, \<open>poll\<close>, the dispatch through the channel, \<open>handleRead\<close>, the echo server's
  \<open>onMessage\<close>, \<open>send\<close>, the pending functors and the release of unowned connections together read what
  arrived, leave the input buffer empty, and send it back after all output still waiting. The
  connection is established as before and nothing stays queued, so the next round finds the same
  conditions.
\<close>

theorem echo_round:
  fixes os :: server_os
  assumes est: "established tid cid c w" and btw: "between_rounds (c_loop c) w"
    and wait: "wait (eventListSize (poller (lget (c_loop c) w))) = Inr [(EPOLLIN, c_channel c)]"
    and fits: "length (buf_data (inputBuffer c)) + 65536 \<le> vec_max_size"
      "unat (writerIndex (outputBuffer c)) + length (content (inputBuffer c)) + length bs \<le> vec_max_size"
      "below_mark c (length (content (inputBuffer c)) + length bs)"
    and os: "readv_ok (os_readv os)" "write_ok (os_write os)" "no_fault (os_calls.truncate os)"
    and bs: "os_readv os (c_sockfd c) (read_iov (inputBuffer c)) = Inr bs" "bs \<noteq> []"
  shows "\<exists>w' b1 b2. server_round os (echo_user (os_calls.truncate os) tid) (c_loop c) wait now w = Inr w' \<and>
    between_rounds (c_loop c) w' \<and>
    established tid cid (c\<lparr>inputBuffer := b1, outputBuffer := b2\<rparr>) w' \<and> content b1 = [] \<and>
    wire (c_sockfd c) w' @ content b2 =
      wire (c_sockfd c) w @ content (outputBuffer c) @ content (inputBuffer c) @ bs"
  using echo_round_ok [where wait = wait, OF assms, of now] by blast

theorem echo_round_witness:
  "\<exists>w' b2. server_round (session_os 2 ''ping'') (echo_user (demo_os 2 ''ping'') 1) 0 (\<lambda>n. Inr [(EPOLLIN, 5)]) 0
      (tied_server (Buffer_new INIT_SIZE) readEvent) = Inr w' \<and> between_rounds 0 w' \<and> wire 7 w' @ content b2 = ''ping''"
proof -
  let ?c = "tied_conn (Buffer_new INIT_SIZE)" and ?os = "session_os 2 ''ping''"
  have b: "between_rounds (c_loop ?c) (tied_server (Buffer_new INIT_SIZE) readEvent)" by (simp add: tied_between)
  have f: "length (buf_data (inputBuffer ?c)) + 65536 \<le> vec_max_size"
    "unat (writerIndex (outputBuffer ?c)) + length (content (inputBuffer ?c)) + length ''ping'' \<le> vec_max_size"
    "below_mark ?c (length (content (inputBuffer ?c)) + length ''ping'')"
    using tied_idle_room [of "length ''ping''"] by (simp_all add: session_room_def)
  have r: "os_readv ?os (c_sockfd ?c) (read_iov (inputBuffer ?c)) = Inr ''ping''"
    using read_iov_room [of "inputBuffer ?c"] by (simp add: demo_os_def)
  have k: "readv_ok (os_readv ?os)" "write_ok (os_write ?os)" "no_fault (os_calls.truncate ?os)"
    using demo_os_ok [of 2 "''ping''"] by simp_all
  from echo_round [where wait = "\<lambda>n. Inr [(EPOLLIN, c_channel ?c)]" and now = 0, OF tied_idle b refl f k r]
  show ?thesis by (fastforce simp: tied_wire content_new)
qed

text \<open>
  A round that accepts: when \<open>epoll_wait\<close> reports the listening socket of a server without threads
  readable and \<open>accept4\<close> yields a descriptor, then \<open>poll\<close>, the dispatch, \<open>Acceptor::handleRead\<close>,
  \<open>newConnection\<close>, \<open>connectEstablished\<close> and the rest of the round leave an established connection with
  that descriptor and peer, empty buffers and a name no other connection has, after keep-alive was
  set and the application told. It is in the server's map, so the end of the round does not release it,
  and it meets the conditions of the echo rounds.
\<close>

theorem accept_round_establishes:
  fixes os :: server_os
  assumes wait: "wait (eventListSize (poller (lget lid w))) = Inr [(EPOLLIN, acc_channel (s_acceptor w))]"
    and ach: "chan_heap (poller (lget lid w)) (acc_channel (s_acceptor w)) = Some ach"
      "readCallback ach = Some Cb_accept" "\<not> ch_tied ach" "acc_callback (s_acceptor w)"
    and accept: "os_accept4 os (acc_sockfd (s_acceptor w)) (os_client_len os) = Inr (connfd, peer)" "0 \<le> connfd"
      "os_getsockname os connfd = Inr localAddr"
    and names: "names_inv w" "s_nextConnId w < 2 ^ 31 - 1"
    and base: "pool_loops (s_pool w) = []" "pool_baseLoop (s_pool w) = lid" "threadId (lget lid w) = tid"
    and fresh: "accept_fresh lid connfd w" and inv: "poller_inv (poller (lget lid w))"
    and cbs: "s_connectionCallback w = Some cb" "s_messageCallback w \<noteq> None" "s_writeCompleteCallback w = None"
    and btw: "between_rounds lid w"
  shows "\<exists>w'. server_round os (echo_user o' tid) lid wait now w = Inr w' \<and> between_rounds lid w' \<and>
    (\<exists>c. established tid (s_fresh w) c w' \<and> c_loop c = lid \<and> c_sockfd c = connfd \<and> c_peerAddr c = peer \<and>
      content (inputBuffer c) = [] \<and> content (outputBuffer c) = [] \<and>
      s_connections w (c_name c) = None \<and> s_connections w' = (s_connections w)(c_name c \<mapsto> s_fresh w) \<and>
      w_trace w' = w_trace w @ map Sock (setKeepAlive True connfd) @ [Connection_cb (s_fresh w) True])"
proof (rule server_round_one [of wait lid w, OF wait ach(1) inv], goal_cases handler frame)
  case (handler p)
  let ?ptr = "acc_channel (s_acceptor w)"
  define w0 where "w0 = lput lid ((lget lid w)\<lparr>activeChannels := [?ptr], poller := p, pollReturnTime := now\<rparr>) w"
  have same: "s_fresh w0 = s_fresh w" "s_connections w0 = s_connections w" "s_pool w0 = s_pool w" "s_acceptor w0 = s_acceptor w"
    "s_nextConnId w0 = s_nextConnId w" "s_name w0 = s_name w" "s_ipPort w0 = s_ipPort w" "w_conns w0 = w_conns w" "w_trace w0 = w_trace w"
    "s_connectionCallback w0 = s_connectionCallback w" "s_messageCallback w0 = s_messageCallback w"
    "s_writeCompleteCallback w0 = s_writeCompleteCallback w"
    by (simp_all add: w0_def) (simp_all add: lput_def)
  have l0: "poller (lget lid w0) = p" "threadId (lget lid w0) = tid" "pendingFunctors (lget lid w0) = pendingFunctors (lget lid w)"
    using base(3) by (simp_all add: w0_def)
  have f: "accept_fresh lid connfd w0"
    using fresh ach(1) unfolding accept_fresh_def same l0 handler(2) by (auto simp: set_revents_def)
  have names0: "names_inv w0" using names(1) unfolding names_inv_def same .
  have btw0: "between_rounds lid w0" using btw unfolding between_rounds_def same l0 .
  have c: "chan_heap (poller (lget lid w0)) ?ptr = Some (set_revents EPOLLIN ach)" "ch_revents (set_revents EPOLLIN ach) = EPOLLIN"
    "readCallback (set_revents EPOLLIN ach) = Some Cb_accept" "\<not> ch_tied (set_revents EPOLLIN ach)"
    using ach(2,3) by (simp_all add: l0 handler(2) set_revents_def)
  note r = accept_handler [of lid w0 "set_revents EPOLLIN ach" os connfd peer localAddr tid cb o' now, unfolded same]
  show ?case
    using r [OF c ach(4) accept names0 names(2) base(1,2) l0(2) f handler(1) [folded l0(1)] cbs btw0]
    unfolding base(3) w0_def .
next
  case (frame w' l)
  then obtain c where c: "established tid (s_fresh w) c w'" "c_loop c = lid" "c_sockfd c = connfd" "c_peerAddr c = peer"
    "content (inputBuffer c) = []" "content (outputBuffer c) = []" "s_connections w (c_name c) = None"
    "s_connections w' = (s_connections w)(c_name c \<mapsto> s_fresh w)"
    "w_trace w' = w_trace w @ map Sock (setKeepAlive True connfd) @ [Connection_cb (s_fresh w) True]"
    by blast
  have "established tid (s_fresh w) c (lput lid l w')"
    by (rule established_world [OF c(1)]) (use frame(2,3) c(2) in simp_all)
  with c(2-9) show ?case by (intro exI [of _ c]) (simp, simp add: lput_def)
qed

definition listening_server :: server_world where
  "listening_server = (demo_server Map.empty)\<lparr>w_conns := Map.empty,
     w_loops := \<lambda>_. demo_loop\<lparr>poller := EpollPoller_new [4 \<mapsto> (Channel_new 0 3)\<lparr>readCallback := Some Cb_accept\<rparr>]\<rparr>\<rparr>"

lemma listening_poller_inv: "poller_inv (EpollPoller_new [4 \<mapsto> (Channel_new 0 3)\<lparr>readCallback := Some Cb_accept\<rparr>])"
  unfolding poller_inv_def
  by (rule exI [of _ Map.empty])
     (simp add: coherent_def EpollPoller_new_def distinct_fds_def chan_ok_def Channel_new_def NEW_def)

theorem accept_round_establishes_witness:
  "\<exists>w' c. server_round (session_os 9 []) (echo_user (demo_os 9 []) 1) 0 (\<lambda>n. Inr [(EPOLLIN, 4)]) 0 listening_server = Inr w' \<and>
     established 1 6 c w' \<and> c_sockfd c = 9 \<and> between_rounds 0 w'"
proof -
  let ?w = listening_server and ?ach = "(Channel_new 0 3)\<lparr>readCallback := Some Cb_accept\<rparr> :: callback_t channel"
  let ?peer = "InetAddress_new (\<lambda>_. 0) 81 ''10.0.0.9''" and ?here = "InetAddress_new (\<lambda>_. 0) 80 ''10.0.0.1''"
  have l: "lget k ?w = demo_loop\<lparr>poller := EpollPoller_new [4 \<mapsto> ?ach]\<rparr>" for k by (simp add: listening_server_def lget_def)
  have acc: "s_acceptor ?w = \<lparr>acc_sockfd = 3, acc_channel = 4, acc_listenning = True, acc_callback = True\<rparr>"
    by (simp add: listening_server_def demo_server_def world.defs server_world.defs)
  have a: "chan_heap (poller (lget 0 ?w)) (acc_channel (s_acceptor ?w)) = Some ?ach" "readCallback ?ach = Some Cb_accept" "\<not> ch_tied ?ach"
    "acc_callback (s_acceptor ?w)"
    by (simp_all add: l acc EpollPoller_new_def) (simp add: Channel_new_def)
  have os: "os_accept4 (session_os 9 []) (acc_sockfd (s_acceptor ?w)) (os_client_len (session_os 9 [])) = Inr (9, ?peer)" "(0 :: int) \<le> 9"
    "os_getsockname (session_os 9 []) 9 = Inr ?here"
    by (simp_all add: session_os_def os_calls.defs server_os.defs)
  have n: "names_inv ?w" "s_nextConnId ?w < 2 ^ 31 - 1" "pool_loops (s_pool ?w) = []" "pool_baseLoop (s_pool ?w) = 0" "s_fresh ?w = 6"
    by (simp_all add: listening_server_def names_inv_def EventLoopThreadPool_new_def)
  have f: "accept_fresh 0 9 ?w" "threadId (lget 0 ?w) = 1" "poller_inv (poller (lget 0 ?w))" "between_rounds 0 ?w"
    using listening_poller_inv
    by (simp_all add: accept_fresh_def n(5) between_rounds_def l) (simp_all add: demo_loop_def EpollPoller_new_def Channel_new_def listening_server_def)
  have c: "s_connectionCallback ?w = Some 0" "s_messageCallback ?w \<noteq> None" "s_writeCompleteCallback ?w = None"
    by (simp_all add: listening_server_def) (simp add: demo_server_def world.defs server_world.defs)
  from accept_round_establishes [where wait = "\<lambda>n. Inr [(EPOLLIN, acc_channel (s_acceptor ?w))]" and o' = "demo_os 9 []" and now = 0,
      OF refl a os n(1-4) f(2,1,3) c f(4)]
  show ?thesis unfolding acc n(5) by (simp) blast
qed

lemma handover_round:
  assumes here: "local_address os sockfd = Inr localAddr" and names: "names_inv w" and small: "s_nextConnId w < 2 ^ 31 - 1"
    and nxt: "getNextLoop (s_pool w) = (io, pool1)" "threadId (lget io w) \<noteq> tid"
    and fresh: "accept_fresh io sockfd w" and inv: "poller_inv (poller (lget io w))"
    and cbs: "s_connectionCallback w = Some cb" "s_messageCallback w \<noteq> None" "s_writeCompleteCallback w = None"
    and btw: "between_rounds io w"
    and wk: "chan_heap (poller (lget io w)) (wakeupChannel (lget io w)) = Some wch" "readCallback wch = Some (Cb_wakeup io)" "\<not> ch_tied wch"
  shows "\<exists>w1 w2 c. newConnection os user tid sockfd peerAddr w = Inr w1 \<and>
    pendingFunctors (lget io w1) = [F_connectEstablished (s_fresh w)] \<and> 0 < eventfd (lget io w1) \<and>
    server_round os' (echo_user o' (threadId (lget io w))) io (\<lambda>n. Inr [(EPOLLIN, wakeupChannel (lget io w))]) now w1 = Inr w2 \<and>
    established (threadId (lget io w)) (s_fresh w) c w2 \<and> c_loop c = io \<and> c_sockfd c = sockfd \<and> c_peerAddr c = peerAddr \<and>
    content (inputBuffer c) = [] \<and> content (outputBuffer c) = [] \<and>
    between_rounds io w2 \<and> eventfd (lget io w2) = 0 \<and>
    w_trace w2 = w_trace w @ map Sock (setKeepAlive True sockfd) @ [Connection_cb (s_fresh w) True]"
proof -
  let ?cid = "s_fresh w" and ?th = "threadId (lget io w)" and ?ptr = "wakeupChannel (lget io w)"
  obtain w1 c ch where new: "newConnection os user tid sockfd peerAddr w = Inr w1"
    "pendingFunctors (lget io w1) = [F_connectEstablished ?cid]" "0 < eventfd (lget io w1)"
    and ok: "conn_ok ?cid c ch w1" "out_sync c ch"
    and c: "c_loop c = io" "c_sockfd c = sockfd" "c_peerAddr c = peerAddr" "content (inputBuffer c) = []" "content (outputBuffer c) = []"
      "c_channel c = Suc ?cid"
    and ccb: "connectionCallback c = Some cb" "messageCallback c \<noteq> None" "writeCompleteCallback c = None" "connCloseCallback c"
    and chs: "readCallback ch = Some (Cb_handleRead ?cid)" "writeCallback ch = Some (Cb_handleWrite ?cid)"
      "closeCallback ch = Some (Cb_handleClose ?cid)" "errorCallback ch = Some (Cb_handleError ?cid)"
    and reg: "s_connections w (c_name c) = None" "s_connections w1 = (s_connections w)(c_name c \<mapsto> ?cid)"
    and w1: "w_conns w1 = (w_conns w)(?cid \<mapsto> c)" "w_trace w1 = w_trace w @ map Sock (setKeepAlive True sockfd)"
      "threadId (lget io w1) = ?th" "poller (lget io w1) = store (Suc ?cid) ch (poller (lget io w))"
    using handover_ok [OF here names small nxt fresh inv cbs btw, of user peerAddr] by blast
  have ptr: "?ptr \<noteq> c_channel c" using fresh wk(1) c(6) by (auto simp: accept_fresh_def)
  have wk1: "chan_heap (poller (lget io w1)) ?ptr = Some wch" using wk(1) ptr c(6) by (simp add: w1(4))
  have all: "s_connections w1 (c_name ck) = Some k" if "w_conns w1 k = Some ck" for k ck
    by (rule registered_all [OF btw reg w1(1) that])
  obtain w2 where "server_round os' (echo_user o' ?th) io (\<lambda>n. Inr [(EPOLLIN, ?ptr)]) now w1 = Inr w2"
    "established ?th ?cid (c\<lparr>c_state := kConnected\<rparr>) w2" "between_rounds io w2" "eventfd (lget io w2) = 0"
    "w_trace w2 = w_trace w1 @ [Connection_cb ?cid True]"
    using queued_establish_round [OF new(2) all ok c(1) w1(3) ccb chs wk1 wk(2,3) ptr, of os' o' now] by blast
  with new c w1(2) show ?thesis
    by (intro exI [of _ w1] exI [of _ w2] exI [of _ "c\<lparr>c_state := kConnected\<rparr>"]) simp
qed

text \<open>
  C14: The handover between threads, the way a server with I/O threads runs: \<open>newConnection\<close>, called
  in another thread than the one of the loop the pool chose, registers the connection, queues its
  \<open>connectEstablished\<close> on that loop and makes the loop's event descriptor readable; the round this wakes
  runs the functor in the I/O thread, and leaves an established connection there, nothing queued and
  the event descriptor drained.
\<close>

theorem handover_establishes:
  assumes here: "local_address os sockfd = Inr localAddr" and names: "names_inv w" and small: "s_nextConnId w < 2 ^ 31 - 1"
    and nxt: "getNextLoop (s_pool w) = (io, pool1)" "threadId (lget io w) \<noteq> tid"
    and fresh: "accept_fresh io sockfd w" and inv: "poller_inv (poller (lget io w))"
    and cbs: "s_connectionCallback w = Some cb" "s_messageCallback w \<noteq> None" "s_writeCompleteCallback w = None"
    and btw: "between_rounds io w"
    and wk: "chan_heap (poller (lget io w)) (wakeupChannel (lget io w)) = Some wch" "readCallback wch = Some (Cb_wakeup io)" "\<not> ch_tied wch"
  shows "\<exists>w1 w2 c. newConnection os user tid sockfd peerAddr w = Inr w1 \<and>
    pendingFunctors (lget io w1) = [F_connectEstablished (s_fresh w)] \<and> 0 < eventfd (lget io w1) \<and>
    server_round os' (echo_user o' (threadId (lget io w))) io (\<lambda>n. Inr [(EPOLLIN, wakeupChannel (lget io w))]) now w1 = Inr w2 \<and>
    established (threadId (lget io w)) (s_fresh w) c w2 \<and> c_loop c = io \<and> c_sockfd c = sockfd \<and> c_peerAddr c = peerAddr \<and>
    content (inputBuffer c) = [] \<and> content (outputBuffer c) = [] \<and>
    between_rounds io w2 \<and> eventfd (lget io w2) = 0 \<and>
    w_trace w2 = w_trace w @ map Sock (setKeepAlive True sockfd) @ [Connection_cb (s_fresh w) True]"
  using assms by (rule handover_round)

definition wakeup_chan :: "callback_t channel" where
  "wakeup_chan = (Channel_new 1 4)\<lparr>readCallback := Some (Cb_wakeup 1)\<rparr>"

definition threaded_server :: server_world where
  "threaded_server = (demo_server Map.empty)\<lparr>w_conns := Map.empty,
     w_loops := \<lambda>_. demo_loop\<lparr>threadId := 2, poller := EpollPoller_new [0 \<mapsto> wakeup_chan]\<rparr>,
     s_pool := (EventLoopThreadPool_new 0 ''srv'')\<lparr>pool_started := True, pool_numThreads := 1, pool_threads := [''srv0''], pool_loops := [1]\<rparr>\<rparr>"

lemma wakeup_poller_inv: "poller_inv (EpollPoller_new [0 \<mapsto> wakeup_chan])"
  unfolding poller_inv_def
  by (rule exI [of _ Map.empty])
     (simp add: coherent_def EpollPoller_new_def distinct_fds_def chan_ok_def wakeup_chan_def Channel_new_def NEW_def)

theorem handover_establishes_witness:
  "\<exists>w1 w2 c. newConnection (session_os 9 []) (echo_user (demo_os 9 []) 1) 1 9 (InetAddress_new (\<lambda>_. 0) 81 ''10.0.0.9'') threaded_server = Inr w1 \<and>
     0 < eventfd (lget 1 w1) \<and>
     server_round (session_os 9 []) (echo_user (demo_os 9 []) 2) 1 (\<lambda>n. Inr [(EPOLLIN, 0)]) 0 w1 = Inr w2 \<and> established 2 6 c w2"
proof -
  let ?w = threaded_server and ?os = "session_os 9 []" and ?peer = "InetAddress_new (\<lambda>_. 0) 81 ''10.0.0.9''"
  have l: "lget k ?w = demo_loop\<lparr>threadId := 2, poller := EpollPoller_new [0 \<mapsto> wakeup_chan]\<rparr>" for k
    by (simp add: threaded_server_def lget_def)
  have h: "local_address ?os 9 = Inr (InetAddress_new (\<lambda>_. 0) 80 ''10.0.0.1'')"
    by (simp add: local_address_def session_os_def os_calls.defs server_os.defs)
  have n: "names_inv ?w" "s_nextConnId ?w < 2 ^ 31 - 1" "s_fresh ?w = 6" by (simp_all add: threaded_server_def names_inv_def)
  obtain pool1 where g: "getNextLoop (s_pool ?w) = (1, pool1)" by (simp add: getNextLoop_def threaded_server_def EventLoopThreadPool_new_def)
  have f: "accept_fresh 1 9 ?w" "threadId (lget 1 ?w) \<noteq> 1" "poller_inv (poller (lget 1 ?w))" "between_rounds 1 ?w" "threadId (lget 1 ?w) = 2"
    "wakeupChannel (lget 1 ?w) = 0"
    using wakeup_poller_inv
    by (simp_all add: accept_fresh_def n(3) between_rounds_def l)
       (simp_all add: demo_loop_def EpollPoller_new_def wakeup_chan_def Channel_new_def threaded_server_def)
  have c: "s_connectionCallback ?w = Some 0" "s_messageCallback ?w \<noteq> None" "s_writeCompleteCallback ?w = None"
    by (simp_all add: threaded_server_def) (simp add: demo_server_def world.defs server_world.defs)
  have k: "chan_heap (poller (lget 1 ?w)) (wakeupChannel (lget 1 ?w)) = Some wakeup_chan" "readCallback wakeup_chan = Some (Cb_wakeup 1)"
    "\<not> ch_tied wakeup_chan"
    unfolding f(6) by (simp_all add: l EpollPoller_new_def) (simp_all add: wakeup_chan_def Channel_new_def)
  from handover_establishes [OF h n(1,2) g f(2,1,3) c f(4) k, of "echo_user (demo_os 9 []) 1" ?peer ?os "demo_os 9 []" 0]
  show ?thesis unfolding f(5,6) n(3) by blast
qed



text \<open>
  C17: Output drains: when the kernel takes at least one byte of every nonempty write, as many writable
  rounds as bytes are waiting (or more) put all of them on the wire and leave the output buffer
  empty, so that the channel no longer asks for writability.
\<close>

theorem output_drains:
  assumes "established tid cid c w" and "between_rounds (c_loop c) w" and "length (content (outputBuffer c)) \<le> length oss"
    and "\<forall>os \<in> set oss. write_ok (os_write os) \<and> (\<forall>bs. bs \<noteq> [] \<longrightarrow> (\<exists>n > 0. os_write os (c_sockfd c) bs = Inr n))"
  shows "\<exists>w' b. server_rounds tid (c_loop c) (c_channel c) (map (\<lambda>os. (os, Writable)) oss) w = Inr w' \<and>
    established tid cid (c\<lparr>outputBuffer := b\<rparr>) w' \<and> content b = [] \<and>
    wire (c_sockfd c) w' = wire (c_sockfd c) w @ content (outputBuffer c) \<and>
    (\<forall>ch. chan_heap (poller (lget (c_loop c) w')) (c_channel c) = Some ch \<longrightarrow> \<not> isWriting ch)"
  using assms
proof (induction oss arbitrary: c w)
  case Nil
  then show ?case
    by (intro exI [of _ w] exI [of _ "outputBuffer c"]) (auto simp: established_def conn_live_def conn_ok_def out_sync_def)
next
  case (Cons os oss)
  have wr: "write_ok (os_write os)" using Cons.prems(4) by simp
  let ?o = "content (outputBuffer c)"
  obtain w1 b where s: "server_round os (echo_user (os_calls.truncate os) tid) (c_loop c) (\<lambda>n. Inr [(EPOLLOUT, c_channel c)]) 0 w = Inr w1"
    "between_rounds (c_loop c) w1" "established tid cid (c\<lparr>outputBuffer := b\<rparr>) w1"
    "wire (c_sockfd c) w1 @ content b = wire (c_sockfd c) w @ ?o"
    "\<forall>n. os_write os (c_sockfd c) ?o = Inr n \<longrightarrow> content b = drop n ?o" "trace_grows w w1"
    using write_round_ok [where wait = "\<lambda>n. Inr [(EPOLLOUT, c_channel c)]" and o' = "os_calls.truncate os" and now = 0,
        OF Cons.prems(1,2) refl wr] by auto
  have "length (content b) \<le> length oss"
  proof (cases "?o = []")
    case True
    then have "length (wire (c_sockfd c) w1) + length (content b) = length (wire (c_sockfd c) w)"
      using arg_cong [OF s(4), of length] by simp
    with wire_grows [OF s(6), of "c_sockfd c"] show ?thesis by linarith
  next
    case False
    then obtain n where "n > 0" "os_write os (c_sockfd c) ?o = Inr n" using Cons.prems(4) by auto
    with s(5) Cons.prems(3) show ?thesis by auto
  qed
  with Cons.IH [OF s(3)] s(2) Cons.prems(4) obtain w' b' where
    i: "server_rounds tid (c_loop c) (c_channel c) (map (\<lambda>os. (os, Writable)) oss) w1 = Inr w'"
    "established tid cid (c\<lparr>outputBuffer := b'\<rparr>) w'" "content b' = []"
    "wire (c_sockfd c) w' = wire (c_sockfd c) w1 @ content b"
    "\<forall>ch. chan_heap (poller (lget (c_loop c) w')) (c_channel c) = Some ch \<longrightarrow> \<not> isWriting ch"
    by auto
  then show ?case using s(1,4) by (intro exI [of _ w'] exI [of _ b']) simp
qed

theorem output_drains_witness:
  "\<exists>w' b. server_rounds 1 0 5 [(session_os 1 [], Writable), (session_os 7 [], Writable)]
      (tied_server (outputBuffer busy_conn) (readEvent OR writeEvent)) = Inr w' \<and> content b = [] \<and> wire 7 w' = ''ab''"
proof -
  let ?b = "outputBuffer busy_conn" and ?e = "readEvent OR writeEvent"
  let ?c = "tied_conn ?b" and ?w = "tied_server ?b ?e"
  have "isWriting (tied_chan ?e) \<longleftrightarrow> content ?b \<noteq> []" "?e \<noteq> noneEvent"
    using busy_content by (simp_all add: isWriting_def tied_chan_def event_defs)
  then have est: "established 1 0 ?c ?w" using conn_okD(3) [OF busy_conn_ok] by (intro tied_established)
  have b: "between_rounds (c_loop ?c) ?w" "length (content (outputBuffer ?c)) \<le> length [session_os 1 [], session_os 7 []]"
    by (simp_all add: tied_between busy_content)
  have k: "\<forall>os \<in> set [session_os 1 [], session_os 7 []]. write_ok (os_write os) \<and> (\<forall>bs. bs \<noteq> [] \<longrightarrow> (\<exists>n > 0. os_write os (c_sockfd ?c) bs = Inr n))"
    by (simp add: demo_os_ok) (simp add: demo_os_def)
  from output_drains [OF est b k] show ?thesis by (force simp: tied_wire busy_content)
qed

text \<open>
  C20: Dispatch equals its reference: for the channel of an existing, tied connection with the handlers the constructor
  set, \<open>Channel::handleEvent\<close>, which reads the report and the callbacks anew before each of its four
  tests, calls the callbacks that the report fired at the beginning, in the order close, error, read,
  write, and stops at the first error. Whatever the earlier callbacks do (even closing
  the connection), they do not change which ones are called.
\<close>

theorem dispatch_equivalence:
  assumes ch: "chan_heap (poller (lget lid w)) ptr = Some ch" and alive: "w_conns w cid \<noteq> None"
    and tie: "ch_tied ch" "ch_tie ch = Some cid"
    and cbs: "readCallback ch = Some (Cb_handleRead cid)" "writeCallback ch = Some (Cb_handleWrite cid)"
      "closeCallback ch = Some (Cb_handleClose cid)" "errorCallback ch = Some (Cb_handleError cid)"
  shows "handle_channel os (echo_user os' tid) tid now lid ptr w =
    call_all (call_callback os (echo_user os' tid) tid now) (fired ch) w"
  by (rule dispatch_fired [OF assms])

theorem dispatch_equivalence_witness:
  "handle_channel (session_os 9 ''ping'') (echo_user (demo_os 9 ''ping'') 1) 1 0 0 5
     (lput 0 (demo_loop\<lparr>poller := store 5 (set_revents (EPOLLERR OR EPOLLHUP) (tied_chan readEvent)) (tied_poller readEvent)\<rparr>)
        (tied_server (Buffer_new INIT_SIZE) readEvent)) =
   call_all (call_callback (session_os 9 ''ping'') (echo_user (demo_os 9 ''ping'') 1) 1 0)
     [Some (Cb_handleClose 0), Some (Cb_handleError 0)]
     (lput 0 (demo_loop\<lparr>poller := store 5 (set_revents (EPOLLERR OR EPOLLHUP) (tied_chan readEvent)) (tied_poller readEvent)\<rparr>)
        (tied_server (Buffer_new INIT_SIZE) readEvent))"
proof -
  let ?ch = "set_revents (EPOLLERR OR EPOLLHUP) (tied_chan readEvent)"
  let ?w = "lput 0 (demo_loop\<lparr>poller := store 5 ?ch (tied_poller readEvent)\<rparr>) (tied_server (Buffer_new INIT_SIZE) readEvent)"
  have h: "chan_heap (poller (lget 0 ?w)) 5 = Some ?ch" "w_conns ?w 0 \<noteq> None" by simp_all
  have c: "ch_tied ?ch" "ch_tie ?ch = Some 0" "readCallback ?ch = Some (Cb_handleRead 0)" "writeCallback ?ch = Some (Cb_handleWrite 0)"
    "closeCallback ?ch = Some (Cb_handleClose 0)" "errorCallback ?ch = Some (Cb_handleError 0)"
    by (simp_all add: set_revents_def) (simp_all add: tied_chan_def)
  have "fired ?ch = [Some (Cb_handleClose 0), Some (Cb_handleError 0)]"
    by (simp add: fired_def set_revents_def tied_chan_def event_defs)
  with dispatch_equivalence [OF h c, of "session_os 9 ''ping''" "demo_os 9 ''ping''" 1 0] show ?thesis by simp
qed

end
