(* ===== verification/Handler_Effect.thy ===== *)
theory Handler_Effect
  imports Server_Sessions
begin

text \<open>
  The exact effect of the handlers on the world of all loops, whatever state the connection is in. A handler
  that runs for a connection changes its record (state and buffers), its channel (mask, index, guard) with
  the poller of its loop, the trace and the strings, and nothing else: the relation \<open>touch\<close>. Closing adds one
  queued functor. No assumption is made about the mask of the channel, so the lemmas also cover the
  connections that are being closed while further callbacks of the same report run.
\<close>

section \<open>The relation\<close>

text \<open>Everything of a connection but its state and its buffers.\<close>

definition conn_id :: "tcp_connection \<Rightarrow> tcp_connection" where
  "conn_id c = c\<lparr>c_state := kConnecting, inputBuffer := Buffer_new 0, outputBuffer := Buffer_new 0\<rparr>"

definition same_id :: "tcp_connection \<Rightarrow> tcp_connection \<Rightarrow> bool" where
  "same_id c c' \<longleftrightarrow> conn_id c' = conn_id c"

definition touch ::
  "nat \<Rightarrow> tcp_connection \<Rightarrow> callback_t channel \<Rightarrow> tcp_connection \<Rightarrow> callback_t channel \<Rightarrow>
   'z world_scheme \<Rightarrow> 'z world_scheme \<Rightarrow> bool" where
  "touch cid c ch c' ch' w w' \<longleftrightarrow> conn_ok cid c' ch' w' \<and> same_id c c' \<and> same_report ch ch' \<and>
     (\<exists>p tr st. w' = w\<lparr>w_loops := (w_loops w)(c_loop c := (w_loops w (c_loop c))\<lparr>poller := p\<rparr>),
          w_conns := (w_conns w)(cid \<mapsto> c'), w_trace := tr, w_strings := st\<rparr> \<and>
        chan_heap p = (chan_heap (poller (w_loops w (c_loop c))))(c_channel c \<mapsto> ch'))"

lemma conn_id_simps:
  "c_loop (conn_id c) = c_loop c" "c_channel (conn_id c) = c_channel c" "c_name (conn_id c) = c_name c"
  "c_sockfd (conn_id c) = c_sockfd c" "connectionCallback (conn_id c) = connectionCallback c"
  "messageCallback (conn_id c) = messageCallback c" "writeCompleteCallback (conn_id c) = writeCompleteCallback c"
  "connCloseCallback (conn_id c) = connCloseCallback c" "highWaterMark (conn_id c) = highWaterMark c"
  by (simp_all add: conn_id_def)

lemma same_idD:
  assumes "same_id c c'"
  shows "c_loop c' = c_loop c" "c_channel c' = c_channel c" "c_name c' = c_name c" "c_sockfd c' = c_sockfd c"
    "connectionCallback c' = connectionCallback c" "messageCallback c' = messageCallback c"
    "writeCompleteCallback c' = writeCompleteCallback c" "connCloseCallback c' = connCloseCallback c"
    "highWaterMark c' = highWaterMark c"
  using assms conn_id_simps [of c] conn_id_simps [of c'] by (simp_all add: same_id_def)

lemma same_id_refl [simp]: "same_id c c"
  by (simp add: same_id_def)

lemma same_id_updates [simp]:
  "same_id c (d\<lparr>c_state := st\<rparr>) = same_id c d" "same_id c (d\<lparr>inputBuffer := b\<rparr>) = same_id c d"
  "same_id c (d\<lparr>outputBuffer := b\<rparr>) = same_id c d"
  by (simp_all add: same_id_def conn_id_def)

lemma same_id_trans: "same_id a b \<Longrightarrow> same_id b c \<Longrightarrow> same_id a c"
  by (simp add: same_id_def)

lemma touchD:
  assumes "touch cid c ch c' ch' w w'"
  shows "conn_ok cid c' ch' w'" "same_id c c'" "same_report ch ch'" "world.more w' = world.more w"
    "w_conns w' = (w_conns w)(cid \<mapsto> c')"
    "chan_heap (poller (lget (c_loop c) w')) = (chan_heap (poller (lget (c_loop c) w)))(c_channel c \<mapsto> ch')"
    "a \<noteq> c_loop c \<Longrightarrow> lget a w' = lget a w" "\<exists>p. lget (c_loop c) w' = (lget (c_loop c) w)\<lparr>poller := p\<rparr>"
  using assms by (auto simp: touch_def lget_def)

lemma touch_refl: "conn_ok cid c ch w \<Longrightarrow> touch cid c ch c ch w w"
  unfolding touch_def
  by (simp, intro conjI exI [of _ "poller (w_loops w (c_loop c))"] exI [of _ "w_trace w"] exI [of _ "w_strings w"])
     (auto simp: conn_ok_def lget_def fun_upd_idem)

lemma touch_trans:
  assumes "touch cid c ch c1 ch1 w w1" and "touch cid c1 ch1 c2 ch2 w1 w2"
  shows "touch cid c ch c2 ch2 w w2"
proof -
  from assms(1) obtain p tr st where 1: "same_id c c1" "same_report ch ch1"
    "w1 = w\<lparr>w_loops := (w_loops w)(c_loop c := (w_loops w (c_loop c))\<lparr>poller := p\<rparr>),
          w_conns := (w_conns w)(cid \<mapsto> c1), w_trace := tr, w_strings := st\<rparr>"
    "chan_heap p = (chan_heap (poller (w_loops w (c_loop c))))(c_channel c \<mapsto> ch1)"
    by (auto simp: touch_def)
  from assms(2) obtain q tr' st' where 2: "conn_ok cid c2 ch2 w2" "same_id c1 c2" "same_report ch1 ch2"
    "w2 = w1\<lparr>w_loops := (w_loops w1)(c_loop c1 := (w_loops w1 (c_loop c1))\<lparr>poller := q\<rparr>),
          w_conns := (w_conns w1)(cid \<mapsto> c2), w_trace := tr', w_strings := st'\<rparr>"
    "chan_heap q = (chan_heap (poller (w_loops w1 (c_loop c1))))(c_channel c1 \<mapsto> ch2)"
    by (auto simp: touch_def)
  have "w2 = w\<lparr>w_loops := (w_loops w)(c_loop c := (w_loops w (c_loop c))\<lparr>poller := q\<rparr>),
          w_conns := (w_conns w)(cid \<mapsto> c2), w_trace := tr', w_strings := st'\<rparr>"
    using 1(3) 2(4) same_idD [OF 1(1)] by simp
  moreover have "chan_heap q = (chan_heap (poller (w_loops w (c_loop c))))(c_channel c \<mapsto> ch2)"
    using 1(3,4) 2(5) same_idD [OF 1(1)] by simp
  ultimately show ?thesis
    using 2(1) same_id_trans [OF 1(1) 2(2)] same_report_trans [OF 1(2) 2(3)] unfolding touch_def by blast
qed

text \<open>The elementary accesses.\<close>

lemma touch_put:
  assumes ok: "conn_ok cid c ch w" and c': "same_id c c'" "buf_inv (inputBuffer c')" "buf_inv (outputBuffer c')"
  shows "touch cid c ch c' ch w (put_conn cid c' w)"
  unfolding touch_def
  by (intro conjI c' same_report_refl exI [of _ "poller (w_loops w (c_loop c))"] exI [of _ "w_trace w"] exI [of _ "w_strings w"])
     (use ok c' same_idD [OF c'(1)] in \<open>auto simp: conn_ok_def put_conn_def lget_def fun_upd_idem\<close>)

lemma touch_emit: "conn_ok cid c ch w \<Longrightarrow> touch cid c ch c ch w (emit es w)"
  unfolding touch_def
  by (simp, intro conjI exI [of _ "poller (w_loops w (c_loop c))"] exI [of _ "w_trace w @ es"] exI [of _ "w_strings w"])
     (auto simp: conn_ok_def emit_def lget_def fun_upd_idem)

lemma touch_strings: "conn_ok cid c ch w \<Longrightarrow> touch cid c ch c ch w (w\<lparr>w_strings := st\<rparr>)"
  unfolding touch_def
  by (simp, intro conjI exI [of _ "poller (w_loops w (c_loop c))"] exI [of _ "w_trace w"] exI [of _ st])
     (auto simp: conn_ok_def lget_def fun_upd_idem)

lemma touch_poller:
  assumes ok: "conn_ok cid c ch w" and inv: "poller_inv p" and rep: "same_report ch ch'" "ch_fd ch' = ch_fd ch"
    and heap: "chan_heap p = (chan_heap (poller (lget (c_loop c) w)))(c_channel c \<mapsto> ch')"
  shows "touch cid c ch c ch' w (lput (c_loop c) ((lget (c_loop c) w)\<lparr>poller := p\<rparr>) w)"
  unfolding touch_def
  by (intro conjI same_id_refl rep exI [of _ p] exI [of _ "w_trace w"] exI [of _ "w_strings w"])
     (use ok inv rep heap in \<open>auto simp: conn_ok_def lput_def lget_def fun_upd_idem\<close>)

lemma with_channel_id: "same_id c c' \<Longrightarrow> with_channel f c' = with_channel f c"
  using same_idD [of c c'] by (simp add: with_channel_def fun_eq_iff)

lemma same_report_mask [simp]: "same_report c (mask_chan f d) = same_report c d"
  by (simp add: mask_chan_def Let_def)

lemma touch_mask:
  assumes ok: "conn_ok cid c ch w"
  shows "\<exists>w'. with_channel (channel_set_events f) c w = Inr w' \<and> touch cid c ch c (mask_chan f ch) w w'"
proof -
  note d = conn_okD [OF ok]
  obtain m where coh: "coherent {} (poller (lget (c_loop c) w)) m" using d(6) unfolding poller_inv_def by blast
  let ?p = "mask_result f ch (c_channel c) (poller (lget (c_loop c) w))"
  note r = channel_set_events_ok [OF coh d(4), of f]
  have "poller_inv ?p" using r(2) unfolding poller_inv_def by blast
  moreover have "chan_heap ?p = (chan_heap (poller (lget (c_loop c) w)))(c_channel c \<mapsto> mask_chan f ch)"
    by (simp add: mask_result_def update_result_def mask_chan_def Let_def)
  ultimately have "touch cid c ch c (mask_chan f ch) w (lput (c_loop c) ((lget (c_loop c) w)\<lparr>poller := ?p\<rparr>) w)"
    by (intro touch_poller [OF ok]) simp_all
  with r(1) show ?thesis by (auto simp: with_channel_def)
qed

lemma touch_remove:
  assumes ok: "conn_ok cid c ch w"
  shows "\<exists>w'. with_channel removeChannel c w = Inr w' \<and> touch cid c ch c (set_index NEW ch) w w'"
proof -
  note d = conn_okD [OF ok]
  obtain m where coh: "coherent {} (poller (lget (c_loop c) w)) m" using d(6) unfolding poller_inv_def by blast
  let ?p = "(poller (lget (c_loop c) w))\<lparr>
      chan_heap := (chan_heap (poller (lget (c_loop c) w)))(c_channel c \<mapsto> set_index NEW ch),
      channels := (channels (poller (lget (c_loop c) w)))(ch_fd ch := None),
      ctl_log := ctl_log (poller (lget (c_loop c) w)) @
        (if ch_index ch = ADDED then [(EPOLL_CTL_DEL, ch_fd ch, ch_events ch, c_channel c)] else [])\<rparr>"
  note r = removeChannel_ok [OF coh d(4)]
  have "touch cid c ch c (set_index NEW ch) w (lput (c_loop c) ((lget (c_loop c) w)\<lparr>poller := ?p\<rparr>) w)"
    by (rule touch_poller [OF ok]) (use r(2) in \<open>auto simp: poller_inv_def\<close>)
  with r(1) show ?thesis by (auto simp: with_channel_def)
qed

lemma touch_tie:
  assumes ok: "conn_ok cid c ch w"
  shows "\<exists>w'. with_channel (\<lambda>ptr p. bindR (deref ptr p) (\<lambda>ch. Inr (store ptr (channel_tie obj ch) p))) c w = Inr w' \<and>
    touch cid c ch c (channel_tie obj ch) w w'"
proof -
  have "touch cid c ch c (channel_tie obj ch) w (lput (c_loop c) ((lget (c_loop c) w)\<lparr>poller :=
      store (c_channel c) (channel_tie obj ch) (poller (lget (c_loop c) w))\<rparr>) w)"
    by (rule touch_poller [OF ok poller_inv_tie [OF conn_okD(6,4) [OF ok]]]) (simp_all, simp add: channel_tie_def)
  then show ?thesis using conn_okD(4) [OF ok] by (simp add: with_channel_def)
qed

section \<open>Handlers that keep the connection\<close>

text \<open>
  The channel is registered with the poller, reading is enabled, and output waits exactly when writing is enabled. A handler that \<open>serves\<close> the connection
  keeps this, the state and the guard, and writes to no other descriptor.
\<close>

definition sound :: "tcp_connection \<Rightarrow> callback_t channel \<Rightarrow> bool" where
  "sound c ch \<longleftrightarrow> ch_index ch = ADDED \<and> isReading ch \<and> out_sync c ch"

definition serves ::
  "nat \<Rightarrow> tcp_connection \<Rightarrow> callback_t channel \<Rightarrow> tcp_connection \<Rightarrow> callback_t channel \<Rightarrow>
   'z world_scheme \<Rightarrow> 'z world_scheme \<Rightarrow> bool" where
  "serves cid c ch c' ch' w w' \<longleftrightarrow> touch cid c ch c' ch' w w' \<and> c_state c' = c_state c \<and>
     ch_tied ch' = ch_tied ch \<and> ch_tie ch' = ch_tie ch \<and> (sound c ch \<longrightarrow> sound c' ch') \<and>
     (\<forall>fd. fd \<noteq> c_sockfd c \<longrightarrow> wire fd w' = wire fd w)"

lemma servesD:
  assumes "serves cid c ch c' ch' w w'"
  shows "touch cid c ch c' ch' w w'" "c_state c' = c_state c" "ch_tied ch' = ch_tied ch" "ch_tie ch' = ch_tie ch"
    "sound c ch \<Longrightarrow> sound c' ch'" "fd \<noteq> c_sockfd c \<Longrightarrow> wire fd w' = wire fd w" "conn_ok cid c' ch' w'" "same_id c c'"
  using assms touchD by (auto simp: serves_def)

lemma serves_refl: "conn_ok cid c ch w \<Longrightarrow> serves cid c ch c ch w w"
  by (simp add: serves_def touch_refl)

lemma serves_trans:
  assumes 1: "serves cid c ch c1 ch1 w w1" and 2: "serves cid c1 ch1 c2 ch2 w1 w2"
  shows "serves cid c ch c2 ch2 w w2"
  unfolding serves_def
  using touch_trans [OF servesD(1) [OF 1] servesD(1) [OF 2]] servesD(2-6) [OF 1] servesD(2-6) [OF 2] same_idD(4) [OF servesD(8) [OF 1]]
  by simp

lemma serves_emit:
  "conn_ok cid c ch w \<Longrightarrow> (\<And>fd. fd \<noteq> c_sockfd c \<Longrightarrow> wire_of fd es = []) \<Longrightarrow> serves cid c ch c ch w (emit es w)"
  by (simp add: serves_def touch_emit)

lemma serves_strings: "conn_ok cid c ch w \<Longrightarrow> serves cid c ch c ch w (w\<lparr>w_strings := st\<rparr>)"
  by (simp add: serves_def touch_strings wire_def)

lemma serves_input:
  "conn_ok cid c ch w \<Longrightarrow> buf_inv b \<Longrightarrow> serves cid c ch (c\<lparr>inputBuffer := b\<rparr>) ch w (put_conn cid (c\<lparr>inputBuffer := b\<rparr>) w)"
  by (simp add: serves_def touch_put conn_ok_def sound_def out_sync_def)

lemma sound_masks:
  "isReading (mask_chan mask_enableWriting ch) = isReading ch" "isReading (mask_chan mask_disableWriting ch) = isReading ch"
  by (simp_all add: isReading_def writing_masks_keep_reading)

lemma mask_chan_index: "isReading (mask_chan f ch) \<Longrightarrow> ch_index (mask_chan f ch) = ADDED"
  by (auto simp: mask_chan_def Let_def update_index_def isNoneEvent_def isReading_def noneEvent_def)

text \<open>Changing the output buffer and the interest in writability together.\<close>

lemma serves_output:
  assumes ok: "conn_ok cid c ch w" and inv: "buf_inv b" and f: "f \<in> {mask_enableWriting, mask_disableWriting}"
    and sync: "isWriting (mask_chan f ch) \<longleftrightarrow> content b \<noteq> []"
  shows "\<exists>w'. with_channel (channel_set_events f) c (put_conn cid (c\<lparr>outputBuffer := b\<rparr>) w) = Inr w' \<and>
    serves cid c ch (c\<lparr>outputBuffer := b\<rparr>) (mask_chan f ch) w w' \<and> w_trace w' = w_trace w"
proof -
  let ?c = "c\<lparr>outputBuffer := b\<rparr>" and ?w = "put_conn cid (c\<lparr>outputBuffer := b\<rparr>) w"
  have 1: "touch cid c ch ?c ch w ?w" by (rule touch_put [OF ok]) (use conn_okD [OF ok] inv in simp_all)
  obtain w' where 2: "with_channel (channel_set_events f) ?c ?w = Inr w'" "touch cid ?c ch ?c (mask_chan f ch) ?w w'"
    using touch_mask [OF touchD(1) [OF 1]] by blast
  then have eq: "with_channel (channel_set_events f) c ?w = Inr w'" by (simp add: with_channel_def)
  have "w_trace w' = w_trace w" using 2(1) by (auto simp: with_channel_def bindR_eq_Inr)
  moreover have "isReading (mask_chan f ch) = isReading ch" using f sound_masks by auto
  ultimately show ?thesis
    using eq touch_trans [OF 1 2(2)] sync
    by (intro exI [of _ w']) (auto simp: serves_def sound_def out_sync_def wire_def mask_chan_index)
qed

subsection \<open>Sending\<close>

lemma send_buffered_serves:
  assumes ok: "conn_ok cid c ch w" and fits: "buf_fits (outputBuffer c) (unat remaining)"
    and mem: "unat remaining \<le> length (drop nwrote mem)" and pos: "remaining > 0"
    and below: "\<not> readableBytes (outputBuffer c) + remaining \<ge> highWaterMark c"
  shows "\<exists>w' b ch'. send_buffered tid cid c ch mem nwrote remaining w = Inr w' \<and>
    serves cid c ch (c\<lparr>outputBuffer := b\<rparr>) ch' w w' \<and> w_trace w' = w_trace w \<and>
    content b = content (outputBuffer c) @ take (unat remaining) (drop nwrote mem)"
proof -
  note d = conn_okD [OF ok]
  obtain b where b: "append_raw (outputBuffer c) (drop nwrote mem) remaining = Inr b" "buf_inv b"
    "content b = content (outputBuffer c) @ take (unat remaining) (drop nwrote mem)"
    using append_raw_ok [OF d(3) fits mem] by blast
  have ne: "content b \<noteq> []" using b(3) pos mem by (auto simp: word_gt_0 unat_eq_0)
  have eq: "send_buffered tid cid c ch mem nwrote remaining w =
      (if \<not> isWriting ch then with_channel enableWriting c (put_conn cid (c\<lparr>outputBuffer := b\<rparr>) w)
       else Inr (put_conn cid (c\<lparr>outputBuffer := b\<rparr>) w))"
    using below by (simp add: send_buffered_def b(1))
  show ?thesis
  proof (cases "isWriting ch")
    case True
    have "serves cid c ch (c\<lparr>outputBuffer := b\<rparr>) ch w (put_conn cid (c\<lparr>outputBuffer := b\<rparr>) w)"
      using touch_put [OF ok, of "c\<lparr>outputBuffer := b\<rparr>"] d b(2) ne True by (simp add: serves_def sound_def out_sync_def)
    with True eq b(3) show ?thesis
      by (intro exI [of _ "put_conn cid (c\<lparr>outputBuffer := b\<rparr>) w"] exI [of _ b] exI [of _ ch]) simp
  next
    case False
    with serves_output [OF ok b(2), of mask_enableWriting] eq b(3) ne show ?thesis by (auto simp: enableWriting_def)
  qed
qed

lemma sendInLoop_serves:
  assumes ok: "conn_ok cid c ch w" and wc: "writeCompleteCallback c = None" and len: "unat len = length mem"
    and fits: "buf_fits (outputBuffer c) (length mem)" and below: "below_mark c (length mem)" and wr: "write_ok (os_write os)"
  shows "\<exists>w' b ch'. sendInLoop os tid cid mem len w = Inr w' \<and> serves cid c ch (c\<lparr>outputBuffer := b\<rparr>) ch' w w' \<and>
    (c_state c \<noteq> kDisconnected \<and> no_fault os \<longrightarrow>
       wire (c_sockfd c) w' @ content b = wire (c_sockfd c) w @ content (outputBuffer c) @ mem)"
proof (cases "c_state c = kDisconnected")
  case True
  then show ?thesis
    using serves_refl [OF ok] conn_okD [OF ok] by (intro exI [of _ w] exI [of _ "outputBuffer c"] exI [of _ ch]) (simp add: sendInLoop_def)
next
  case False
  from ok this len wr show ?thesis
  proof (cases rule: sendInLoop_cases [where tid = tid])
    case fault
    then have "\<not> no_fault os" by (auto simp: no_fault_def write_faults_def)
    with fault(3) serves_refl [OF ok] show ?thesis by (intro exI [of _ w] exI [of _ "outputBuffer c"] exI [of _ ch]) simp
  next
    case (buffer n rem w1)
    have s: "serves cid c ch c ch w w1"
      using buffer(4) serves_refl [OF ok] serves_emit [OF ok, of "[Sent (c_sockfd c) (take n mem)]"] wc by (auto simp: after_write_def)
    have sent: "wire (c_sockfd c) w1 @ content (outputBuffer c) @ drop n mem = wire (c_sockfd c) w @ content (outputBuffer c) @ mem"
      using buffer(4) by (auto simp: after_write_def wc)
    show ?thesis
    proof (cases "rem > 0")
      case True
      have f: "buf_fits (outputBuffer c) (unat rem)" "unat rem \<le> length (drop n mem)" using fits buffer(2) by (simp_all add: buf_fits_def)
      have "\<not> readableBytes (outputBuffer c) + rem \<ge> highWaterMark c"
        by (rule below_mark_word [OF _ conn_okD(3) [OF ok], where len = len]) (use below len buffer(2) in simp_all)
      from send_buffered_serves [OF servesD(7) [OF s] f True this, of tid] obtain w' b ch' where
        r: "send_buffered tid cid c ch mem n rem w1 = Inr w'" "serves cid c ch (c\<lparr>outputBuffer := b\<rparr>) ch' w1 w'"
          "w_trace w' = w_trace w1" "content b = content (outputBuffer c) @ take (unat rem) (drop n mem)" by blast
      with True buffer(2,3) serves_trans [OF s r(2)] sent show ?thesis
        by (intro exI [of _ w'] exI [of _ b] exI [of _ ch']) (simp add: wire_def)
    next
      case False
      then have "n = length mem" using buffer(1,2) by (simp add: word_gt_0)
      with False s buffer(3) sent show ?thesis by (intro exI [of _ w1] exI [of _ "outputBuffer c"] exI [of _ ch]) simp
    qed
  qed
qed

lemma EchoServer_onMessage_serves:
  assumes ok: "conn_ok cid c ch w" and wc: "writeCompleteCallback c = None" and here: "threadId (lget (c_loop c) w) = tid"
    and fits: "buf_fits (outputBuffer c) (length (content (inputBuffer c)))"
    and below: "below_mark c (length (content (inputBuffer c)))" and wr: "write_ok (os_write os)"
  shows "\<exists>w' b1 b2 ch'. EchoServer_onMessage os tid ptr cid w = Inr w' \<and>
    serves cid c ch (c\<lparr>inputBuffer := b1, outputBuffer := b2\<rparr>) ch' w w' \<and> content b1 = [] \<and>
    (c_state c = kConnected \<and> no_fault os \<longrightarrow>
       wire (c_sockfd c) w' @ content b2 = wire (c_sockfd c) w @ content (outputBuffer c) @ content (inputBuffer c))"
proof -
  obtain b1 where b1: "retrieveAllAsString (inputBuffer c) = Inr (content (inputBuffer c), b1)" "buf_inv b1" "content b1 = []"
    using retrieveAll_ok [OF conn_okD(2) [OF ok]] by blast
  let ?c = "c\<lparr>inputBuffer := b1\<rparr>" and ?msg = "content (inputBuffer c)"
  define w1 where "w1 = (put_conn cid ?c w)\<lparr>w_strings := (w_strings w)(ptr \<mapsto> ?msg)\<rparr>"
  have s0: "serves cid c ch ?c ch w (put_conn cid ?c w)" by (rule serves_input [OF ok b1(2)])
  have s1: "serves cid c ch ?c ch w w1"
    unfolding w1_def by (rule serves_trans [OF s0 serves_strings [OF servesD(7) [OF s0]]])
  have w1: "w_conns w1 cid = Some ?c" "w_strings w1 ptr = Some ?msg" "threadId (lget (c_loop c) w1) = tid" "wire fd w1 = wire fd w" for fd
    using here by (simp_all add: w1_def wire_def) (simp add: lget_def put_conn_def)
  have "length ?msg < 2 ^ 64" using fits vec_max_size_lt by (simp add: buf_fits_def)
  then have len: "unat (of_nat (length ?msg) :: size_t) = length ?msg" by (rule unat_size_of_nat)
  have "\<exists>w2 b2 ch'. send os tid cid ptr w1 = Inr w2 \<and> serves cid ?c ch (?c\<lparr>outputBuffer := b2\<rparr>) ch' w1 w2 \<and>
    (c_state c = kConnected \<and> no_fault os \<longrightarrow>
       wire (c_sockfd c) w2 @ content b2 = wire (c_sockfd c) w @ content (outputBuffer c) @ ?msg)"
  proof (cases "c_state c = kConnected")
    case True
    have "send os tid cid ptr w1 = sendInLoop os tid cid ?msg (of_nat (length ?msg)) w1"
      using True w1 by (simp add: send_def isInLoopThread_def)
    with sendInLoop_serves [OF servesD(7) [OF s1] _ len, of os tid] wc fits below wr True w1(4)
    show ?thesis by (simp add: below_mark_def)
  next
    case False
    then show ?thesis using w1 serves_refl [OF servesD(7) [OF s1]]
      by (intro exI [of _ w1] exI [of _ "outputBuffer c"] exI [of _ ch]) (simp add: send_def)
  qed
  then obtain w2 b2 ch' where s2: "send os tid cid ptr w1 = Inr w2" "serves cid ?c ch (?c\<lparr>outputBuffer := b2\<rparr>) ch' w1 w2"
    "c_state c = kConnected \<and> no_fault os \<longrightarrow>
       wire (c_sockfd c) w2 @ content b2 = wire (c_sockfd c) w @ content (outputBuffer c) @ ?msg"
    by blast
  let ?w = "w2\<lparr>w_strings := (w_strings w2)(ptr := None)\<rparr>"
  have "EchoServer_onMessage os tid ptr cid w = Inr ?w"
    using s2(1) b1(1) conn_okD(7) [OF ok] by (simp add: EchoServer_onMessage_def Let_def w1_def)
  moreover have "serves cid c ch (c\<lparr>inputBuffer := b1, outputBuffer := b2\<rparr>) ch' w ?w"
    using serves_trans [OF serves_trans [OF s1 s2(2)] serves_strings [OF servesD(7) [OF s2(2)]]] by simp
  ultimately show ?thesis using s2(3) b1(3)
    by (intro exI [of _ ?w] exI [of _ b1] exI [of _ b2] exI [of _ ch']) (simp add: wire_def)
qed

subsection \<open>Writing and errors\<close>

lemma write_done_serves:
  fixes n :: size_t
  assumes ok: "conn_ok cid c ch w" and wc: "writeCompleteCallback c = None" and wr: "isWriting ch"
  shows "\<exists>w' ch'. write_done tid cid c n w = Inr w' \<and>
    serves cid c ch (c\<lparr>outputBuffer := retrieve (outputBuffer c) n\<rparr>) ch' w w' \<and> wire fd w' = wire fd w"
proof -
  note d = conn_okD [OF ok]
  let ?b = "retrieve (outputBuffer c) n"
  let ?c = "c\<lparr>outputBuffer := ?b\<rparr>"
  have inv: "buf_inv ?b" using d(3) by (rule retrieve_inv)
  show ?thesis
  proof (cases "readableBytes ?b = 0")
    case False
    then have ne: "content ?b \<noteq> []" using readable_0 [OF inv] by simp
    have "serves cid c ch ?c ch w (put_conn cid ?c w)"
      using touch_put [OF ok, of ?c] d inv ne wr by (simp add: serves_def sound_def out_sync_def)
    then show ?thesis using False by (intro exI [of _ "put_conn cid ?c w"] exI [of _ ch]) (simp add: write_done_def Let_def)
  next
    case True
    then have empty: "content ?b = []" using readable_0 [OF inv] by simp
    obtain w2 where w2: "with_channel disableWriting c (put_conn cid ?c w) = Inr w2"
      "serves cid c ch ?c (mask_chan mask_disableWriting ch) w w2" "w_trace w2 = w_trace w"
      using serves_output [OF ok inv, of mask_disableWriting] empty by (auto simp: disableWriting_def)
    let ?ch = "mask_chan mask_disableWriting ch"
    define w3 where "w3 = (if c_state c = kDisconnected then emit (map Sock (shutdownWrite (c_sockfd c))) w2 else w2)"
    have "write_done tid cid c n w = Inr w3"
      using True w2(1) wc conn_okD(7,8) [OF servesD(7) [OF w2(2)]]
      by (simp add: write_done_def Let_def w3_def shutdownInLoop_def)
    moreover have "serves cid ?c ?ch ?c ?ch w2 w3"
      unfolding w3_def using serves_refl [OF servesD(7) [OF w2(2)]] serves_emit [OF servesD(7) [OF w2(2)]]
      by (simp add: shutdownWrite_def)
    moreover have "wire fd w3 = wire fd w" using w2(3) by (simp add: w3_def wire_def wire_of_append shutdownWrite_def)
    ultimately show ?thesis using serves_trans [OF w2(2)] by blast
  qed
qed

lemma handleWrite_serves:
  assumes ok: "conn_ok cid c ch w" and wc: "writeCompleteCallback c = None" and wr: "write_ok (os_write os)"
  shows "\<exists>w' b ch'. handleWrite os tid cid w = Inr w' \<and> serves cid c ch (c\<lparr>outputBuffer := b\<rparr>) ch' w w' \<and>
    wire (c_sockfd c) w' @ content b = wire (c_sockfd c) w @ content (outputBuffer c)"
proof -
  note d = conn_okD [OF ok]
  have still: ?thesis if "handleWrite os tid cid w = Inr w"
    using that serves_refl [OF ok] by (intro exI [of _ w] exI [of _ "outputBuffer c"] exI [of _ ch]) simp
  show ?thesis
  proof (cases "isWriting ch \<and> (\<exists>n > 0. os_write os (c_sockfd c) (content (outputBuffer c)) = Inr n)")
    case False
    then have zero: "n = 0" if "isWriting ch" "os_write os (c_sockfd c) (content (outputBuffer c)) = Inr n" for n
      using that by simp
    have "handleWrite os tid cid w = Inr w"
    proof (cases "isWriting ch")
      case True
      with zero d show ?thesis
        by (cases "os_write os (c_sockfd c) (content (outputBuffer c))") (simp_all add: handleWrite_def writeFd_ok)
    qed (use d in \<open>simp add: handleWrite_def\<close>)
    then show ?thesis by (rule still)
  next
    case True
    then obtain n where n: "n > 0" "os_write os (c_sockfd c) (content (outputBuffer c)) = Inr n" and w: "isWriting ch" by blast
    let ?w = "emit [Sent (c_sockfd c) (take n (content (outputBuffer c)))] w"
    let ?b = "retrieve (outputBuffer c) (of_int (int n))"
    have "n \<le> length (content (outputBuffer c))" using wr n by (auto simp: write_ok_def)
    moreover have "length (content (outputBuffer c)) < 2 ^ 64" using length_content [OF d(3)] unat_size_lt by metis
    ultimately have un: "unat (of_nat n :: size_t) = n" by (simp add: unat_size_of_nat)
    have s: "serves cid c ch c ch w ?w" by (rule serves_emit [OF ok]) simp
    have "handleWrite os tid cid w = write_done tid cid c (of_int (int n)) ?w"
      using n w d by (simp add: handleWrite_def writeFd_ok)
    with write_done_serves [OF servesD(7) [OF s] wc w, of tid "of_int (int n)" "c_sockfd c"] obtain w' ch' where
      r: "handleWrite os tid cid w = Inr w'" "serves cid c ch (c\<lparr>outputBuffer := ?b\<rparr>) ch' ?w w'" "wire (c_sockfd c) w' = wire (c_sockfd c) ?w"
      by auto
    have "content ?b = drop n (content (outputBuffer c))" using retrieve_content [OF d(3)] un by simp
    with r(1,3) serves_trans [OF s r(2)] show ?thesis
      by (intro exI [of _ w'] exI [of _ ?b] exI [of _ ch']) simp
  qed
qed

lemma handleError_serves:
  assumes ok: "conn_ok cid c ch w"
  shows "\<exists>w'. handleError os cid w = Inr w' \<and> serves cid c ch c ch w w' \<and> wire (c_sockfd c) w' = wire (c_sockfd c) w"
proof -
  have "serves cid c ch c ch w (emit [Logged_error cid e] w)" for e by (rule serves_emit [OF ok]) simp
  then show ?thesis using conn_okD(7,8) [OF ok] by (simp add: handleError_def Let_def)
qed

section \<open>Establishing and closing\<close>

lemma echo_callback:
  assumes "w_conns w cid = Some c" and "connectionCallback c = Some cb"
  shows "call_connectionCallback (server_user tid (echo_user os tid')) cid w = Inr (emit [Connection_cb cid (connected c)] w)"
  using call_connectionCallback_ok [OF assms] echo_onConnection assms(1) by simp

lemma wire_same_trace: "w_trace w' = w_trace w \<Longrightarrow> wire fd w' = wire fd w"
  by (simp add: wire_def)

lemma with_channel_trace: "with_channel f c w = Inr w' \<Longrightarrow> w_trace w' = w_trace w"
  by (auto simp: with_channel_def bindR_eq_Inr)

lemma connectEstablished_effect:
  fixes w :: server_world
  assumes ok: "conn_ok cid c ch w" and cb: "connectionCallback c = Some cb"
  shows "\<exists>w' ch'. connectEstablished (server_user tid (echo_user os tid')) cid w = Inr w' \<and>
    touch cid c ch (c\<lparr>c_state := kConnected\<rparr>) ch' w w' \<and> ch_tied ch' \<and> ch_tie ch' = Some cid \<and>
    (out_sync c ch \<longrightarrow> sound (c\<lparr>c_state := kConnected\<rparr>) ch') \<and> (\<forall>fd. wire fd w' = wire fd w)"
proof -
  let ?u = "server_user tid (echo_user os tid')" and ?c = "c\<lparr>c_state := kConnected\<rparr>"
  let ?w1 = "put_conn cid ?c w" and ?ch2 = "channel_tie cid ch"
  let ?ch3 = "mask_chan mask_enableReading ?ch2"
  have 1: "touch cid c ch ?c ch w ?w1" by (rule touch_put [OF ok]) (use conn_okD [OF ok] in simp_all)
  obtain w2 where 2: "with_channel (\<lambda>ptr p. bindR (deref ptr p) (\<lambda>ch. Inr (store ptr (channel_tie cid ch) p))) ?c ?w1 = Inr w2"
    "touch cid ?c ch ?c ?ch2 ?w1 w2"
    using touch_tie [OF touchD(1) [OF 1]] by blast
  obtain w3 where 3: "with_channel enableReading ?c w2 = Inr w3" "touch cid ?c ?ch2 ?c ?ch3 w2 w3"
    using touch_mask [OF touchD(1) [OF 2(2)], of mask_enableReading] unfolding enableReading_def by blast
  let ?w4 = "emit [Connection_cb cid True] w3"
  have "call_connectionCallback ?u cid w3 = Inr ?w4"
    using echo_callback [OF conn_okD(1) [OF touchD(1) [OF 3(2)]], of cb tid os tid'] cb by (simp add: connected_def)
  then have "connectEstablished ?u cid w = Inr ?w4"
    using 2(1) 3(1) conn_okD(1) [OF ok] by (simp add: connectEstablished_def setState_def)
  moreover have "touch cid c ch ?c ?ch3 w ?w4"
    by (rule touch_trans [OF touch_trans [OF touch_trans [OF 1 2(2)] 3(2)] touch_emit [OF touchD(1) [OF 3(2)]]])
  moreover have "w_trace w3 = w_trace w" using with_channel_trace [OF 2(1)] with_channel_trace [OF 3(1)] by simp
  moreover have "isReading ?ch3" by (simp add: isReading_def enableReading_reading)
  moreover have "isWriting ?ch3 = isWriting ch" by (simp add: isWriting_def reading_masks_keep_writing channel_tie_def)
  ultimately show ?thesis
    using mask_chan_index [of mask_enableReading ?ch2]
    by (intro exI [of _ ?w4] exI [of _ ?ch3]) (simp add: wire_def wire_of_append sound_def out_sync_def, simp add: channel_tie_def)
qed

lemma connectDestroyed_effect:
  fixes w :: server_world
  assumes ok: "conn_ok cid c ch w" and cb: "connectionCallback c = Some cb"
  shows "\<exists>w' ch'. connectDestroyed (server_user tid (echo_user os tid')) cid w = Inr w' \<and>
    touch cid c ch (if c_state c = kConnected then c\<lparr>c_state := kDisconnected\<rparr> else c) ch' w w' \<and> ch_index ch' = NEW \<and>
    ch_tied ch' = ch_tied ch \<and> ch_tie ch' = ch_tie ch \<and> (\<forall>fd. wire fd w' = wire fd w)"
proof -
  let ?u = "server_user tid (echo_user os tid')"
  have remove: ?thesis
    if t: "touch cid c ch c' ch1 w w1" "ch_tied ch1 = ch_tied ch" "ch_tie ch1 = ch_tie ch"
      and st: "c' = (if c_state c = kConnected then c\<lparr>c_state := kDisconnected\<rparr> else c)"
      and tr: "\<And>fd. wire fd w1 = wire fd w" and eq: "connectDestroyed ?u cid w = with_channel removeChannel c w1"
    for c' ch1 w1
  proof -
    obtain w2 where r: "with_channel removeChannel c' w1 = Inr w2" "touch cid c' ch1 c' (set_index NEW ch1) w1 w2"
      using touch_remove [OF touchD(1) [OF t(1)]] by blast
    have "with_channel removeChannel c w1 = Inr w2"
      using r(1) same_idD(1,2) [OF touchD(2) [OF t(1)]] by (simp add: with_channel_def)
    with eq have "connectDestroyed ?u cid w = Inr w2" by simp
    then show ?thesis
      using touch_trans [OF t(1) r(2)] t(2,3) st tr wire_same_trace [OF with_channel_trace [OF r(1)]]
      unfolding st by (intro exI [of _ w2] exI [of _ "set_index NEW ch1"]) (simp, simp add: set_index_def)
  qed
  show ?thesis
  proof (cases "c_state c = kConnected")
    case False
    then show ?thesis using remove [OF touch_refl [OF ok]] conn_okD(7) [OF ok] by (simp add: connectDestroyed_def)
  next
    case True
    let ?c = "c\<lparr>c_state := kDisconnected\<rparr>" and ?ch = "mask_chan mask_disbaleAll ch"
    let ?w1 = "put_conn cid ?c w"
    have 1: "touch cid c ch ?c ch w ?w1" by (rule touch_put [OF ok]) (use conn_okD [OF ok] in simp_all)
    obtain w2 where 2: "with_channel disbaleAll ?c ?w1 = Inr w2" "touch cid ?c ch ?c ?ch ?w1 w2"
      using touch_mask [OF touchD(1) [OF 1], of mask_disbaleAll] unfolding disbaleAll_def by blast
    let ?w3 = "emit [Connection_cb cid False] w2"
    have "call_connectionCallback ?u cid w2 = Inr ?w3"
      using echo_callback [OF conn_okD(1) [OF touchD(1) [OF 2(2)]], of cb tid os tid'] cb by (simp add: connected_def)
    moreover have "with_channel disbaleAll c ?w1 = Inr w2" using 2(1) by (simp add: with_channel_def)
    ultimately have eq: "connectDestroyed ?u cid w = with_channel removeChannel c ?w3"
      using True conn_okD(1) [OF ok] by (simp add: connectDestroyed_def setState_def)
    have "touch cid c ch ?c ?ch w ?w3"
      by (rule touch_trans [OF touch_trans [OF 1 2(2)] touch_emit [OF touchD(1) [OF 2(2)]]])
    from remove [OF this _ _ _ _ eq] True with_channel_trace [OF 2(1)] show ?thesis by (simp add: wire_def wire_of_append)
  qed
qed

text \<open>What \<open>handleClose\<close> asks the server for, at once or through the queue of the base loop.\<close>

definition request_close :: "int \<Rightarrow> nat \<Rightarrow> tcp_connection \<Rightarrow> server_world \<Rightarrow> server_world" where
  "request_close tid cid c w =
     (if isInLoopThread tid (lget (s_loop w) w)
      then queue_on tid (c_loop c) (F_connectDestroyed cid) (w\<lparr>s_connections := (s_connections w)(c_name c := None)\<rparr>)
      else queue_on tid (s_loop w) (F_removeConnectionInLoop cid) w)"

lemma removeConnection_request:
  "w_conns w cid = Some c \<Longrightarrow> removeConnection tid cid w = Inr (request_close tid cid c w)"
  by (simp add: removeConnection_def runInLoop_def removeConnectionInLoop_def request_close_def)
     (simp add: queue_on_def)

lemma handleClose_effect:
  assumes ok: "conn_ok cid c ch w" and cb: "connectionCallback c = Some cb" "connCloseCallback c"
  shows "\<exists>w1 ch1. handleClose (server_user tid (echo_user os tid')) cid w = Inr (request_close tid cid c w1) \<and>
    touch cid c ch c ch1 w w1 \<and> ch_tied ch1 = ch_tied ch \<and> ch_tie ch1 = ch_tie ch \<and> (\<forall>fd. wire fd w1 = wire fd w)"
proof -
  let ?u = "server_user tid (echo_user os tid')" and ?ch = "mask_chan mask_disbaleAll ch"
  obtain w1 where 1: "with_channel disbaleAll c w = Inr w1" "touch cid c ch c ?ch w w1"
    using touch_mask [OF ok, of mask_disbaleAll] unfolding disbaleAll_def by blast
  let ?w2 = "emit [Connection_cb cid (connected c)] w1"
  have 2: "touch cid c ch c ?ch w ?w2" by (rule touch_trans [OF 1(2) touch_emit [OF touchD(1) [OF 1(2)]]])
  have "call_connectionCallback ?u cid w1 = Inr ?w2"
    using echo_callback [OF conn_okD(1) [OF touchD(1) [OF 1(2)]] cb(1)] .
  then have "handleClose ?u cid w = removeConnection tid cid ?w2"
    using 1(1) conn_okD(1) [OF ok] conn_okD(1) [OF touchD(1) [OF 2]] cb(2) by (simp add: handleClose_def) (simp add: server_user_def)
  then have "handleClose ?u cid w = Inr (request_close tid cid c ?w2)"
    using removeConnection_request [OF conn_okD(1) [OF touchD(1) [OF 2]]] by simp
  then show ?thesis using 2 with_channel_trace [OF 1(1)]
    by (intro exI [of _ ?w2] exI [of _ ?ch]) (simp add: wire_def wire_of_append)
qed

section \<open>Reading\<close>

text \<open>Room for whatever the next read may deliver, in the buffers and below the high-water mark.\<close>

definition read_room :: "tcp_connection \<Rightarrow> bool" where
  "read_room c \<longleftrightarrow> (let n = length (content (inputBuffer c)) + sum_list (read_iov (inputBuffer c)) in
     length (buf_data (inputBuffer c)) + 65536 \<le> vec_max_size \<and> buf_fits (outputBuffer c) n \<and> below_mark c n)"

lemma handleRead_effect:
  assumes ok: "conn_ok cid c ch w" and room: "read_room c" and here: "threadId (lget (c_loop c) w) = tid"
    and cbs: "connectionCallback c = Some cb" "messageCallback c = Some cb'" "writeCompleteCallback c = None" "connCloseCallback c"
    and os: "readv_ok (os_readv os)" "write_ok (os_write os)"
  shows "(\<exists>w' c' ch'. handleRead os (server_user tid (echo_user os tid)) t cid w = Inr w' \<and> serves cid c ch c' ch' w w' \<and>
      (content (inputBuffer c) = [] \<longrightarrow> content (inputBuffer c') = []) \<and>
      (c_state c = kConnected \<and> no_fault os \<longrightarrow> wire (c_sockfd c) w' @ content (outputBuffer c') @ content (inputBuffer c') =
        wire (c_sockfd c) w @ content (outputBuffer c) @ content (inputBuffer c) @
          (case os_readv os (c_sockfd c) (read_iov (inputBuffer c)) of Inr bs \<Rightarrow> bs | Inl e \<Rightarrow> []))) \<or>
    os_readv os (c_sockfd c) (read_iov (inputBuffer c)) = Inr [] \<and>
    (\<exists>w1 c1 ch1. handleRead os (server_user tid (echo_user os tid)) t cid w = Inr (request_close tid cid c1 w1) \<and>
      touch cid c ch c1 ch1 w w1 \<and> ch_tied ch1 = ch_tied ch \<and> ch_tie ch1 = ch_tie ch \<and> c_state c1 = c_state c \<and>
      (\<forall>fd. wire fd w1 = wire fd w) \<and>
      content (outputBuffer c1) = content (outputBuffer c) \<and> content (inputBuffer c1) = content (inputBuffer c))"
proof (cases "os_readv os (c_sockfd c) (read_iov (inputBuffer c))")
  case (Inl e)
  let ?u = "server_user tid (echo_user os tid)" and ?w = "put_conn cid (c\<lparr>inputBuffer := inputBuffer c\<rparr>) w"
  have s: "serves cid c ch c ch w ?w" using serves_input [OF ok conn_okD(2) [OF ok]] by simp
  obtain w' where r: "handleError os cid ?w = Inr w'" "serves cid c ch c ch ?w w'" "wire (c_sockfd c) w' = wire (c_sockfd c) ?w"
    using handleError_serves [OF servesD(7) [OF s]] by blast
  have "handleRead os ?u t cid w = Inr w'"
    using r(1) conn_okD [OF ok] readFd_error [of "os_readv os", OF Inl] by (simp add: handleRead_def)
  with Inl r(3) serves_trans [OF s r(2)] show ?thesis by (intro disjI1 exI [of _ w'] exI [of _ c] exI [of _ ch]) simp
next
  case (Inr bs)
  let ?u = "server_user tid (echo_user os tid)"
  have fit: "length (buf_data (inputBuffer c)) + 65536 \<le> vec_max_size" using room by (simp add: read_room_def Let_def)
  have le: "length bs \<le> sum_list (read_iov (inputBuffer c))" using os(1) Inr unfolding readv_ok_def by blast
  obtain b where b: "buf_inv b" "content b = content (inputBuffer c) @ bs"
    "handleRead os ?u t cid w = (if bs \<noteq> [] then on_message ?u cb' cid t (put_conn cid (c\<lparr>inputBuffer := b\<rparr>) w)
       else handleClose ?u cid (put_conn cid (c\<lparr>inputBuffer := b\<rparr>) w))"
    using handleRead_data [OF ok cbs(2) fit os(1) Inr, of ?u t] by blast
  let ?c = "c\<lparr>inputBuffer := b\<rparr>" and ?w = "put_conn cid (c\<lparr>inputBuffer := b\<rparr>) w"
  have s: "serves cid c ch ?c ch w ?w" by (rule serves_input [OF ok b(1)])
  show ?thesis
  proof (cases "bs = []")
    case True
    obtain w1 ch1 where r: "handleClose ?u cid ?w = Inr (request_close tid cid ?c w1)" "touch cid ?c ch ?c ch1 ?w w1"
      "ch_tied ch1 = ch_tied ch" "ch_tie ch1 = ch_tie ch" "\<And>fd. wire fd w1 = wire fd ?w"
      using handleClose_effect [OF servesD(7) [OF s], of cb tid os tid] cbs by auto
    have "touch cid c ch ?c ch1 w w1" by (rule touch_trans [OF servesD(1) [OF s] r(2)])
    with r b(2,3) True Inr show ?thesis
      by (intro disjI2 conjI exI [of _ w1] exI [of _ ?c] exI [of _ ch1]) simp_all
  next
    case False
    have f: "buf_fits (outputBuffer ?c) (length (content (inputBuffer ?c)))" "below_mark ?c (length (content (inputBuffer ?c)))"
      using room le b(2) by (auto simp: read_room_def Let_def buf_fits_def below_mark_def)
    obtain w' b1 b2 ch' where r: "EchoServer_onMessage os tid 0 cid ?w = Inr w'"
      "serves cid ?c ch (?c\<lparr>inputBuffer := b1, outputBuffer := b2\<rparr>) ch' ?w w'" "content b1 = []"
      "c_state c = kConnected \<and> no_fault os \<longrightarrow>
         wire (c_sockfd c) w' @ content b2 = wire (c_sockfd c) w @ content (outputBuffer c) @ content b"
      using EchoServer_onMessage_serves [OF servesD(7) [OF s] _ _ f os(2), of tid 0] cbs(3) here by auto
    have "handleRead os ?u t cid w = Inr w'" using b(3) False r(1) by (simp add: server_user_def echo_user_def)
    with serves_trans [OF s r(2)] r(3,4) b(2) Inr show ?thesis
      by (intro disjI1 exI [of _ w'] exI [of _ "?c\<lparr>inputBuffer := b1, outputBuffer := b2\<rparr>"] exI [of _ ch']) simp
  qed
qed

end
