(* ===== verification/Server_System.thy ===== *)
theory Server_System
  imports Handler_Effect
begin

text \<open>
  The echo server as a system of threads. Every loop of the server (the base loop and the loops of the
  pool) runs in its thread; \<open>srv_step\<close> lets one of them take the next step of \<open>EventLoop::loop\<close>: the
  poll, the handling of one channel, the swap of the queue, the call of one functor, or the end of
  \<open>doPendingFunctors\<close> with the destruction of the vector of functors. The steps of different loops
  interleave in any order. A step is atomic: the loops share the queues, which are locked, and
  everything else a step of one thread changes belongs to its loop, except for the construction of a
  connection, which its loop only sees through the queue, and its destruction by the thread that drops
  the last pointer. \<open>server_round\<close> is the special case in which one loop runs a whole round.
\<close>

section \<open>The system\<close>

text \<open>
  Where a loop's thread stands: before the poll, with channels left to handle, or with the swapped-out
  functors and those of them left to call. The vector keeps the connections of all of its functors alive.
\<close>

datatype srv_pc = At_poll | At_channels "nat list" | At_functors "functor_t list" "functor_t list"

record srv_sys =
  sy_world :: server_world
  sy_pc :: "nat \<Rightarrow> srv_pc"

fun held_by :: "srv_pc \<Rightarrow> functor_t list" where
  "held_by (At_functors held todo) = held"
| "held_by at = []"

fun todo_by :: "srv_pc \<Rightarrow> functor_t list" where
  "todo_by (At_functors held todo) = todo"
| "todo_by at = []"

fun active_by :: "srv_pc \<Rightarrow> nat list" where
  "active_by (At_channels ptrs) = ptrs"
| "active_by at = []"

definition srv_loops :: "server_world \<Rightarrow> nat list" where
  "srv_loops w = s_loop w # pool_loops (s_pool w)"

text \<open>Destroying the connections that neither the server's map nor a queued functor nor a functor in \<open>held\<close> owns.\<close>

fun release_held :: "functor_t list \<Rightarrow> nat list \<Rightarrow> server_world \<Rightarrow> server_world res" where
  "release_held held [] w = Inr w"
| "release_held held (cid # cids) w =
     (case w_conns w cid of
        Some c \<Rightarrow> if owned cid c w \<or> list_ex (functor_owns cid) held then release_held held cids w
                  else bindR (TcpConnection_destroy cid w) (release_held held cids)
      | None \<Rightarrow> release_held held cids w)"

definition go :: "nat \<Rightarrow> srv_pc \<Rightarrow> server_world \<Rightarrow> srv_sys \<Rightarrow> srv_sys" where
  "go l at w s = s\<lparr>sy_world := w, sy_pc := (sy_pc s)(l := at)\<rparr>"

definition srv_step ::
  "server_os \<Rightarrow> (nat \<Rightarrow> errno + (c_int \<times> nat) list) \<Rightarrow> int \<Rightarrow> nat \<Rightarrow> srv_sys \<Rightarrow> srv_sys res" where
  "srv_step os wait now l s =
     (let w = sy_world s; lo = lget l w; tid = threadId lo; user = echo_user (os_calls.truncate os) tid in
      case sy_pc s l of
        At_poll \<Rightarrow>
          bindR (poll wait [] (poller lo)) (\<lambda>(active, p).
            Inr (go l (At_channels active) (lput l (lo\<lparr>activeChannels := active, poller := p, pollReturnTime := now\<rparr>) w) s))
      | At_channels ptrs \<Rightarrow>
          (case ptrs of
             ptr # rest \<Rightarrow>
               bindR (handle_channel os user tid (pollReturnTime lo) l ptr w) (\<lambda>w'. Inr (go l (At_channels rest) w' s))
           | [] \<Rightarrow>
               Inr (go l (At_functors (pendingFunctors lo) (pendingFunctors lo))
                      (lput l (lo\<lparr>callingPendingFunctors := True, pendingFunctors := []\<rparr>) w) s))
      | At_functors held todo \<Rightarrow>
          (case todo of
             f # fs \<Rightarrow> bindR (exec_functor os user tid f w) (\<lambda>w'. Inr (go l (At_functors held fs) w' s))
           | [] \<Rightarrow>
               bindR (release_held (concat (map (\<lambda>k. held_by (((sy_pc s)(l := At_poll)) k)) (srv_loops w))) [0 ..< s_fresh w]
                        (lput l (lo\<lparr>callingPendingFunctors := False\<rparr>) w)) (\<lambda>w'. Inr (go l At_poll w' s))))"

section \<open>The invariant\<close>

text \<open>The functors a loop has yet to call.\<close>

definition fut :: "(nat \<Rightarrow> functor_t list) \<Rightarrow> server_world \<Rightarrow> nat \<Rightarrow> functor_t list" where
  "fut T w l = T l @ pendingFunctors (lget l w)"

definition in_map :: "server_world \<Rightarrow> nat \<Rightarrow> tcp_connection \<Rightarrow> bool" where
  "in_map w cid c \<longleftrightarrow> s_connections w (c_name c) = Some cid"

text \<open>The server still knows the connection, or a functor that ends it is still to be called.\<close>

definition linked :: "(nat \<Rightarrow> functor_t list) \<Rightarrow> server_world \<Rightarrow> nat \<Rightarrow> tcp_connection \<Rightarrow> bool" where
  "linked T w cid c \<longleftrightarrow> in_map w cid c \<or> F_removeConnectionInLoop cid \<in> set (fut T w (s_loop w)) \<or>
     F_connectDestroyed cid \<in> set (fut T w (c_loop c))"

text \<open>The channels that belong to no connection: the wake-up channel of each loop and the accept channel.\<close>

definition sys_chan :: "server_world \<Rightarrow> nat \<Rightarrow> nat \<Rightarrow> callback_t channel \<Rightarrow> bool" where
  "sys_chan w l ptr ch \<longleftrightarrow> \<not> ch_tied ch \<and> writeCallback ch = None \<and> closeCallback ch = None \<and> errorCallback ch = None \<and>
     (readCallback ch = Some (Cb_wakeup l) \<or> readCallback ch = Some Cb_accept \<and> l = s_loop w)"

definition conn_cbs :: "nat \<Rightarrow> callback_t channel \<Rightarrow> bool" where
  "conn_cbs cid ch \<longleftrightarrow> readCallback ch = Some (Cb_handleRead cid) \<and> writeCallback ch = Some (Cb_handleWrite cid) \<and>
     closeCallback ch = Some (Cb_handleClose cid) \<and> errorCallback ch = Some (Cb_handleError cid)"

definition srv_base :: "server_world \<Rightarrow> bool" where
  "srv_base w \<longleftrightarrow> distinct (map (\<lambda>l. threadId (lget l w)) (srv_loops w)) \<and> pool_baseLoop (s_pool w) = s_loop w \<and>
     pool_inv (s_pool w) \<and> names_inv w \<and> acc_callback (s_acceptor w) \<and> s_connectionCallback w \<noteq> None \<and>
     s_messageCallback w \<noteq> None \<and> s_writeCompleteCallback w = None"

definition srv_heaps :: "server_world \<Rightarrow> bool" where
  "srv_heaps w \<longleftrightarrow> (\<forall>l \<in> set (srv_loops w). poller_inv (poller (lget l w)) \<and>
     (\<forall>ptr ch. chan_heap (poller (lget l w)) ptr = Some ch \<longrightarrow> ptr < s_fresh w \<and>
        (sys_chan w l ptr ch \<or> (\<exists>cid c. w_conns w cid = Some c \<and> c_loop c = l \<and> c_channel c = ptr))))"

definition conn_named :: "server_world \<Rightarrow> tcp_connection \<Rightarrow> bool" where
  "conn_named w c \<longleftrightarrow> (\<exists>n. int n < s_nextConnId w \<and> c_name c = s_name w @ ''-'' @ s_ipPort w @ to_string n)"

definition conn_fix :: "server_world \<Rightarrow> nat \<Rightarrow> tcp_connection \<Rightarrow> bool" where
  "conn_fix w cid c \<longleftrightarrow> conn_named w c \<and> Suc cid < s_fresh w \<and> c_channel c = Suc cid \<and> c_loop c \<in> set (srv_loops w) \<and>
     connectionCallback c \<noteq> None \<and> messageCallback c \<noteq> None \<and> writeCompleteCallback c = None \<and> connCloseCallback c \<and>
     (\<exists>ch. conn_ok cid c ch w \<and> conn_cbs cid ch \<and> (ch_tied ch \<longrightarrow> ch_tie ch = Some cid))"

definition srv_conns :: "server_world \<Rightarrow> bool" where
  "srv_conns w \<longleftrightarrow> (\<forall>cid c. w_conns w cid = Some c \<longrightarrow> conn_fix w cid c) \<and>
     (\<forall>j cj k ck. w_conns w j = Some cj \<longrightarrow> w_conns w k = Some ck \<longrightarrow> c_name cj = c_name ck \<longrightarrow> j = k) \<and>
     (\<forall>n cid. s_connections w n = Some cid \<longrightarrow> (\<exists>c. w_conns w cid = Some c \<and> c_name c = n))"

text \<open>
  A connection that is not tied yet waits for its \<open>connectEstablished\<close> and is not registered in the poller;
  one that is no longer linked is not registered either.
\<close>

definition conn_dyn :: "(nat \<Rightarrow> functor_t list) \<Rightarrow> server_world \<Rightarrow> nat \<Rightarrow> tcp_connection \<Rightarrow> callback_t channel \<Rightarrow> bool" where
  "conn_dyn T w cid c ch \<longleftrightarrow>
     (\<not> ch_tied ch \<longrightarrow> ch_index ch = NEW \<and> F_connectEstablished cid \<in> set (fut T w (c_loop c))) \<and>
     (\<not> linked T w cid c \<longrightarrow> ch_index ch = NEW)"

definition srv_dyn :: "nat set \<Rightarrow> (nat \<Rightarrow> functor_t list) \<Rightarrow> server_world \<Rightarrow> bool" where
  "srv_dyn X T w \<longleftrightarrow> (\<forall>cid c ch. conn_ok cid c ch w \<longrightarrow> cid \<notin> X \<longrightarrow> conn_dyn T w cid c ch)"

fun functor_inv :: "server_world \<Rightarrow> nat \<Rightarrow> functor_t \<Rightarrow> bool" where
  "functor_inv w l (F_connectEstablished cid) \<longleftrightarrow> (\<exists>c ch. conn_ok cid c ch w \<and> c_loop c = l \<and> in_map w cid c \<and> \<not> ch_tied ch)"
| "functor_inv w l (F_connectDestroyed cid) \<longleftrightarrow> (\<exists>c ch. conn_ok cid c ch w \<and> c_loop c = l \<and> \<not> in_map w cid c \<and> ch_tied ch)"
| "functor_inv w l (F_removeConnectionInLoop cid) \<longleftrightarrow> (\<exists>c ch. conn_ok cid c ch w \<and> l = s_loop w \<and> ch_tied ch)"
| "functor_inv w l f \<longleftrightarrow> False"

definition srv_queues :: "(nat \<Rightarrow> functor_t list) \<Rightarrow> server_world \<Rightarrow> bool" where
  "srv_queues T w \<longleftrightarrow> (\<forall>l \<in> set (srv_loops w). (\<forall>f \<in> set (fut T w l). functor_inv w l f) \<and>
     (\<forall>cid. count_list (fut T w l) (F_connectEstablished cid) \<le> 1))"

text \<open>A channel that is still to be handled exists, and its connection is tied and linked.\<close>

definition srv_active :: "nat set \<Rightarrow> (nat \<Rightarrow> functor_t list) \<Rightarrow> (nat \<Rightarrow> nat list) \<Rightarrow> server_world \<Rightarrow> bool" where
  "srv_active X T A w \<longleftrightarrow> (\<forall>l \<in> set (srv_loops w). \<forall>ptr \<in> set (A l). \<exists>ch. chan_heap (poller (lget l w)) ptr = Some ch \<and>
     (\<forall>cid c. w_conns w cid = Some c \<longrightarrow> c_loop c = l \<longrightarrow> c_channel c = ptr \<longrightarrow>
        ch_tied ch \<and> (cid \<in> X \<or> linked T w cid c)))"

definition core :: "nat set \<Rightarrow> (nat \<Rightarrow> functor_t list) \<Rightarrow> (nat \<Rightarrow> nat list) \<Rightarrow> server_world \<Rightarrow> bool" where
  "core X T A w \<longleftrightarrow> srv_base w \<and> srv_heaps w \<and> srv_conns w \<and> srv_dyn X T w \<and> srv_queues T w \<and> srv_active X T A w"

section \<open>Access to the invariant\<close>

lemma coreD:
  assumes "core X T A w"
  shows "srv_base w" "srv_heaps w" "srv_conns w" "srv_dyn X T w" "srv_queues T w" "srv_active X T A w"
  using assms by (simp_all add: core_def)

lemma srv_heapsD:
  assumes "srv_heaps w" and "l \<in> set (srv_loops w)"
  shows "poller_inv (poller (lget l w))" "chan_heap (poller (lget l w)) ptr = Some ch \<Longrightarrow> ptr < s_fresh w"
    "chan_heap (poller (lget l w)) ptr = Some ch \<Longrightarrow>
       sys_chan w l ptr ch \<or> (\<exists>cid c. w_conns w cid = Some c \<and> c_loop c = l \<and> c_channel c = ptr)"
  using assms unfolding srv_heaps_def by blast+

lemma conn_ok_unique: "conn_ok cid c ch w \<Longrightarrow> w_conns w cid = Some c' \<Longrightarrow> c' = c"
  by (simp add: conn_ok_def)

lemma conn_ok_unique_chan: "conn_ok cid c ch w \<Longrightarrow> conn_ok cid c' ch' w \<Longrightarrow> c' = c \<and> ch' = ch"
  by (auto simp: conn_ok_def)

lemma srv_connD:
  assumes "srv_conns w" and "conn_ok cid c ch w"
  shows "Suc cid < s_fresh w" "c_channel c = Suc cid" "c_loop c \<in> set (srv_loops w)" "connectionCallback c \<noteq> None"
    "messageCallback c \<noteq> None" "writeCompleteCallback c = None" "connCloseCallback c" "conn_cbs cid ch"
    "ch_tied ch \<Longrightarrow> ch_tie ch = Some cid" "conn_named w c"
proof -
  have "conn_fix w cid c" using assms conn_okD(1) [OF assms(2)] by (simp add: srv_conns_def)
  then show "Suc cid < s_fresh w" "c_channel c = Suc cid" "c_loop c \<in> set (srv_loops w)" "connectionCallback c \<noteq> None"
    "messageCallback c \<noteq> None" "writeCompleteCallback c = None" "connCloseCallback c" "conn_cbs cid ch"
    "ch_tied ch \<Longrightarrow> ch_tie ch = Some cid" "conn_named w c"
    using conn_ok_unique_chan [OF assms(2)] by (auto simp: conn_fix_def)
qed

lemma srv_conns_ok:
  assumes "srv_conns w" and "w_conns w cid = Some c"
  shows "\<exists>ch. conn_ok cid c ch w"
  using assms unfolding srv_conns_def conn_fix_def by blast

lemma srv_channel: "srv_conns w \<Longrightarrow> w_conns w cid = Some c \<Longrightarrow> c_channel c = Suc cid"
  unfolding srv_conns_def conn_fix_def by blast

lemma srv_names: "srv_conns w \<Longrightarrow> w_conns w j = Some cj \<Longrightarrow> w_conns w k = Some ck \<Longrightarrow> c_name cj = c_name ck \<Longrightarrow> j = k"
  unfolding srv_conns_def by blast

lemma srv_mapD: "srv_conns w \<Longrightarrow> s_connections w n = Some cid \<Longrightarrow> \<exists>c. w_conns w cid = Some c \<and> c_name c = n"
  unfolding srv_conns_def by blast

lemma srv_queueD:
  assumes "srv_queues T w" and "l \<in> set (srv_loops w)"
  shows "f \<in> set (fut T w l) \<Longrightarrow> functor_inv w l f" "count_list (fut T w l) (F_connectEstablished cid) \<le> 1"
  using assms unfolding srv_queues_def by blast+

lemma tied_not_connecting:
  assumes "srv_queues T w" and ok: "conn_ok cid c ch w" and "ch_tied ch" and l: "l \<in> set (srv_loops w)"
  shows "F_connectEstablished cid \<notin> set (fut T w l)"
proof
  assume "F_connectEstablished cid \<in> set (fut T w l)"
  from srv_queueD(1) [OF assms(1) l this] show False using conn_ok_unique_chan [OF ok] assms(3) by auto
qed

end
