(* ===== verification/System_Updates.thy ===== *)
theory System_Updates
  imports Server_System
begin

text \<open>
  How the invariant of the system follows the changes a step makes: a handler that touches one connection,
  a functor that is queued, a connection that leaves the server's map.
\<close>

section \<open>A handler runs for a connection\<close>

lemma server_fields:
  assumes "world.more w' = world.more (w :: server_world)"
  shows "s_loop w' = s_loop w" "s_connections w' = s_connections w" "s_pool w' = s_pool w" "s_fresh w' = s_fresh w"
    "s_acceptor w' = s_acceptor w" "s_connectionCallback w' = s_connectionCallback w" "s_messageCallback w' = s_messageCallback w"
    "s_writeCompleteCallback w' = s_writeCompleteCallback w" "s_nextConnId w' = s_nextConnId w" "s_name w' = s_name w"
    "s_ipPort w' = s_ipPort w"
  using assms by (cases w; cases w'; simp)+

lemma names_inv_more:
  assumes "world.more w' = world.more w"
  shows "names_inv w' = names_inv w"
  unfolding names_inv_def server_fields [OF assms] ..

text \<open>What a touch leaves as it is for the whole system.\<close>

lemma touch_frame:
  assumes t: "touch cid c ch c' ch' w (w' :: server_world)"
  shows "s_loop w' = s_loop w" "s_fresh w' = s_fresh w" "srv_loops w' = srv_loops w" "s_connections w' = s_connections w"
    "threadId (lget a w') = threadId (lget a w)" "pendingFunctors (lget a w') = pendingFunctors (lget a w)"
    "wakeupChannel (lget a w') = wakeupChannel (lget a w)" "eventfd (lget a w') = eventfd (lget a w)"
    "callingPendingFunctors (lget a w') = callingPendingFunctors (lget a w)"
    "fut T w' = fut T w" "in_map w' k d = in_map w k d" "linked T w' k d = linked T w k d"
proof -
  obtain p where p: "lget (c_loop c) w' = (lget (c_loop c) w)\<lparr>poller := p\<rparr>" using touchD(8) [OF t] by blast
  have l: "threadId (lget a w') = threadId (lget a w)" "pendingFunctors (lget a w') = pendingFunctors (lget a w)"
    "wakeupChannel (lget a w') = wakeupChannel (lget a w)" "eventfd (lget a w') = eventfd (lget a w)"
    "callingPendingFunctors (lget a w') = callingPendingFunctors (lget a w)" for a
    using touchD(7) [OF t, of a] p by (cases "a = c_loop c"; simp)+
  note m = server_fields [OF touchD(4) [OF t]]
  show "threadId (lget a w') = threadId (lget a w)" "pendingFunctors (lget a w') = pendingFunctors (lget a w)"
    "wakeupChannel (lget a w') = wakeupChannel (lget a w)" "eventfd (lget a w') = eventfd (lget a w)"
    "callingPendingFunctors (lget a w') = callingPendingFunctors (lget a w)"
    by (fact l)+
  show "s_loop w' = s_loop w" "s_fresh w' = s_fresh w" "srv_loops w' = srv_loops w" "s_connections w' = s_connections w"
    using m by (simp_all add: srv_loops_def)
  show fut: "fut T w' = fut T w" by (simp add: fut_def fun_eq_iff l)
  show "in_map w' k d = in_map w k d" "linked T w' k d = linked T w k d" using m fut by (simp_all add: in_map_def linked_def)
qed

lemma touch_heap:
  assumes "touch cid c ch c' ch' w w'"
  shows "chan_heap (poller (lget a w')) = (if a = c_loop c then (chan_heap (poller (lget a w)))(c_channel c \<mapsto> ch')
      else chan_heap (poller (lget a w)))"
  using touchD(6,7) [OF assms] by simp

lemma touch_poller_inv:
  assumes "touch cid c ch c' ch' w w'" and "poller_inv (poller (lget a w))"
  shows "poller_inv (poller (lget a w'))"
  using assms(2) touchD(7) [OF assms(1), of a] conn_okD(6) [OF touchD(1) [OF assms(1)]] same_idD(1) [OF touchD(2) [OF assms(1)]]
  by (cases "a = c_loop c") auto

lemma touch_other:
  assumes conns: "srv_conns w" and heaps: "srv_heaps w" and ok: "conn_ok cid c ch w"
    and t: "touch cid c ch c' ch' w w'" and k: "k \<noteq> cid"
  shows "conn_ok k ck chk w' \<longleftrightarrow> conn_ok k ck chk w"
proof -
  have conn: "w_conns w' k = w_conns w k" using touchD(5) [OF t] k by simp
  have same: "chan_heap (poller (lget (c_loop ck) w')) (c_channel ck) = chan_heap (poller (lget (c_loop ck) w)) (c_channel ck)"
    "poller_inv (poller (lget (c_loop ck) w'))" "poller_inv (poller (lget (c_loop ck) w))" if ck: "w_conns w k = Some ck"
  proof -
    obtain chk' where ok': "conn_ok k ck chk' w" using srv_conns_ok [OF conns ck] by blast
    have "c_channel ck \<noteq> c_channel c" using srv_connD(2) [OF conns ok'] srv_connD(2) [OF conns ok] k by simp
    then show "chan_heap (poller (lget (c_loop ck) w')) (c_channel ck) = chan_heap (poller (lget (c_loop ck) w)) (c_channel ck)"
      by (simp add: touch_heap [OF t])
    show inv: "poller_inv (poller (lget (c_loop ck) w))" using conn_okD(6) [OF ok'] .
    show "poller_inv (poller (lget (c_loop ck) w'))" by (rule touch_poller_inv [OF t inv])
  qed
  show ?thesis using same by (cases "w_conns w k = Some ck") (auto simp: conn_ok_def conn)
qed

lemma touch_self: "touch cid c ch c' ch' w w' \<Longrightarrow> conn_ok cid c1 ch1 w' \<longleftrightarrow> c1 = c' \<and> ch1 = ch'"
  using touchD(1) [of cid c ch c' ch' w w'] conn_ok_unique_chan by blast

lemma conn_cbs_report: "conn_cbs cid ch \<Longrightarrow> same_report ch ch' \<Longrightarrow> conn_cbs cid ch'"
  by (simp add: conn_cbs_def same_report_def)

text \<open>The invariant after a touch, clause by clause.\<close>

lemma touch_same:
  assumes t: "touch cid c ch c' ch' w (w' :: server_world)"
  shows "in_map w k c' = in_map w k c" "linked T w k c' = linked T w k c" "conn_named w' d = conn_named w d" "conn_named w c' = conn_named w c"
proof -
  note sid = same_idD [OF touchD(2) [OF t]]
  show "in_map w k c' = in_map w k c" "linked T w k c' = linked T w k c" by (simp_all add: in_map_def linked_def sid)
  show "conn_named w' d = conn_named w d" "conn_named w c' = conn_named w c"
    unfolding conn_named_def server_fields [OF touchD(4) [OF t]] sid by simp_all
qed

lemma touch_heaps:
  assumes heaps: "srv_heaps w" and conns: "srv_conns w" and ok: "conn_ok cid c ch w" and t: "touch cid c ch c' ch' w w'"
  shows "srv_heaps w'"
  unfolding srv_heaps_def touch_frame(2,3) [OF t]
proof (intro ballI conjI allI impI)
  fix l assume l: "l \<in> set (srv_loops w)"
  show "poller_inv (poller (lget l w'))" by (rule touch_poller_inv [OF t srv_heapsD(1) [OF heaps l]])
  fix ptr x assume x: "chan_heap (poller (lget l w')) ptr = Some x"
  show "ptr < s_fresh w"
    using x srv_heapsD(2) [OF heaps l] srv_connD(1,2) [OF conns ok] by (auto simp: touch_heap [OF t] split: if_splits)
  show "sys_chan w' l ptr x \<or> (\<exists>cid c. w_conns w' cid = Some c \<and> c_loop c = l \<and> c_channel c = ptr)"
  proof (cases "l = c_loop c \<and> ptr = c_channel c")
    case True
    then show ?thesis using touchD(5) [OF t] same_idD(1,2) [OF touchD(2) [OF t]] by auto
  next
    case False
    then have "chan_heap (poller (lget l w)) ptr = Some x" using x by (auto simp: touch_heap [OF t] split: if_splits)
    from srv_heapsD(3) [OF heaps l this] show ?thesis
    proof
      assume "\<exists>k ck. w_conns w k = Some ck \<and> c_loop ck = l \<and> c_channel ck = ptr"
      then obtain k ck where k: "w_conns w k = Some ck" "c_loop ck = l" "c_channel ck = ptr" by blast
      then have "k \<noteq> cid" using False conn_okD(1) [OF ok] by auto
      with k touchD(5) [OF t] show ?thesis by (intro disjI2 exI [of _ k] exI [of _ ck]) simp
    qed (simp add: sys_chan_def touch_frame(1) [OF t])
  qed
qed

lemma touch_conns:
  assumes conns: "srv_conns w" and heaps: "srv_heaps w" and ok: "conn_ok cid c ch w" and t: "touch cid c ch c' ch' w w'"
    and tie: "ch_tie ch' = Some cid"
  shows "srv_conns w'"
  unfolding srv_conns_def
proof (intro conjI allI impI)
  note f = touch_frame [OF t] and sid = same_idD [OF touchD(2) [OF t]] and fix_ = srv_connD [OF conns ok]
  fix k ck assume k: "w_conns w' k = Some ck"
  show "conn_fix w' k ck"
  proof (cases "k = cid")
    case True
    then have "ck = c'" using k touchD(5) [OF t] by simp
    moreover have "conn_ok cid c' ch' w'" by (rule touchD(1) [OF t])
    moreover have "conn_cbs cid ch'" by (rule conn_cbs_report [OF fix_(8) touchD(3) [OF t]])
    ultimately show ?thesis using fix_(1-7,10) tie True sid touch_same(3,4) [OF t] by (auto simp: conn_fix_def f(2,3))
  next
    case False
    then have "w_conns w k = Some ck" using k touchD(5) [OF t] by simp
    then have "conn_fix w k ck" using conns by (simp add: srv_conns_def)
    then show ?thesis unfolding conn_fix_def f(2,3) touch_other [OF conns heaps ok t False] touch_same(3) [OF t] .
  qed
next
  have names: "\<exists>cj'. w_conns w j = Some cj' \<and> c_name cj' = c_name cj" if "w_conns w' j = Some cj" for j cj
    using that conn_okD(1) [OF ok] same_idD(3) [OF touchD(2) [OF t]] by (cases "j = cid") (auto simp: touchD(5) [OF t])
  fix j cj k ck assume "w_conns w' j = Some cj" "w_conns w' k = Some ck" "c_name cj = c_name ck"
  with names [of j cj] names [of k ck] srv_names [OF conns] show "j = k" by metis
next
  fix n k assume "s_connections w' n = Some k"
  then obtain ck where "w_conns w k = Some ck" "c_name ck = n" using srv_mapD [OF conns] touch_frame(4) [OF t] by metis
  then show "\<exists>c. w_conns w' k = Some c \<and> c_name c = n"
    using touchD(5) [OF t] same_idD(3) [OF touchD(2) [OF t]] conn_okD(1) [OF ok] by (cases "k = cid") auto
qed

lemma touch_queues:
  assumes queues: "srv_queues T w" and conns: "srv_conns w" and heaps: "srv_heaps w" and ok: "conn_ok cid c ch w"
    and t: "touch cid c ch c' ch' w w'" and tied: "ch_tied ch'" and est: "F_connectEstablished cid \<notin> set (fut T w (c_loop c))"
  shows "srv_queues T w'"
proof -
  note f = touch_frame [OF t]
  have keep: "\<exists>c1 ch1. conn_ok k c1 ch1 w' \<and> c_loop c1 = c_loop ck \<and> in_map w' k c1 = in_map w k ck \<and> (ch_tied ch1 \<longleftrightarrow> ch_tied chk \<or> k = cid)"
    if "conn_ok k ck chk w" for k ck chk
  proof (cases "k = cid")
    case True
    then have "ck = c" using that conn_ok_unique_chan [OF ok] by simp
    then show ?thesis using touchD(1) [OF t] tied True touch_same(1) [OF t] same_idD(1) [OF touchD(2) [OF t]]
      by (intro exI [of _ c'] exI [of _ ch']) (simp add: f(11))
  next
    case False
    with that touch_other [OF conns heaps ok t, of k ck chk] show ?thesis by (intro exI [of _ ck] exI [of _ chk]) (simp add: f(11))
  qed
  have "functor_inv w' l g" if g: "functor_inv w l g" "g \<in> set (fut T w l)" for l g
  proof -
    have "g = F_connectEstablished cid \<Longrightarrow> False" using g est conn_ok_unique_chan [OF ok] by auto
    with g(1) keep show ?thesis by (cases g) (fastforce simp: f(1))+
  qed
  then show ?thesis using queues unfolding srv_queues_def f(3,10) by blast
qed

lemma touch_active:
  assumes active: "srv_active X T A w" and X: "X \<subseteq> {cid}" and conns: "srv_conns w'" and ch: "c_channel c = Suc cid"
    and t: "touch cid c ch c' ch' w w'" and tied: "ch_tied ch'"
    and lk: "linked T w cid c \<or> c_channel c \<notin> set (A (c_loop c))"
  shows "srv_active {} T A w'"
  unfolding srv_active_def touch_frame(3) [OF t]
proof (intro ballI)
  note f = touch_frame [OF t] and sid = same_idD [OF touchD(2) [OF t]]
  fix l ptr assume l: "l \<in> set (srv_loops w)" "ptr \<in> set (A l)"
  from active l obtain x where x: "chan_heap (poller (lget l w)) ptr = Some x"
    "\<And>k ck. w_conns w k = Some ck \<Longrightarrow> c_loop ck = l \<Longrightarrow> c_channel ck = ptr \<Longrightarrow> ch_tied x \<and> (k \<in> X \<or> linked T w k ck)"
    unfolding srv_active_def by blast
  show "\<exists>ch. chan_heap (poller (lget l w')) ptr = Some ch \<and>
      (\<forall>cid c. w_conns w' cid = Some c \<longrightarrow> c_loop c = l \<longrightarrow> c_channel c = ptr \<longrightarrow> ch_tied ch \<and> (cid \<in> {} \<or> linked T w' cid c))"
  proof (cases "l = c_loop c \<and> ptr = c_channel c")
    case True
    have "linked T w' cid c'" using lk l(2) True touch_same(2) [OF t] f(12) by blast
    then have "ch_tied ch' \<and> linked T w' k ck" if k: "w_conns w' k = Some ck" "c_channel ck = ptr" for k ck
      using k True ch srv_channel [OF conns k(1)] tied by (auto simp: touchD(5) [OF t])
    moreover have "chan_heap (poller (lget l w')) ptr = Some ch'" using True by (simp add: touch_heap [OF t])
    ultimately show ?thesis by blast
  next
    case False
    then have h: "chan_heap (poller (lget l w')) ptr = Some x" using x(1) by (auto simp: touch_heap [OF t])
    have "ch_tied x \<and> linked T w' k ck" if k: "w_conns w' k = Some ck" "c_loop ck = l" "c_channel ck = ptr" for k ck
    proof -
      have "k \<noteq> cid" using k False touchD(5) [OF t] sid by auto
      with k x(2) X touchD(5) [OF t] show ?thesis by (auto simp: f(12))
    qed
    with h show ?thesis by blast
  qed
qed

lemma core_touch:
  assumes core: "core X T A w" and X: "X \<subseteq> {cid}" and ok: "conn_ok cid c ch w" and t: "touch cid c ch c' ch' w w'"
    and tie: "ch_tied ch'" "ch_tie ch' = Some cid" and est: "F_connectEstablished cid \<notin> set (fut T w (c_loop c))"
    and lk: "linked T w cid c \<or> ch_index ch' = NEW \<and> c_channel c \<notin> set (A (c_loop c))"
  shows "core {} T A w'"
proof -
  note d = coreD [OF core] and f = touch_frame [OF t]
  have "srv_base w'"
    using d(1) server_fields [OF touchD(4) [OF t]] names_inv_more [OF touchD(4) [OF t]] by (simp add: srv_base_def srv_loops_def f(5))
  moreover have "srv_dyn {} T w'"
    unfolding srv_dyn_def
  proof (intro allI impI)
    fix k ck chk assume k: "conn_ok k ck chk w'"
    show "conn_dyn T w' k ck chk"
    proof (cases "k = cid")
      case True
      then have "ck = c'" "chk = ch'" using k touch_self [OF t] by simp_all
      then show ?thesis using tie(1) lk True by (auto simp: conn_dyn_def f(10,12) touch_same [OF t])
    next
      case False
      then have "conn_ok k ck chk w" "k \<notin> X" using k touch_other [OF d(3,2) ok t] X by auto
      then have "conn_dyn T w k ck chk" using d(4) unfolding srv_dyn_def by blast
      then show ?thesis by (simp add: conn_dyn_def f(10,12))
    qed
  qed
  moreover have conns: "srv_conns w'" by (rule touch_conns [OF d(3,2) ok t tie(2)])
  moreover have "srv_active {} T A w'"
    by (rule touch_active [OF d(6) X conns srv_connD(2) [OF d(3) ok] t tie(1)]) (use lk in blast)
  ultimately show ?thesis
    using touch_heaps [OF d(2,3) ok t] touch_queues [OF d(5,3,2) ok t tie(1) est] by (simp add: core_def)
qed

section \<open>Changes of the queues and of the server's map\<close>

definition same_core :: "server_world \<Rightarrow> server_world \<Rightarrow> bool" where
  "same_core w w' \<longleftrightarrow> w_conns w' = w_conns w \<and>
     (\<forall>a. poller (lget a w') = poller (lget a w) \<and> threadId (lget a w') = threadId (lget a w)) \<and>
     (\<exists>m. m \<subseteq>\<^sub>m s_connections w \<and> world.more w' = world.more (w\<lparr>s_connections := m\<rparr>))"

lemma same_coreD:
  assumes "same_core w w'"
  shows "w_conns w' = w_conns w" "poller (lget a w') = poller (lget a w)" "threadId (lget a w') = threadId (lget a w)"
    "s_loop w' = s_loop w" "s_fresh w' = s_fresh w" "srv_loops w' = srv_loops w" "s_connections w' \<subseteq>\<^sub>m s_connections w"
    "conn_ok k d x w' = conn_ok k d x w"
proof -
  obtain m where m: "m \<subseteq>\<^sub>m s_connections w" "world.more w' = world.more (w\<lparr>s_connections := m\<rparr>)"
    using assms by (auto simp: same_core_def)
  note f = server_fields [OF m(2)]
  show "w_conns w' = w_conns w" "poller (lget a w') = poller (lget a w)" "threadId (lget a w') = threadId (lget a w)"
    "conn_ok k d x w' = conn_ok k d x w"
    using assms by (simp_all add: same_core_def conn_ok_def)
  show "s_loop w' = s_loop w" "s_fresh w' = s_fresh w" "srv_loops w' = srv_loops w" "s_connections w' \<subseteq>\<^sub>m s_connections w"
    using f m(1) by (simp_all add: srv_loops_def)
qed

lemma map_le_Some: "m \<subseteq>\<^sub>m m' \<Longrightarrow> m x = Some y \<Longrightarrow> m' x = Some y"
  by (metis domI map_le_def)

lemma core_reframe:
  assumes core: "core X T A w" and same: "same_core w w'"
    and rest: "srv_dyn Y T' w'" "srv_queues T' w'" "srv_active Y T' A' w'"
  shows "core Y T' A' w'"
proof -
  note d = coreD [OF core] and s = same_coreD [OF same]
  obtain m where "m \<subseteq>\<^sub>m s_connections w" "world.more w' = world.more (w\<lparr>s_connections := m\<rparr>)"
    using same by (auto simp: same_core_def)
  note f = server_fields [OF this(2)]
  have named: "conn_named w' c = conn_named w c" for c unfolding conn_named_def f by simp
  have "names_inv w'"
    using d(1) map_le_Some [OF s(7)] unfolding srv_base_def names_inv_def f(4,9-11) by auto
  then have "srv_base w'" using d(1) unfolding srv_base_def s(6) s(3) f(3,5-8) by simp (simp add: f(1))
  moreover have "srv_heaps w'"
    using d(2) unfolding srv_heaps_def s(1,2,5,6) sys_chan_def s(4) .
  moreover have "srv_conns w'"
    using d(3) map_le_Some [OF s(7)] unfolding srv_conns_def conn_fix_def s(1,5,6,8) named by blast
  ultimately show ?thesis using rest by (simp add: core_def)
qed

text \<open>Queueing a functor.\<close>

lemma same_core_queue [simp]: "same_core w (queue_on tid l f w)"
  unfolding same_core_def by (auto intro!: exI [of _ "s_connections w"]) (simp add: queue_on_def)

lemma fut_queue: "fut T (queue_on tid l f w) a = fut T w a @ (if a = l then [f] else [])"
  by (simp add: fut_def queue_on_def loop_op_defs)

lemma queue_on_server [simp]:
  "s_loop (queue_on tid l f w) = s_loop w" "s_connections (queue_on tid l f w) = s_connections w"
  "srv_loops (queue_on tid l f w) = srv_loops w" "in_map (queue_on tid l f w) k d = in_map w k d"
  by (simp_all add: queue_on_def lput_def srv_loops_def in_map_def)

lemma linked_queue: "linked T w k d \<Longrightarrow> linked T (queue_on tid l f w) k d"
  by (auto simp: linked_def fut_queue)

lemma functor_inv_queue: "functor_inv (queue_on tid l f w) a g = functor_inv w a g"
  by (cases g) simp_all

lemma core_queue:
  assumes core: "core X T A w" and l: "l \<in> set (srv_loops w)" and inv: "functor_inv w l f"
    and once: "\<And>cid. f = F_connectEstablished cid \<Longrightarrow> f \<notin> set (fut T w l)"
    and Y: "Y \<subseteq> X" "\<And>cid. cid \<in> X - Y \<Longrightarrow> \<exists>c ch. conn_ok cid c ch w \<and>
      conn_dyn T (queue_on tid l f w) cid c ch \<and> linked T (queue_on tid l f w) cid c"
  shows "core Y T A (queue_on tid l f w)"
proof (rule core_reframe [OF core same_core_queue])
  let ?w = "queue_on tid l f w"
  note d = coreD [OF core]
  have resolved: "conn_dyn T ?w k c x \<and> linked T ?w k c" if "conn_ok k c x w" "k \<in> X - Y" for k c x
    using Y(2) [OF that(2)] conn_ok_unique_chan [OF that(1)] by blast
  show "srv_dyn Y T ?w"
    unfolding srv_dyn_def conn_ok_frame
  proof (intro allI impI)
    fix k c x assume k: "conn_ok k c x w" "k \<notin> Y"
    show "conn_dyn T ?w k c x"
    proof (cases "k \<in> X")
      case True
      then show ?thesis using resolved k by blast
    next
      case False
      then have "conn_dyn T w k c x" using d(4) k(1) unfolding srv_dyn_def by blast
      then show ?thesis using linked_queue by (auto simp: conn_dyn_def fut_queue)
    qed
  qed
  show "srv_queues T ?w"
    unfolding srv_queues_def queue_on_server
  proof (intro ballI conjI allI)
    fix a assume a: "a \<in> set (srv_loops w)"
    fix g assume "g \<in> set (fut T ?w a)"
    then show "functor_inv ?w a g"
      using srv_queueD(1) [OF d(5) a] inv unfolding functor_inv_queue by (auto simp: fut_queue split: if_splits)
  next
    fix a cid assume a: "a \<in> set (srv_loops w)"
    show "count_list (fut T ?w a) (F_connectEstablished cid) \<le> 1"
      using srv_queueD(2) [OF d(5) a, of cid] once [of cid] by (auto simp: fut_queue count_list_0_iff)
  qed
  show "srv_active Y T A ?w"
    unfolding srv_active_def queue_on_server queue_on_simps
  proof (intro ballI)
    fix a ptr assume a: "a \<in> set (srv_loops w)" "ptr \<in> set (A a)"
    with d(6) obtain x where x: "chan_heap (poller (lget a w)) ptr = Some x"
      "\<And>k c. w_conns w k = Some c \<Longrightarrow> c_loop c = a \<Longrightarrow> c_channel c = ptr \<Longrightarrow> ch_tied x \<and> (k \<in> X \<or> linked T w k c)"
      unfolding srv_active_def by blast
    have "k \<in> Y \<or> linked T ?w k c" if k: "w_conns w k = Some c" "c_loop c = a" "c_channel c = ptr" for k c
    proof -
      obtain y where "conn_ok k c y w" using srv_conns_ok [OF d(3) k(1)] by blast
      with resolved [of k c y] x(2) [OF k] linked_queue show ?thesis by blast
    qed
    with x show "\<exists>ch. chan_heap (poller (lget a w)) ptr = Some ch \<and>
      (\<forall>k c. w_conns w k = Some c \<longrightarrow> c_loop c = a \<longrightarrow> c_channel c = ptr \<longrightarrow> ch_tied ch \<and> (k \<in> Y \<or> linked T ?w k c))" by blast
  qed
qed

text \<open>Taking a connection out of the map.\<close>

definition unmap :: "tcp_connection \<Rightarrow> server_world \<Rightarrow> server_world" where
  "unmap c w = w\<lparr>s_connections := (s_connections w)(c_name c := None)\<rparr>"

lemma unmap_simps [simp]:
  "w_conns (unmap c w) = w_conns w" "lget a (unmap c w) = lget a w" "s_loop (unmap c w) = s_loop w"
  "srv_loops (unmap c w) = srv_loops w" "fut T (unmap c w) = fut T w" "conn_ok k d x (unmap c w) = conn_ok k d x w"
  "in_map (unmap c w) k d \<longleftrightarrow> in_map w k d \<and> c_name d \<noteq> c_name c"
  by (auto simp: unmap_def lget_def srv_loops_def fut_def conn_ok_def in_map_def fun_eq_iff)

lemma same_core_unmap: "same_core w (unmap c w)"
  unfolding same_core_def
  by (auto simp: unmap_def lget_def map_le_def intro!: exI [of _ "(s_connections w)(c_name c := None)"] split: if_splits)

lemma core_unmap:
  assumes core: "core X T A w" and X: "X \<subseteq> {cid}" and ok: "conn_ok cid c ch w" and tied: "ch_tied ch"
  shows "core {cid} T A (unmap c w)"
proof (rule core_reframe [OF core same_core_unmap])
  note d = coreD [OF core]
  have other: "c_name ck \<noteq> c_name c" if "w_conns w k = Some ck" "k \<noteq> cid" for k ck
    using srv_names [OF d(3) that(1) conn_okD(1) [OF ok]] that(2) by blast
  then have lk: "linked T (unmap c w) k ck = linked T w k ck" if "w_conns w k = Some ck" "k \<noteq> cid" for k ck
    using that by (simp add: linked_def)
  show "srv_dyn {cid} T (unmap c w)"
    unfolding srv_dyn_def unmap_simps
  proof (intro allI impI)
    fix k ck x assume k: "conn_ok k ck x w" "k \<notin> {cid}"
    then have "conn_dyn T w k ck x" using d(4) X unfolding srv_dyn_def by blast
    then show "conn_dyn T (unmap c w) k ck x" using lk [OF conn_okD(1) [OF k(1)]] k(2) by (simp add: conn_dyn_def)
  qed
  have "functor_inv (unmap c w) l g" if "functor_inv w l g" for l g
  proof (cases g)
    case (F_connectEstablished k)
    with that obtain ck x where k: "conn_ok k ck x w" "c_loop ck = l" "in_map w k ck" "\<not> ch_tied x" by auto
    then have "k \<noteq> cid" using conn_ok_unique_chan [OF ok] tied by auto
    with k other [OF conn_okD(1) [OF k(1)]] F_connectEstablished show ?thesis by auto
  qed (use that in auto)
  then show "srv_queues T (unmap c w)" using d(5) unfolding srv_queues_def unmap_simps by blast
  show "srv_active {cid} T A (unmap c w)"
    unfolding srv_active_def unmap_simps
  proof (intro ballI)
    fix a ptr assume a: "a \<in> set (srv_loops w)" "ptr \<in> set (A a)"
    with d(6) obtain x where x: "chan_heap (poller (lget a w)) ptr = Some x"
      "\<And>k c. w_conns w k = Some c \<Longrightarrow> c_loop c = a \<Longrightarrow> c_channel c = ptr \<Longrightarrow> ch_tied x \<and> (k \<in> X \<or> linked T w k c)"
      unfolding srv_active_def by blast
    with X lk show "\<exists>ch. chan_heap (poller (lget a w)) ptr = Some ch \<and>
      (\<forall>k d. w_conns w k = Some d \<longrightarrow> c_loop d = a \<longrightarrow> c_channel d = ptr \<longrightarrow> ch_tied ch \<and> (k \<in> {cid} \<or> linked T (unmap c w) k d))"
      by blast
  qed
qed

lemma core_unmap_queue:
  assumes core: "core X T A w" and X: "X \<subseteq> {cid}" and ok: "conn_ok cid c ch w" and tied: "ch_tied ch"
  shows "core {} T A (queue_on tid (c_loop c) (F_connectDestroyed cid) (unmap c w))"
proof (rule core_queue [OF core_unmap [OF core X ok tied]])
  show "c_loop c \<in> set (srv_loops (unmap c w))" using srv_connD(3) [OF coreD(3) [OF core] ok] by simp
  show "functor_inv (unmap c w) (c_loop c) (F_connectDestroyed cid)" using ok tied by auto
  show "\<exists>c' ch'. conn_ok k c' ch' (unmap c w) \<and>
      conn_dyn T (queue_on tid (c_loop c) (F_connectDestroyed cid) (unmap c w)) k c' ch' \<and>
      linked T (queue_on tid (c_loop c) (F_connectDestroyed cid) (unmap c w)) k c'" if "k \<in> {cid} - {}" for k
    using that ok tied by (intro exI [of _ c] exI [of _ ch]) (simp add: linked_def conn_dyn_def fut_queue)
qed simp_all

lemma core_request_close:
  assumes core: "core {} T A w" and ok: "conn_ok cid c ch w" and tied: "ch_tied ch"
  shows "core {} T A (request_close tid cid c w)"
proof (cases "isInLoopThread tid (lget (s_loop w) w)")
  case True
  then show ?thesis using core_unmap_queue [OF core _ ok tied] by (simp add: request_close_def unmap_def)
next
  case False
  have "core {} T A (queue_on tid (s_loop w) (F_removeConnectionInLoop cid) w)"
    by (rule core_queue [OF core]) (use ok tied in \<open>auto simp: srv_loops_def\<close>)
  with False show ?thesis by (simp add: request_close_def)
qed

end
