(* ===== verification/System_Handlers.thy ===== *)
theory System_Handlers
  imports System_Updates
begin

text \<open>
  The functors of the server and the callbacks of a connection's channel, run in a state that satisfies the
  invariant: none of them fails, and each one's effect on the connection, its queues and its bytes.
\<close>

section \<open>Calling a functor\<close>

lemma fut_drop:
  assumes "T l = f # fs"
  shows "fut T w l = f # fut (T(l := fs)) w l" "a \<noteq> l \<Longrightarrow> fut (T(l := fs)) w a = fut T w a"
    "set (fut T w a) = set (fut (T(l := fs)) w a) \<union> (if a = l then {f} else {})"
  using assms by (auto simp: fut_def)

lemma core_drop:
  assumes core: "core {} T A w" and l: "l \<in> set (srv_loops w)" and T: "T l = f # fs"
    and f: "f \<in> {F_connectEstablished cid, F_connectDestroyed cid, F_removeConnectionInLoop cid}"
  shows "core {cid} (T(l := fs)) A w"
proof (rule core_reframe [OF core])
  let ?T = "T(l := fs)"
  note d = coreD [OF core] and drop = fut_drop [where w = w and T = T and l = l, OF T]
  have other: "g \<in> set (fut ?T w a) \<longleftrightarrow> g \<in> set (fut T w a)" if "g \<noteq> f" for g a
    using that drop(3) [of a] by (simp split: if_splits)
  have lk: "linked ?T w k c = linked T w k c" if "k \<noteq> cid" for k c
    using that f by (auto simp: linked_def other)
  show "same_core w w" by (auto simp: same_core_def intro: exI [of _ "s_connections w"])
  show "srv_dyn {cid} ?T w"
    unfolding srv_dyn_def
  proof (intro allI impI)
    fix k c x assume k: "conn_ok k c x w" "k \<notin> {cid}"
    then have "conn_dyn T w k c x" using d(4) unfolding srv_dyn_def by blast
    moreover have "F_connectEstablished k \<noteq> f" using f k(2) by auto
    ultimately show "conn_dyn ?T w k c x" using lk other k(2) by (simp add: conn_dyn_def)
  qed
  show "srv_queues ?T w"
    unfolding srv_queues_def
  proof (intro ballI conjI allI)
    fix a k assume a: "a \<in> set (srv_loops w)"
    show "count_list (fut ?T w a) (F_connectEstablished k) \<le> 1"
      using srv_queueD(2) [OF d(5) a, of k] drop(1) drop(2) [of a] by (cases "a = l") (auto split: if_splits)
    fix g assume "g \<in> set (fut ?T w a)"
    then show "functor_inv w a g" using srv_queueD(1) [OF d(5) a] drop(3) [of a] by blast
  qed
  show "srv_active {cid} ?T A w"
    using d(6) lk unfolding srv_active_def by (metis empty_iff insertI1)
qed

lemma exec_established:
  assumes core: "core {} T A w" and l: "l \<in> set (srv_loops w)" and T: "T l = F_connectEstablished cid # fs"
  shows "\<exists>w' c ch ch'. exec_functor os (echo_user o' tid) tid (F_connectEstablished cid) w = Inr w' \<and>
    core {} (T(l := fs)) A w' \<and> conn_ok cid c ch w \<and> c_loop c = l \<and> in_map w cid c \<and> \<not> ch_tied ch \<and>
    touch cid c ch (c\<lparr>c_state := kConnected\<rparr>) ch' w w' \<and> ch_tied ch' \<and> (out_sync c ch \<longrightarrow> sound (c\<lparr>c_state := kConnected\<rparr>) ch') \<and>
    F_connectEstablished cid \<notin> set (fut (T(l := fs)) w l) \<and> (\<forall>fd. wire fd w' = wire fd w)"
proof -
  note d = coreD [OF core] and drop = fut_drop [where w = w and T = T and l = l, OF T]
  have "functor_inv w l (F_connectEstablished cid)" by (rule srv_queueD(1) [OF d(5) l]) (simp add: drop(1))
  then obtain c ch where c: "conn_ok cid c ch w" "c_loop c = l" "in_map w cid c" "\<not> ch_tied ch" by auto
  obtain cb where cb: "connectionCallback c = Some cb" using srv_connD(4) [OF d(3) c(1)] by blast
  obtain w' ch' where e: "connectEstablished (server_user tid (echo_user o' tid)) cid w = Inr w'"
    "touch cid c ch (c\<lparr>c_state := kConnected\<rparr>) ch' w w'" "ch_tied ch'" "ch_tie ch' = Some cid"
    "out_sync c ch \<longrightarrow> sound (c\<lparr>c_state := kConnected\<rparr>) ch'" "\<forall>fd. wire fd w' = wire fd w"
    using connectEstablished_effect [OF c(1) cb, of tid o' tid] by blast
  have once: "F_connectEstablished cid \<notin> set (fut (T(l := fs)) w l)"
    using srv_queueD(2) [OF d(5) l, of cid] unfolding drop(1) by (simp add: count_list_0_iff)
  have "core {cid} (T(l := fs)) A w" by (rule core_drop [OF core l T]) simp
  from core_touch [OF this subset_refl c(1) e(2) e(3,4)] once c(2,3) have "core {} (T(l := fs)) A w'"
    by (simp add: linked_def)
  with e c once show ?thesis by (intro exI [of _ w'] exI [of _ c] exI [of _ ch] exI [of _ ch']) (simp add: exec_functor_def)
qed

lemma exec_destroyed:
  assumes core: "core {} T A w" and l: "l \<in> set (srv_loops w)" and T: "T l = F_connectDestroyed cid # fs" and A: "A l = []"
  shows "\<exists>w' c ch ch'. exec_functor os (echo_user o' tid) tid (F_connectDestroyed cid) w = Inr w' \<and>
    core {} (T(l := fs)) A w' \<and> conn_ok cid c ch w \<and> c_loop c = l \<and> \<not> in_map w cid c \<and> ch_tied ch \<and>
    touch cid c ch (if c_state c = kConnected then c\<lparr>c_state := kDisconnected\<rparr> else c) ch' w w' \<and> ch_tied ch' \<and> ch_index ch' = NEW \<and>
    (\<forall>fd. wire fd w' = wire fd w)"
proof -
  note d = coreD [OF core] and drop = fut_drop [where w = w and T = T and l = l, OF T]
  have "functor_inv w l (F_connectDestroyed cid)" by (rule srv_queueD(1) [OF d(5) l]) (simp add: drop(1))
  then obtain c ch where c: "conn_ok cid c ch w" "c_loop c = l" "\<not> in_map w cid c" "ch_tied ch" by auto
  obtain cb where cb: "connectionCallback c = Some cb" using srv_connD(4) [OF d(3) c(1)] by blast
  obtain w' ch' where e: "connectDestroyed (server_user tid (echo_user o' tid)) cid w = Inr w'"
    "touch cid c ch (if c_state c = kConnected then c\<lparr>c_state := kDisconnected\<rparr> else c) ch' w w'" "ch_index ch' = NEW"
    "ch_tied ch' = ch_tied ch" "ch_tie ch' = ch_tie ch" "\<forall>fd. wire fd w' = wire fd w"
    using connectDestroyed_effect [OF c(1) cb, of tid o' tid] by blast
  have "core {cid} (T(l := fs)) A w" by (rule core_drop [OF core l T]) simp
  from core_touch [OF this subset_refl c(1) e(2)] e(3-5) c(2,4) A srv_connD(9) [OF d(3) c(1)]
    tied_not_connecting [OF coreD(5) [OF this] c(1,4) l]
  have "core {} (T(l := fs)) A w'" by simp
  with e c show ?thesis
    by (intro exI [of _ w'] exI [of _ c] exI [of _ ch] exI [of _ ch']) (simp add: exec_functor_def)
qed

lemma exec_remove:
  assumes core: "core {} T A w" and l: "l \<in> set (srv_loops w)" and T: "T l = F_removeConnectionInLoop cid # fs"
  shows "\<exists>w' c ch. exec_functor os (echo_user o' tid) tid (F_removeConnectionInLoop cid) w = Inr w' \<and>
    core {} (T(l := fs)) A w' \<and> conn_ok cid c ch w \<and> ch_tied ch \<and> l = s_loop w \<and>
    w' = queue_on tid (c_loop c) (F_connectDestroyed cid) (unmap c w)"
proof -
  note d = coreD [OF core] and drop = fut_drop [where w = w and T = T and l = l, OF T]
  have "functor_inv w l (F_removeConnectionInLoop cid)" by (rule srv_queueD(1) [OF d(5) l]) (simp add: drop(1))
  then obtain c ch where c: "conn_ok cid c ch w" "l = s_loop w" "ch_tied ch" by auto
  have "core {cid} (T(l := fs)) A w" by (rule core_drop [OF core l T]) simp
  from core_unmap_queue [OF this subset_refl c(1,3), of tid] c show ?thesis
    by (intro exI [of _ "queue_on tid (c_loop c) (F_connectDestroyed cid) (unmap c w)"] exI [of _ c] exI [of _ ch])
       (simp add: exec_functor_def removeConnectionInLoop_def unmap_def conn_okD(1))
qed

lemma functor_inv_cases:
  assumes "functor_inv w l f"
  obtains (established) cid where "f = F_connectEstablished cid" | (destroyed) cid where "f = F_connectDestroyed cid"
    | (remove) cid where "f = F_removeConnectionInLoop cid"
  using assms by (cases f) auto

section \<open>Handling a channel of a connection\<close>

text \<open>All bytes of a connection from the kernel's receive side to its send side that the server has taken over.\<close>

definition stream :: "tcp_connection \<Rightarrow> 'z world_scheme \<Rightarrow> bytes" where
  "stream c w = wire (c_sockfd c) w @ content (outputBuffer c) @ content (inputBuffer c)"

text \<open>What one callback of a connection does, with the bytes it read.\<close>

definition conn_effect :: "os_calls \<Rightarrow> int \<Rightarrow> nat \<Rightarrow> bytes \<Rightarrow> server_world \<Rightarrow> server_world \<Rightarrow> bool" where
  "conn_effect os tid cid bs w w' \<longleftrightarrow> (\<exists>c ch c1 ch1 w1. conn_ok cid c ch w \<and> ch_tied ch \<and>
     touch cid c ch c1 ch1 w w1 \<and> c_state c1 = c_state c \<and> ch_tied ch1 = ch_tied ch \<and> ch_tie ch1 = ch_tie ch \<and>
     (\<forall>fd. fd \<noteq> c_sockfd c \<longrightarrow> wire fd w1 = wire fd w) \<and>
     (content (inputBuffer c) = [] \<longrightarrow> content (inputBuffer c1) = []) \<and>
     (w' = w1 \<and> (sound c ch \<longrightarrow> sound c1 ch1) \<or> w' = request_close tid cid c1 w1) \<and>
     (c_state c = kConnected \<and> no_fault os \<longrightarrow> stream c1 w1 = stream c w @ bs))"

lemma request_close_simps [simp]:
  "w_conns (request_close tid cid c w) = w_conns w" "conn_ok k d x (request_close tid cid c w) = conn_ok k d x w"
  "poller (lget a (request_close tid cid c w)) = poller (lget a w)"
  "threadId (lget a (request_close tid cid c w)) = threadId (lget a w)"
  "wire fd (request_close tid cid c w) = wire fd w" "srv_loops (request_close tid cid c w) = srv_loops w"
  by (simp_all add: request_close_def unmap_def [symmetric]) (simp add: unmap_def wire_def)

lemma active_linked:
  assumes "core X T A w" and ok: "conn_ok cid c ch w" and "c_channel c \<in> set (A (c_loop c))"
  shows "ch_tied ch" "cid \<in> X \<or> linked T w cid c"
proof -
  have "c_loop c \<in> set (srv_loops w)" by (rule srv_connD(3) [OF coreD(3) [OF assms(1)] ok])
  then have "ch_tied ch \<and> (cid \<in> X \<or> linked T w cid c)"
    using coreD(6) [OF assms(1)] assms(3) conn_okD(1,4) [OF ok] unfolding srv_active_def by fastforce
  then show "ch_tied ch" "cid \<in> X \<or> linked T w cid c" by blast+
qed

lemma core_effect:
  assumes core: "core {} T A w" and e: "conn_effect os tid cid bs w w'"
    and act: "\<And>c. w_conns w cid = Some c \<Longrightarrow> c_channel c \<in> set (A (c_loop c))"
  shows "core {} T A w'"
proof -
  from e obtain c ch c1 ch1 w1 where c: "conn_ok cid c ch w" "ch_tied ch" "touch cid c ch c1 ch1 w w1"
    "ch_tied ch1 = ch_tied ch" "ch_tie ch1 = ch_tie ch" and w': "w' = w1 \<or> w' = request_close tid cid c1 w1"
    unfolding conn_effect_def by blast
  have lk: "linked T w cid c" using active_linked(2) [OF core c(1) act [OF conn_okD(1) [OF c(1)]]] by simp
  note d = coreD [OF core]
  have 1: "core {} T A w1"
    by (rule core_touch [OF core _ c(1,3)])
       (use c lk srv_connD(9) [OF d(3) c(1)] tied_not_connecting [OF d(5) c(1,2) srv_connD(3) [OF d(3) c(1)]] in auto)
  from core_request_close [OF 1 touchD(1) [OF c(3)], of tid] c(2,4) 1 w' show ?thesis by auto
qed

definition read_bytes :: "server_os \<Rightarrow> tcp_connection \<Rightarrow> callback_t \<Rightarrow> bytes" where
  "read_bytes os c cb = (case cb of
     Cb_handleRead cid \<Rightarrow> (case os_readv os (c_sockfd c) (read_iov (inputBuffer c)) of Inr bs \<Rightarrow> bs | Inl e \<Rightarrow> [])
   | _ \<Rightarrow> [])"

lemma stream_request_close [simp]: "stream c (request_close tid cid d w) = stream c w"
  by (simp add: stream_def)

lemma conn_effectI:
  assumes "conn_ok cid c ch w" and "ch_tied ch" and "serves cid c ch c1 ch1 w w1"
    and "content (inputBuffer c) = [] \<longrightarrow> content (inputBuffer c1) = []"
    and "c_state c = kConnected \<and> no_fault os \<longrightarrow> stream c1 w1 = stream c w @ bs"
  shows "conn_effect os tid cid bs w w1"
  unfolding conn_effect_def
  by (intro exI [of _ c] exI [of _ ch] exI [of _ c1] exI [of _ ch1] exI [of _ w1])
     (use assms servesD [OF assms(3)] in auto)

lemma conn_effect_closeI:
  assumes "conn_ok cid c ch w" and "ch_tied ch" and t: "touch cid c ch c1 ch1 w w1" and "c_state c1 = c_state c"
    and "ch_tied ch1 = ch_tied ch" "ch_tie ch1 = ch_tie ch" and wire: "\<forall>fd. wire fd w1 = wire fd w"
    and buf: "content (outputBuffer c1) = content (outputBuffer c)" "content (inputBuffer c1) = content (inputBuffer c)"
  shows "conn_effect os tid cid [] w (request_close tid cid c1 w1)"
  unfolding conn_effect_def
  by (intro exI [of _ c] exI [of _ ch] exI [of _ c1] exI [of _ ch1] exI [of _ w1])
     (use assms same_idD(4) [OF touchD(2) [OF t]] in \<open>auto simp: stream_def\<close>)

lemma call_effect:
  fixes os :: server_os
  defines "o' \<equiv> os_calls.truncate os"
  assumes conns: "srv_conns w" and ok: "conn_ok cid c ch w" and tied: "ch_tied ch" and here: "threadId (lget (c_loop c) w) = tid"
    and os: "readv_ok (os_readv os)" "write_ok (os_write os)"
    and cb: "cb \<in> {Cb_handleRead cid, Cb_handleWrite cid, Cb_handleClose cid, Cb_handleError cid}"
    and room: "cb = Cb_handleRead cid \<Longrightarrow> read_room c"
  shows "\<exists>w'. call_callback os (echo_user o' tid) tid now cb w = Inr w' \<and> conn_effect o' tid cid (read_bytes os c cb) w w' \<and>
    (cb \<in> {Cb_handleClose cid, Cb_handleError cid} \<longrightarrow> w_conns w' = w_conns w)"
proof -
  obtain x y where cbs: "connectionCallback c = Some x" "messageCallback c = Some y" "writeCompleteCallback c = None" "connCloseCallback c"
    using srv_connD(4-7) [OF conns ok] by blast
  from cb consider "cb = Cb_handleRead cid" | "cb = Cb_handleWrite cid" | "cb = Cb_handleClose cid" | "cb = Cb_handleError cid" by blast
  then show ?thesis
  proof cases
    case 1
    note r = handleRead_effect [OF ok room [OF 1] here cbs, of o' now, unfolded o'_def truncate_os, OF os, folded o'_def]
    from r show ?thesis
    proof (elim disjE exE conjE)
      fix w' c' ch' assume h: "handleRead o' (server_user tid (echo_user o' tid)) now cid w = Inr w'" "serves cid c ch c' ch' w w'"
        "content (inputBuffer c) = [] \<longrightarrow> content (inputBuffer c') = []"
        "c_state c = kConnected \<and> no_fault o' \<longrightarrow> wire (c_sockfd c) w' @ content (outputBuffer c') @ content (inputBuffer c') =
          wire (c_sockfd c) w @ content (outputBuffer c) @ content (inputBuffer c) @
          (case os_readv os (c_sockfd c) (read_iov (inputBuffer c)) of Inl e \<Rightarrow> [] | Inr bs \<Rightarrow> bs)"
      have "conn_effect o' tid cid (read_bytes os c cb) w w'"
        by (rule conn_effectI [OF ok tied h(2,3)]) (use h(4) same_idD(4) [OF servesD(8) [OF h(2)]] 1 in \<open>simp add: stream_def read_bytes_def\<close>)
      with h(1) 1 show ?thesis by (simp add: call_callback_def o'_def)
    next
      fix w1 c1 ch1 assume h: "handleRead o' (server_user tid (echo_user o' tid)) now cid w = Inr (request_close tid cid c1 w1)"
        "touch cid c ch c1 ch1 w w1" "ch_tied ch1 = ch_tied ch" "ch_tie ch1 = ch_tie ch" "c_state c1 = c_state c"
        "\<forall>fd. wire fd w1 = wire fd w" "os_readv os (c_sockfd c) (read_iov (inputBuffer c)) = Inr []"
        "content (outputBuffer c1) = content (outputBuffer c)" "content (inputBuffer c1) = content (inputBuffer c)"
      have "conn_effect o' tid cid (read_bytes os c cb) w (request_close tid cid c1 w1)"
        using conn_effect_closeI [OF ok tied h(2,5,3,4,6,8,9)] h(7) 1 by (simp add: read_bytes_def)
      with h(1) 1 show ?thesis by (simp add: call_callback_def o'_def)
    qed
  next
    case 2
    obtain w' b ch' where h: "handleWrite o' tid cid w = Inr w'" "serves cid c ch (c\<lparr>outputBuffer := b\<rparr>) ch' w w'"
      "wire (c_sockfd c) w' @ content b = wire (c_sockfd c) w @ content (outputBuffer c)"
      using handleWrite_serves [OF ok cbs(3), of o' tid] os(2) by (auto simp: o'_def)
    have "stream (c\<lparr>outputBuffer := b\<rparr>) w' = stream c w" using h(3) unfolding stream_def by (simp flip: append_assoc)
    then have "conn_effect o' tid cid (read_bytes os c cb) w w'"
      by (intro conn_effectI [OF ok tied h(2)]) (simp_all add: read_bytes_def 2)
    with h(1) 2 show ?thesis by (simp add: call_callback_def o'_def)
  next
    case 3
    obtain w1 ch1 where h: "handleClose (server_user tid (echo_user o' tid)) cid w = Inr (request_close tid cid c w1)"
      "touch cid c ch c ch1 w w1" "ch_tied ch1 = ch_tied ch" "ch_tie ch1 = ch_tie ch" "\<forall>fd. wire fd w1 = wire fd w"
      using handleClose_effect [OF ok cbs(1,4), of tid o' tid] by blast
    have "conn_effect o' tid cid (read_bytes os c cb) w (request_close tid cid c w1)"
      using conn_effect_closeI [OF ok tied h(2) refl h(3-5) refl refl] 3 by (simp add: read_bytes_def)
    moreover have "w_conns w1 = w_conns w" using touchD(5) [OF h(2)] conn_okD(1) [OF ok] by (simp add: fun_upd_idem)
    ultimately show ?thesis using h(1) 3 by (simp add: call_callback_def)
  next
    case 4
    obtain w' where h: "handleError o' cid w = Inr w'" "serves cid c ch c ch w w'" "wire (c_sockfd c) w' = wire (c_sockfd c) w"
      using handleError_serves [OF ok] by blast
    have "conn_effect o' tid cid (read_bytes os c cb) w w'"
      by (rule conn_effectI [OF ok tied h(2)]) (use h(3) 4 in \<open>simp_all add: stream_def read_bytes_def\<close>)
    moreover have "w_conns w' = w_conns w" using touchD(5) [OF servesD(1) [OF h(2)]] conn_okD(1) [OF ok] by (simp add: fun_upd_idem)
    ultimately show ?thesis using h(1) 4 by (simp add: call_callback_def o'_def)
  qed
qed

text \<open>The callbacks of one report, one after the other.\<close>

inductive conn_effects :: "os_calls \<Rightarrow> int \<Rightarrow> nat \<Rightarrow> bytes \<Rightarrow> server_world \<Rightarrow> server_world \<Rightarrow> bool"
  for os :: os_calls and tid :: int and cid :: nat where
  no_effect: "conn_effects os tid cid [] w w"
| one_more: "conn_effects os tid cid bs w w1 \<Longrightarrow> conn_effect os tid cid bs' w1 w2 \<Longrightarrow> conn_effects os tid cid (bs @ bs') w w2"

lemma conn_effects_trans:
  assumes "conn_effects os tid cid bs' w1 w2" and "conn_effects os tid cid bs w w1"
  shows "conn_effects os tid cid (bs @ bs') w w2"
  using assms by (induction rule: conn_effects.induct) (auto simp flip: append_assoc intro: one_more)

lemma conn_effect_frame:
  assumes "conn_effect os tid cid bs w w'"
  shows "\<exists>c c1. w_conns w cid = Some c \<and> w_conns w' = (w_conns w)(cid \<mapsto> c1) \<and> same_id c c1"
    "threadId (lget a w') = threadId (lget a w)"
proof -
  from assms obtain c ch c1 ch1 w1 where c: "conn_ok cid c ch w" "touch cid c ch c1 ch1 w w1"
    "w' = w1 \<or> w' = request_close tid cid c1 w1" unfolding conn_effect_def by blast
  then show "\<exists>c c1. w_conns w cid = Some c \<and> w_conns w' = (w_conns w)(cid \<mapsto> c1) \<and> same_id c c1"
    using conn_okD(1) [OF c(1)] touchD(2,5) [OF c(2)] by auto
  show "threadId (lget a w') = threadId (lget a w)" using c(3) touch_frame(5) [OF c(2)] by auto
qed

text \<open>The state in which the callbacks of connection \<open>cid\<close> are called: its channel is in the active list of its loop.\<close>

definition dispatching :: "(nat \<Rightarrow> functor_t list) \<Rightarrow> (nat \<Rightarrow> nat list) \<Rightarrow> int \<Rightarrow> nat \<Rightarrow> server_world \<Rightarrow> bool" where
  "dispatching T A tid cid w \<longleftrightarrow> core {} T A w \<and> (\<exists>c. w_conns w cid = Some c \<and> c_channel c \<in> set (A (c_loop c)) \<and>
     threadId (lget (c_loop c) w) = tid)"

lemma dispatching_effect:
  assumes "dispatching T A tid cid w" and e: "conn_effect os tid cid bs w w'"
  shows "dispatching T A tid cid w'"
proof -
  from assms(1) obtain c where core: "core {} T A w" and c: "w_conns w cid = Some c" "c_channel c \<in> set (A (c_loop c))"
    "threadId (lget (c_loop c) w) = tid" by (auto simp: dispatching_def)
  from conn_effect_frame(1) [OF e] c(1) obtain c1 where c1: "w_conns w' = (w_conns w)(cid \<mapsto> c1)" "same_id c c1" by auto
  have "core {} T A w'" by (rule core_effect [OF core e]) (use c in simp)
  then show ?thesis using c1 c(2,3) same_idD(1,2) [OF c1(2)] conn_effect_frame(2) [OF e] by (simp add: dispatching_def)
qed

lemma call_dispatching:
  fixes os :: server_os
  defines "o' \<equiv> os_calls.truncate os"
  assumes disp: "dispatching T A tid cid w" and c: "w_conns w cid = Some c"
    and os: "readv_ok (os_readv os)" "write_ok (os_write os)"
    and cb: "cb \<in> {Cb_handleRead cid, Cb_handleWrite cid, Cb_handleClose cid, Cb_handleError cid}"
    and room: "cb = Cb_handleRead cid \<Longrightarrow> read_room c"
  shows "\<exists>w'. call_callback os (echo_user o' tid) tid now cb w = Inr w' \<and> conn_effect o' tid cid (read_bytes os c cb) w w' \<and>
    dispatching T A tid cid w' \<and> (cb \<in> {Cb_handleClose cid, Cb_handleError cid} \<longrightarrow> w_conns w' = w_conns w)"
proof -
  from disp c have core: "core {} T A w" and act: "c_channel c \<in> set (A (c_loop c))" "threadId (lget (c_loop c) w) = tid"
    by (auto simp: dispatching_def)
  obtain ch where ok: "conn_ok cid c ch w" using srv_conns_ok [OF coreD(3) [OF core] c] by blast
  from call_effect [OF coreD(3) [OF core] ok active_linked(1) [OF core ok act(1)] act(2) os cb room, of now, folded o'_def]
    dispatching_effect [OF disp] show ?thesis by blast
qed

lemma calls_quietly:
  fixes os :: server_os
  defines "o' \<equiv> os_calls.truncate os"
  assumes "dispatching T A tid cid w" and os: "readv_ok (os_readv os)" "write_ok (os_write os)"
    and fs: "set fs \<subseteq> {Some (Cb_handleClose cid), Some (Cb_handleError cid)}"
  shows "\<exists>w'. call_all (call_callback os (echo_user o' tid) tid now) fs w = Inr w' \<and> conn_effects o' tid cid [] w w' \<and>
    dispatching T A tid cid w' \<and> w_conns w' = w_conns w"
  using assms(2) fs
proof (induction fs arbitrary: w)
  case Nil
  then show ?case by (auto intro: no_effect)
next
  case (Cons f fs)
  then obtain cb where cb: "f = Some cb" "cb \<in> {Cb_handleClose cid, Cb_handleError cid}" by auto
  obtain c where c: "w_conns w cid = Some c" using Cons.prems(1) by (auto simp: dispatching_def)
  obtain w1 where w1: "call_callback os (echo_user o' tid) tid now cb w = Inr w1" "conn_effect o' tid cid (read_bytes os c cb) w w1"
    "dispatching T A tid cid w1" "w_conns w1 = w_conns w"
    using call_dispatching [OF Cons.prems(1) c os, of cb now, folded o'_def] cb(2) by auto
  obtain w2 where w2: "call_all (call_callback os (echo_user o' tid) tid now) fs w1 = Inr w2" "conn_effects o' tid cid [] w1 w2"
    "dispatching T A tid cid w2" "w_conns w2 = w_conns w1"
    using Cons.IH [OF w1(3)] Cons.prems(2) by auto
  have "read_bytes os c cb = []" using cb(2) by (auto simp: read_bytes_def)
  with one_more [OF no_effect w1(2)] have "conn_effects o' tid cid [] w w1" by simp
  from conn_effects_trans [OF w2(2) this] w1 w2 cb(1) show ?case by (simp add: call_if_set_def)
qed

lemma calls_one:
  fixes os :: server_os
  defines "o' \<equiv> os_calls.truncate os"
  assumes disp: "dispatching T A tid cid w" and c: "w_conns w cid = Some c" and os: "readv_ok (os_readv os)" "write_ok (os_write os)"
    and cb: "cb \<in> {Cb_handleRead cid, Cb_handleWrite cid}" and room: "cb = Cb_handleRead cid \<Longrightarrow> read_room c"
  shows "\<exists>w'. call_all (call_callback os (echo_user o' tid) tid now) (if b then [Some cb] else []) w = Inr w' \<and>
    conn_effects o' tid cid (if b then read_bytes os c cb else []) w w' \<and> dispatching T A tid cid w'"
proof (cases b)
  case True
  obtain w1 where w1: "call_callback os (echo_user o' tid) tid now cb w = Inr w1" "conn_effect o' tid cid (read_bytes os c cb) w w1"
    "dispatching T A tid cid w1"
    using call_dispatching [OF disp c os, of cb now, folded o'_def] cb room by blast
  from one_more [OF no_effect w1(2)] w1 True show ?thesis by (simp add: call_if_set_def)
qed (use disp in \<open>auto intro: no_effect\<close>)

lemma handle_connection:
  fixes os :: server_os
  defines "o' \<equiv> os_calls.truncate os"
  assumes disp: "dispatching T A tid cid w" and c: "w_conns w cid = Some c" and room: "read_room c"
    and ch: "chan_heap (poller (lget (c_loop c) w)) (c_channel c) = Some ch"
    and os: "readv_ok (os_readv os)" "write_ok (os_write os)"
  shows "\<exists>w'. handle_channel os (echo_user o' tid) tid now (c_loop c) (c_channel c) w = Inr w' \<and>
    conn_effects o' tid cid (if ch_revents ch AND readEvent \<noteq> 0 then read_bytes os c (Cb_handleRead cid) else []) w w' \<and>
    dispatching T A tid cid w'"
proof -
  from disp have core: "core {} T A w" and act: "c_channel c \<in> set (A (c_loop c))" using c by (auto simp: dispatching_def)
  obtain x where "conn_ok cid c x w" using srv_conns_ok [OF coreD(3) [OF core] c] by blast
  then have ok: "conn_ok cid c ch w" using ch by (simp add: conn_ok_def)
  have tied: "ch_tied ch" by (rule active_linked(1) [OF core ok act])
  note cbs = srv_connD(8) [OF coreD(3) [OF core] ok, unfolded conn_cbs_def] and tie = srv_connD(9) [OF coreD(3) [OF core] ok tied]
  let ?r = "ch_revents ch" and ?call = "call_callback os (echo_user o' tid) tid now"
  define A1 where "A1 = (if ?r AND EPOLLHUP \<noteq> 0 \<and> ?r AND EPOLLIN = 0 then [Some (Cb_handleClose cid)] else []) @
      (if ?r AND EPOLLERR \<noteq> 0 then [Some (Cb_handleError cid)] else [])"
  have f: "fired ch = A1 @ (if ?r AND readEvent \<noteq> 0 then [Some (Cb_handleRead cid)] else []) @
      (if ?r AND writeEvent \<noteq> 0 then [Some (Cb_handleWrite cid)] else [])"
    using cbs by (simp add: fired_def A1_def)
  have "handle_channel os (echo_user o' tid) tid now (c_loop c) (c_channel c) w = call_all ?call (fired ch) w"
    using dispatch_fired [of "c_loop c" w, OF ch _ tied tie] cbs c by simp
  also have "\<dots> = bindR (call_all ?call A1 w) (\<lambda>w1. bindR (call_all ?call (if ?r AND readEvent \<noteq> 0 then [Some (Cb_handleRead cid)] else []) w1)
      (call_all ?call (if ?r AND writeEvent \<noteq> 0 then [Some (Cb_handleWrite cid)] else [])))"
    unfolding f call_all_append ..
  finally have eq: "handle_channel os (echo_user o' tid) tid now (c_loop c) (c_channel c) w = \<dots>" .
  have "set A1 \<subseteq> {Some (Cb_handleClose cid), Some (Cb_handleError cid)}" by (auto simp: A1_def)
  from calls_quietly [OF disp os this, of now, folded o'_def] obtain w1 where
    w1: "call_all ?call A1 w = Inr w1" "conn_effects o' tid cid [] w w1" "dispatching T A tid cid w1" "w_conns w1 cid = Some c"
    using c by auto
  from calls_one [OF w1(3,4) os, of "Cb_handleRead cid" now "?r AND readEvent \<noteq> 0", folded o'_def] room obtain w2 where
    w2: "call_all ?call (if ?r AND readEvent \<noteq> 0 then [Some (Cb_handleRead cid)] else []) w1 = Inr w2"
      "conn_effects o' tid cid (if ?r AND readEvent \<noteq> 0 then read_bytes os c (Cb_handleRead cid) else []) w1 w2"
      "dispatching T A tid cid w2" by blast
  obtain c2 where c2: "w_conns w2 cid = Some c2" using w2(3) by (auto simp: dispatching_def)
  have "read_bytes os c2 (Cb_handleWrite cid) = []" by (simp add: read_bytes_def)
  from calls_one [OF w2(3) c2 os, of "Cb_handleWrite cid" now "?r AND writeEvent \<noteq> 0", folded o'_def, unfolded this if_cancel] obtain w3 where
    w3: "call_all ?call (if ?r AND writeEvent \<noteq> 0 then [Some (Cb_handleWrite cid)] else []) w2 = Inr w3"
      "conn_effects o' tid cid [] w2 w3" "dispatching T A tid cid w3"
    by blast
  from conn_effects_trans [OF w3(2) conn_effects_trans [OF w2(2) w1(2)]] w1(1) w2(1) w3(1,3) show ?thesis
    unfolding eq by simp
qed

end
