(* ===== verification/System_Accept.thy ===== *)
theory System_Accept
  imports System_Handlers
begin

text \<open>
  The accept channel and the wake-up channels: a new connection enters the map and the queue of its loop
  (or is established at once, when the server has no other loop).
\<close>

section \<open>A new connection\<close>

lemma getNextLoop_srv:
  assumes base: "srv_base w" and nxt: "getNextLoop (s_pool w) = (io, pool1)"
  shows "io \<in> set (srv_loops w)" "pool_loops pool1 = pool_loops (s_pool w)" "pool_baseLoop pool1 = pool_baseLoop (s_pool w)" "pool_inv pool1"
    "io = s_loop w \<Longrightarrow> pool_loops (s_pool w) = []"
proof -
  have inv: "pool_inv (s_pool w)" "pool_baseLoop (s_pool w) = s_loop w" using base by (simp_all add: srv_base_def)
  show "io \<in> set (srv_loops w)" "pool_loops pool1 = pool_loops (s_pool w)" "pool_baseLoop pool1 = pool_baseLoop (s_pool w)" "pool_inv pool1"
    using inv nxt by (auto simp: getNextLoop_def srv_loops_def pool_inv_def Let_def split: if_splits)
  show "pool_loops (s_pool w) = []" if "io = s_loop w"
  proof (rule ccontr)
    assume ne: "pool_loops (s_pool w) \<noteq> []"
    then have "io \<in> set (pool_loops (s_pool w))" using inv nxt by (auto simp: getNextLoop_def pool_inv_def Let_def)
    moreover have "s_loop w \<notin> set (pool_loops (s_pool w))" using base by (auto simp: srv_base_def srv_loops_def)
    ultimately show False using that by simp
  qed
qed

text \<open>The world after the constructor, the callbacks and the entry in the map.\<close>

definition conn_added :: "nat \<Rightarrow> thread_pool \<Rightarrow> tcp_connection \<Rightarrow> callback_t channel \<Rightarrow> server_world \<Rightarrow> server_world \<Rightarrow> bool" where
  "conn_added io pool1 c ch w w4 \<longleftrightarrow> conn_ok (s_fresh w) c ch w4 \<and> c_state c = kConnecting \<and> c_loop c = io \<and> c_channel c = Suc (s_fresh w) \<and>
     conn_cbs (s_fresh w) ch \<and> ch_index ch = NEW \<and> \<not> ch_tied ch \<and> \<not> isWriting ch \<and>
     connectionCallback c \<noteq> None \<and> messageCallback c \<noteq> None \<and> writeCompleteCallback c = None \<and> connCloseCallback c \<and>
     c_name c = s_name w @ ''-'' @ s_ipPort w @ to_string (nat (s_nextConnId w)) \<and> names_inv w4 \<and>
     content (inputBuffer c) = [] \<and> content (outputBuffer c) = [] \<and> read_room c \<and> (\<forall>fd. wire fd w4 = wire fd w) \<and>
     w_conns w4 = (w_conns w)(s_fresh w \<mapsto> c) \<and>
     lget io w4 = (lget io w)\<lparr>poller := store (Suc (s_fresh w)) ch (poller (lget io w))\<rparr> \<and> (\<forall>a. a \<noteq> io \<longrightarrow> lget a w4 = lget a w) \<and>
     world.more w4 = world.more (w\<lparr>s_pool := pool1, s_nextConnId := s_nextConnId w + 1, s_fresh := Suc (Suc (s_fresh w)),
       s_connections := (s_connections w)(c_name c \<mapsto> s_fresh w)\<rparr>)"

text \<open>A new connection has room for the largest read.\<close>

lemma new_room:
  assumes "inputBuffer c = Buffer_new INIT_SIZE" and "outputBuffer c = Buffer_new INIT_SIZE" and "highWaterMark c = 64 * 1024 * 1024"
  shows "read_room c"
proof -
  have e: "content (inputBuffer c) = []" "content (outputBuffer c) = []" by (simp_all add: assms content_new)
  show ?thesis
    unfolding read_room_def Let_def below_mark_def e
    by (simp add: assms buf_fits_def read_iov_def writableBytes_def Buffer_new_def buf_size_def CHEAP_PREPEND_def INIT_SIZE_def
        EXTRABUF_def vec_max_size_def)
qed

lemma newConnection_added:
  assumes base: "srv_base w" and here: "local_address os sockfd = Inr localAddr" and small: "s_nextConnId w < 2 ^ 31 - 1"
    and nxt: "getNextLoop (s_pool w) = (io, pool1)" and fresh: "accept_fresh io sockfd w" and poll: "poller_inv (poller (lget io w))"
  shows "\<exists>w4 c ch. newConnection os user tid sockfd peerAddr w =
      runInLoop (lget io) (lput io) (\<lambda>f. connectEstablished (server_user tid user) (s_fresh w)) tid (F_connectEstablished (s_fresh w)) w4 \<and>
    conn_added io pool1 c ch w w4 \<and> c_sockfd c = sockfd"
proof -
  have b: "names_inv w" "s_connectionCallback w \<noteq> None" "s_messageCallback w \<noteq> None" "s_writeCompleteCallback w = None"
    using base by (simp_all add: srv_base_def)
  obtain w4 c ch where n: "newConnection os user tid sockfd peerAddr w =
      runInLoop (lget io) (lput io) (\<lambda>f. connectEstablished (server_user tid user) (s_fresh w)) tid (F_connectEstablished (s_fresh w)) w4"
    and 1: "conn_ok (s_fresh w) c ch w4" "out_sync c ch" "c_state c = kConnecting" "c_loop c = io" "c_sockfd c = sockfd"
      "content (inputBuffer c) = []" "content (outputBuffer c) = []" "connectionCallback c = s_connectionCallback w"
      "messageCallback c = s_messageCallback w" "connCloseCallback c" "names_inv w4" "writeCompleteCallback c = s_writeCompleteCallback w"
      "c_channel c = Suc (s_fresh w)" "readCallback ch = Some (Cb_handleRead (s_fresh w))" "writeCallback ch = Some (Cb_handleWrite (s_fresh w))"
      "closeCallback ch = Some (Cb_handleClose (s_fresh w))" "errorCallback ch = Some (Cb_handleError (s_fresh w))"
      "w_conns w4 = (w_conns w)(s_fresh w \<mapsto> c)" "w_trace w4 = w_trace w @ map Sock (setKeepAlive True sockfd)"
      "lget io w4 = (lget io w)\<lparr>poller := store (Suc (s_fresh w)) ch (poller (lget io w))\<rparr>" "\<forall>a. a \<noteq> io \<longrightarrow> lget a w4 = lget a w"
      "ch_index ch = NEW" "\<not> ch_tied ch" "c_name c = s_name w @ ''-'' @ s_ipPort w @ to_string (nat (s_nextConnId w))"
      "world.more w4 = world.more (w\<lparr>s_pool := pool1, s_nextConnId := s_nextConnId w + 1, s_fresh := Suc (Suc (s_fresh w)),
        s_connections := (s_connections w)(c_name c \<mapsto> s_fresh w)\<rparr>)"
      "inputBuffer c = Buffer_new INIT_SIZE" "outputBuffer c = Buffer_new INIT_SIZE" "highWaterMark c = 64 * 1024 * 1024"
    using newConnection_ok [OF here b(1) small nxt fresh poll, of user tid peerAddr] by blast
  have "\<not> isWriting ch" using 1(2,7) by (simp add: out_sync_def)
  moreover have "wire fd w4 = wire fd w" for fd using 1(19) by (simp add: wire_def wire_of_append setKeepAlive_def)
  ultimately show ?thesis using n 1(1-25) new_room [OF 1(26-28)] b(2-4)
    by (intro exI [of _ w4] exI [of _ c] exI [of _ ch]) (simp add: conn_added_def conn_cbs_def)
qed

text \<open>What the construction leaves as it is.\<close>

lemma added_frame:
  assumes "conn_added io pool1 c ch w w4"
  shows "threadId (lget a w4) = threadId (lget a w)" "pendingFunctors (lget a w4) = pendingFunctors (lget a w)"
    "eventfd (lget a w4) = eventfd (lget a w)" "wakeupChannel (lget a w4) = wakeupChannel (lget a w)"
    "callingPendingFunctors (lget a w4) = callingPendingFunctors (lget a w)" "fut T w4 = fut T w"
    "chan_heap (poller (lget a w4)) =
       (if a = io then (chan_heap (poller (lget a w)))(Suc (s_fresh w) \<mapsto> ch) else chan_heap (poller (lget a w)))"
    "poller_inv (poller (lget a w)) \<Longrightarrow> poller_inv (poller (lget a w4))" "w_conns w4 = (w_conns w)(s_fresh w \<mapsto> c)"
proof -
  from assms have l: "lget io w4 = (lget io w)\<lparr>poller := store (Suc (s_fresh w)) ch (poller (lget io w))\<rparr>" "\<And>a. a \<noteq> io \<Longrightarrow> lget a w4 = lget a w"
    and ok: "conn_ok (s_fresh w) c ch w4" "c_loop c = io" and conns: "w_conns w4 = (w_conns w)(s_fresh w \<mapsto> c)"
    unfolding conn_added_def by blast+
  have q: "threadId (lget a w4) = threadId (lget a w)" "pendingFunctors (lget a w4) = pendingFunctors (lget a w)"
    "eventfd (lget a w4) = eventfd (lget a w)" "wakeupChannel (lget a w4) = wakeupChannel (lget a w)"
    "callingPendingFunctors (lget a w4) = callingPendingFunctors (lget a w)" for a
    using l by (cases "a = io"; simp)+
  show "threadId (lget a w4) = threadId (lget a w)" "pendingFunctors (lget a w4) = pendingFunctors (lget a w)"
    "eventfd (lget a w4) = eventfd (lget a w)" "wakeupChannel (lget a w4) = wakeupChannel (lget a w)"
    "callingPendingFunctors (lget a w4) = callingPendingFunctors (lget a w)"
    by (fact q)+
  show "fut T w4 = fut T w" by (simp add: fut_def fun_eq_iff q)
  show "chan_heap (poller (lget a w4)) =
       (if a = io then (chan_heap (poller (lget a w)))(Suc (s_fresh w) \<mapsto> ch) else chan_heap (poller (lget a w)))" using l by simp
  show "poller_inv (poller (lget a w)) \<Longrightarrow> poller_inv (poller (lget a w4))" using l(2) conn_okD(6) [OF ok(1)] ok(2) by (cases "a = io") auto
  show "w_conns w4 = (w_conns w)(s_fresh w \<mapsto> c)" by (fact conns)
qed

lemma added_server:
  assumes "conn_added io pool1 c ch w w4"
  shows "s_loop w4 = s_loop w" "s_connections w4 = (s_connections w)(c_name c \<mapsto> s_fresh w)" "s_pool w4 = pool1"
    "s_fresh w4 = Suc (Suc (s_fresh w))" "s_acceptor w4 = s_acceptor w" "s_connectionCallback w4 = s_connectionCallback w"
    "s_messageCallback w4 = s_messageCallback w" "s_writeCompleteCallback w4 = s_writeCompleteCallback w"
    "s_nextConnId w4 = s_nextConnId w + 1" "s_name w4 = s_name w" "s_ipPort w4 = s_ipPort w" "in_map w4 (s_fresh w) c"
    "srv_loops w4 = s_loop w # pool_loops pool1"
proof -
  have "world.more w4 = world.more (w\<lparr>s_pool := pool1, s_nextConnId := s_nextConnId w + 1, s_fresh := Suc (Suc (s_fresh w)),
       s_connections := (s_connections w)(c_name c \<mapsto> s_fresh w)\<rparr>)" using assms unfolding conn_added_def by blast
  note f = server_fields [OF this, simplified]
  show "s_loop w4 = s_loop w" "s_connections w4 = (s_connections w)(c_name c \<mapsto> s_fresh w)" "s_pool w4 = pool1"
    "s_fresh w4 = Suc (Suc (s_fresh w))" "s_acceptor w4 = s_acceptor w" "s_connectionCallback w4 = s_connectionCallback w"
    "s_messageCallback w4 = s_messageCallback w" "s_writeCompleteCallback w4 = s_writeCompleteCallback w"
    "s_nextConnId w4 = s_nextConnId w + 1" "s_name w4 = s_name w" "s_ipPort w4 = s_ipPort w"
    by (fact f)+
  then show "in_map w4 (s_fresh w) c" "srv_loops w4 = s_loop w # pool_loops pool1" by (simp_all add: in_map_def srv_loops_def)
qed

text \<open>The connections that were there before.\<close>

lemma new_unused:
  assumes "srv_conns w"
  shows "w_conns w k = Some ck \<Longrightarrow> Suc k < s_fresh w" "w_conns w (s_fresh w) = None"
proof -
  show lt: "Suc k < s_fresh w" if "w_conns w k = Some ck" for k ck
    using that assms unfolding srv_conns_def conn_fix_def by blast
  from lt [of "s_fresh w"] show "w_conns w (s_fresh w) = None" by (cases "w_conns w (s_fresh w)") auto
qed

lemma added_other:
  assumes conns: "srv_conns w" and new: "conn_added io pool1 c ch w w4"
  shows "k \<noteq> s_fresh w \<Longrightarrow> conn_ok k ck x w4 \<longleftrightarrow> conn_ok k ck x w" "w_conns w k = Some ck \<Longrightarrow> c_name ck \<noteq> c_name c"
    "w_conns w k = Some ck \<Longrightarrow> in_map w4 k ck = in_map w k ck" "w_conns w k = Some ck \<Longrightarrow> linked T w4 k ck = linked T w k ck"
proof -
  note f = added_frame [OF new] and s = added_server [OF new]
  show "conn_ok k ck x w4 \<longleftrightarrow> conn_ok k ck x w" if k: "k \<noteq> s_fresh w"
  proof (cases "w_conns w k = Some ck")
    case True
    obtain y where y: "conn_ok k ck y w" using srv_conns_ok [OF conns True] by blast
    have "c_channel ck \<noteq> Suc (s_fresh w)" using srv_connD(2) [OF conns y] k by simp
    then show ?thesis using k f(8) [OF conn_okD(6) [OF y]] conn_okD(6) [OF y] by (simp add: conn_ok_def f(7,9))
  qed (use k in \<open>simp add: conn_ok_def f(9)\<close>)
  show name: "c_name ck \<noteq> c_name c" if ck: "w_conns w k = Some ck"
  proof -
    have "c_name c = s_name w @ ''-'' @ s_ipPort w @ to_string (nat (s_nextConnId w))" using new unfolding conn_added_def by blast
    moreover obtain n where "int n < s_nextConnId w" "c_name ck = s_name w @ ''-'' @ s_ipPort w @ to_string n"
      using srv_conns_ok [OF conns ck] srv_connD(10) [OF conns] unfolding conn_named_def by blast
    ultimately show ?thesis by (auto simp: to_string_inj)
  qed
  show "in_map w4 k ck = in_map w k ck" "linked T w4 k ck = linked T w k ck" if "w_conns w k = Some ck"
    using name [OF that] by (auto simp: in_map_def linked_def f(6) s)
qed

lemma added_heaps:
  assumes heaps: "srv_heaps w" and conns: "srv_conns w" and loops: "srv_loops w4 = srv_loops w" and new: "conn_added io pool1 c ch w w4"
  shows "srv_heaps w4"
  unfolding srv_heaps_def loops
proof (intro ballI conjI allI impI)
  note f = added_frame [OF new] and s = added_server [OF new]
  from new have c: "c_loop c = io" "c_channel c = Suc (s_fresh w)" unfolding conn_added_def by blast+
  fix a assume a: "a \<in> set (srv_loops w)"
  show "poller_inv (poller (lget a w4))" by (rule f(8) [OF srv_heapsD(1) [OF heaps a]])
  fix ptr x assume x: "chan_heap (poller (lget a w4)) ptr = Some x"
  show "ptr < s_fresh w4" using x srv_heapsD(2) [OF heaps a] by (auto simp: s(4) f(7) less_SucI split: if_splits)
  show "sys_chan w4 a ptr x \<or> (\<exists>cid c. w_conns w4 cid = Some c \<and> c_loop c = a \<and> c_channel c = ptr)"
  proof (cases "a = io \<and> ptr = Suc (s_fresh w)")
    case True
    then show ?thesis using f(9) c by auto
  next
    case False
    then have "chan_heap (poller (lget a w)) ptr = Some x" using x by (auto simp: f(7) split: if_splits)
    from srv_heapsD(3) [OF heaps a this] show ?thesis
      using new_unused(2) [OF conns] unfolding sys_chan_def s f(9) by (metis fun_upd_other option.distinct(1))
  qed
qed

lemma added_conns:
  assumes base: "srv_base w" and conns: "srv_conns w" and loops: "srv_loops w4 = srv_loops w" "io \<in> set (srv_loops w)"
    and new: "conn_added io pool1 c ch w w4"
  shows "srv_conns w4"
  unfolding srv_conns_def
proof (intro conjI allI impI)
  note f = added_frame [OF new] and s = added_server [OF new] and other = added_other [OF conns new]
  from new have c: "conn_ok (s_fresh w) c ch w4" "c_loop c = io" "c_channel c = Suc (s_fresh w)" "conn_cbs (s_fresh w) ch" "\<not> ch_tied ch"
      "connectionCallback c \<noteq> None" "messageCallback c \<noteq> None" "writeCompleteCallback c = None" "connCloseCallback c"
      "c_name c = s_name w @ ''-'' @ s_ipPort w @ to_string (nat (s_nextConnId w))"
    unfolding conn_added_def by blast+
  fix k ck assume k: "w_conns w4 k = Some ck"
  show "conn_fix w4 k ck"
  proof (cases "k = s_fresh w")
    case True
    have "1 \<le> s_nextConnId w" using base by (simp add: srv_base_def names_inv_def)
    then have "conn_named w4 c" unfolding conn_named_def s c(10) by (intro exI [of _ "nat (s_nextConnId w)"]) simp
    then show ?thesis using True k c loops by (auto simp: conn_fix_def f(9) s(4))
  next
    case False
    then have "conn_fix w k ck" using k conns by (simp add: srv_conns_def f(9))
    moreover have "conn_named w4 ck" if "conn_named w ck" using that unfolding conn_named_def s by force
    ultimately show ?thesis using other(1) [OF False] unfolding conn_fix_def loops(1) s(4) by auto
  qed
next
  note f = added_frame [OF new] and other = added_other [OF conns new]
  fix j cj k ck assume "w_conns w4 j = Some cj" "w_conns w4 k = Some ck" "c_name cj = c_name ck"
  then show "j = k" using other(2) srv_names [OF conns] by (auto simp: f(9) split: if_splits)
next
  fix n k assume "s_connections w4 n = Some k"
  then show "\<exists>c. w_conns w4 k = Some c \<and> c_name c = n"
    using srv_mapD [OF conns, of n k] new_unused(2) [OF conns] by (auto simp: added_server [OF new] added_frame(9) [OF new] split: if_splits)
qed

lemma added_queues:
  assumes queues: "srv_queues T w" and conns: "srv_conns w" and loops: "srv_loops w4 = srv_loops w" and new: "conn_added io pool1 c ch w w4"
  shows "srv_queues T w4"
proof -
  note other = added_other [OF conns new]
  have keep: "conn_ok k ck x w4 \<and> in_map w4 k ck = in_map w k ck" if "conn_ok k ck x w" for k ck x
    using that other(1) [of k ck x] other(3) [OF conn_okD(1) [OF that]] new_unused(2) [OF conns] conn_okD(1) [OF that] by force
  have "functor_inv w4 a h" if h: "functor_inv w a h" for a h
    using h keep by (cases h) (fastforce simp: added_server(1) [OF new])+
  then show ?thesis using queues unfolding srv_queues_def loops added_frame(6) [OF new] by blast
qed

lemma added_active:
  assumes active: "srv_active {} T A w" and heaps: "srv_heaps w" and conns: "srv_conns w" and loops: "srv_loops w4 = srv_loops w"
    and new: "conn_added io pool1 c ch w w4"
  shows "srv_active {s_fresh w} T A w4"
  unfolding srv_active_def loops
proof (intro ballI)
  note f = added_frame [OF new] and other = added_other [OF conns new]
  have c: "c_channel c = Suc (s_fresh w)" using new by (simp add: conn_added_def)
  fix a ptr assume a: "a \<in> set (srv_loops w)" "ptr \<in> set (A a)"
  with active obtain x where x: "chan_heap (poller (lget a w)) ptr = Some x"
    "\<And>k c. w_conns w k = Some c \<Longrightarrow> c_loop c = a \<Longrightarrow> c_channel c = ptr \<Longrightarrow> ch_tied x \<and> (k \<in> {} \<or> linked T w k c)"
    unfolding srv_active_def by blast
  have lt: "ptr < s_fresh w" by (rule srv_heapsD(2) [OF heaps a(1) x(1)])
  then have "chan_heap (poller (lget a w4)) ptr = Some x" using x(1) by (auto simp: f(7))
  moreover have "ch_tied x \<and> linked T w4 k ck" if k: "w_conns w4 k = Some ck" "c_loop ck = a" "c_channel ck = ptr" for k ck
  proof -
    have "k \<noteq> s_fresh w" using k(1,3) lt c by (auto simp: f(9))
    then have "w_conns w k = Some ck" using k(1) by (simp add: f(9))
    with x(2) k(2,3) other(4) show ?thesis by blast
  qed
  ultimately show "\<exists>ch. chan_heap (poller (lget a w4)) ptr = Some ch \<and>
    (\<forall>k c. w_conns w4 k = Some c \<longrightarrow> c_loop c = a \<longrightarrow> c_channel c = ptr \<longrightarrow> ch_tied ch \<and> (k \<in> {s_fresh w} \<or> linked T w4 k c))"
    by blast
qed

lemma core_added:
  assumes core: "core {} T A w" and nxt: "getNextLoop (s_pool w) = (io, pool1)" and new: "conn_added io pool1 c ch w w4"
  shows "core {s_fresh w} T A w4"
proof -
  note d = coreD [OF core] and g = getNextLoop_srv [OF coreD(1) [OF core] nxt]
  note f = added_frame [OF new] and s = added_server [OF new] and other = added_other [OF d(3) new]
  have loops: "srv_loops w4 = srv_loops w" using s(13) g(2) by (simp add: srv_loops_def)
  have "names_inv w4" using new unfolding conn_added_def by blast
  then have "srv_base w4" using d(1) g s unfolding srv_base_def loops f(1) by simp
  moreover have "srv_dyn {s_fresh w} T w4"
    unfolding srv_dyn_def
  proof (intro allI impI)
    fix k ck x assume k: "conn_ok k ck x w4" "k \<notin> {s_fresh w}"
    then have ok: "conn_ok k ck x w" using other(1) by simp
    then have "conn_dyn T w k ck x" using d(4) unfolding srv_dyn_def by blast
    then show "conn_dyn T w4 k ck x" using other(4) [OF conn_okD(1) [OF ok]] by (simp add: conn_dyn_def f(6))
  qed
  ultimately show ?thesis
    using added_heaps [OF d(2,3) loops new] added_conns [OF d(1,3) loops g(1) new] added_queues [OF d(5,3) loops new]
      added_active [OF d(6,2,3) loops new] by (simp add: core_def)
qed

lemma thread_inj:
  assumes "srv_base w" and "a \<in> set (srv_loops w)" "b \<in> set (srv_loops w)" and "threadId (lget a w) = threadId (lget b w)"
  shows "a = b"
  using assms by (auto simp: srv_base_def distinct_map dest: inj_onD)

text \<open>
  The kernel's answer to \<open>accept4\<close>: a new descriptor is not in use in any loop, and \<open>getsockname\<close> works on it.
\<close>

definition accept_ok :: "server_os \<Rightarrow> server_world \<Rightarrow> bool" where
  "accept_ok os w \<longleftrightarrow> (\<forall>fd peer. os_accept4 os (acc_sockfd (s_acceptor w)) (os_client_len os) = Inr (fd, peer) \<longrightarrow> 0 \<le> fd \<longrightarrow>
     (\<exists>a. os_getsockname os fd = Inr a) \<and>
     (\<forall>l \<in> set (srv_loops w). \<forall>q ch. chan_heap (poller (lget l w)) q = Some ch \<longrightarrow> ch_fd ch \<noteq> fd))"

definition accept_effect :: "int \<Rightarrow> server_world \<Rightarrow> server_world \<Rightarrow> bool" where
  "accept_effect tid w w' \<longleftrightarrow> w' = w \<or>
     (\<exists>io pool1 c ch w4. getNextLoop (s_pool w) = (io, pool1) \<and> conn_added io pool1 c ch w w4 \<and>
        (\<forall>l \<in> set (srv_loops w). \<forall>q ch. chan_heap (poller (lget l w)) q = Some ch \<longrightarrow> ch_fd ch \<noteq> c_sockfd c) \<and>
        (io \<noteq> s_loop w \<and> w' = queue_on tid io (F_connectEstablished (s_fresh w)) w4 \<or>
         io = s_loop w \<and> (\<exists>ch'. touch (s_fresh w) c ch (c\<lparr>c_state := kConnected\<rparr>) ch' w4 w' \<and> ch_tied ch' \<and> ch_tie ch' = Some (s_fresh w) \<and>
           (out_sync c ch \<longrightarrow> sound (c\<lparr>c_state := kConnected\<rparr>) ch') \<and> (\<forall>fd. wire fd w' = wire fd w4))))"

lemma new_not_connecting:
  assumes core: "core {} T A w" and l: "l \<in> set (srv_loops w)"
  shows "F_connectEstablished (s_fresh w) \<notin> set (fut T w l)"
  using srv_queueD(1) [OF coreD(5) [OF core] l, of "F_connectEstablished (s_fresh w)"] new_unused(2) [OF coreD(3) [OF core]]
  by (auto simp: conn_ok_def)

lemma newConnection_effect:
  assumes core: "core {} T A w" and here: "threadId (lget (s_loop w) w) = tid" and small: "s_nextConnId w < 2 ^ 31 - 1"
    and addr: "os_getsockname os fd = Inr localAddr"
    and fresh: "\<forall>l \<in> set (srv_loops w). \<forall>q ch. chan_heap (poller (lget l w)) q = Some ch \<longrightarrow> ch_fd ch \<noteq> fd"
  shows "\<exists>w'. newConnection os (echo_user o' tid) tid fd peer w = Inr w' \<and> core {} T A w' \<and> accept_effect tid w w'"
proof -
  note d = coreD [OF core]
  obtain io pool1 where nxt: "getNextLoop (s_pool w) = (io, pool1)" by fastforce
  note g = getNextLoop_srv [OF d(1) nxt]
  have "chan_heap (poller (lget io w)) (Suc (s_fresh w)) = None"
    using srv_heapsD(2) [OF d(2) g(1), of "Suc (s_fresh w)"] by (cases "chan_heap (poller (lget io w)) (Suc (s_fresh w))") auto
  then have "accept_fresh io fd w" using fresh g(1) by (simp add: accept_fresh_def)
  moreover have "local_address os fd = Inr localAddr" using addr by (simp add: local_address_def)
  ultimately obtain w4 c ch where n: "newConnection os (echo_user o' tid) tid fd peer w =
      runInLoop (lget io) (lput io) (\<lambda>f. connectEstablished (server_user tid (echo_user o' tid)) (s_fresh w)) tid
        (F_connectEstablished (s_fresh w)) w4"
    and new: "conn_added io pool1 c ch w w4" and c: "c_sockfd c = fd"
    using newConnection_added [OF d(1) _ small nxt _ srv_heapsD(1) [OF d(2) g(1)]] by blast
  from new have ok: "conn_ok (s_fresh w) c ch w4" "c_loop c = io" "connectionCallback c \<noteq> None" "ch_index ch = NEW" "\<not> ch_tied ch"
    unfolding conn_added_def by blast+
  note f = added_frame [OF new] and s = added_server [OF new] and core4 = core_added [OF core nxt new]
  have loops: "srv_loops w4 = srv_loops w" using s(13) g(2) by (simp add: srv_loops_def)
  note fresh_est = new_not_connecting [OF core g(1)]
  have lk: "linked T w4 (s_fresh w) c" using s(12) by (simp add: linked_def)
  show ?thesis
  proof (cases "io = s_loop w")
    case True
    obtain cb where cb: "connectionCallback c = Some cb" using ok(3) by blast
    obtain w' ch' where e: "connectEstablished (server_user tid (echo_user o' tid)) (s_fresh w) w4 = Inr w'"
      "touch (s_fresh w) c ch (c\<lparr>c_state := kConnected\<rparr>) ch' w4 w'" "ch_tied ch'" "ch_tie ch' = Some (s_fresh w)"
      "out_sync c ch \<longrightarrow> sound (c\<lparr>c_state := kConnected\<rparr>) ch'" "\<forall>fd. wire fd w' = wire fd w4"
      using connectEstablished_effect [OF ok(1) cb, of tid o' tid] by blast
    have "newConnection os (echo_user o' tid) tid fd peer w = Inr w'"
      using n e(1) True here f(1) by (simp add: runInLoop_def isInLoopThread_def)
    moreover have "core {} T A w'"
      by (rule core_touch [OF core4 subset_refl ok(1) e(2-4)]) (use fresh_est lk ok(2) f(6) in simp_all)
    moreover have "accept_effect tid w w'"
      unfolding accept_effect_def using nxt new fresh c True e by blast
    ultimately show ?thesis by blast
  next
    case False
    let ?w = "queue_on tid io (F_connectEstablished (s_fresh w)) w4"
    have "threadId (lget io w) \<noteq> tid"
      using thread_inj [OF d(1) g(1), of "s_loop w"] False here by (auto simp: srv_loops_def)
    then have "newConnection os (echo_user o' tid) tid fd peer w = Inr ?w"
      using n f(1) by (simp add: runInLoop_def isInLoopThread_def) (simp add: queue_on_def)
    moreover have "core {} T A ?w"
    proof (rule core_queue [OF core4])
      show "\<exists>c ch. conn_ok k c ch w4 \<and> conn_dyn T ?w k c ch \<and> linked T ?w k c" if "k \<in> {s_fresh w} - {}" for k
        using that ok lk linked_queue [OF lk] by (intro exI [of _ c] exI [of _ ch]) (simp add: conn_dyn_def fut_queue)
    qed (use g(1) loops ok s(12) f(6) fresh_est in auto)
    moreover have "accept_effect tid w ?w"
      unfolding accept_effect_def using nxt new fresh c False by blast
    ultimately show ?thesis by blast
  qed
qed

lemma accept_core:
  assumes core: "core {} T A w" and here: "threadId (lget (s_loop w) w) = tid" and small: "s_nextConnId w < 2 ^ 31 - 1"
    and os: "accept_ok os w"
  shows "\<exists>w'. Acceptor_handleRead os (echo_user o' tid) tid w = Inr w' \<and> core {} T A w' \<and> accept_effect tid w w'"
proof -
  have cb: "acc_callback (s_acceptor w)" using coreD(1) [OF core] by (simp add: srv_base_def)
  obtain fd peer where s: "Socket_Accept (os_accept4 os) (os_client_len os) (acc_sockfd (s_acceptor w))
      (InetAddress_new (os_inet_addr os) 0 ''127.0.0.1'') = (fd, peer)" by fastforce
  show ?thesis
  proof (cases "0 \<le> fd")
    case False
    with s core show ?thesis by (simp add: Acceptor_handleRead_def accept_effect_def)
  next
    case True
    then have "os_accept4 os (acc_sockfd (s_acceptor w)) (os_client_len os) = Inr (fd, peer)"
      using s by (auto simp: Socket_Accept_def split: sum.splits if_splits)
    with os True obtain a where a: "os_getsockname os fd = Inr a"
      "\<forall>l \<in> set (srv_loops w). \<forall>q ch. chan_heap (poller (lget l w)) q = Some ch \<longrightarrow> ch_fd ch \<noteq> fd"
      unfolding accept_ok_def by blast
    from newConnection_effect [OF core here small a, of o' peer] s True cb show ?thesis by (simp add: Acceptor_handleRead_def)
  qed
qed

section \<open>Handling a channel of the server\<close>

lemma core_refut:
  assumes core: "core X T A w" and same: "same_core w w'" and map: "s_connections w' = s_connections w" and fut: "fut T' w' = fut T w"
    and A: "\<And>l. set (A' l) \<subseteq> set (A l)"
  shows "core X T' A' w'"
proof (rule core_reframe [OF core same])
  note d = coreD [OF core] and s = same_coreD [OF same]
  have lk: "in_map w' k c = in_map w k c" "linked T' w' k c = linked T w k c" for k c
    by (simp_all add: in_map_def linked_def map fut s(4))
  show "srv_dyn X T' w'" using d(4) unfolding srv_dyn_def conn_dyn_def s(8) lk fut .
  have "functor_inv w' l f = functor_inv w l f" for l f by (cases f) (simp_all add: s lk)
  then show "srv_queues T' w'" using d(5) unfolding srv_queues_def s(6) fut by blast
  show "srv_active X T' A' w'" using d(6) A unfolding srv_active_def s(1,2,6) lk by blast
qed

lemma same_core_lput:
  "poller lo = poller (lget l w) \<Longrightarrow> threadId lo = threadId (lget l w) \<Longrightarrow> same_core w (lput l lo w)"
  unfolding same_core_def by (auto intro!: exI [of _ "s_connections w"])

lemma lput_server [simp]:
  "s_connections (lput l lo w) = s_connections w" "s_loop (lput l lo w) = s_loop w" "s_fresh (lput l lo w) = s_fresh w"
  "srv_loops (lput l lo w) = srv_loops w"
  by (simp_all add: lput_def srv_loops_def)

lemma fut_lput: "fut T (lput l lo w) a = T a @ (if a = l then pendingFunctors lo else pendingFunctors (lget a w))"
  by (simp add: fut_def)

lemma core_wakeup:
  assumes "core X T A w"
  shows "core X T A (lput l (EventLoop_handleRead (lget l w)) w)"
  by (rule core_refut [OF assms same_core_lput]) (simp_all add: EventLoop_handleRead_def fut_lput fun_eq_iff fut_def)

lemma accept_heap:
  assumes e: "accept_effect tid w w'" and lt: "ptr < s_fresh w"
  shows "chan_heap (poller (lget a w')) ptr = chan_heap (poller (lget a w)) ptr"
  using e unfolding accept_effect_def
proof (elim disjE exE conjE)
  fix io pool1 c ch w4 assume new: "conn_added io pool1 c ch w w4" and w': "w' = queue_on tid io (F_connectEstablished (s_fresh w)) w4"
  show ?thesis using added_frame(7) [OF new] lt by (simp add: w')
next
  fix io pool1 c ch w4 ch' assume new: "conn_added io pool1 c ch w w4" and t: "touch (s_fresh w) c ch (c\<lparr>c_state := kConnected\<rparr>) ch' w4 w'"
  have "c_channel c = Suc (s_fresh w)" using new by (simp add: conn_added_def)
  then show ?thesis using added_frame(7) [OF new, of a] lt by (auto simp: touch_heap [OF t])
qed simp

text \<open>A channel with nothing but a read callback.\<close>

lemma handle_read_only:
  assumes ch: "chan_heap (poller (lget l w)) ptr = Some ch" "\<not> ch_tied ch"
    and cbs: "readCallback ch = Some cb" "writeCallback ch = None" "closeCallback ch = None" "errorCallback ch = None"
    and call: "call_callback os user tid now cb w = Inr w1" "chan_heap (poller (lget l w1)) ptr = Some ch'" "writeCallback ch' = None"
  shows "handle_channel os user tid now l ptr w = Inr (if ch_revents ch AND readEvent \<noteq> 0 then w1 else w)"
proof -
  let ?chan = "\<lambda>w. deref ptr (poller (lget l w))" and ?call = "call_callback os user tid now"
  have skip: "test_and_call ?chan ?call test f v = Inr v" if "?chan v = Inr x" "f x = None" for test f v x
    using that unfolding test_and_call_def call_if_set_def by simp
  have "handle_channel os user tid now l ptr w = handleEventWithGuard ?chan ?call w"
    using ch by (simp add: handle_channel_def handleEvent_def)
  also have "\<dots> = bindR (test_and_call ?chan ?call (\<lambda>r. r AND readEvent \<noteq> 0) readCallback w)
      (test_and_call ?chan ?call (\<lambda>r. r AND writeEvent \<noteq> 0) writeCallback)"
    unfolding handleEventWithGuard_def using skip [of w ch closeCallback] skip [of w ch errorCallback] ch(1) cbs by simp
  also have "\<dots> = Inr (if ch_revents ch AND readEvent \<noteq> 0 then w1 else w)"
  proof (cases "ch_revents ch AND readEvent = 0")
    case True
    then show ?thesis using skip [of w ch writeCallback] ch(1) cbs by (simp add: test_and_call_def [of _ _ _ readCallback])
  next
    case False
    then show ?thesis
      using skip [of w1 ch' writeCallback] ch(1) cbs call by (simp add: test_and_call_def [of _ _ _ readCallback] call_if_set_def)
  qed
  finally show ?thesis .
qed

lemma handle_system:
  assumes core: "core {} T A w" and l: "l \<in> set (srv_loops w)" and ch: "chan_heap (poller (lget l w)) ptr = Some ch"
    and sys: "sys_chan w l ptr ch" and here: "threadId (lget l w) = tid" and small: "s_nextConnId w < 2 ^ 31 - 1" and os: "accept_ok os w"
  shows "\<exists>w'. handle_channel os (echo_user o' tid) tid now l ptr w = Inr w' \<and> core {} T A w' \<and>
    (w' = lput l (EventLoop_handleRead (lget l w)) w \<or> accept_effect tid w w')"
proof -
  note h = ch sys [unfolded sys_chan_def]
  have lt: "ptr < s_fresh w" by (rule srv_heapsD(2) [OF coreD(2) [OF core] l ch])
  from sys consider "readCallback ch = Some (Cb_wakeup l)" | "readCallback ch = Some Cb_accept" "l = s_loop w"
    by (auto simp: sys_chan_def)
  then show ?thesis
  proof cases
    case 1
    let ?w = "lput l (EventLoop_handleRead (lget l w)) w"
    have "handle_channel os (echo_user o' tid) tid now l ptr w = Inr (if ch_revents ch AND readEvent \<noteq> 0 then ?w else w)"
      by (rule handle_read_only [OF ch]) (use sys 1 ch in \<open>auto simp: sys_chan_def call_callback_def EventLoop_handleRead_def\<close>)
    moreover have "accept_effect tid w w" by (simp add: accept_effect_def)
    ultimately show ?thesis using core_wakeup [OF core, of l] core by auto
  next
    case 2
    obtain w' where w': "Acceptor_handleRead os (echo_user o' tid) tid w = Inr w'" "core {} T A w'" "accept_effect tid w w'"
      using accept_core [OF core _ small os, of tid o'] here 2(2) by blast
    have "handle_channel os (echo_user o' tid) tid now l ptr w = Inr (if ch_revents ch AND readEvent \<noteq> 0 then w' else w)"
      by (rule handle_read_only [where ch' = ch, OF ch]) (use sys 2 ch w'(1) accept_heap [OF w'(3) lt] in \<open>auto simp: sys_chan_def call_callback_def\<close>)
    moreover have "accept_effect tid w w" by (simp add: accept_effect_def)
    ultimately show ?thesis using w' core by auto
  qed
qed

end
