(* ===== verification/System_Release.thy ===== *)
theory System_Release
  imports System_Accept
begin

text \<open>
  The poll of a loop, and the destruction of the connections nobody owns any more.
\<close>

section \<open>Polling\<close>

lemma apply_reports_chan: "\<exists>g. apply_reports evs h = (\<lambda>q. map_option (\<lambda>c. set_revents (g q c) c) (h q))"
proof (induction evs arbitrary: h)
  case Nil
  show ?case by (rule exI [of _ "\<lambda>q c. ch_revents c"]) (simp add: set_revents_def option.map_ident fun_eq_iff)
next
  case (Cons e evs)
  obtain ev ptr where e: "e = (ev, ptr)" by (cases e)
  obtain g where g: "apply_reports evs (h(ptr := map_option (set_revents ev) (h ptr))) =
      (\<lambda>q. map_option (\<lambda>c. set_revents (g q c) c) ((h(ptr := map_option (set_revents ev) (h ptr))) q))"
    using Cons.IH by blast
  show ?case
    unfolding e apply_reports.simps g
    by (rule exI [of _ "\<lambda>q c. g q (if q = ptr then set_revents ev c else c)"])
       (auto simp: fun_eq_iff set_revents_def option.map_comp comp_def)
qed

text \<open>A poll changes the reports of the channels of one loop only.\<close>

definition polled :: "nat \<Rightarrow> nat list \<Rightarrow> server_world \<Rightarrow> server_world \<Rightarrow> bool" where
  "polled l active w w' \<longleftrightarrow> (\<exists>p g now. poller_inv p \<and>
     chan_heap p = (\<lambda>q. map_option (\<lambda>c. set_revents (g q c) c) (chan_heap (poller (lget l w)) q)) \<and>
     w' = lput l ((lget l w)\<lparr>activeChannels := active, poller := p, pollReturnTime := now\<rparr>) w)"

lemma poll_polled:
  assumes inv: "poller_inv (poller (lget l w))"
    and wait: "\<And>m. ep_run (ctl_log (poller (lget l w))) Map.empty = Some m \<Longrightarrow> wait_ok m wait"
  shows "\<exists>active p. poll wait [] (poller (lget l w)) = Inr (active, p) \<and>
    polled l active w (lput l ((lget l w)\<lparr>activeChannels := active, poller := p, pollReturnTime := now\<rparr>) w) \<and>
    (\<forall>ptr \<in> set active. \<exists>ch. chan_heap (poller (lget l w)) ptr = Some ch \<and> ch_index ch = ADDED)"
proof -
  obtain m where coh: "coherent {} (poller (lget l w)) m" using inv unfolding poller_inv_def by blast
  have w: "wait_ok m wait" by (rule wait [OF coherentD(1) [OF coh]])
  have fin: ?thesis if p: "poll wait [] (poller (lget l w)) = Inr (map snd evs, p)" "coherent {} p m"
      "chan_heap p = apply_reports evs (chan_heap (poller (lget l w)))"
    and evs: "\<And>ev ptr. (ev, ptr) \<in> set evs \<Longrightarrow> \<exists>fd mask. m fd = Some (mask, ptr)" for evs p
  proof -
    obtain g where g: "chan_heap p = (\<lambda>q. map_option (\<lambda>c. set_revents (g q c) c) (chan_heap (poller (lget l w)) q))"
      using apply_reports_chan [of evs "chan_heap (poller (lget l w))"] unfolding p(3) by (elim exE)
    have "polled l (map snd evs) w (lput l ((lget l w)\<lparr>activeChannels := map snd evs, poller := p, pollReturnTime := now\<rparr>) w)"
      unfolding polled_def using p(2) g by (intro exI [of _ p] exI [of _ g] exI [of _ now]) (auto simp: poller_inv_def)
    moreover have "\<exists>ch. chan_heap (poller (lget l w)) ptr = Some ch \<and> ch_index ch = ADDED" if ptr: "ptr \<in> set (map snd evs)" for ptr
    proof -
      obtain ev where "(ev, ptr) \<in> set evs" using ptr by auto
      then obtain fd mask where fd: "m fd = Some (mask, ptr)" using evs by blast
      then obtain ch where ch: "chan_heap (poller (lget l w)) ptr = Some ch" "ch_fd ch = fd" using coherentD(4) [OF coh] by blast
      have "ch_index ch = ADDED" using coherentD(3) [OF coh ch(1)] ch(2) fd by (auto simp: chan_ok_def)
      with ch(1) show ?thesis by blast
    qed
    ultimately show ?thesis using p(1) by blast
  qed
  note r = poll_ok [OF coh w, of "[]"]
  show ?thesis
  proof (cases "wait (eventListSize (poller (lget l w)))")
    case (Inl e)
    then have "poll wait [] (poller (lget l w)) = Inr (map snd ([] :: (c_int \<times> nat) list), poller (lget l w))" using r by simp
    from fin [OF this coh] show ?thesis by simp
  next
    case (Inr evs)
    with r obtain p where p: "poll wait [] (poller (lget l w)) = Inr (map snd evs, p)" "coherent {} p m"
      "chan_heap p = apply_reports evs (chan_heap (poller (lget l w)))" by auto
    show ?thesis by (rule fin [OF p]) (use w Inr in \<open>unfold wait_ok_def, blast\<close>)
  qed
qed

text \<open>Channels that differ in the report only.\<close>

definition same_chan :: "callback_t channel \<Rightarrow> callback_t channel \<Rightarrow> bool" where
  "same_chan x y \<longleftrightarrow> (\<exists>r. y = set_revents r x)"

lemma same_chanD:
  assumes "same_chan x y"
  shows "ch_index y = ch_index x" "ch_tied y = ch_tied x" "ch_tie y = ch_tie x" "ch_fd y = ch_fd x" "ch_events y = ch_events x"
    "readCallback y = readCallback x" "writeCallback y = writeCallback x" "closeCallback y = closeCallback x" "errorCallback y = errorCallback x"
  using assms by (auto simp: same_chan_def set_revents_def)

lemma same_chan_refl [simp]: "same_chan x x"
  unfolding same_chan_def by (rule exI [of _ "ch_revents x"]) (simp add: set_revents_def)

lemma polled_frame:
  assumes "polled l active w w'"
  shows "w_conns w' = w_conns w" "world.more w' = world.more w" "pendingFunctors (lget a w') = pendingFunctors (lget a w)"
    "threadId (lget a w') = threadId (lget a w)" "fut T w' = fut T w" "srv_loops w' = srv_loops w" "s_loop w' = s_loop w" "s_fresh w' = s_fresh w"
    "in_map w' k c = in_map w k c" "linked T w' k c = linked T w k c" "s_connections w' = s_connections w"
    "wire fd w' = wire fd w" "eventfd (lget a w') = eventfd (lget a w)" "wakeupChannel (lget a w') = wakeupChannel (lget a w)"
    "callingPendingFunctors (lget a w') = callingPendingFunctors (lget a w)"
proof -
  from assms obtain p now where w': "w' = lput l ((lget l w)\<lparr>activeChannels := active, poller := p, pollReturnTime := now\<rparr>) w"
    unfolding polled_def by blast
  have q: "pendingFunctors (lget a w') = pendingFunctors (lget a w)" "threadId (lget a w') = threadId (lget a w)"
    "eventfd (lget a w') = eventfd (lget a w)" "wakeupChannel (lget a w') = wakeupChannel (lget a w)"
    "callingPendingFunctors (lget a w') = callingPendingFunctors (lget a w)" for a
    unfolding w' by simp_all
  then show "pendingFunctors (lget a w') = pendingFunctors (lget a w)" "threadId (lget a w') = threadId (lget a w)"
    "eventfd (lget a w') = eventfd (lget a w)" "wakeupChannel (lget a w') = wakeupChannel (lget a w)"
    "callingPendingFunctors (lget a w') = callingPendingFunctors (lget a w)" by simp_all
  show fut: "fut T w' = fut T w" by (simp add: fut_def fun_eq_iff q)
  show "w_conns w' = w_conns w" "world.more w' = world.more w" "srv_loops w' = srv_loops w" "s_loop w' = s_loop w" "s_fresh w' = s_fresh w"
    "s_connections w' = s_connections w" "wire fd w' = wire fd w"
    unfolding w' by simp_all
  then show "in_map w' k c = in_map w k c" "linked T w' k c = linked T w k c" by (simp_all add: in_map_def linked_def fut)
qed

lemma polled_heap:
  assumes "polled l active w w'"
  shows "poller_inv (poller (lget a w)) \<Longrightarrow> poller_inv (poller (lget a w'))"
    "chan_heap (poller (lget a w')) q = Some y \<Longrightarrow> \<exists>x. chan_heap (poller (lget a w)) q = Some x \<and> same_chan x y"
    "chan_heap (poller (lget a w)) q = Some x \<Longrightarrow> \<exists>y. chan_heap (poller (lget a w')) q = Some y \<and> same_chan x y"
proof -
  from assms obtain p g now where p: "poller_inv p"
    "chan_heap p = (\<lambda>q. map_option (\<lambda>c. set_revents (g q c) c) (chan_heap (poller (lget l w)) q))"
    "w' = lput l ((lget l w)\<lparr>activeChannels := active, poller := p, pollReturnTime := now\<rparr>) w"
    unfolding polled_def by blast
  show "poller_inv (poller (lget a w)) \<Longrightarrow> poller_inv (poller (lget a w'))" using p by simp
  show "chan_heap (poller (lget a w')) q = Some y \<Longrightarrow> \<exists>x. chan_heap (poller (lget a w)) q = Some x \<and> same_chan x y"
    by (cases "a = l") (auto simp: p(2,3), auto simp: same_chan_def)
  show "chan_heap (poller (lget a w)) q = Some x \<Longrightarrow> \<exists>y. chan_heap (poller (lget a w')) q = Some y \<and> same_chan x y"
    by (cases "a = l") (auto simp: p(2,3), auto simp: same_chan_def)
qed

lemma polled_conn:
  assumes pd: "polled l active w w'" and heaps: "srv_heaps w" and conns: "srv_conns w"
  shows "conn_ok k c y w' \<Longrightarrow> \<exists>x. conn_ok k c x w \<and> same_chan x y"
    "conn_ok k c x w \<Longrightarrow> \<exists>y. conn_ok k c y w' \<and> same_chan x y"
proof -
  assume k: "conn_ok k c y w'"
  obtain x where x: "chan_heap (poller (lget (c_loop c) w)) (c_channel c) = Some x" "same_chan x y"
    using polled_heap(2) [OF pd conn_okD(4) [OF k]] by blast
  have "w_conns w k = Some c" using conn_okD(1) [OF k] polled_frame(1) [OF pd] by simp
  then obtain z where z: "conn_ok k c z w" using srv_conns_ok [OF conns] by blast
  with x(1) have "z = x" by (simp add: conn_ok_def)
  with z x(2) show "\<exists>x. conn_ok k c x w \<and> same_chan x y" by blast
next
  assume k: "conn_ok k c x w"
  obtain y where y: "chan_heap (poller (lget (c_loop c) w')) (c_channel c) = Some y" "same_chan x y"
    using polled_heap(3) [OF pd conn_okD(4) [OF k]] by blast
  then have "conn_ok k c y w'"
    using k polled_frame(1) [OF pd] polled_heap(1) [OF pd conn_okD(6) [OF k]] same_chanD(4) [OF y(2)] by (simp add: conn_ok_def)
  with y(2) show "\<exists>y. conn_ok k c y w' \<and> same_chan x y" by blast
qed

lemma polled_heaps:
  assumes heaps: "srv_heaps w" and pd: "polled l active w w'"
  shows "srv_heaps w'"
  unfolding srv_heaps_def polled_frame(1,6,8) [OF pd]
proof (intro ballI conjI allI impI)
  fix a assume a: "a \<in> set (srv_loops w)"
  show "poller_inv (poller (lget a w'))" by (rule polled_heap(1) [OF pd srv_heapsD(1) [OF heaps a]])
  fix ptr y assume y: "chan_heap (poller (lget a w')) ptr = Some y"
  then obtain x where x: "chan_heap (poller (lget a w)) ptr = Some x" "same_chan x y" using polled_heap(2) [OF pd] by blast
  show "ptr < s_fresh w" by (rule srv_heapsD(2) [OF heaps a x(1)])
  show "sys_chan w' a ptr y \<or> (\<exists>cid c. w_conns w cid = Some c \<and> c_loop c = a \<and> c_channel c = ptr)"
    using srv_heapsD(3) [OF heaps a x(1)] unfolding sys_chan_def same_chanD [OF x(2)] polled_frame(7) [OF pd] .
qed

lemma polled_conns:
  assumes heaps: "srv_heaps w" and conns: "srv_conns w" and pd: "polled l active w w'"
  shows "srv_conns w'"
  unfolding srv_conns_def polled_frame(1,11) [OF pd]
proof (intro conjI allI impI)
  note f = polled_frame [OF pd]
  have named: "conn_named w' c = conn_named w c" for c unfolding conn_named_def server_fields [OF f(2)] ..
  fix k c assume k: "w_conns w k = Some c"
  then obtain x where x: "conn_ok k c x w" using srv_conns_ok [OF conns] by blast
  obtain y where y: "conn_ok k c y w'" "same_chan x y" using polled_conn(2) [OF pd heaps conns x] by blast
  show "conn_fix w' k c"
    using srv_connD [OF conns x] y same_chanD [OF y(2)] unfolding conn_fix_def f(6,8) named conn_cbs_def by metis
qed (use srv_names [OF conns] srv_mapD [OF conns] in blast)+

lemma polled_active:
  assumes core: "core {} T A w" and pd: "polled l active w w'"
    and act: "\<forall>ptr \<in> set active. \<exists>ch. chan_heap (poller (lget l w)) ptr = Some ch \<and> ch_index ch = ADDED"
  shows "srv_active {} T (A(l := active)) w'"
  unfolding srv_active_def polled_frame(1,6,10) [OF pd]
proof (intro ballI)
  note d = coreD [OF core]
  fix a ptr assume a: "a \<in> set (srv_loops w)" "ptr \<in> set ((A(l := active)) a)"
  have "\<exists>x. chan_heap (poller (lget a w)) ptr = Some x \<and>
    (\<forall>k c. w_conns w k = Some c \<longrightarrow> c_loop c = a \<longrightarrow> c_channel c = ptr \<longrightarrow> ch_tied x \<and> linked T w k c)"
  proof (cases "a = l")
    case True
    then obtain x where x: "chan_heap (poller (lget a w)) ptr = Some x" "ch_index x = ADDED" using act a(2) by auto
    have "ch_tied x \<and> linked T w k c" if k: "w_conns w k = Some c" "c_loop c = a" "c_channel c = ptr" for k c
    proof -
      obtain z where z: "conn_ok k c z w" using srv_conns_ok [OF d(3) k(1)] by blast
      then have "z = x" using x(1) k(2,3) by (simp add: conn_ok_def)
      with z have "conn_dyn T w k c x" using d(4) unfolding srv_dyn_def by blast
      with x(2) show ?thesis by (auto simp: conn_dyn_def)
    qed
    with x(1) show ?thesis by blast
  next
    case False
    with a d(6) show ?thesis by (auto simp: srv_active_def)
  qed
  then obtain x where x: "chan_heap (poller (lget a w)) ptr = Some x"
    "\<And>k c. w_conns w k = Some c \<Longrightarrow> c_loop c = a \<Longrightarrow> c_channel c = ptr \<Longrightarrow> ch_tied x \<and> linked T w k c" by blast
  obtain y where y: "chan_heap (poller (lget a w')) ptr = Some y" "same_chan x y" using polled_heap(3) [OF pd x(1)] by blast
  show "\<exists>y. chan_heap (poller (lget a w')) ptr = Some y \<and>
    (\<forall>k c. w_conns w k = Some c \<longrightarrow> c_loop c = a \<longrightarrow> c_channel c = ptr \<longrightarrow> ch_tied y \<and> (k \<in> {} \<or> linked T w k c))"
    using x(2) y(1) same_chanD(2) [OF y(2)] by (intro exI [of _ y]) simp
qed

lemma core_polled:
  assumes core: "core {} T A w" and pd: "polled l active w w'"
    and act: "\<forall>ptr \<in> set active. \<exists>ch. chan_heap (poller (lget l w)) ptr = Some ch \<and> ch_index ch = ADDED"
  shows "core {} T (A(l := active)) w'"
proof -
  note d = coreD [OF core] and f = polled_frame [OF pd]
  have "srv_base w'"
    using d(1) names_inv_more [OF f(2)] unfolding srv_base_def f(4,6,7) server_fields [OF f(2)] by simp
  moreover have "srv_dyn {} T w'"
    unfolding srv_dyn_def
  proof (intro allI impI)
    fix k c y assume "conn_ok k c y w'"
    then obtain x where x: "conn_ok k c x w" "same_chan x y" using polled_conn(1) [OF pd d(2,3)] by blast
    then have "conn_dyn T w k c x" using d(4) unfolding srv_dyn_def by blast
    then show "conn_dyn T w' k c y" unfolding conn_dyn_def f(5,10) same_chanD [OF x(2)] .
  qed
  moreover have "functor_inv w' a h" if h: "functor_inv w a h" for a h
    using h polled_conn(2) [OF pd d(2,3)] same_chanD(2) by (cases h) (simp_all add: f(7,9), blast+)
  then have "srv_queues T w'" using d(5) unfolding srv_queues_def f(5,6) by blast
  ultimately show ?thesis
    using polled_heaps [OF d(2) pd] polled_conns [OF d(2,3) pd] polled_active [OF core pd act] by (simp add: core_def)
qed

section \<open>Destroying connections\<close>

definition destroyed :: "nat \<Rightarrow> server_world \<Rightarrow> server_world \<Rightarrow> bool" where
  "destroyed cid w w' \<longleftrightarrow> (\<exists>c ch. conn_ok cid c ch w \<and> ch_index ch = NEW \<and>
     w' = emit (map Sock (Socket_destroy (c_sockfd c)))
       (lput (c_loop c) ((lget (c_loop c) w)\<lparr>poller := (poller (lget (c_loop c) w))\<lparr>chan_heap :=
            (chan_heap (poller (lget (c_loop c) w)))(c_channel c := None)\<rparr>\<rparr>)
         (w\<lparr>w_conns := (w_conns w)(cid := None)\<rparr>)))"

lemma lget_conns [simp]: "lget a (w\<lparr>w_conns := m\<rparr>) = lget a w"
  by (simp add: lget_def)

lemma destroyed_frame:
  assumes "destroyed cid w w'"
  shows "w_conns w' = (w_conns w)(cid := None)" "world.more w' = world.more w" "pendingFunctors (lget a w') = pendingFunctors (lget a w)"
    "threadId (lget a w') = threadId (lget a w)" "fut T w' = fut T w" "srv_loops w' = srv_loops w" "s_loop w' = s_loop w" "s_fresh w' = s_fresh w"
    "in_map w' k d = in_map w k d" "linked T w' k d = linked T w k d" "s_connections w' = s_connections w" "wire fd w' = wire fd w"
    "eventfd (lget a w') = eventfd (lget a w)" "wakeupChannel (lget a w') = wakeupChannel (lget a w)"
    "callingPendingFunctors (lget a w') = callingPendingFunctors (lget a w)" "s_pool w' = s_pool w"
proof -
  from assms obtain c :: tcp_connection where w': "w' = emit (map Sock (Socket_destroy (c_sockfd c)))
       (lput (c_loop c) ((lget (c_loop c) w)\<lparr>poller := (poller (lget (c_loop c) w))\<lparr>chan_heap :=
            (chan_heap (poller (lget (c_loop c) w)))(c_channel c := None)\<rparr>\<rparr>) (w\<lparr>w_conns := (w_conns w)(cid := None)\<rparr>))"
    unfolding destroyed_def by blast
  have more: "world.more w' = world.more w" unfolding w' by simp
  note f = server_fields [OF more]
  show "world.more w' = world.more w" by (fact more)
  have q: "pendingFunctors (lget a w') = pendingFunctors (lget a w)" "threadId (lget a w') = threadId (lget a w)"
    "eventfd (lget a w') = eventfd (lget a w)" "wakeupChannel (lget a w') = wakeupChannel (lget a w)"
    "callingPendingFunctors (lget a w') = callingPendingFunctors (lget a w)" for a
    unfolding w' by simp_all
  then show "pendingFunctors (lget a w') = pendingFunctors (lget a w)" "threadId (lget a w') = threadId (lget a w)"
    "eventfd (lget a w') = eventfd (lget a w)" "wakeupChannel (lget a w') = wakeupChannel (lget a w)"
    "callingPendingFunctors (lget a w') = callingPendingFunctors (lget a w)" by simp_all
  show fut: "fut T w' = fut T w" by (simp add: fut_def fun_eq_iff q)
  show "srv_loops w' = srv_loops w" "s_loop w' = s_loop w" "s_fresh w' = s_fresh w" "in_map w' k d = in_map w k d"
    "linked T w' k d = linked T w k d" "s_connections w' = s_connections w" "s_pool w' = s_pool w"
    using f fut by (simp_all add: srv_loops_def in_map_def linked_def)
  show "w_conns w' = (w_conns w)(cid := None)" "wire fd w' = wire fd w" unfolding w' by (simp_all add: wire_def wire_of_append Socket_destroy_def)
qed

lemma destroyed_heap:
  assumes "destroyed cid w w'" and "w_conns w cid = Some c"
  shows "chan_heap (poller (lget a w')) = (if a = c_loop c then (chan_heap (poller (lget a w)))(c_channel c := None) else chan_heap (poller (lget a w)))"
    "poller_inv (poller (lget a w)) \<Longrightarrow> poller_inv (poller (lget a w'))"
proof -
  from assms obtain ch where c: "conn_ok cid c ch w" "ch_index ch = NEW"
    and w': "w' = emit (map Sock (Socket_destroy (c_sockfd c)))
       (lput (c_loop c) ((lget (c_loop c) w)\<lparr>poller := (poller (lget (c_loop c) w))\<lparr>chan_heap :=
            (chan_heap (poller (lget (c_loop c) w)))(c_channel c := None)\<rparr>\<rparr>) (w\<lparr>w_conns := (w_conns w)(cid := None)\<rparr>))"
    unfolding destroyed_def conn_ok_def by auto
  show "chan_heap (poller (lget a w')) = (if a = c_loop c then (chan_heap (poller (lget a w)))(c_channel c := None) else chan_heap (poller (lget a w)))"
    unfolding w' by simp
  have "poller_inv ((poller (lget (c_loop c) w))\<lparr>chan_heap := (chan_heap (poller (lget (c_loop c) w)))(c_channel c := None)\<rparr>)"
    using conn_okD(6) [OF c(1)] coherent_free [OF _ conn_okD(4) [OF c(1)] c(2)] unfolding poller_inv_def by blast
  then show "poller_inv (poller (lget a w)) \<Longrightarrow> poller_inv (poller (lget a w'))" unfolding w' by simp
qed

lemma destroyed_other:
  assumes conns: "srv_conns w" and ds: "destroyed cid w w'" and c: "w_conns w cid = Some c" and k: "k \<noteq> cid"
  shows "conn_ok k ck x w' \<longleftrightarrow> conn_ok k ck x w"
proof (cases "w_conns w k = Some ck")
  case True
  note f = destroyed_frame [OF ds] and h = destroyed_heap [OF ds c]
  obtain y where y: "conn_ok k ck y w" using srv_conns_ok [OF conns True] by blast
  have "c_channel ck \<noteq> c_channel c" using srv_channel [OF conns True] srv_channel [OF conns c] k by simp
  then show ?thesis using k h(2) [OF conn_okD(6) [OF y]] conn_okD(6) [OF y] by (simp add: conn_ok_def f(1) h(1))
qed (use k destroyed_frame(1) [OF ds] in \<open>simp add: conn_ok_def\<close>)

lemma destroyed_heaps:
  assumes heaps: "srv_heaps w" and ds: "destroyed cid w w'" and c: "w_conns w cid = Some c"
  shows "srv_heaps w'"
  unfolding srv_heaps_def destroyed_frame(6,8) [OF ds]
proof (intro ballI conjI allI impI)
  note f = destroyed_frame [OF ds] and h = destroyed_heap [OF ds c]
  fix a assume a: "a \<in> set (srv_loops w)"
  show "poller_inv (poller (lget a w'))" by (rule h(2) [OF srv_heapsD(1) [OF heaps a]])
  fix ptr y assume "chan_heap (poller (lget a w')) ptr = Some y"
  then have y: "chan_heap (poller (lget a w)) ptr = Some y" "\<not> (a = c_loop c \<and> ptr = c_channel c)" by (auto simp: h(1) split: if_splits)
  show "ptr < s_fresh w" by (rule srv_heapsD(2) [OF heaps a y(1)])
  from srv_heapsD(3) [OF heaps a y(1)] show "sys_chan w' a ptr y \<or> (\<exists>cid c. w_conns w' cid = Some c \<and> c_loop c = a \<and> c_channel c = ptr)"
  proof
    assume "\<exists>k ck. w_conns w k = Some ck \<and> c_loop ck = a \<and> c_channel ck = ptr"
    then obtain k ck where k: "w_conns w k = Some ck" "c_loop ck = a" "c_channel ck = ptr" by blast
    then have "k \<noteq> cid" using y(2) c by auto
    with k show ?thesis by (intro disjI2 exI [of _ k] exI [of _ ck]) (simp add: f(1))
  qed (simp add: sys_chan_def f(7))
qed

lemma destroyed_conns:
  assumes conns: "srv_conns w" and ds: "destroyed cid w w'" and c: "w_conns w cid = Some c" and un: "\<not> in_map w cid c"
  shows "srv_conns w'"
  unfolding srv_conns_def
proof (intro conjI allI impI)
  note f = destroyed_frame [OF ds]
  have named: "conn_named w' ck = conn_named w ck" for ck unfolding conn_named_def server_fields [OF f(2)] ..
  fix k ck assume k: "w_conns w' k = Some ck"
  then have "k \<noteq> cid" "conn_fix w k ck" using conns by (auto simp: f(1) srv_conns_def split: if_splits)
  then show "conn_fix w' k ck" unfolding conn_fix_def f(6,8) named by (simp add: destroyed_other [OF conns ds c])
next
  fix j cj k ck assume "w_conns w' j = Some cj" "w_conns w' k = Some ck" "c_name cj = c_name ck"
  then show "j = k" using srv_names [OF conns] by (simp add: destroyed_frame(1) [OF ds] split: if_splits)
next
  note f = destroyed_frame [OF ds]
  fix n k assume n: "s_connections w' n = Some k"
  then obtain ck where "w_conns w k = Some ck" "c_name ck = n" using srv_mapD [OF conns] f(11) by metis
  moreover have "k \<noteq> cid" using n un c calculation by (auto simp: in_map_def f(11))
  ultimately show "\<exists>c. w_conns w' k = Some c \<and> c_name c = n" by (simp add: f(1))
qed

lemma destroyed_active:
  assumes active: "srv_active {} T A w" and ds: "destroyed cid w w'" and c: "w_conns w cid = Some c" and dead: "\<not> linked T w cid c"
  shows "srv_active {} T A w'"
  unfolding srv_active_def destroyed_frame(6,10) [OF ds]
proof (intro ballI)
  fix a ptr assume a: "a \<in> set (srv_loops w)" "ptr \<in> set (A a)"
  with active obtain x where x: "chan_heap (poller (lget a w)) ptr = Some x"
    "\<And>k c. w_conns w k = Some c \<Longrightarrow> c_loop c = a \<Longrightarrow> c_channel c = ptr \<Longrightarrow> ch_tied x \<and> linked T w k c"
    unfolding srv_active_def by blast
  have "\<not> (a = c_loop c \<and> ptr = c_channel c)" using x(2) [OF c] dead by blast
  then have "chan_heap (poller (lget a w')) ptr = Some x" using x(1) by (auto simp: destroyed_heap(1) [OF ds c])
  with x(2) show "\<exists>ch. chan_heap (poller (lget a w')) ptr = Some ch \<and>
    (\<forall>k c. w_conns w' k = Some c \<longrightarrow> c_loop c = a \<longrightarrow> c_channel c = ptr \<longrightarrow> ch_tied ch \<and> (k \<in> {} \<or> linked T w k c))"
    by (intro exI [of _ x]) (simp add: destroyed_frame(1) [OF ds])
qed

lemma core_destroyed:
  assumes core: "core {} T A w" and ds: "destroyed cid w w'" and c: "w_conns w cid = Some c" and un: "\<not> in_map w cid c"
    and no: "\<And>l f. l \<in> set (srv_loops w) \<Longrightarrow> f \<in> set (fut T w l) \<Longrightarrow> \<not> functor_owns cid f"
  shows "core {} T A w'"
proof -
  note d = coreD [OF core] and f = destroyed_frame [OF ds] and other = destroyed_other [OF coreD(3) [OF core] ds c]
  obtain ch where ok: "conn_ok cid c ch w" using srv_conns_ok [OF d(3) c] by blast
  have "c_loop c \<in> set (srv_loops w)" "s_loop w \<in> set (srv_loops w)" using srv_connD(3) [OF d(3) ok] by (simp_all add: srv_loops_def)
  then have dead: "\<not> linked T w cid c" using un no unfolding linked_def by (metis functor_owns.simps(5,6))
  have gone: "\<not> conn_ok cid ck x w'" for ck x by (simp add: conn_ok_def f(1))
  have "srv_base w'"
    using d(1) names_inv_more [OF f(2)] unfolding srv_base_def f(4,6,7) server_fields [OF f(2)] by simp
  moreover have "srv_dyn {} T w'"
    using d(4) other gone unfolding srv_dyn_def conn_dyn_def f(5,10) by metis
  moreover have "functor_inv w' a g" if a: "a \<in> set (srv_loops w)" "g \<in> set (fut T w a)" for a g
  proof -
    have "functor_inv w a g" "\<not> functor_owns cid g" using srv_queueD(1) [OF d(5) a] no [OF a] by simp_all
    then show ?thesis by (cases g) (auto simp: f(7,9) other)
  qed
  then have "srv_queues T w'" using d(5) unfolding srv_queues_def f(5,6) by blast
  ultimately show ?thesis
    using destroyed_heaps [OF d(2) ds c] destroyed_conns [OF d(3) ds c un] destroyed_active [OF d(6) ds c dead] by (simp add: core_def)
qed

inductive released :: "functor_t list \<Rightarrow> server_world \<Rightarrow> server_world \<Rightarrow> bool" for held :: "functor_t list" where
  released_none: "released held w w"
| released_one: "w_conns w cid = Some c \<Longrightarrow> \<not> owned cid c w \<Longrightarrow> \<not> list_ex (functor_owns cid) held \<Longrightarrow> destroyed cid w w1 \<Longrightarrow>
    released held w1 w2 \<Longrightarrow> released held w w2"

lemma owned_iff:
  "owned cid c w \<longleftrightarrow> in_map w cid c \<or> (\<exists>l \<in> set (srv_loops w). \<exists>f \<in> set (pendingFunctors (lget l w)). functor_owns cid f)"
  by (auto simp: owned_def in_map_def srv_loops_def list_ex_iff)

lemma owned_destroyed: "destroyed k w w' \<Longrightarrow> owned cid c w' = owned cid c w"
  by (simp add: owned_iff destroyed_frame)

lemma unowned_core:
  assumes core: "core {} T A w" and held: "\<And>l. l \<in> set (srv_loops w) \<Longrightarrow> set (T l) \<subseteq> set held"
    and c: "w_conns w cid = Some c" and un: "\<not> owned cid c w" "\<not> list_ex (functor_owns cid) held"
  shows "\<exists>w1. TcpConnection_destroy cid w = Inr w1 \<and> destroyed cid w w1 \<and> core {} T A w1"
proof -
  note d = coreD [OF core]
  obtain ch where ok: "conn_ok cid c ch w" using srv_conns_ok [OF d(3) c] by blast
  have no: "\<not> functor_owns cid f" if "l \<in> set (srv_loops w)" "f \<in> set (fut T w l)" for l f
    using that un held by (auto simp: fut_def owned_iff list_ex_iff)
  have un': "\<not> in_map w cid c" using un(1) by (simp add: owned_iff)
  have l: "c_loop c \<in> set (srv_loops w)" "s_loop w \<in> set (srv_loops w)" using srv_connD(3) [OF d(3) ok] by (simp_all add: srv_loops_def)
  have "\<not> linked T w cid c"
    using un' no [OF l(1), of "F_connectDestroyed cid"] no [OF l(2), of "F_removeConnectionInLoop cid"] by (auto simp: linked_def)
  moreover have "conn_dyn T w cid c ch" using d(4) ok unfolding srv_dyn_def by blast
  ultimately have new: "ch_index ch = NEW" by (simp add: conn_dyn_def)
  let ?w = "emit (map Sock (Socket_destroy (c_sockfd c)))
       (lput (c_loop c) ((lget (c_loop c) w)\<lparr>poller := (poller (lget (c_loop c) w))\<lparr>chan_heap :=
            (chan_heap (poller (lget (c_loop c) w)))(c_channel c := None)\<rparr>\<rparr>) (w\<lparr>w_conns := (w_conns w)(cid := None)\<rparr>))"
  have ds: "destroyed cid w ?w" unfolding destroyed_def using ok new by blast
  moreover have "TcpConnection_destroy cid w = Inr ?w" using c by (simp add: TcpConnection_destroy_def Let_def)
  moreover have "core {} T A ?w" by (rule core_destroyed [OF core ds c un']) (rule no)
  ultimately show ?thesis by blast
qed

lemma released_owned: "released held w w' \<Longrightarrow> owned cid c w' = owned cid c w"
  by (induction rule: released.induct) (simp_all add: owned_destroyed)

lemma released_conns: "released held w w' \<Longrightarrow> w_conns w' cid = Some c \<Longrightarrow> w_conns w cid = Some c"
proof (induction rule: released.induct)
  case (released_one w k d w1 w2)
  then show ?case using destroyed_frame(1) [OF released_one.hyps(4)] by (simp split: if_splits)
qed simp

lemma destroyed_conn_ok:
  assumes core: "core {} T A w" and ds: "destroyed cid w w'" and k: "conn_ok k ck x w'"
  shows "conn_ok k ck x w"
proof -
  have "k \<noteq> cid" using conn_okD(1) [OF k] destroyed_frame(1) [OF ds] by auto
  moreover obtain c where "w_conns w cid = Some c" using ds by (auto simp: destroyed_def conn_ok_def)
  ultimately show ?thesis using destroyed_other [OF coreD(3) [OF core] ds] k by simp
qed

lemma released_frame:
  assumes "released held w w'"
  shows "fut T w' = fut T w" "srv_loops w' = srv_loops w" "s_loop w' = s_loop w" "in_map w' k c = in_map w k c"
    "s_fresh w' = s_fresh w" "wire fd w' = wire fd w" "eventfd (lget a w') = eventfd (lget a w)"
    "wakeupChannel (lget a w') = wakeupChannel (lget a w)" "callingPendingFunctors (lget a w') = callingPendingFunctors (lget a w)"
    "pendingFunctors (lget a w') = pendingFunctors (lget a w)"
  using assms by (induction rule: released.induct) (simp_all add: destroyed_frame)

text \<open>What every single destruction keeps, the destruction of all of them keeps.\<close>

lemma released_keeps:
  assumes "released held w w'" and "core {} T A w" and "\<And>l. l \<in> set (srv_loops w) \<Longrightarrow> set (T l) \<subseteq> set held" and "Q w"
    and keep: "\<And>u v k. core {} T A u \<Longrightarrow> destroyed k u v \<Longrightarrow> Q u \<Longrightarrow> Q v"
  shows "Q w'"
  using assms(1-4)
proof (induction rule: released.induct)
  case (released_one w cid c w1 w2)
  obtain v where v: "destroyed cid w v" "core {} T A v"
    using unowned_core [OF released_one.prems(1,2) released_one.hyps(1-3)] by blast
  have "v = w1" using v(1) released_one.hyps(4) by (auto simp: destroyed_def conn_ok_def)
  with v(2) released_one.IH released_one.prems keep [OF released_one.prems(1) released_one.hyps(4)]
    destroyed_frame(6) [OF released_one.hyps(4)] show ?case by simp
qed

lemma release_core:
  assumes "core {} T A w" and "\<And>l. l \<in> set (srv_loops w) \<Longrightarrow> set (T l) \<subseteq> set held"
  shows "\<exists>w'. release_held held cids w = Inr w' \<and> core {} T A w' \<and> released held w w' \<and>
    (\<forall>k c x. conn_ok k c x w' \<longrightarrow> conn_ok k c x w) \<and>
    (\<forall>cid \<in> set cids. \<forall>c. w_conns w' cid = Some c \<longrightarrow> owned cid c w' \<or> list_ex (functor_owns cid) held)"
  using assms
proof (induction cids arbitrary: w)
  case Nil
  then show ?case by (auto intro: released_none)
next
  case (Cons cid cids)
  show ?case
  proof (cases "\<exists>c. w_conns w cid = Some c \<and> \<not> (owned cid c w \<or> list_ex (functor_owns cid) held)")
    case True
    then obtain c where c: "w_conns w cid = Some c" "\<not> owned cid c w" "\<not> list_ex (functor_owns cid) held" by blast
    obtain w1 where w1: "TcpConnection_destroy cid w = Inr w1" "destroyed cid w w1" "core {} T A w1"
      using unowned_core [OF Cons.prems c] by blast
    obtain w2 where w2: "release_held held cids w1 = Inr w2" "core {} T A w2" "released held w1 w2" "\<forall>k c x. conn_ok k c x w2 \<longrightarrow> conn_ok k c x w1"
      "\<forall>cid \<in> set cids. \<forall>c. w_conns w2 cid = Some c \<longrightarrow> owned cid c w2 \<or> list_ex (functor_owns cid) held"
      using Cons.IH [OF w1(3)] Cons.prems(2) destroyed_frame(6) [OF w1(2)] by auto
    have "w_conns w2 cid = None"
      using released_conns [OF w2(3), of cid] destroyed_frame(1) [OF w1(2)] by (cases "w_conns w2 cid") auto
    with w1(1) w2 c released_one [OF c w1(2) w2(3)] destroyed_conn_ok [OF Cons.prems(1) w1(2)] show ?thesis by auto
  next
    case False
    then have skip: "release_held held (cid # cids) w = release_held held cids w" by (auto split: option.split)
    obtain w2 where w2: "release_held held cids w = Inr w2" "core {} T A w2" "released held w w2" "\<forall>k c x. conn_ok k c x w2 \<longrightarrow> conn_ok k c x w"
      "\<forall>cid \<in> set cids. \<forall>c. w_conns w2 cid = Some c \<longrightarrow> owned cid c w2 \<or> list_ex (functor_owns cid) held"
      using Cons.IH [OF Cons.prems] by blast
    have "\<forall>c. w_conns w2 cid = Some c \<longrightarrow> owned cid c w2 \<or> list_ex (functor_owns cid) held"
      unfolding released_owned [OF w2(3)] using released_conns [OF w2(3)] False by blast
    with skip w2 show ?thesis by auto
  qed
qed

end
