(* ===== verification/System_Steps.thy ===== *)
theory System_Steps
  imports System_Release
begin

text \<open>
  Every step of every thread of the server: it does not fail, keeps the invariant, and has one of a few effects.
\<close>

section \<open>The steps\<close>

definition todo_of :: "srv_sys \<Rightarrow> nat \<Rightarrow> functor_t list" where
  "todo_of s = (\<lambda>l. todo_by (sy_pc s l))"

definition active_of :: "srv_sys \<Rightarrow> nat \<Rightarrow> nat list" where
  "active_of s = (\<lambda>l. active_by (sy_pc s l))"

definition held_of :: "srv_sys \<Rightarrow> functor_t list" where
  "held_of s = concat (map (\<lambda>l. held_by (sy_pc s l)) (srv_loops (sy_world s)))"

definition sys_inv :: "srv_sys \<Rightarrow> bool" where
  "sys_inv s \<longleftrightarrow> core {} (todo_of s) (active_of s) (sy_world s) \<and>
     (\<forall>l. set (todo_by (sy_pc s l)) \<subseteq> set (held_by (sy_pc s l)))"

text \<open>
  What the model assumes of the kernel at a step: \<open>epoll_wait\<close> reports registered channels, \<open>readv\<close> and
  \<open>write\<close> stay within their buffers, \<open>accept4\<close> hands out unused descriptors.
\<close>

definition kernel_ok :: "server_os \<Rightarrow> (nat \<Rightarrow> errno + (c_int \<times> nat) list) \<Rightarrow> nat \<Rightarrow> srv_sys \<Rightarrow> bool" where
  "kernel_ok os wait l s \<longleftrightarrow> readv_ok (os_readv os) \<and> write_ok (os_write os) \<and> accept_ok os (sy_world s) \<and>
     (\<forall>m. ep_run (ctl_log (poller (lget l (sy_world s)))) Map.empty = Some m \<longrightarrow> wait_ok m wait)"

text \<open>No connection's backlog is about to reach the high-water mark, and the connection counter is not used up.\<close>

definition calm :: "srv_sys \<Rightarrow> bool" where
  "calm s \<longleftrightarrow> s_nextConnId (sy_world s) < 2 ^ 31 - 1 \<and> (\<forall>cid c. w_conns (sy_world s) cid = Some c \<longrightarrow> read_room c)"

text \<open>The bytes that the step of loop \<open>l\<close> reads for connection \<open>cid\<close>.\<close>

definition step_read :: "server_os \<Rightarrow> nat \<Rightarrow> srv_sys \<Rightarrow> nat \<Rightarrow> bytes" where
  "step_read os l s cid = (case active_by (sy_pc s l) of [] \<Rightarrow> [] | ptr # rest \<Rightarrow>
     (case (w_conns (sy_world s) cid, chan_heap (poller (lget l (sy_world s))) ptr) of
        (Some c, Some ch) \<Rightarrow> if c_loop c = l \<and> c_channel c = ptr \<and> ch_revents ch AND readEvent \<noteq> 0
                              then read_bytes os c (Cb_handleRead cid) else []
      | _ \<Rightarrow> []))"

text \<open>The effect of a step, as the invariants need it.\<close>

inductive step_effect :: "server_os \<Rightarrow> nat \<Rightarrow> srv_sys \<Rightarrow> srv_sys \<Rightarrow> bool" for os :: server_os and l :: nat and s :: srv_sys where
  E_poll: "sy_pc s l = At_poll \<Longrightarrow> polled l active (sy_world s) w' \<Longrightarrow>
    \<forall>ptr \<in> set active. \<exists>ch. chan_heap (poller (lget l (sy_world s))) ptr = Some ch \<and> ch_index ch = ADDED \<Longrightarrow>
    step_effect os l s (go l (At_channels active) w' s)"
| E_conn: "sy_pc s l = At_channels (ptr # rest) \<Longrightarrow> w_conns (sy_world s) cid = Some c \<Longrightarrow> c_loop c = l \<Longrightarrow> c_channel c = ptr \<Longrightarrow>
    dispatching (todo_of s) (active_of s) (threadId (lget l (sy_world s))) cid (sy_world s) \<Longrightarrow>
    conn_effects (os_calls.truncate os) (threadId (lget l (sy_world s))) cid (step_read os l s cid) (sy_world s) w' \<Longrightarrow>
    step_effect os l s (go l (At_channels rest) w' s)"
| E_wake: "sy_pc s l = At_channels (ptr # rest) \<Longrightarrow> \<forall>cid. step_read os l s cid = [] \<Longrightarrow>
    step_effect os l s (go l (At_channels rest) (lput l (EventLoop_handleRead (lget l (sy_world s))) (sy_world s)) s)"
| E_accept: "sy_pc s l = At_channels (ptr # rest) \<Longrightarrow> \<forall>cid. step_read os l s cid = [] \<Longrightarrow>
    accept_effect (threadId (lget l (sy_world s))) (sy_world s) w' \<Longrightarrow>
    step_effect os l s (go l (At_channels rest) w' s)"
| E_swap: "sy_pc s l = At_channels [] \<Longrightarrow> fs = pendingFunctors (lget l (sy_world s)) \<Longrightarrow>
    step_effect os l s (go l (At_functors fs fs)
      (lput l ((lget l (sy_world s))\<lparr>callingPendingFunctors := True, pendingFunctors := []\<rparr>) (sy_world s)) s)"
| E_established: "sy_pc s l = At_functors held (F_connectEstablished cid # fs) \<Longrightarrow> conn_ok cid c ch (sy_world s) \<Longrightarrow> c_loop c = l \<Longrightarrow>
    in_map (sy_world s) cid c \<Longrightarrow> \<not> ch_tied ch \<Longrightarrow> touch cid c ch (c\<lparr>c_state := kConnected\<rparr>) ch' (sy_world s) w' \<Longrightarrow> ch_tied ch' \<Longrightarrow>
    (out_sync c ch \<longrightarrow> sound (c\<lparr>c_state := kConnected\<rparr>) ch') \<Longrightarrow> F_connectEstablished cid \<notin> set (fut ((todo_of s)(l := fs)) (sy_world s) l) \<Longrightarrow>
    \<forall>fd. wire fd w' = wire fd (sy_world s) \<Longrightarrow>
    step_effect os l s (go l (At_functors held fs) w' s)"
| E_destroyed: "sy_pc s l = At_functors held (F_connectDestroyed cid # fs) \<Longrightarrow> conn_ok cid c ch (sy_world s) \<Longrightarrow> c_loop c = l \<Longrightarrow>
    \<not> in_map (sy_world s) cid c \<Longrightarrow> ch_tied ch' \<Longrightarrow> ch_index ch' = NEW \<Longrightarrow>
    touch cid c ch (if c_state c = kConnected then c\<lparr>c_state := kDisconnected\<rparr> else c) ch' (sy_world s) w' \<Longrightarrow> \<forall>fd. wire fd w' = wire fd (sy_world s) \<Longrightarrow>
    step_effect os l s (go l (At_functors held fs) w' s)"
| E_remove: "sy_pc s l = At_functors held (F_removeConnectionInLoop cid # fs) \<Longrightarrow> conn_ok cid c ch (sy_world s) \<Longrightarrow>
    l = s_loop (sy_world s) \<Longrightarrow> ch_tied ch \<Longrightarrow>
    step_effect os l s (go l (At_functors held fs)
      (queue_on (threadId (lget l (sy_world s))) (c_loop c) (F_connectDestroyed cid) (unmap c (sy_world s))) s)"
| E_end: "sy_pc s l = At_functors held [] \<Longrightarrow>
    w1 = lput l ((lget l (sy_world s))\<lparr>callingPendingFunctors := False\<rparr>) (sy_world s) \<Longrightarrow>
    hs = concat (map (\<lambda>k. held_by (((sy_pc s)(l := At_poll)) k)) (srv_loops (sy_world s))) \<Longrightarrow> released hs w1 w' \<Longrightarrow>
    (\<forall>k c x. conn_ok k c x w' \<longrightarrow> conn_ok k c x w1) \<Longrightarrow>
    (\<forall>cid < s_fresh w1. \<forall>c. w_conns w' cid = Some c \<longrightarrow> owned cid c w' \<or> list_ex (functor_owns cid) hs) \<Longrightarrow>
    step_effect os l s (go l At_poll w' s)"

lemma go_simps [simp]:
  "sy_world (go l at w s) = w" "sy_pc (go l at w s) = (sy_pc s)(l := at)"
  "todo_of (go l at w s) = (todo_of s)(l := todo_by at)" "active_of (go l at w s) = (active_of s)(l := active_by at)"
  by (simp_all add: go_def todo_of_def active_of_def fun_eq_iff)

lemma sys_invI:
  assumes "core {} ((todo_of s)(l := todo_by at)) ((active_of s)(l := active_by at)) w" and "sys_inv s"
    and "set (todo_by at) \<subseteq> set (held_by at)"
  shows "sys_inv (go l at w s)"
  using assms by (simp add: sys_inv_def)

lemma sys_inv_of:
  assumes "sys_inv s"
  shows "core {} (todo_of s) (active_of s) (sy_world s)" "sy_pc s l = At_functors held todo \<Longrightarrow> set todo \<subseteq> set held"
  using assms unfolding sys_inv_def by (blast, metis held_by.simps(1) todo_by.simps(1))

lemma step_poll:
  assumes inv: "sys_inv s" and l: "l \<in> set (srv_loops (sy_world s))" and k: "kernel_ok os wait l s" and at: "sy_pc s l = At_poll"
  shows "\<exists>s'. srv_step os wait now l s = Inr s' \<and> sys_inv s' \<and> step_effect os l s s'"
proof -
  note core = sys_inv_of(1) [OF inv]
  obtain active p where p: "poll wait [] (poller (lget l (sy_world s))) = Inr (active, p)"
    "polled l active (sy_world s) (lput l ((lget l (sy_world s))\<lparr>activeChannels := active, poller := p, pollReturnTime := now\<rparr>) (sy_world s))"
    "\<forall>ptr \<in> set active. \<exists>ch. chan_heap (poller (lget l (sy_world s))) ptr = Some ch \<and> ch_index ch = ADDED"
    using poll_polled [OF srv_heapsD(1) [OF coreD(2) [OF core] l], of wait now] k unfolding kernel_ok_def by blast
  let ?w = "lput l ((lget l (sy_world s))\<lparr>activeChannels := active, poller := p, pollReturnTime := now\<rparr>) (sy_world s)"
  have "srv_step os wait now l s = Inr (go l (At_channels active) ?w s)" using at p(1) by (simp add: srv_step_def Let_def)
  moreover have "(todo_of s)(l := []) = todo_of s" using at by (auto simp: todo_of_def)
  then have "sys_inv (go l (At_channels active) ?w s)"
    using core_polled [OF core p(2,3)] by (intro sys_invI inv) simp_all
  ultimately show ?thesis using E_poll [OF at p(2,3)] by blast
qed

lemma sys_not_conn:
  assumes conns: "srv_conns w" and sys: "sys_chan w l ptr ch" and ch: "chan_heap (poller (lget l w)) ptr = Some ch"
    and c: "w_conns w cid = Some c"
  shows "\<not> (c_loop c = l \<and> c_channel c = ptr)"
proof
  assume here: "c_loop c = l \<and> c_channel c = ptr"
  obtain x where x: "conn_ok cid c x w" using srv_conns_ok [OF conns c] by blast
  then have "x = ch" using ch here by (simp add: conn_ok_def)
  with srv_connD(8) [OF conns x] sys show False by (auto simp: sys_chan_def conn_cbs_def)
qed

lemma step_channel:
  assumes inv: "sys_inv s" and l: "l \<in> set (srv_loops (sy_world s))" and k: "kernel_ok os wait l s" and calm: "calm s"
    and at: "sy_pc s l = At_channels (ptr # rest)"
  shows "\<exists>s'. srv_step os wait now l s = Inr s' \<and> sys_inv s' \<and> step_effect os l s s'"
proof -
  let ?w = "sy_world s" and ?T = "todo_of s" and ?A = "active_of s"
  let ?tid = "threadId (lget l ?w)"
  let ?handle = "handle_channel os (echo_user (os_calls.truncate os) ?tid) ?tid (pollReturnTime (lget l ?w)) l ptr ?w"
  note core = sys_inv_of(1) [OF inv] and os = k [unfolded kernel_ok_def]
  have ptr: "ptr \<in> set (?A l)" using at by (simp add: active_of_def)
  then obtain ch where ch: "chan_heap (poller (lget l ?w)) ptr = Some ch"
    using coreD(6) [OF core] l unfolding srv_active_def by blast
  have T: "?T(l := []) = ?T" using at by (auto simp: todo_of_def)
  have finish: ?thesis if w': "?handle = Inr w'" "core {} ?T ?A w'" and e: "step_effect os l s (go l (At_channels rest) w' s)" for w'
  proof -
    have "srv_step os wait now l s = Inr (go l (At_channels rest) w' s)" using at w'(1) by (simp add: srv_step_def Let_def)
    moreover have "core {} ?T (?A(l := rest)) w'"
      by (rule core_refut [OF w'(2), where A' = "?A(l := rest)"])
         (use at in \<open>auto simp: active_of_def same_core_def intro: exI [of _ "s_connections w'"]\<close>)
    then have "sys_inv (go l (At_channels rest) w' s)" using T by (intro sys_invI inv) simp_all
    ultimately show ?thesis using e by blast
  qed
  from srv_heapsD(3) [OF coreD(2) [OF core] l ch] show ?thesis
  proof
    assume sys: "sys_chan ?w l ptr ch"
    have quiet: "\<forall>cid. step_read os l s cid = []"
      using sys_not_conn [OF coreD(3) [OF core] sys ch] at ch by (auto simp: step_read_def split: option.split)
    from handle_system [OF core l ch sys refl, of os "os_calls.truncate os" "pollReturnTime (lget l ?w)"] calm os
    obtain w' where w': "?handle = Inr w'" "core {} ?T ?A w'"
      "w' = lput l (EventLoop_handleRead (lget l ?w)) ?w \<or> accept_effect ?tid ?w w'" by (auto simp: calm_def)
    from w'(3) have "step_effect os l s (go l (At_channels rest) w' s)" using E_wake [OF at quiet] E_accept [OF at quiet] by blast
    with w'(1,2) show ?thesis by (rule finish)
  next
    assume "\<exists>cid c. w_conns ?w cid = Some c \<and> c_loop c = l \<and> c_channel c = ptr"
    then obtain cid c where c: "w_conns ?w cid = Some c" "c_loop c = l" "c_channel c = ptr" by blast
    have disp: "dispatching ?T ?A ?tid cid ?w" using core c ptr by (simp add: dispatching_def)
    have room: "read_room c" using calm c(1) by (simp add: calm_def)
    have ch': "chan_heap (poller (lget (c_loop c) ?w)) (c_channel c) = Some ch" using ch c by simp
    from handle_connection [OF disp c(1) room ch', of os "pollReturnTime (lget l ?w)"] os obtain w' where
      w': "?handle = Inr w'" "dispatching ?T ?A ?tid cid w'"
        "conn_effects (os_calls.truncate os) ?tid cid (if ch_revents ch AND readEvent \<noteq> 0 then read_bytes os c (Cb_handleRead cid) else []) ?w w'"
      unfolding c(2,3) by blast
    have "step_effect os l s (go l (At_channels rest) w' s)" 
      by (rule E_conn [OF at c(1-3) disp]) (use w'(3) at c ch in \<open>simp add: step_read_def\<close>)
    moreover have "core {} ?T ?A w'" using w'(2) by (simp add: dispatching_def)
    ultimately show ?thesis using finish w'(1) by blast
  qed
qed

lemma step_swap:
  assumes inv: "sys_inv s" and at: "sy_pc s l = At_channels []"
  shows "\<exists>s'. srv_step os wait now l s = Inr s' \<and> sys_inv s' \<and> step_effect os l s s'"
proof -
  let ?w = "sy_world s" and ?fs = "pendingFunctors (lget l (sy_world s))"
  let ?w' = "lput l ((lget l ?w)\<lparr>callingPendingFunctors := True, pendingFunctors := []\<rparr>) ?w"
  have "core {} ((todo_of s)(l := ?fs)) ((active_of s)(l := [])) ?w'"
  proof (rule core_refut [OF sys_inv_of(1) [OF inv] same_core_lput])
    show "fut ((todo_of s)(l := ?fs)) ?w' = fut (todo_of s) ?w" using at by (auto simp: fut_lput fut_def todo_of_def fun_eq_iff)
  qed simp_all
  then have "sys_inv (go l (At_functors ?fs ?fs) ?w' s)" by (intro sys_invI inv) simp_all
  moreover have "srv_step os wait now l s = Inr (go l (At_functors ?fs ?fs) ?w' s)" using at by (simp add: srv_step_def Let_def)
  ultimately show ?thesis using E_swap [OF at refl] by blast
qed

lemma step_functor:
  assumes inv: "sys_inv s" and l: "l \<in> set (srv_loops (sy_world s))" and at: "sy_pc s l = At_functors held (f # fs)"
  shows "\<exists>s'. srv_step os wait now l s = Inr s' \<and> sys_inv s' \<and> step_effect os l s s'"
proof -
  let ?w = "sy_world s" and ?T = "todo_of s" and ?A = "active_of s"
  let ?tid = "threadId (lget l ?w)" and ?o = "os_calls.truncate os"
  note core = sys_inv_of(1) [OF inv]
  have T: "?T l = f # fs" and A: "?A l = []" "?A(l := []) = ?A" using at by (auto simp: todo_of_def active_of_def)
  have finish: ?thesis if w': "exec_functor os (echo_user ?o ?tid) ?tid f ?w = Inr w'" "core {} (?T(l := fs)) ?A w'"
    and e: "step_effect os l s (go l (At_functors held fs) w' s)" for w'
  proof -
    have "srv_step os wait now l s = Inr (go l (At_functors held fs) w' s)" using at w'(1) by (simp add: srv_step_def Let_def)
    moreover have "sys_inv (go l (At_functors held fs) w' s)"
      using w'(2) A(2) sys_inv_of(2) [OF inv at] by (intro sys_invI inv) simp_all
    ultimately show ?thesis using e by blast
  qed
  have "functor_inv ?w l f" by (rule srv_queueD(1) [OF coreD(5) [OF core] l]) (simp add: fut_def T)
  then show ?thesis
  proof (cases rule: functor_inv_cases)
    case (established cid)
    obtain w' c ch ch' where e: "exec_functor os (echo_user ?o ?tid) ?tid (F_connectEstablished cid) ?w = Inr w'"
      "core {} (?T(l := fs)) ?A w'" "conn_ok cid c ch ?w" "c_loop c = l" "in_map ?w cid c" "\<not> ch_tied ch"
      "touch cid c ch (c\<lparr>c_state := kConnected\<rparr>) ch' ?w w'" "ch_tied ch'" "out_sync c ch \<longrightarrow> sound (c\<lparr>c_state := kConnected\<rparr>) ch'"
      "F_connectEstablished cid \<notin> set (fut (?T(l := fs)) ?w l)" "\<forall>fd. wire fd w' = wire fd ?w"
      using exec_established [OF core l T [unfolded established], of os ?o ?tid] by blast
    show ?thesis
      by (rule finish [OF _ e(2) E_established [OF at [unfolded established] e(3-11)]]) (use e(1) established in simp)
  next
    case (destroyed cid)
    obtain w' c ch ch' where e: "exec_functor os (echo_user ?o ?tid) ?tid (F_connectDestroyed cid) ?w = Inr w'"
      "core {} (?T(l := fs)) ?A w'" "conn_ok cid c ch ?w" "c_loop c = l" "\<not> in_map ?w cid c"
      "ch_tied ch'" "ch_index ch' = NEW" "touch cid c ch (if c_state c = kConnected then c\<lparr>c_state := kDisconnected\<rparr> else c) ch' ?w w'"
      "\<forall>fd. wire fd w' = wire fd ?w"
      using exec_destroyed [OF core l T [unfolded destroyed] A(1), of os ?o ?tid] by blast
    show ?thesis
      by (rule finish [OF _ e(2) E_destroyed [OF at [unfolded destroyed] e(3-9)]]) (use e(1) destroyed in simp)
  next
    case (remove cid)
    obtain w' c ch where e: "exec_functor os (echo_user ?o ?tid) ?tid (F_removeConnectionInLoop cid) ?w = Inr w'"
      "core {} (?T(l := fs)) ?A w'" "conn_ok cid c ch ?w" "ch_tied ch" "l = s_loop ?w"
      "w' = queue_on ?tid (c_loop c) (F_connectDestroyed cid) (unmap c ?w)"
      using exec_remove [OF core l T [unfolded remove], of os ?o ?tid] by blast
    show ?thesis
      by (rule finish [OF _ e(2)]) (use e E_remove [OF at [unfolded remove] e(3,5,4), of os] remove in simp_all)
  qed
qed

lemma todo_held:
  assumes inv: "sys_inv s" and at: "sy_pc s l = At_functors held []" and k: "k \<in> set (srv_loops (sy_world s))"
  shows "set (todo_of s k) \<subseteq> set (concat (map (\<lambda>k. held_by (((sy_pc s)(l := At_poll)) k)) (srv_loops (sy_world s))))"
proof (cases "k = l")
  case True
  then show ?thesis using at by (simp add: todo_of_def)
next
  case False
  have "set (todo_of s k) \<subseteq> set (held_by (sy_pc s k))" using inv by (simp add: sys_inv_def todo_of_def)
  moreover have "set (held_by (((sy_pc s)(l := At_poll)) k)) \<subseteq> set (concat (map (\<lambda>k. held_by (((sy_pc s)(l := At_poll)) k)) (srv_loops (sy_world s))))"
    using k by (auto simp del: fun_upd_apply)
  ultimately show ?thesis using False by auto
qed

lemma step_end:
  assumes inv: "sys_inv s" and l: "l \<in> set (srv_loops (sy_world s))" and at: "sy_pc s l = At_functors held []"
  shows "\<exists>s'. srv_step os wait now l s = Inr s' \<and> sys_inv s' \<and> step_effect os l s s'"
proof -
  let ?w = "sy_world s" and ?hs = "concat (map (\<lambda>k. held_by (((sy_pc s)(l := At_poll)) k)) (srv_loops (sy_world s)))"
  define w1 where "w1 = lput l ((lget l ?w)\<lparr>callingPendingFunctors := False\<rparr>) ?w"
  have eqs: "(todo_of s)(l := []) = todo_of s" "(active_of s)(l := []) = active_of s" using at by (auto simp: todo_of_def active_of_def)
  have core1: "core {} (todo_of s) (active_of s) w1"
    unfolding w1_def by (rule core_refut [OF sys_inv_of(1) [OF inv] same_core_lput]) (simp_all add: fut_lput fut_def fun_eq_iff)
  have "set (todo_of s k) \<subseteq> set ?hs" if "k \<in> set (srv_loops w1)" for k
    using todo_held [OF inv at] that by (simp add: w1_def)
  from release_core [OF core1 this, of "[0 ..< s_fresh ?w]"] obtain w' where
    w': "release_held ?hs [0 ..< s_fresh ?w] w1 = Inr w'" "core {} (todo_of s) (active_of s) w'" "released ?hs w1 w'"
      "\<forall>k c x. conn_ok k c x w' \<longrightarrow> conn_ok k c x w1"
      "\<forall>cid \<in> set [0 ..< s_fresh ?w]. \<forall>c. w_conns w' cid = Some c \<longrightarrow> owned cid c w' \<or> list_ex (functor_owns cid) ?hs"
    by blast
  have "srv_step os wait now l s = Inr (go l At_poll w' s)" using at w'(1) by (simp add: srv_step_def Let_def w1_def)
  moreover have "sys_inv (go l At_poll w' s)" using w'(2) eqs by (intro sys_invI inv) simp_all
  moreover have "\<forall>cid < s_fresh w1. \<forall>c. w_conns w' cid = Some c \<longrightarrow> owned cid c w' \<or> list_ex (functor_owns cid) ?hs"
    using w'(5) by (simp add: w1_def)
  ultimately show ?thesis using E_end [OF at w1_def refl w'(3,4)] by blast
qed

theorem srv_step_ok:
  assumes "sys_inv s" and "l \<in> set (srv_loops (sy_world s))" and "kernel_ok os wait l s" and "calm s"
  shows "\<exists>s'. srv_step os wait now l s = Inr s' \<and> sys_inv s' \<and> step_effect os l s s'"
proof (cases "sy_pc s l")
  case At_poll
  with assms step_poll show ?thesis by blast
next
  case (At_channels ptrs)
  with assms step_channel step_swap show ?thesis by (cases ptrs) blast+
next
  case (At_functors held todo)
  with assms step_functor step_end show ?thesis by (cases todo) blast+
qed

end
