(* ===== verification/System_Life.thy ===== *)
theory System_Life
  imports System_Steps
begin

text \<open>
  The life of a connection in the running server. In every state between two steps a connection is in one of
  five phases: waiting for \<open>connectEstablished\<close>, being served, waiting for the server to remove it, waiting
  for \<open>connectDestroyed\<close>, or over and kept alive by a functor only. Every step of every thread moves each
  connection along these phases.
\<close>

section \<open>The phases\<close>

datatype phase = Connecting | Serving | Closing | Leaving | Ended

fun in_phase ::
  "(nat \<Rightarrow> functor_t list) \<Rightarrow> functor_t list \<Rightarrow> server_world \<Rightarrow> nat \<Rightarrow> tcp_connection \<Rightarrow> callback_t channel \<Rightarrow> phase \<Rightarrow> bool" where
  "in_phase T H w cid c ch Connecting \<longleftrightarrow> in_map w cid c \<and> c_state c = kConnecting \<and> \<not> ch_tied ch \<and> out_sync c ch \<and>
     F_connectEstablished cid \<in> set (fut T w (c_loop c))"
| "in_phase T H w cid c ch Serving \<longleftrightarrow> in_map w cid c \<and> c_state c = kConnected \<and> ch_tied ch \<and> sound c ch"
| "in_phase T H w cid c ch Closing \<longleftrightarrow> in_map w cid c \<and> c_state c = kConnected \<and> ch_tied ch \<and>
     F_removeConnectionInLoop cid \<in> set (fut T w (s_loop w))"
| "in_phase T H w cid c ch Leaving \<longleftrightarrow> \<not> in_map w cid c \<and> c_state c = kConnected \<and> ch_tied ch \<and>
     F_connectDestroyed cid \<in> set (fut T w (c_loop c))"
| "in_phase T H w cid c ch Ended \<longleftrightarrow> \<not> in_map w cid c \<and> c_state c = kDisconnected \<and> ch_tied ch \<and> ch_index ch = NEW \<and>
     (owned cid c w \<or> list_ex (functor_owns cid) H)"

definition life :: "(nat \<Rightarrow> functor_t list) \<Rightarrow> functor_t list \<Rightarrow> server_world \<Rightarrow> bool" where
  "life T H w \<longleftrightarrow> (\<forall>cid c ch. conn_ok cid c ch w \<longrightarrow> (\<exists>p. in_phase T H w cid c ch p))"

lemma lifeD: "life T H w \<Longrightarrow> conn_ok cid c ch w \<Longrightarrow> \<exists>p. in_phase T H w cid c ch p"
  unfolding life_def by blast

lemma lifeI: "(\<And>cid c ch. conn_ok cid c ch w \<Longrightarrow> \<exists>p. in_phase T H w cid c ch p) \<Longrightarrow> life T H w"
  unfolding life_def by blast

lemma same_chan_sound: "same_chan x y \<Longrightarrow> sound c y = sound c x" "same_chan x y \<Longrightarrow> out_sync c y = out_sync c x"
  using same_chanD [of x y] by (simp_all add: sound_def out_sync_def isReading_def isWriting_def)

text \<open>A connection stays in its phase when no functor of it is lost.\<close>

lemma phase_mono:
  assumes "in_phase T H w k c x p" and "same_chan x y" and "in_map w' k c = in_map w k c" and "s_loop w' = s_loop w"
    and fut: "\<And>l f. functor_owns k f \<Longrightarrow> f \<in> set (fut T w l) \<Longrightarrow> f \<in> set (fut T' w' l)"
    and "owned k c w \<or> list_ex (functor_owns k) H \<Longrightarrow> owned k c w' \<or> list_ex (functor_owns k) H'"
  shows "in_phase T' H' w' k c y p"
  using assms same_chanD(1,2) [OF assms(2)] fut [of "F_connectEstablished k"] fut [of "F_connectDestroyed k"]
    fut [of "F_removeConnectionInLoop k"]
  by (cases p) (simp_all add: same_chan_sound [OF assms(2)])

lemma phase_same:
  assumes "in_phase T H w k c x p" and "in_map w' k c = in_map w k c" and "s_loop w' = s_loop w" and "fut T w' = fut T w"
    and "owned k c w' = owned k c w"
  shows "in_phase T H w' k c x p"
  using phase_mono [OF assms(1) same_chan_refl assms(2,3), of T H] assms(4,5) by simp

lemma connected_phases:
  assumes "in_phase T H w k c x p" and "c_state c = kConnected"
  shows "ch_tied x" "p \<in> {Serving, Closing, Leaving}"
  using assms by (cases p; simp)+

lemma owned_same:
  assumes "in_map w' k c = in_map w k c" and "srv_loops w' = srv_loops w" and "\<And>l. pendingFunctors (lget l w') = pendingFunctors (lget l w)"
  shows "owned k c w' = owned k c w"
  using assms by (simp add: owned_iff)

section \<open>The callbacks of a connection\<close>

lemma touch_owned:
  assumes "touch cid c ch c' ch' w (w' :: server_world)"
  shows "owned k d w' = owned k d w"
  using touch_frame [OF assms] by (intro owned_same) simp_all

lemma touch_phase_other:
  assumes "touch cid c ch c' ch' w (w' :: server_world)" and "in_phase T H w k ck x p"
  shows "in_phase T H w' k ck x p"
  by (rule phase_same [OF assms(2)]) (use touch_frame [OF assms(1)] touch_owned [OF assms(1)] in simp_all)

lemma touch_phase_self:
  assumes t: "touch cid c ch c' ch' w (w' :: server_world)" and p: "in_phase T H w cid c ch p"
    and same: "c_state c' = c_state c" "ch_tied ch' = ch_tied ch" and conn: "c_state c = kConnected"
  shows "p = Serving \<Longrightarrow> sound c' ch' \<Longrightarrow> in_phase T H w' cid c' ch' Serving"
    "p \<noteq> Serving \<Longrightarrow> in_phase T H w' cid c' ch' p"
proof -
  note f = touch_frame [OF t] and id = same_idD [OF touchD(2) [OF t]]
  have inm: "in_map w' cid c' = in_map w cid c" using f(4) by (simp add: in_map_def id)
  show "p = Serving \<Longrightarrow> sound c' ch' \<Longrightarrow> in_phase T H w' cid c' ch' Serving" using p same inm by simp
  show "p \<noteq> Serving \<Longrightarrow> in_phase T H w' cid c' ch' p"
    using p same inm conn by (cases p) (simp_all add: f(1,10) id)
qed

lemma pending_queue:
  "pendingFunctors (lget a (queue_on tid l f w)) = pendingFunctors (lget a w) @ (if a = l then [f] else [])"
  by (simp add: queue_on_def loop_op_defs)

lemma request_close_phase:
  assumes p: "in_phase T H w k ck x p" and name: "c_name ck \<noteq> c_name c"
  shows "in_phase T H (request_close tid cid c w) k ck x p"
proof -
  let ?w = "request_close tid cid c w"
  have grow: "f \<in> set (pendingFunctors (lget l w)) \<Longrightarrow> f \<in> set (pendingFunctors (lget l ?w))" for f l
    unfolding request_close_def unmap_def [symmetric] by (simp add: pending_queue)
  show ?thesis
  proof (rule phase_mono [OF p same_chan_refl])
    show inm: "in_map ?w k ck = in_map w k ck" using name by (simp add: request_close_def unmap_def [symmetric])
    show "s_loop ?w = s_loop w" by (simp add: request_close_def unmap_def [symmetric])
    show "f \<in> set (fut T w l) \<Longrightarrow> f \<in> set (fut T ?w l)" for l f using grow by (auto simp: fut_def)
    show "owned k ck w \<or> list_ex (functor_owns k) H \<Longrightarrow> owned k ck ?w \<or> list_ex (functor_owns k) H"
      using grow unfolding owned_iff inm request_close_simps by blast
  qed
qed

lemma request_phase_self:
  assumes p: "\<not> in_map w cid c \<Longrightarrow> in_phase T H w cid c ch Leaving" and s: "c_state c = kConnected" "ch_tied ch"
  shows "\<exists>p. in_phase T H (request_close tid cid c w) cid c ch p"
proof (cases "isInLoopThread tid (lget (s_loop w) w)")
  case True
  then have "in_phase T H (request_close tid cid c w) cid c ch Leaving"
    using s by (simp add: request_close_def unmap_def [symmetric] fut_queue)
  then show ?thesis by blast
next
  case False
  then have "in_phase T H (request_close tid cid c w) cid c ch (if in_map w cid c then Closing else Leaving)"
    using p s by (auto simp: request_close_def fut_queue)
  then show ?thesis by blast
qed

lemma life_effect:
  assumes core: "core {} T A w" and life: "life T H w" and e: "conn_effect os tid cid bs w w'"
    and conn: "\<And>c. w_conns w cid = Some c \<Longrightarrow> c_state c = kConnected"
  shows "life T H w'" "w_conns w' cid = Some c' \<Longrightarrow> c_state c' = kConnected"
proof -
  from e obtain c ch c1 ch1 w1 where ok: "conn_ok cid c ch w" and t: "touch cid c ch c1 ch1 w w1" and
    s: "c_state c1 = c_state c" "ch_tied ch1 = ch_tied ch" and
    w': "w' = w1 \<and> (sound c ch \<longrightarrow> sound c1 ch1) \<or> w' = request_close tid cid c1 w1"
    unfolding conn_effect_def by blast
  note d = coreD [OF core] and other = touch_other [OF d(3,2) ok t]
  have st: "c_state c = kConnected" by (rule conn [OF conn_okD(1) [OF ok]])
  obtain p where p: "in_phase T H w cid c ch p" using lifeD [OF life ok] by blast
  note ps = connected_phases [OF p st] and self = touch_phase_self [OF t p s st]
  show "c_state c' = kConnected" if "w_conns w' cid = Some c'"
    using that w' touchD(5) [OF t] s(1) st by auto
  show "life T H w'"
  proof (rule lifeI)
    fix k ck x assume k: "conn_ok k ck x w'"
    then have k1: "conn_ok k ck x w1" using w' by auto
    show "\<exists>p. in_phase T H w' k ck x p"
    proof (cases "k = cid")
      case False
      then have okk: "conn_ok k ck x w" using k1 other by simp
      then obtain q where "in_phase T H w k ck x q" using lifeD [OF life] by blast
      then have q: "in_phase T H w1 k ck x q" by (rule touch_phase_other [OF t])
      have name: "c_name ck \<noteq> c_name c1"
        using srv_names [OF d(3) conn_okD(1) [OF okk] conn_okD(1) [OF ok]] False same_idD(3) [OF touchD(2) [OF t]] by auto
      from q w' request_close_phase [OF q name] show ?thesis by blast
    next
      case True
      then have eq: "ck = c1" "x = ch1" using k1 touch_self [OF t] by simp_all
      have "\<not> in_map w1 cid c1 \<Longrightarrow> in_phase T H w1 cid c1 ch1 Leaving"
        using ps(2) self touch_frame(11) [OF t] p same_idD(3) [OF touchD(2) [OF t]] by (auto simp: in_map_def)
      note req = request_phase_self [OF this, of tid]
      have "\<exists>q. in_phase T H w1 cid c1 ch1 q" if "sound c ch \<longrightarrow> sound c1 ch1"
        using self p that by (cases "p = Serving") (auto simp del: in_phase.simps simp: in_phase.simps(2) [of T H w])
      with w' req s st ps(1) show ?thesis unfolding True eq by auto
    qed
  qed
qed

section \<open>The other steps\<close>

lemma life_mono:
  assumes life: "life T H w" and conn: "\<And>k c y. conn_ok k c y w' \<Longrightarrow> \<exists>x. conn_ok k c x w \<and> same_chan x y"
    and "\<And>k c. in_map w' k c = in_map w k c" and "s_loop w' = s_loop w"
    and "\<And>l f. f \<in> set (fut T w l) \<Longrightarrow> f \<in> set (fut T' w' l)"
    and own: "\<And>k c. w_conns w' k = Some c \<Longrightarrow> owned k c w \<or> list_ex (functor_owns k) H \<Longrightarrow> owned k c w' \<or> list_ex (functor_owns k) H'"
  shows "life T' H' w'"
proof (rule lifeI)
  fix k c y assume y: "conn_ok k c y w'"
  then obtain x where x: "conn_ok k c x w" "same_chan x y" using conn by blast
  then obtain p where p: "in_phase T H w k c x p" using lifeD [OF life] by blast
  have "in_phase T' H' w' k c y p"
    by (rule phase_mono [OF p x(2)]) (use assms(3-5) own [OF conn_okD(1) [OF y]] in blast)+
  then show "\<exists>p. in_phase T' H' w' k c y p" ..
qed

lemma life_polled:
  assumes "core {} T A w" and life: "life T H w" and pd: "polled l active w w'"
  shows "life T H w'"
proof (rule life_mono [OF life])
  note f = polled_frame [OF pd]
  show "conn_ok k c y w' \<Longrightarrow> \<exists>x. conn_ok k c x w \<and> same_chan x y" for k c y
    by (rule polled_conn(1) [OF pd coreD(2,3) [OF assms(1)]])
  show "owned k c w \<or> list_ex (functor_owns k) H \<Longrightarrow> owned k c w' \<or> list_ex (functor_owns k) H" for k c
    using owned_same [of w' k c w] f by simp
qed (use polled_frame [OF pd] in simp_all)

lemma life_lput:
  assumes life: "life T H w" and lo: "poller lo = poller (lget l w)"
    and fut: "\<And>f. f \<in> set (T l @ pendingFunctors (lget l w)) \<Longrightarrow> f \<in> set (T' l @ pendingFunctors lo)" "\<And>a. a \<noteq> l \<Longrightarrow> T' a = T a"
    and own: "\<And>k c. owned k c w \<or> list_ex (functor_owns k) H \<Longrightarrow> owned k c (lput l lo w) \<or> list_ex (functor_owns k) H'"
  shows "life T' H' (lput l lo w)"
proof (rule life_mono [OF life])
  show "\<exists>x. conn_ok k c x w \<and> same_chan x y" if "conn_ok k c y (lput l lo w)" for k c y
    using that lo by (intro exI [of _ y]) (auto simp: conn_ok_def split: if_splits)
  show "f \<in> set (fut T w a) \<Longrightarrow> f \<in> set (fut T' (lput l lo w) a)" for a f
    using fut(1) [of f] fut(2) [of a] by (cases "a = l") (auto simp: fut_lput fut_def)
qed (use own in \<open>simp_all add: in_map_def\<close>)

text \<open>A functor of connection \<open>cid\<close> is taken from the list and called.\<close>

lemma life_functor:
  assumes life: "life T H w" and core: "core {} T A w" and ok: "conn_ok cid c ch w" and T: "T l = f # fs"
    and f: "f \<in> {F_connectEstablished cid, F_connectDestroyed cid, F_removeConnectionInLoop cid}"
    and t: "touch cid c ch c' ch' w w'" and self: "\<exists>p. in_phase (T(l := fs)) H w' cid c' ch' p"
  shows "life (T(l := fs)) H w'"
proof (rule lifeI)
  fix k ck x assume k: "conn_ok k ck x w'"
  show "\<exists>p. in_phase (T(l := fs)) H w' k ck x p"
  proof (cases "k = cid")
    case True
    with k self touch_self [OF t] show ?thesis by auto
  next
    case False
    then have "conn_ok k ck x w" using k touch_other [OF coreD(3,2) [OF core] ok t] by simp
    then obtain p where "in_phase T H w k ck x p" using lifeD [OF life] by blast
    then have p: "in_phase T H w' k ck x p" by (rule touch_phase_other [OF t])
    have "in_phase (T(l := fs)) H w' k ck x p"
    proof (rule phase_mono [OF p same_chan_refl])
      fix a g assume g: "functor_owns k g" "g \<in> set (fut T w' a)"
      then have "g \<noteq> f" using f False by auto
      with g(2) show "g \<in> set (fut (T(l := fs)) w' a)" using T by (cases "a = l") (auto simp: fut_def)
    qed simp_all
    then show ?thesis ..
  qed
qed

lemma life_established:
  assumes life: "life T H w" and core: "core {} T A w" and ok: "conn_ok cid c ch w" and T: "T l = F_connectEstablished cid # fs"
    and c: "in_map w cid c" "\<not> ch_tied ch"
    and t: "touch cid c ch (c\<lparr>c_state := kConnected\<rparr>) ch' w w'" "ch_tied ch'" "out_sync c ch \<longrightarrow> sound (c\<lparr>c_state := kConnected\<rparr>) ch'"
  shows "life (T(l := fs)) H w'"
proof (rule life_functor [OF life core ok T _ t(1)])
  obtain p where p: "in_phase T H w cid c ch p" using lifeD [OF life ok] by blast
  then have "out_sync c ch" using c(2) by (cases p) auto
  moreover have "in_map w' cid (c\<lparr>c_state := kConnected\<rparr>)" using c(1) touch_frame(4) [OF t(1)] by (simp add: in_map_def)
  ultimately have "in_phase (T(l := fs)) H w' cid (c\<lparr>c_state := kConnected\<rparr>) ch' Serving" using t by simp
  then show "\<exists>p. in_phase (T(l := fs)) H w' cid (c\<lparr>c_state := kConnected\<rparr>) ch' p" ..
qed simp

lemma life_destroyed:
  assumes life: "life T H w" and core: "core {} T A w" and ok: "conn_ok cid c ch w" and T: "T l = F_connectDestroyed cid # fs"
    and c: "\<not> in_map w cid c" and H: "F_connectDestroyed cid \<in> set H"
    and t: "touch cid c ch (if c_state c = kConnected then c\<lparr>c_state := kDisconnected\<rparr> else c) ch' w w'" "ch_tied ch'" "ch_index ch' = NEW"
  shows "life (T(l := fs)) H w'"
proof (rule life_functor [OF life core ok T _ t(1)])
  let ?c = "if c_state c = kConnected then c\<lparr>c_state := kDisconnected\<rparr> else c"
  obtain p where p: "in_phase T H w cid c ch p" using lifeD [OF life ok] by blast
  then have "c_state ?c = kDisconnected" using c by (cases p) auto
  moreover have "\<not> in_map w' cid ?c" using c touch_frame(4) [OF t(1)] by (simp add: in_map_def)
  moreover have "list_ex (functor_owns cid) H" using H by (auto simp: list_ex_iff intro!: bexI [of _ "F_connectDestroyed cid"])
  ultimately have "in_phase (T(l := fs)) H w' cid ?c ch' Ended" using t by simp
  then show "\<exists>p. in_phase (T(l := fs)) H w' cid ?c ch' p" ..
qed simp

lemma life_remove:
  assumes life: "life T H w" and core: "core {} T A w" and ok: "conn_ok cid c ch w" and T: "T l = F_removeConnectionInLoop cid # fs"
    and tied: "ch_tied ch"
  shows "life (T(l := fs)) H (queue_on tid (c_loop c) (F_connectDestroyed cid) (unmap c w))"
proof (rule lifeI)
  let ?w = "queue_on tid (c_loop c) (F_connectDestroyed cid) (unmap c w)"
  note d = coreD [OF core]
  fix k ck x assume "conn_ok k ck x ?w"
  then have k: "conn_ok k ck x w" by simp
  then obtain p where p: "in_phase T H w k ck x p" using lifeD [OF life] by blast
  show "\<exists>p. in_phase (T(l := fs)) H ?w k ck x p"
  proof (cases "k = cid")
    case True
    then have eq: "ck = c" "x = ch" using conn_ok_unique_chan [OF ok] k by simp_all
    have own: "owned cid c ?w" using srv_connD(3) [OF d(3) ok] by (auto simp: owned_iff pending_queue intro!: bexI [of _ "c_loop c"] bexI [of _ "F_connectDestroyed cid"])
    have "in_phase (T(l := fs)) H ?w cid c ch (if c_state c = kConnected then Leaving else Ended)"
      using p own tied unfolding True eq by (cases p) (simp_all add: fut_queue)
    then show ?thesis unfolding True eq by blast
  next
    case False
    have name: "c_name ck \<noteq> c_name c" using srv_names [OF d(3) conn_okD(1) [OF k] conn_okD(1) [OF ok]] False by blast
    have "in_phase (T(l := fs)) H ?w k ck x p"
    proof (rule phase_mono [OF p same_chan_refl])
      show inm: "in_map ?w k ck = in_map w k ck" using name by simp
      fix a g assume g: "functor_owns k g" "g \<in> set (fut T w a)"
      then have "g \<noteq> F_removeConnectionInLoop cid" using False by auto
      with g(2) show "g \<in> set (fut (T(l := fs)) ?w a)" using T by (cases "a = l") (auto simp: fut_def pending_queue)
    next
      show "owned k ck w \<or> list_ex (functor_owns k) H \<Longrightarrow> owned k ck ?w \<or> list_ex (functor_owns k) H"
        using name by (auto simp: owned_iff pending_queue)
    qed simp
    then show ?thesis ..
  qed
qed

lemma added_phase:
  assumes core: "core {} T A w" and life: "life T H w" and new: "conn_added io pool1 c ch w w4" and loops: "srv_loops w4 = srv_loops w"
    and k: "conn_ok k ck x w4" "k \<noteq> s_fresh w"
  shows "\<exists>p. in_phase T H w4 k ck x p"
proof -
  note other = added_other [OF coreD(3) [OF core] new]
  have ok: "conn_ok k ck x w" using k other(1) by simp
  then obtain p where p: "in_phase T H w k ck x p" using lifeD [OF life] by blast
  have inm: "in_map w4 k ck = in_map w k ck" by (rule other(3) [OF conn_okD(1) [OF ok]])
  have "in_phase T H w4 k ck x p"
    by (rule phase_same [OF p inm]) (use added_server(1) [OF new] added_frame [OF new] owned_same [OF inm loops] in simp_all)
  then show ?thesis ..
qed

lemma life_accept:
  assumes core: "core {} T A w" and life: "life T H w" and e: "accept_effect tid w w'"
  shows "life T H w'"
proof (cases "w' = w")
  case False
  with e obtain io pool1 c ch w4 where nxt: "getNextLoop (s_pool w) = (io, pool1)" and new: "conn_added io pool1 c ch w w4" and
    w': "w' = queue_on tid io (F_connectEstablished (s_fresh w)) w4 \<or>
      (\<exists>ch'. touch (s_fresh w) c ch (c\<lparr>c_state := kConnected\<rparr>) ch' w4 w' \<and> ch_tied ch' \<and> (out_sync c ch \<longrightarrow> sound (c\<lparr>c_state := kConnected\<rparr>) ch'))"
    unfolding accept_effect_def by blast
  note core4 = core_added [OF core nxt new]
  have loops: "srv_loops w4 = srv_loops w" using added_server(13) [OF new] getNextLoop_srv(2) [OF coreD(1) [OF core] nxt] by (simp add: srv_loops_def)
  note old = added_phase [OF core life new loops]
  from new have c: "conn_ok (s_fresh w) c ch w4" "c_state c = kConnecting" "c_loop c = io" "\<not> ch_tied ch" "out_sync c ch"
    unfolding conn_added_def out_sync_def by auto
  have inm: "in_map w4 (s_fresh w) c" by (rule added_server(12) [OF new])
  from w' show ?thesis
  proof (elim disjE exE conjE)
    assume eq: "w' = queue_on tid io (F_connectEstablished (s_fresh w)) w4"
    show ?thesis
    proof (rule lifeI)
      fix k ck x assume "conn_ok k ck x w'"
      then have k: "conn_ok k ck x w4" by (simp add: eq)
      show "\<exists>p. in_phase T H w' k ck x p"
      proof (cases "k = s_fresh w")
        case True
        then have "ck = c" "x = ch" using k conn_ok_unique_chan [OF c(1)] by simp_all
        then have "in_phase T H w' k ck x Connecting" using True c inm by (simp add: eq fut_queue)
        then show ?thesis ..
      next
        case False
        then obtain p where p: "in_phase T H w4 k ck x p" using old k by blast
        have "in_phase T H w' k ck x p"
          by (rule phase_mono [OF p same_chan_refl]) (auto simp: eq fut_queue owned_iff pending_queue)
        then show ?thesis ..
      qed
    qed
  next
    fix ch' assume t: "touch (s_fresh w) c ch (c\<lparr>c_state := kConnected\<rparr>) ch' w4 w'" "ch_tied ch'"
      "out_sync c ch \<longrightarrow> sound (c\<lparr>c_state := kConnected\<rparr>) ch'"
    show ?thesis
    proof (rule lifeI)
      fix k ck x assume k: "conn_ok k ck x w'"
      show "\<exists>p. in_phase T H w' k ck x p"
      proof (cases "k = s_fresh w")
        case True
        have "in_phase T H w' k (c\<lparr>c_state := kConnected\<rparr>) ch' Serving"
          using t(2,3) c(5) inm True touch_frame(4) [OF t(1)] by (simp add: in_map_def)
        moreover have "ck = c\<lparr>c_state := kConnected\<rparr>" "x = ch'" using k touch_self [OF t(1)] True by simp_all
        ultimately show ?thesis by blast
      next
        case False
        then have "conn_ok k ck x w4" using k touch_other [OF coreD(3,2) [OF core4] c(1) t(1)] by simp
        with old False touch_phase_other [OF t(1)] show ?thesis by blast
      qed
    qed
  qed
qed (use life in simp)

section \<open>Every step\<close>

text \<open>The channels a loop has still to handle belong to connections that are connected.\<close>

definition active_connected :: "(nat \<Rightarrow> nat list) \<Rightarrow> server_world \<Rightarrow> bool" where
  "active_connected A w \<longleftrightarrow> (\<forall>cid c. w_conns w cid = Some c \<longrightarrow> c_channel c \<in> set (A (c_loop c)) \<longrightarrow> c_state c = kConnected)"

definition sys_life :: "srv_sys \<Rightarrow> bool" where
  "sys_life s \<longleftrightarrow> sys_inv s \<and> life (todo_of s) (held_of s) (sy_world s) \<and> active_connected (active_of s) (sy_world s)"

lemma sys_lifeD:
  assumes "sys_life s"
  shows "sys_inv s" "core {} (todo_of s) (active_of s) (sy_world s)" "life (todo_of s) (held_of s) (sy_world s)"
    "active_connected (active_of s) (sy_world s)"
  using assms by (simp_all add: sys_life_def sys_inv_def)

lemma held_of_iff: "f \<in> set (held_of s) \<longleftrightarrow> (\<exists>l \<in> set (srv_loops (sy_world s)). f \<in> set (held_by (sy_pc s l)))"
  by (auto simp: held_of_def)

lemma held_of_go: "held_of (go l at w s) = concat (map (\<lambda>k. held_by (((sy_pc s)(l := at)) k)) (srv_loops w))"
  by (simp add: held_of_def)

lemma held_of_same: "srv_loops w = srv_loops (sy_world s) \<Longrightarrow> held_by at = held_by (sy_pc s l) \<Longrightarrow> held_of (go l at w s) = held_of s"
  unfolding held_of_go unfolding held_of_def by (intro arg_cong [where f = concat] map_cong) auto

lemma life_effects:
  assumes "conn_effects os tid cid bs w w'" and "dispatching T A tid cid w" and "life T H w"
    and "\<And>c. w_conns w cid = Some c \<Longrightarrow> c_state c = kConnected"
  shows "life T H w' \<and> dispatching T A tid cid w' \<and> (\<forall>c. w_conns w' cid = Some c \<longrightarrow> c_state c = kConnected)"
  using assms
proof (induction rule: conn_effects.induct)
  case (one_more bs w w1 bs' w2)
  then have 1: "life T H w1" "dispatching T A tid cid w1" "\<And>c. w_conns w1 cid = Some c \<Longrightarrow> c_state c = kConnected" by blast+
  have "core {} T A w1" using 1(2) by (simp add: dispatching_def)
  from life_effect [OF this 1(1) one_more.hyps(2) 1(3)] dispatching_effect [OF 1(2) one_more.hyps(2)] show ?case by blast
qed blast

lemma effects_frame:
  assumes "conn_effects os tid cid bs w w'" and "w_conns w cid = Some c"
  shows "srv_loops w' = srv_loops w \<and> (\<exists>c'. w_conns w' = (w_conns w)(cid \<mapsto> c') \<and> same_id c c')"
  using assms
proof (induction rule: conn_effects.induct)
  case (no_effect w)
  then show ?case by (auto intro!: exI [of _ c])
next
  case (one_more bs w w1 bs' w2)
  then obtain c1 where 1: "srv_loops w1 = srv_loops w" "w_conns w1 = (w_conns w)(cid \<mapsto> c1)" "same_id c c1" by blast
  obtain c2 where 2: "w_conns w2 = (w_conns w1)(cid \<mapsto> c2)" "same_id c1 c2"
    using conn_effect_frame(1) [OF one_more.hyps(2)] 1(2) by auto
  from one_more.hyps(2) obtain d x d' x' w' where "touch cid d x d' x' w1 w'" "w2 = w' \<or> w2 = request_close tid cid d' w'"
    unfolding conn_effect_def by blast
  then have "srv_loops w2 = srv_loops w1" using touch_frame(3) by auto
  with 1 2 same_id_trans [OF 1(3) 2(2)] show ?case by auto
qed

lemma active_connected_mono:
  assumes "active_connected A w" and "\<And>l. set (A' l) \<subseteq> set (A l)"
    and "\<And>cid c. w_conns w' cid = Some c \<Longrightarrow> c_channel c \<in> set (A' (c_loop c)) \<Longrightarrow>
      \<exists>d. w_conns w cid = Some d \<and> c_loop d = c_loop c \<and> c_channel d = c_channel c \<and> (c_state d = kConnected \<longrightarrow> c_state c = kConnected)"
  shows "active_connected A' w'"
  using assms unfolding active_connected_def by (metis subsetD)

text \<open>The invariant of a registered channel: its connection is connected.\<close>

lemma added_connected:
  assumes "core {} T A w" and "life T H w" and ok: "conn_ok cid c ch w" and "ch_index ch = ADDED"
  shows "c_state c = kConnected"
proof -
  have "conn_dyn T w cid c ch" using coreD(4) [OF assms(1)] ok unfolding srv_dyn_def by blast
  then have "ch_tied ch" using assms(4) by (auto simp: conn_dyn_def)
  moreover obtain p where "in_phase T H w cid c ch p" using lifeD [OF assms(2) ok] by blast
  ultimately show ?thesis using assms(4) by (cases p) auto
qed

lemma life_step_poll:
  assumes s: "sys_life s" and at: "sy_pc s l = At_poll" and pd: "polled l active (sy_world s) w'"
    and act: "\<forall>ptr \<in> set active. \<exists>ch. chan_heap (poller (lget l (sy_world s))) ptr = Some ch \<and> ch_index ch = ADDED"
  shows "life (todo_of s) (held_of s) w'" "active_connected ((active_of s)(l := active)) w'"
proof -
  note d = sys_lifeD [OF s]
  show "life (todo_of s) (held_of s) w'" by (rule life_polled [OF d(2,3) pd])
  show "active_connected ((active_of s)(l := active)) w'"
    unfolding active_connected_def polled_frame(1) [OF pd]
  proof (intro allI impI)
    fix cid c assume c: "w_conns (sy_world s) cid = Some c" "c_channel c \<in> set (((active_of s)(l := active)) (c_loop c))"
    obtain ch where ok: "conn_ok cid c ch (sy_world s)" using srv_conns_ok [OF coreD(3) [OF d(2)] c(1)] by blast
    show "c_state c = kConnected"
    proof (cases "c_loop c = l")
      case True
      then have "ch_index ch = ADDED" using act c(2) conn_okD(4) [OF ok] by auto
      then show ?thesis by (rule added_connected [OF d(2,3) ok])
    next
      case False
      with d(4) c show ?thesis by (simp add: active_connected_def)
    qed
  qed
qed

lemma life_step_conn:
  assumes s: "sys_life s" and at: "sy_pc s l = At_channels (ptr # rest)" and c: "w_conns (sy_world s) cid = Some c" "c_loop c = l" "c_channel c = ptr"
    and disp: "dispatching (todo_of s) (active_of s) tid cid (sy_world s)" and e: "conn_effects os tid cid bs (sy_world s) w'"
  shows "life (todo_of s) (held_of s) w'" "active_connected ((active_of s)(l := rest)) w'" "srv_loops w' = srv_loops (sy_world s)"
proof -
  note d = sys_lifeD [OF s]
  have "c_channel c \<in> set (active_of s (c_loop c))" using at c by (simp add: active_of_def)
  then have st: "c_state c = kConnected" using d(4) c(1) by (simp add: active_connected_def)
  have l: "life (todo_of s) (held_of s) w'" "\<And>c'. w_conns w' cid = Some c' \<Longrightarrow> c_state c' = kConnected"
    using life_effects [OF e disp d(3)] st c(1) by auto
  obtain c' where c': "w_conns w' = (w_conns (sy_world s))(cid \<mapsto> c')" "same_id c c'" and loops: "srv_loops w' = srv_loops (sy_world s)"
    using effects_frame [OF e c(1)] by blast
  show "life (todo_of s) (held_of s) w'" "srv_loops w' = srv_loops (sy_world s)" by (fact l(1), fact loops)
  show "active_connected ((active_of s)(l := rest)) w'"
  proof (rule active_connected_mono [OF d(4)])
    show "set (((active_of s)(l := rest)) a) \<subseteq> set (active_of s a)" for a using at by (auto simp: active_of_def)
    show "\<exists>d. w_conns (sy_world s) k = Some d \<and> c_loop d = c_loop ck \<and> c_channel d = c_channel ck \<and> (c_state d = kConnected \<longrightarrow> c_state ck = kConnected)"
      if "w_conns w' k = Some ck" for k ck
      using that c(1) l(2) same_idD(1,2) [OF c'(2)] by (cases "k = cid") (auto simp: c'(1))
  qed
qed

lemma life_step_system:
  assumes s: "sys_life s" and at: "sy_pc s l = At_channels (ptr # rest)"
    and w': "w' = lput l (EventLoop_handleRead (lget l (sy_world s))) (sy_world s) \<or> accept_effect tid (sy_world s) w'" and conns: "srv_conns w'"
  shows "life (todo_of s) (held_of s) w'" "active_connected ((active_of s)(l := rest)) w'" "srv_loops w' = srv_loops (sy_world s)"
proof -
  let ?w = "sy_world s"
  note d = sys_lifeD [OF s]
  have wake: "life (todo_of s) (held_of s) (lput l (EventLoop_handleRead (lget l ?w)) ?w)"
    by (rule life_lput [OF d(3)]) (auto simp: loop_op_defs owned_iff in_map_def)
  show "life (todo_of s) (held_of s) w'" using w' wake life_accept [OF d(2,3)] by blast
  have new: "srv_loops w' = srv_loops ?w \<and> (\<forall>k c. w_conns w' k = Some c \<longrightarrow> w_conns ?w k = Some c \<or> c_channel c = Suc (s_fresh ?w))"
    if e: "accept_effect tid ?w w'"
  proof (cases "w' = ?w")
    case False
    with e obtain io pool1 c ch w4 where nxt: "getNextLoop (s_pool ?w) = (io, pool1)" and add: "conn_added io pool1 c ch ?w w4" and
      w: "w' = queue_on tid io (F_connectEstablished (s_fresh ?w)) w4 \<or> (\<exists>ch'. touch (s_fresh ?w) c ch (c\<lparr>c_state := kConnected\<rparr>) ch' w4 w')"
      unfolding accept_effect_def by blast
    have "srv_loops w4 = srv_loops ?w"
      using added_server(13) [OF add] getNextLoop_srv(2) [OF coreD(1) [OF d(2)] nxt] by (simp add: srv_loops_def)
    moreover have "c_channel c = Suc (s_fresh ?w)" using add by (simp add: conn_added_def)
    ultimately show ?thesis using w added_frame(9) [OF add] by (auto simp: touch_frame(3) touchD(5) split: if_splits)
  qed simp
  show "srv_loops w' = srv_loops ?w" using w' new by auto
  show "active_connected ((active_of s)(l := rest)) w'"
  proof (rule active_connected_mono [OF d(4)])
    show "set (((active_of s)(l := rest)) a) \<subseteq> set (active_of s a)" for a using at by (auto simp: active_of_def)
    fix k c assume c: "w_conns w' k = Some c" "c_channel c \<in> set (((active_of s)(l := rest)) (c_loop c))"
    have l: "c_loop c \<in> set (srv_loops ?w)" using srv_conns_ok [OF conns c(1)] srv_connD(3) [OF conns] w' new by auto
    have "c_channel c \<in> set (active_of s (c_loop c))" using c(2) at by (auto simp: active_of_def split: if_splits)
    with l obtain x where "chan_heap (poller (lget (c_loop c) ?w)) (c_channel c) = Some x"
      using coreD(6) [OF d(2)] unfolding srv_active_def by blast
    from srv_heapsD(2) [OF coreD(2) [OF d(2)] l this] have "w_conns ?w k = Some c" using w' new c(1) by fastforce
    then show "\<exists>d. w_conns ?w k = Some d \<and> c_loop d = c_loop c \<and> c_channel d = c_channel c \<and> (c_state d = kConnected \<longrightarrow> c_state c = kConnected)"
      by blast
  qed
qed

lemma active_connected_touch:
  assumes ac: "active_connected A w" and t: "touch cid c ch c' ch' w w'" and c: "w_conns w cid = Some c"
    and st: "c_state c' = kConnected \<or> A (c_loop c) = []"
  shows "active_connected A w'"
  unfolding active_connected_def
proof (intro allI impI)
  fix k ck assume k: "w_conns w' k = Some ck" "c_channel ck \<in> set (A (c_loop ck))"
  show "c_state ck = kConnected"
  proof (cases "k = cid")
    case True
    then show ?thesis using k st touchD(5) [OF t] same_idD(1,2) [OF touchD(2) [OF t]] by auto
  next
    case False
    then show ?thesis using k ac touchD(5) [OF t] unfolding active_connected_def by (metis fun_upd_other)
  qed
qed

lemma life_step_swap:
  assumes s: "sys_life s" and at: "sy_pc s l = At_channels []" and l: "l \<in> set (srv_loops (sy_world s))"
    and fs: "fs = pendingFunctors (lget l (sy_world s))"
    and w': "w' = lput l ((lget l (sy_world s))\<lparr>callingPendingFunctors := True, pendingFunctors := []\<rparr>) (sy_world s)"
  shows "life ((todo_of s)(l := fs)) (held_of (go l (At_functors fs fs) w' s)) w'"
  unfolding w'
proof (rule life_lput [OF sys_lifeD(3) [OF s]])
  let ?w = "sy_world s" and ?s = "go l (At_functors fs fs) w' s"
  fix k c assume own: "owned k c ?w \<or> list_ex (functor_owns k) (held_of s)"
  have loops: "srv_loops (sy_world ?s) = srv_loops ?w" by (simp add: w')
  have "f \<in> set (held_of ?s)" if f: "f \<in> set (held_of s)" for f
  proof -
    obtain a where a: "a \<in> set (srv_loops ?w)" "f \<in> set (held_by (sy_pc s a))" using f by (auto simp: held_of_iff)
    then have "a \<noteq> l" using at by auto
    with a show ?thesis unfolding held_of_iff loops by (intro bexI [of _ a]) simp_all
  qed
  moreover have "f \<in> set (held_of ?s)" if "f \<in> set fs" for f
    unfolding held_of_iff loops using that l by (intro bexI [of _ l]) simp_all
  ultimately have up: "set (held_of s) \<subseteq> set (held_of ?s)" "set fs \<subseteq> set (held_of ?s)" by blast+
  have "in_map w' k c = in_map ?w k c" by (simp add: w' in_map_def)
  moreover have "pendingFunctors (lget a w') = (if a = l then [] else pendingFunctors (lget a ?w))" for a by (simp add: w')
  ultimately have "owned k c w' \<or> list_ex (functor_owns k) (held_of ?s)"
    using own up fs loops unfolding owned_iff list_ex_iff go_simps by (metis subsetD)
  then show "owned k c (lput l ((lget l ?w)\<lparr>callingPendingFunctors := True, pendingFunctors := []\<rparr>) ?w) \<or>
      list_ex (functor_owns k) (held_of (go l (At_functors fs fs) (lput l ((lget l ?w)\<lparr>callingPendingFunctors := True, pendingFunctors := []\<rparr>) ?w) s))"
    by (simp add: w')
qed (use at fs in \<open>simp_all add: todo_of_def\<close>)

lemma life_step_end:
  assumes s: "sys_life s" and at: "sy_pc s l = At_functors held []"
    and w1: "w1 = lput l ((lget l (sy_world s))\<lparr>callingPendingFunctors := False\<rparr>) (sy_world s)"
    and hs: "hs = concat (map (\<lambda>k. held_by (((sy_pc s)(l := At_poll)) k)) (srv_loops (sy_world s)))"
    and rel: "released hs w1 w'" and ok: "\<forall>k c x. conn_ok k c x w' \<longrightarrow> conn_ok k c x w1"
    and own: "\<forall>cid < s_fresh w1. \<forall>c. w_conns w' cid = Some c \<longrightarrow> owned cid c w' \<or> list_ex (functor_owns cid) hs"
    and conns: "srv_conns w'"
  shows "life (todo_of s) (held_of (go l At_poll w' s)) w'" "active_connected (active_of s) w'"
proof -
  note d = sys_lifeD [OF s] and f = released_frame [OF rel]
  have H: "held_of (go l At_poll w' s) = hs" unfolding held_of_go hs using f(2) by (simp add: w1)
  have same: "owned k c w1 = owned k c (sy_world s)" for k c by (rule owned_same) (simp_all add: w1 in_map_def)
  have 1: "life (todo_of s) (held_of s) w1"
    unfolding w1 by (rule life_lput [OF d(3)]) (use same in \<open>simp_all add: w1\<close>)
  show "life (todo_of s) (held_of (go l At_poll w' s)) w'"
    unfolding H
  proof (rule life_mono [OF 1])
    show "\<exists>x. conn_ok k c x w1 \<and> same_chan x y" if "conn_ok k c y w'" for k c y using that ok same_chan_refl by blast
    show "owned k c w' \<or> list_ex (functor_owns k) hs" if "w_conns w' k = Some c" for k c
      using own that new_unused(1) [OF conns that] f(5) by auto
  qed (use f in simp_all)
  show "active_connected (active_of s) w'"
    by (rule active_connected_mono [OF d(4)]) (use released_conns [OF rel] in \<open>auto simp: w1\<close>)
qed

lemma sys_lifeI:
  assumes "sys_inv (go l at w' s)" and "life ((todo_of s)(l := todo_by at)) (held_of (go l at w' s)) w'"
    and "active_connected ((active_of s)(l := active_by at)) w'"
  shows "sys_life (go l at w' s)"
  using assms by (simp add: sys_life_def)

lemma upd_same: "todo_by (sy_pc s l) = x \<Longrightarrow> (todo_of s)(l := x) = todo_of s" "active_by (sy_pc s l) = y \<Longrightarrow> (active_of s)(l := y) = active_of s"
  by (auto simp: todo_of_def active_of_def)

lemma held_todo: "sys_inv s \<Longrightarrow> l \<in> set (srv_loops (sy_world s)) \<Longrightarrow> f \<in> set (todo_of s l) \<Longrightarrow> f \<in> set (held_of s)"
  unfolding held_of_iff todo_of_def by (auto simp: sys_inv_def)

theorem sys_life_step:
  assumes s: "sys_life s" and l: "l \<in> set (srv_loops (sy_world s))" and e: "step_effect os l s s'" and inv: "sys_inv s'"
  shows "sys_life s'"
  using e inv
proof (cases rule: step_effect.cases)
  case (E_poll active w')
  note p = life_step_poll [OF s E_poll(2-4)]
  show ?thesis unfolding E_poll(1)
    by (rule sys_lifeI) (use inv p E_poll held_of_same [of w' s "At_channels active" l] polled_frame(6) [OF E_poll(3)] in \<open>simp_all add: upd_same\<close>)
next
  case (E_conn ptr rest cid c w')
  note p = life_step_conn [OF s E_conn(2-7)]
  show ?thesis unfolding E_conn(1)
    by (rule sys_lifeI) (use inv p E_conn held_of_same [of w' s "At_channels rest" l] in \<open>simp_all add: upd_same\<close>)
next
  case (E_wake ptr rest)
  let ?w' = "lput l (EventLoop_handleRead (lget l (sy_world s))) (sy_world s)"
  have "srv_conns ?w'" using coreD(3) [OF sys_inv_of(1) [OF inv]] E_wake(1) by simp
  note p = life_step_system [OF s E_wake(2) disjI1 [OF refl] this]
  show ?thesis unfolding E_wake(1)
    by (rule sys_lifeI) (use inv p E_wake held_of_same [of ?w' s "At_channels rest" l] in \<open>simp_all add: upd_same\<close>)
next
  case (E_accept ptr rest w')
  have "srv_conns w'" using coreD(3) [OF sys_inv_of(1) [OF inv]] E_accept(1) by simp
  note p = life_step_system [OF s E_accept(2) disjI2 [OF E_accept(4)] this]
  show ?thesis unfolding E_accept(1)
    by (rule sys_lifeI) (use inv p E_accept held_of_same [of w' s "At_channels rest" l] in \<open>simp_all add: upd_same\<close>)
next
  case (E_swap fs)
  let ?w' = "lput l ((lget l (sy_world s))\<lparr>callingPendingFunctors := True, pendingFunctors := []\<rparr>) (sy_world s)"
  have "active_connected (active_of s) ?w'" using sys_lifeD(4) [OF s] by (simp add: active_connected_def)
  with life_step_swap [OF s E_swap(2) l E_swap(3) refl] show ?thesis unfolding E_swap(1)
    by (intro sys_lifeI) (use inv E_swap in \<open>simp_all add: upd_same\<close>)
next
  case (E_established held cid fs c ch ch' w')
  note d = sys_lifeD [OF s]
  have "life ((todo_of s)(l := fs)) (held_of s) w'"
    by (rule life_established [OF d(3,2) E_established(3) _ E_established(5-9)]) (use E_established(2) in \<open>simp add: todo_of_def\<close>)
  moreover have "active_connected (active_of s) w'"
    by (rule active_connected_touch [OF d(4) E_established(7) conn_okD(1) [OF E_established(3)]]) simp
  ultimately show ?thesis unfolding E_established(1)
    by (intro sys_lifeI) (use inv E_established held_of_same [of w' s "At_functors held fs" l] touch_frame(3) [OF E_established(7)] in \<open>simp_all add: upd_same\<close>)
next
  case (E_destroyed held cid fs c ch ch' w')
  note d = sys_lifeD [OF s]
  have T: "todo_of s l = F_connectDestroyed cid # fs" using E_destroyed(2) by (simp add: todo_of_def)
  have "life ((todo_of s)(l := fs)) (held_of s) w'"
    by (rule life_destroyed [OF d(3,2) E_destroyed(3) T E_destroyed(5) held_todo [OF d(1) l] E_destroyed(8,6,7)]) (simp add: T)
  moreover have "active_connected (active_of s) w'"
    by (rule active_connected_touch [OF d(4) E_destroyed(8) conn_okD(1) [OF E_destroyed(3)]]) (use E_destroyed(2,4) in \<open>simp add: active_of_def\<close>)
  ultimately show ?thesis unfolding E_destroyed(1)
    by (intro sys_lifeI) (use inv E_destroyed held_of_same [of w' s "At_functors held fs" l] touch_frame(3) [OF E_destroyed(8)] in \<open>simp_all add: upd_same\<close>)
next
  case (E_remove held cid fs c ch)
  note d = sys_lifeD [OF s]
  let ?w' = "queue_on (threadId (lget l (sy_world s))) (c_loop c) (F_connectDestroyed cid) (unmap c (sy_world s))"
  have "life ((todo_of s)(l := fs)) (held_of s) ?w'"
    by (rule life_remove [OF d(3,2) E_remove(3) _ E_remove(5)]) (use E_remove(2) in \<open>simp add: todo_of_def\<close>)
  moreover have "active_connected (active_of s) ?w'" using d(4) by (simp add: active_connected_def)
  ultimately show ?thesis unfolding E_remove(1)
    by (intro sys_lifeI) (use inv E_remove(1,2) held_of_same [of ?w' s "At_functors held fs" l] in \<open>simp_all add: upd_same\<close>)
next
  case (E_end held w1 hs w')
  have "srv_conns w'" using coreD(3) [OF sys_inv_of(1) [OF inv]] E_end(1) by simp
  note p = life_step_end [OF s E_end(2-7) this]
  show ?thesis unfolding E_end(1)
    by (rule sys_lifeI) (use inv p E_end(1,2) in \<open>simp_all add: upd_same\<close>)
qed

end
