(* ===== verification/System_Wake.thy ===== *)
theory System_Wake
  imports System_Life
begin

text \<open>
  No lost wake-up in the running server: a loop that has functors queued and stands before its poll has its
  eventfd above zero, and the wake-up channel stays registered for reading.
\<close>

section \<open>A loop can be woken\<close>

fun at_channels :: "srv_pc \<Rightarrow> bool" where
  "at_channels (At_channels ptrs) = True"
| "at_channels at = False"

fun at_functors :: "srv_pc \<Rightarrow> bool" where
  "at_functors (At_functors held todo) = True"
| "at_functors at = False"

definition wake_chan :: "nat \<Rightarrow> (callback_t, functor_t) event_loop \<Rightarrow> bool" where
  "wake_chan l lo \<longleftrightarrow> (\<exists>ch. chan_heap (poller lo) (wakeupChannel lo) = Some ch \<and> ch_index ch = ADDED \<and> isReading ch \<and>
     readCallback ch = Some (Cb_wakeup l))"

definition wake_ok :: "nat \<Rightarrow> srv_pc \<Rightarrow> (callback_t, functor_t) event_loop \<Rightarrow> bool" where
  "wake_ok l at lo \<longleftrightarrow> (callingPendingFunctors lo \<longleftrightarrow> at_functors at) \<and>
     (pendingFunctors lo \<noteq> [] \<longrightarrow> at_channels at \<or> 0 < eventfd lo) \<and> wake_chan l lo"

definition wakes :: "(nat \<Rightarrow> srv_pc) \<Rightarrow> server_world \<Rightarrow> bool" where
  "wakes P w \<longleftrightarrow> (\<forall>l \<in> set (srv_loops w). wake_ok l (P l) (lget l w))"

lemma wakesD: "wakes P w \<Longrightarrow> l \<in> set (srv_loops w) \<Longrightarrow> wake_ok l (P l) (lget l w)"
  by (simp add: wakes_def)

text \<open>Changes that leave the queues of all loops alone.\<close>

lemma wakes_frame:
  assumes wk: "wakes P w" and loops: "srv_loops w' = srv_loops w"
    and same: "\<And>a. pendingFunctors (lget a w') = pendingFunctors (lget a w)" "\<And>a. eventfd (lget a w') = eventfd (lget a w)"
      "\<And>a. callingPendingFunctors (lget a w') = callingPendingFunctors (lget a w)"
    and chan: "\<And>a. a \<in> set (srv_loops w) \<Longrightarrow> wake_chan a (lget a w) \<Longrightarrow> wake_chan a (lget a w')"
  shows "wakes P w'"
  unfolding wakes_def loops
proof
  fix a assume a: "a \<in> set (srv_loops w)"
  from wakesD [OF wk a] chan [OF a] show "wake_ok a (P a) (lget a w')" by (simp add: wake_ok_def same)
qed

lemma wake_chan_not_conn:
  assumes conns: "srv_conns w" and ok: "conn_ok cid c ch w" and wk: "wake_chan (c_loop c) (lget (c_loop c) w)"
  shows "c_channel c \<noteq> wakeupChannel (lget (c_loop c) w)"
  using wk conn_okD(4) [OF ok] srv_connD(8) [OF conns ok] by (auto simp: wake_chan_def conn_cbs_def)

lemma wakes_touch:
  assumes core: "core X T A w" and wk: "wakes P w" and ok: "conn_ok cid c ch w" and t: "touch cid c ch c' ch' w w'"
  shows "wakes P w'"
proof (rule wakes_frame [OF wk])
  note f = touch_frame [OF t]
  show "wake_chan a (lget a w')" if "wake_chan a (lget a w)" for a
    using that wake_chan_not_conn [OF coreD(3) [OF core] ok] touch_heap [OF t, of a] by (auto simp: wake_chan_def f(7))
qed (use touch_frame [OF t] in simp_all)

lemma wakes_queue:
  assumes wk: "wakes P w" and busy: "threadId (lget b w) = tid \<Longrightarrow> P b \<noteq> At_poll"
  shows "wakes P (queue_on tid b f w)"
  unfolding wakes_def queue_on_server
proof
  fix a assume "a \<in> set (srv_loops w)"
  then have "wake_ok a (P a) (lget a w)" by (rule wakesD [OF wk])
  then show "wake_ok a (P a) (lget a (queue_on tid b f w))"
    using busy by (cases "P a") (auto simp: wake_ok_def wake_chan_def queue_on_def loop_op_defs isInLoopThread_def)
qed

lemma wakes_unmap [simp]: "wakes P (unmap c w) = wakes P w"
  by (simp add: wakes_def)

lemma wakes_lput:
  assumes "wakes P w" and "wake_ok l at lo"
  shows "wakes (P(l := at)) (lput l lo w)"
  using assms by (simp add: wakes_def)

lemma wakes_request:
  assumes wk: "wakes P w" and busy: "\<And>b. b \<in> set (srv_loops w) \<Longrightarrow> threadId (lget b w) = tid \<Longrightarrow> P b \<noteq> At_poll"
    and c: "c_loop c \<in> set (srv_loops w)"
  shows "wakes P (request_close tid cid c w)"
proof -
  have "s_loop w \<in> set (srv_loops w)" by (simp add: srv_loops_def)
  then show ?thesis
    unfolding request_close_def unmap_def [symmetric] using wakes_queue [of P "unmap c w"] wakes_queue [OF wk] wk busy c by simp
qed

section \<open>Every step\<close>

text \<open>The thread that runs is not before its poll.\<close>

lemma busy_thread:
  assumes core: "core {} T A w" and l: "l \<in> set (srv_loops w)" and "P l \<noteq> At_poll"
  shows "b \<in> set (srv_loops w) \<Longrightarrow> threadId (lget b w) = threadId (lget l w) \<Longrightarrow> P b \<noteq> At_poll"
  using thread_inj [OF coreD(1) [OF core] _ l] assms(3) by blast

lemma wakes_effects:
  assumes "conn_effects os tid cid bs w w'" and "dispatching T A tid cid w" and "wakes P w"
    and "\<And>b. b \<in> set (srv_loops w) \<Longrightarrow> threadId (lget b w) = tid \<Longrightarrow> P b \<noteq> At_poll"
  shows "wakes P w' \<and> dispatching T A tid cid w' \<and> (\<forall>b \<in> set (srv_loops w'). threadId (lget b w') = tid \<longrightarrow> P b \<noteq> At_poll)"
  using assms
proof (induction rule: conn_effects.induct)
  case (one_more bs w w1 bs' w2)
  then have 1: "wakes P w1" "dispatching T A tid cid w1" "\<And>b. b \<in> set (srv_loops w1) \<Longrightarrow> threadId (lget b w1) = tid \<Longrightarrow> P b \<noteq> At_poll"
    by blast+
  have core: "core {} T A w1" using 1(2) by (simp add: dispatching_def)
  from one_more.hyps(2) obtain c ch c' ch' w' where ok: "conn_ok cid c ch w1" and t: "touch cid c ch c' ch' w1 w'" and
    w2: "w2 = w' \<or> w2 = request_close tid cid c' w'" unfolding conn_effect_def by blast
  have wk: "wakes P w'" by (rule wakes_touch [OF core 1(1) ok t])
  note f = touch_frame [OF t]
  have "c_loop c' \<in> set (srv_loops w')"
    using srv_connD(3) [OF coreD(3) [OF core] ok] same_idD(1) [OF touchD(2) [OF t]] by (simp add: f(3))
  then have "wakes P w2" using w2 wk wakes_request [OF wk, of tid c' cid] 1(3) by (auto simp: f(3,5))
  moreover have "dispatching T A tid cid w2" by (rule dispatching_effect [OF 1(2) one_more.hyps(2)])
  moreover have "srv_loops w2 = srv_loops w1" "\<And>b. threadId (lget b w2) = threadId (lget b w1)" using w2 by (auto simp: f(3,5))
  ultimately show ?case using 1(3) by simp
qed blast

lemma wakes_accept:
  assumes core: "core {} T A w" and wk: "wakes P w" and e: "accept_effect tid w w'"
    and busy: "\<And>b. b \<in> set (srv_loops w) \<Longrightarrow> threadId (lget b w) = tid \<Longrightarrow> P b \<noteq> At_poll"
  shows "wakes P w'"
proof (cases "w' = w")
  case False
  with e obtain io pool1 c ch w4 where nxt: "getNextLoop (s_pool w) = (io, pool1)" and new: "conn_added io pool1 c ch w w4" and
    w': "w' = queue_on tid io (F_connectEstablished (s_fresh w)) w4 \<or> (\<exists>ch'. touch (s_fresh w) c ch (c\<lparr>c_state := kConnected\<rparr>) ch' w4 w')"
    unfolding accept_effect_def by blast
  note f = added_frame [OF new] and g = getNextLoop_srv [OF coreD(1) [OF core] nxt] and d = coreD [OF core]
  have loops: "srv_loops w4 = srv_loops w" using added_server(13) [OF new] g(2) by (simp add: srv_loops_def)
  have wk4: "wakes P w4"
  proof (rule wakes_frame [OF wk loops])
    fix a assume a: "a \<in> set (srv_loops w)" "wake_chan a (lget a w)"
    then obtain x where x: "chan_heap (poller (lget a w)) (wakeupChannel (lget a w)) = Some x" by (auto simp: wake_chan_def)
    have "wakeupChannel (lget a w) \<noteq> Suc (s_fresh w)" using srv_heapsD(2) [OF d(2) a(1) x] by simp
    with a(2) show "wake_chan a (lget a w4)" by (auto simp: wake_chan_def f(4,7))
  qed (simp_all add: f)
  have c: "conn_ok (s_fresh w) c ch w4" using new by (simp add: conn_added_def)
  from w' show ?thesis
  proof (elim disjE exE)
    assume "w' = queue_on tid io (F_connectEstablished (s_fresh w)) w4"
    then show ?thesis using wakes_queue [OF wk4, of io tid] busy g(1) f(1) by simp
  next
    fix ch' assume "touch (s_fresh w) c ch (c\<lparr>c_state := kConnected\<rparr>) ch' w4 w'"
    then show ?thesis by (rule wakes_touch [OF core_added [OF core nxt new] wk4 c])
  qed
qed (use wk in simp)

lemma wakes_polled:
  assumes wk: "wakes P w" and pd: "polled l active w w'"
  shows "wakes P w'"
proof (rule wakes_frame [OF wk])
  note f = polled_frame [OF pd]
  fix a assume "wake_chan a (lget a w)"
  then obtain x where x: "chan_heap (poller (lget a w)) (wakeupChannel (lget a w)) = Some x" "ch_index x = ADDED" "isReading x"
    "readCallback x = Some (Cb_wakeup a)" by (auto simp: wake_chan_def)
  obtain y where y: "chan_heap (poller (lget a w')) (wakeupChannel (lget a w)) = Some y" "same_chan x y"
    using polled_heap(3) [OF pd x(1)] by blast
  with x same_chanD [OF y(2)] show "wake_chan a (lget a w')" by (auto simp: wake_chan_def f(14) isReading_def)
qed (use polled_frame [OF pd] in simp_all)

lemma wakes_destroyed:
  assumes core: "core {} T A w" and wk: "wakes P w" and ds: "destroyed cid w w'"
  shows "wakes P w'"
proof (rule wakes_frame [OF wk])
  note f = destroyed_frame [OF ds]
  from ds obtain c ch where c: "conn_ok cid c ch w" by (auto simp: destroyed_def)
  fix a assume a: "wake_chan a (lget a w)"
  have "\<not> (a = c_loop c \<and> wakeupChannel (lget a w) = c_channel c)"
    using a wake_chan_not_conn [OF coreD(3) [OF core] c] by auto
  then have "chan_heap (poller (lget a w')) (wakeupChannel (lget a w)) = chan_heap (poller (lget a w)) (wakeupChannel (lget a w))"
    by (auto simp: destroyed_heap(1) [OF ds conn_okD(1) [OF c]])
  with a show "wake_chan a (lget a w')" by (simp add: wake_chan_def f(14))
qed (use destroyed_frame [OF ds] in simp_all)

lemma wakes_pc:
  assumes "wakes P w" and "at_functors at = at_functors (P l)" and "at_channels (P l) \<Longrightarrow> at_channels at"
  shows "wakes (P(l := at)) w"
  unfolding wakes_def
proof
  fix a assume "a \<in> set (srv_loops w)"
  from wakesD [OF assms(1) this] assms(2,3) show "wake_ok a ((P(l := at)) a) (lget a w)" by (cases "a = l") (auto simp: wake_ok_def)
qed

theorem wakes_step:
  assumes inv: "sys_inv s" and wk: "wakes (sy_pc s) (sy_world s)" and l: "l \<in> set (srv_loops (sy_world s))" and e: "step_effect os l s s'"
  shows "wakes (sy_pc s') (sy_world s')"
  using e
proof (cases rule: step_effect.cases)
  case (E_poll active w')
  show ?thesis unfolding E_poll(1) go_simps by (rule wakes_pc [OF wakes_polled [OF wk E_poll(3)]]) (use E_poll(2) in simp_all)
next
  case (E_conn ptr rest cid c w')
  have "wakes (sy_pc s) w'"
    using wakes_effects [OF E_conn(7,6) wk] busy_thread [OF sys_inv_of(1) [OF inv] l, of "sy_pc s"] E_conn(2) by simp
  then show ?thesis unfolding E_conn(1) go_simps by (rule wakes_pc) (use E_conn(2) in simp_all)
next
  case (E_wake ptr rest)
  have "wake_ok l (At_channels rest) (EventLoop_handleRead (lget l (sy_world s)))"
    using wakesD [OF wk l] E_wake(2) by (simp add: wake_ok_def wake_chan_def loop_op_defs)
  then show ?thesis unfolding E_wake(1) go_simps by (rule wakes_lput [OF wk])
next
  case (E_accept ptr rest w')
  have "wakes (sy_pc s) w'"
    by (rule wakes_accept [OF sys_inv_of(1) [OF inv] wk E_accept(4)])
       (use busy_thread [OF sys_inv_of(1) [OF inv] l, of "sy_pc s"] E_accept(2) in simp)
  then show ?thesis unfolding E_accept(1) go_simps by (rule wakes_pc) (use E_accept(2) in simp_all)
next
  case (E_swap fs)
  have "wake_ok l (At_functors fs fs) ((lget l (sy_world s))\<lparr>callingPendingFunctors := True, pendingFunctors := []\<rparr>)"
    using wakesD [OF wk l] by (simp add: wake_ok_def wake_chan_def)
  then show ?thesis unfolding E_swap(1) go_simps by (rule wakes_lput [OF wk])
next
  case (E_established held cid fs c ch ch' w')
  have "wakes (sy_pc s) w'" by (rule wakes_touch [OF sys_inv_of(1) [OF inv] wk E_established(3,7)])
  then show ?thesis unfolding E_established(1) go_simps by (rule wakes_pc) (use E_established(2) in simp_all)
next
  case (E_destroyed held cid fs c ch ch' w')
  have "wakes (sy_pc s) w'" by (rule wakes_touch [OF sys_inv_of(1) [OF inv] wk E_destroyed(3,8)])
  then show ?thesis unfolding E_destroyed(1) go_simps by (rule wakes_pc) (use E_destroyed(2) in simp_all)
next
  case (E_remove held cid fs c ch)
  have "c_loop c \<in> set (srv_loops (sy_world s))" by (rule srv_connD(3) [OF coreD(3) [OF sys_inv_of(1) [OF inv]] E_remove(3)])
  then have "wakes (sy_pc s) (queue_on (threadId (lget l (sy_world s))) (c_loop c) (F_connectDestroyed cid) (unmap c (sy_world s)))"
    using busy_thread [OF sys_inv_of(1) [OF inv] l, of "sy_pc s"] E_remove(2) wk by (intro wakes_queue) simp_all
  then show ?thesis unfolding E_remove(1) go_simps by (rule wakes_pc) (use E_remove(2) in simp_all)
next
  case (E_end held w1 hs w')
  have core1: "core {} (todo_of s) (active_of s) w1"
    unfolding E_end(3) by (rule core_refut [OF sys_inv_of(1) [OF inv] same_core_lput]) (simp_all add: fut_lput fut_def fun_eq_iff)
  have "wake_ok l At_poll ((lget l (sy_world s))\<lparr>callingPendingFunctors := False\<rparr>)"
    using wakesD [OF wk l] E_end(2) by (simp add: wake_ok_def wake_chan_def)
  then have "wakes ((sy_pc s)(l := At_poll)) w1" unfolding E_end(3) by (rule wakes_lput [OF wk])
  then have "wakes ((sy_pc s)(l := At_poll)) w'"
    by (rule released_keeps [OF E_end(5) core1 todo_held [OF inv E_end(2), folded E_end(4)], rotated]) (use wakes_destroyed in \<open>simp_all add: E_end(3)\<close>)
  then show ?thesis unfolding E_end(1) by simp
qed

end
