(* ===== verification/System_Flow.thy ===== *)
theory System_Flow
  imports System_Wake
begin

text \<open>
  The bytes of the connections in the running server. Connections have different descriptors, no bytes stay in
  an input buffer between two steps, and a step adds to the stream of a connection exactly the bytes it
  reads for it, whatever the other threads do.
\<close>

section \<open>Descriptors and input buffers\<close>

definition conns_apart :: "server_world \<Rightarrow> bool" where
  "conns_apart w \<longleftrightarrow> (\<forall>j cj k ck. w_conns w j = Some cj \<longrightarrow> w_conns w k = Some ck \<longrightarrow> c_sockfd cj = c_sockfd ck \<longrightarrow> j = k) \<and>
     (\<forall>cid c. w_conns w cid = Some c \<longrightarrow> content (inputBuffer c) = [])"

lemma conns_apartD:
  assumes "conns_apart w"
  shows "w_conns w j = Some cj \<Longrightarrow> w_conns w k = Some ck \<Longrightarrow> c_sockfd cj = c_sockfd ck \<Longrightarrow> j = k"
    "w_conns w cid = Some c \<Longrightarrow> content (inputBuffer c) = []"
  using assms unfolding conns_apart_def by blast+

lemma conns_apart_upd:
  assumes "conns_apart w" and "w_conns w cid = Some c" and "c_sockfd c' = c_sockfd c" and "content (inputBuffer c') = []"
    and "w_conns w' = (w_conns w)(cid \<mapsto> c')"
  shows "conns_apart w'"
proof -
  have old: "\<exists>d. w_conns w k = Some d \<and> c_sockfd d = c_sockfd ck" if "w_conns w' k = Some ck" for k ck
    using that assms(2,3,5) by (cases "k = cid") auto
  have "j = k" if "w_conns w' j = Some cj" "w_conns w' k = Some ck" "c_sockfd cj = c_sockfd ck" for j cj k ck
    using old [OF that(1)] old [OF that(2)] that(3) conns_apartD(1) [OF assms(1)] by metis
  moreover have "content (inputBuffer ck) = []" if "w_conns w' k = Some ck" for k ck
    using that assms(4,5) conns_apartD(2) [OF assms(1)] by (cases "k = cid") auto
  ultimately show ?thesis unfolding conns_apart_def by blast
qed

lemma conns_apart_sub:
  assumes "conns_apart w" and "\<And>k c. w_conns w' k = Some c \<Longrightarrow> w_conns w k = Some c"
  shows "conns_apart w'"
  using assms unfolding conns_apart_def by metis

section \<open>Steps and streams\<close>

text \<open>What a step means for the streams: the connections that live on, with the bytes \<open>rd\<close> reads for each.\<close>

definition flows :: "bool \<Rightarrow> (nat \<Rightarrow> bytes) \<Rightarrow> server_world \<Rightarrow> server_world \<Rightarrow> bool" where
  "flows ok rd w w' \<longleftrightarrow> s_fresh w \<le> s_fresh w' \<and> (\<forall>cid c'. w_conns w' cid = Some c' \<longrightarrow> s_fresh w \<le> cid \<or>
     (\<exists>c. w_conns w cid = Some c \<and> c_sockfd c' = c_sockfd c \<and> (ok \<longrightarrow> stream c' w' = stream c w @ rd cid)))"

lemma flows_quiet:
  assumes "s_fresh w' = s_fresh w" and "\<And>fd. wire fd w' = wire fd w" and "\<And>k c. w_conns w' k = Some c \<Longrightarrow> w_conns w k = Some c"
    and "\<And>cid. rd cid = []"
  shows "flows ok rd w w'"
  using assms by (auto simp: flows_def stream_def)

lemma flows_touch:
  assumes t: "touch cid c ch c' ch' w (w' :: server_world)" and ok: "conn_ok cid c ch w" and wire: "\<And>fd. wire fd w' = wire fd w"
    and buf: "outputBuffer c' = outputBuffer c" "inputBuffer c' = inputBuffer c" and rd: "\<And>cid. rd cid = []"
  shows "flows b rd w w'"
  unfolding flows_def
proof (intro conjI allI impI)
  show "s_fresh w \<le> s_fresh w'" using touch_frame(2) [OF t] by simp
  fix k ck assume k: "w_conns w' k = Some ck"
  show "s_fresh w \<le> k \<or> (\<exists>d. w_conns w k = Some d \<and> c_sockfd ck = c_sockfd d \<and> (b \<longrightarrow> stream ck w' = stream d w @ rd k))"
  proof (cases "k = cid")
    case True
    with k have "ck = c'" using touchD(5) [OF t] by simp
    then show ?thesis using True conn_okD(1) [OF ok] same_idD(4) [OF touchD(2) [OF t]] wire buf rd by (simp add: stream_def)
  next
    case False
    with k touchD(5) [OF t] wire rd show ?thesis by (simp add: stream_def)
  qed
qed

text \<open>The callbacks of a connection.\<close>

lemma effects_stream:
  assumes "conn_effects os tid cid bs w w'" and "w_conns w cid = Some c" and "c_state c = kConnected" and "content (inputBuffer c) = []"
  shows "\<exists>c'. w_conns w' = (w_conns w)(cid \<mapsto> c') \<and> same_id c c' \<and> c_state c' = kConnected \<and> content (inputBuffer c') = [] \<and>
    s_fresh w' = s_fresh w \<and> (\<forall>fd. fd \<noteq> c_sockfd c \<longrightarrow> wire fd w' = wire fd w) \<and> (no_fault os \<longrightarrow> stream c' w' = stream c w @ bs)"
  using assms
proof (induction rule: conn_effects.induct)
  case (no_effect w)
  then show ?case by (auto intro!: exI [of _ c])
next
  case (one_more bs w w1 bs' w2)
  then obtain c1 where 1: "w_conns w1 = (w_conns w)(cid \<mapsto> c1)" "same_id c c1" "c_state c1 = kConnected" "content (inputBuffer c1) = []"
    "s_fresh w1 = s_fresh w" "\<forall>fd. fd \<noteq> c_sockfd c \<longrightarrow> wire fd w1 = wire fd w" "no_fault os \<longrightarrow> stream c1 w1 = stream c w @ bs" by blast
  from one_more.hyps(2) obtain d ch c2 ch2 w' where ok: "conn_ok cid d ch w1" and t: "touch cid d ch c2 ch2 w1 w'" and
    st: "c_state c2 = c_state d" and wire: "\<forall>fd. fd \<noteq> c_sockfd d \<longrightarrow> wire fd w' = wire fd w1" and
    inp: "content (inputBuffer d) = [] \<longrightarrow> content (inputBuffer c2) = []" and
    w2: "w2 = w' \<or> w2 = request_close tid cid c2 w'" and
    str: "c_state d = kConnected \<and> no_fault os \<longrightarrow> stream c2 w' = stream d w1 @ bs'"
    unfolding conn_effect_def by blast
  have d: "d = c1" using conn_okD(1) [OF ok] 1(1) by simp
  have fresh: "s_fresh w2 = s_fresh w1" using w2 touch_frame(2) [OF t] by (auto simp: request_close_def queue_on_def lput_def)
  have "w_conns w2 = (w_conns w)(cid \<mapsto> c2)" using w2 touchD(5) [OF t] 1(1) by auto
  moreover have "wire fd w2 = wire fd w'" "stream c2 w2 = stream c2 w'" for fd using w2 by auto
  ultimately show ?case
    using 1 d st wire inp str fresh same_id_trans [OF 1(2)] touchD(2) [OF t] same_idD(4) [OF 1(2)]
    by (intro exI [of _ c2]) auto
qed

lemma flow_conn:
  assumes ap: "conns_apart w" and e: "conn_effects os tid cid bs w w'" and c: "w_conns w cid = Some c" "c_state c = kConnected"
    and rd: "rd cid = bs" "\<And>k. k \<noteq> cid \<Longrightarrow> rd k = []"
  shows "conns_apart w'" "flows (no_fault os) rd w w'"
proof -
  obtain c' where c': "w_conns w' = (w_conns w)(cid \<mapsto> c')" "same_id c c'" "content (inputBuffer c') = []"
    "s_fresh w' = s_fresh w" "\<forall>fd. fd \<noteq> c_sockfd c \<longrightarrow> wire fd w' = wire fd w" "no_fault os \<longrightarrow> stream c' w' = stream c w @ bs"
    using effects_stream [OF e c conns_apartD(2) [OF ap c(1)]] by blast
  show "conns_apart w'" by (rule conns_apart_upd [OF ap c(1) same_idD(4) [OF c'(2)] c'(3,1)])
  show "flows (no_fault os) rd w w'"
    unfolding flows_def
  proof (intro conjI allI impI)
    show "s_fresh w \<le> s_fresh w'" using c'(4) by simp
    fix k ck assume k: "w_conns w' k = Some ck"
    show "s_fresh w \<le> k \<or> (\<exists>d. w_conns w k = Some d \<and> c_sockfd ck = c_sockfd d \<and> (no_fault os \<longrightarrow> stream ck w' = stream d w @ rd k))"
    proof (cases "k = cid")
      case True
      with k c'(1,6) c(1) rd(1) same_idD(4) [OF c'(2)] show ?thesis by auto
    next
      case False
      then have old: "w_conns w k = Some ck" using k c'(1) by simp
      then have "c_sockfd ck \<noteq> c_sockfd c" using conns_apartD(1) [OF ap old c(1)] False by blast
      then have "stream ck w' = stream ck w" using c'(5) by (simp add: stream_def)
      with old rd(2) [OF False] show ?thesis by simp
    qed
  qed
qed

text \<open>A new connection.\<close>

lemma flow_added:
  assumes core: "core {} T A w" and ap: "conns_apart w" and new: "conn_added io pool1 c ch w w4"
    and fresh: "\<forall>l \<in> set (srv_loops w). \<forall>q ch. chan_heap (poller (lget l w)) q = Some ch \<longrightarrow> ch_fd ch \<noteq> c_sockfd c"
    and rd: "\<And>cid. rd cid = []"
  shows "conns_apart w4" "flows b rd w w4"
proof -
  note f = added_frame(9) [OF new]
  from new have c: "content (inputBuffer c) = []" "\<forall>fd. wire fd w4 = wire fd w" unfolding conn_added_def by blast+
  have ne: "c_sockfd ck \<noteq> c_sockfd c" if k: "w_conns w k = Some ck" for k ck
  proof -
    obtain x where x: "conn_ok k ck x w" using srv_conns_ok [OF coreD(3) [OF core] k] by blast
    then show ?thesis using fresh srv_connD(3) [OF coreD(3) [OF core] x] conn_okD(4,5) [OF x] by metis
  qed
  have "j = k" if "w_conns w4 j = Some cj" "w_conns w4 k = Some ck" "c_sockfd cj = c_sockfd ck" for j cj k ck
    using that ne [of j cj] ne [of k ck] conns_apartD(1) [OF ap, of j cj k ck] by (auto simp: f split: if_splits)
  moreover have "content (inputBuffer ck) = []" if "w_conns w4 k = Some ck" for k ck
    using that c(1) conns_apartD(2) [OF ap, of k ck] by (auto simp: f split: if_splits)
  ultimately show "conns_apart w4" unfolding conns_apart_def by blast
  show "flows b rd w w4"
    using added_server(4) [OF new] c(2) rd by (auto simp: flows_def f stream_def)
qed

lemma flow_accept:
  assumes core: "core {} T A w" and ap: "conns_apart w" and e: "accept_effect tid w w'" and rd: "\<And>cid. rd cid = []"
  shows "conns_apart w' \<and> flows b rd w w'"
  using e unfolding accept_effect_def
proof (elim disjE exE conjE)
  assume "w' = w"
  then show ?thesis using ap flows_quiet [OF refl refl _ rd] by simp
next
  fix io pool1 c ch w4 assume new: "conn_added io pool1 c ch w w4"
    and fresh: "\<forall>l \<in> set (srv_loops w). \<forall>q ch. chan_heap (poller (lget l w)) q = Some ch \<longrightarrow> ch_fd ch \<noteq> c_sockfd c"
    and w': "w' = queue_on tid io (F_connectEstablished (s_fresh w)) w4"
  note a = flow_added(1) [where rd = rd, OF core ap new fresh rd] flow_added(2) [where rd = rd and b = b, OF core ap new fresh rd]
  have "w_conns w' = w_conns w4" "\<And>d. stream d w' = stream d w4" "s_fresh w' = s_fresh w4"
    by (simp_all add: w' stream_def wire_def queue_on_def lput_def)
  then show ?thesis using a unfolding conns_apart_def flows_def by simp
next
  fix io pool1 c ch w4 ch' assume new: "conn_added io pool1 c ch w w4"
    and fresh: "\<forall>l \<in> set (srv_loops w). \<forall>q ch. chan_heap (poller (lget l w)) q = Some ch \<longrightarrow> ch_fd ch \<noteq> c_sockfd c"
    and t: "touch (s_fresh w) c ch (c\<lparr>c_state := kConnected\<rparr>) ch' w4 w'" and wire: "\<forall>fd. wire fd w' = wire fd w4"
  note a = flow_added(1) [where rd = rd, OF core ap new fresh rd] flow_added(2) [where rd = rd and b = b, OF core ap new fresh rd]
  have c: "w_conns w4 (s_fresh w) = Some c" "content (inputBuffer c) = []"
    using added_frame(9) [OF new] new unfolding conn_added_def by auto
  have "conns_apart w'" by (rule conns_apart_upd [OF a(1) c(1) _ _ touchD(5) [OF t]]) (simp_all add: c(2))
  moreover have "flows b rd w w'"
    unfolding flows_def
  proof (intro conjI allI impI)
    show "s_fresh w \<le> s_fresh w'" using a(2) touch_frame(2) [OF t] by (simp add: flows_def)
    fix k ck assume k: "w_conns w' k = Some ck"
    show "s_fresh w \<le> k \<or> (\<exists>d. w_conns w k = Some d \<and> c_sockfd ck = c_sockfd d \<and> (b \<longrightarrow> stream ck w' = stream d w @ rd k))"
    proof (cases "k = s_fresh w")
      case False
      with k have "w_conns w4 k = Some ck" using touchD(5) [OF t] by simp
      moreover have "stream d w' = stream d w4" for d using wire by (simp add: stream_def)
      ultimately show ?thesis using a(2) unfolding flows_def by simp
    qed simp
  qed
  ultimately show ?thesis ..
qed

section \<open>Every step\<close>

lemma step_read_quiet: "active_by (sy_pc s l) = [] \<Longrightarrow> step_read os l s cid = []"
  by (simp add: step_read_def)

lemma step_read_other:
  assumes conns: "srv_conns (sy_world s)" and at: "sy_pc s l = At_channels (ptr # rest)"
    and c: "w_conns (sy_world s) cid = Some c" "c_channel c = ptr" and k: "k \<noteq> cid"
  shows "step_read os l s k = []"
  using at srv_channel [OF conns c(1)] srv_channel [OF conns, of k] c(2) k by (auto simp: step_read_def split: option.split)

theorem flow_step:
  assumes s: "sys_life s" and ap: "conns_apart (sy_world s)" and l: "l \<in> set (srv_loops (sy_world s))" and e: "step_effect os l s s'"
  shows "conns_apart (sy_world s') \<and> flows (no_fault (os_calls.truncate os)) (step_read os l s) (sy_world s) (sy_world s')"
  using e
proof (cases rule: step_effect.cases)
  case (E_poll active w')
  note f = polled_frame [OF E_poll(3)]
  have "flows (no_fault (os_calls.truncate os)) (step_read os l s) (sy_world s) w'"
    by (rule flows_quiet) (simp_all add: f step_read_quiet E_poll(2))
  then show ?thesis using conns_apart_sub [OF ap, of w'] f(1) unfolding E_poll(1) by simp
next
  case (E_conn ptr rest cid c w')
  note d = sys_lifeD [OF s]
  have st: "c_state c = kConnected" using d(4) E_conn(2-5) by (auto simp: active_connected_def active_of_def)
  have "step_read os l s k = []" if "k \<noteq> cid" for k
    by (rule step_read_other [OF coreD(3) [OF d(2)] E_conn(2,3,5) that])
  from flow_conn [where rd = "step_read os l s", OF ap E_conn(7,3) st refl this] show ?thesis unfolding E_conn(1) by simp
next
  case (E_wake ptr rest)
  let ?w' = "lput l (EventLoop_handleRead (lget l (sy_world s))) (sy_world s)"
  have "flows (no_fault (os_calls.truncate os)) (step_read os l s) (sy_world s) ?w'"
    by (rule flows_quiet) (use E_wake(3) in simp_all)
  then show ?thesis using conns_apart_sub [OF ap, of ?w'] unfolding E_wake(1) by simp
next
  case (E_accept ptr rest w')
  from flow_accept [OF sys_lifeD(2) [OF s] ap E_accept(4), of "step_read os l s"] E_accept(3) show ?thesis unfolding E_accept(1) by simp
next
  case (E_swap fs)
  let ?w' = "lput l ((lget l (sy_world s))\<lparr>callingPendingFunctors := True, pendingFunctors := []\<rparr>) (sy_world s)"
  have "flows (no_fault (os_calls.truncate os)) (step_read os l s) (sy_world s) ?w'"
    by (rule flows_quiet) (simp_all add: step_read_quiet E_swap(2))
  then show ?thesis using conns_apart_sub [OF ap, of ?w'] unfolding E_swap(1) by simp
next
  case (E_established held cid fs c ch ch' w')
  have "flows (no_fault (os_calls.truncate os)) (step_read os l s) (sy_world s) w'"
    by (rule flows_touch [OF E_established(7,3)]) (use E_established(11) in \<open>simp_all add: step_read_quiet E_established(2)\<close>)
  moreover have "conns_apart w'"
    by (rule conns_apart_upd [OF ap conn_okD(1) [OF E_established(3)] _ _ touchD(5) [OF E_established(7)]])
       (use conns_apartD(2) [OF ap conn_okD(1) [OF E_established(3)]] in simp_all)
  ultimately show ?thesis unfolding E_established(1) by simp
next
  case (E_destroyed held cid fs c ch ch' w')
  have "flows (no_fault (os_calls.truncate os)) (step_read os l s) (sy_world s) w'"
    by (rule flows_touch [OF E_destroyed(8,3)]) (use E_destroyed(9) in \<open>simp_all add: step_read_quiet E_destroyed(2)\<close>)
  moreover have "conns_apart w'"
    by (rule conns_apart_upd [OF ap conn_okD(1) [OF E_destroyed(3)] _ _ touchD(5) [OF E_destroyed(8)]])
       (use conns_apartD(2) [OF ap conn_okD(1) [OF E_destroyed(3)]] in simp_all)
  ultimately show ?thesis unfolding E_destroyed(1) by simp
next
  case (E_remove held cid fs c ch)
  let ?w' = "queue_on (threadId (lget l (sy_world s))) (c_loop c) (F_connectDestroyed cid) (unmap c (sy_world s))"
  have "flows (no_fault (os_calls.truncate os)) (step_read os l s) (sy_world s) ?w'"
    by (rule flows_quiet) (simp_all add: step_read_quiet E_remove(2) queue_on_def lput_def wire_def unmap_def)
  then show ?thesis using conns_apart_sub [OF ap, of ?w'] unfolding E_remove(1) by simp
next
  case (E_end held w1 hs w')
  note f = released_frame [OF E_end(5)]
  have sub: "w_conns (sy_world s) k = Some c" if "w_conns w' k = Some c" for k c
    using released_conns [OF E_end(5) that] by (simp add: E_end(3))
  have "flows (no_fault (os_calls.truncate os)) (step_read os l s) (sy_world s) w'"
    by (rule flows_quiet [OF _ _ sub]) (simp_all add: f E_end(3) step_read_quiet E_end(2))
  then show ?thesis using conns_apart_sub [OF ap sub] unfolding E_end(1) by simp
qed

end
