(* ===== verification/System_Runs.thy ===== *)
theory System_Runs
  imports System_Flow Reachability
begin

text \<open>
  The runs of the server: the states the threads reach together from a server that has just been started, in
  every interleaving of their steps, as long as the kernel behaves as documented, no backlog is about to reach
  the high-water mark and the connection counter is not used up.
\<close>

section \<open>The transition system\<close>

text \<open>The server after \<open>start\<close>: no connection, nothing queued, the wake-up channels registered.\<close>

definition loop_idle :: "server_world \<Rightarrow> nat \<Rightarrow> bool" where
  "loop_idle w l \<longleftrightarrow> poller_inv (poller (lget l w)) \<and> pendingFunctors (lget l w) = [] \<and> \<not> callingPendingFunctors (lget l w) \<and>
     wake_chan l (lget l w) \<and> (\<forall>ptr ch. chan_heap (poller (lget l w)) ptr = Some ch \<longrightarrow> ptr < s_fresh w \<and> sys_chan w l ptr ch)"

definition srv_idle :: "srv_sys \<Rightarrow> bool" where
  "srv_idle s \<longleftrightarrow> sy_pc s = (\<lambda>_. At_poll) \<and> w_conns (sy_world s) = Map.empty \<and> s_connections (sy_world s) = Map.empty \<and>
     srv_base (sy_world s) \<and> (\<forall>l \<in> set (srv_loops (sy_world s)). loop_idle (sy_world s) l)"

inductive srv_move :: "srv_sys \<Rightarrow> srv_sys \<Rightarrow> bool" where
  move: "l \<in> set (srv_loops (sy_world s)) \<Longrightarrow> kernel_ok os wait l s \<Longrightarrow> calm s \<Longrightarrow> srv_step os wait now l s = Inr s' \<Longrightarrow> srv_move s s'"

definition sys_ok :: "srv_sys \<Rightarrow> bool" where
  "sys_ok s \<longleftrightarrow> sys_life s \<and> wakes (sy_pc s) (sy_world s) \<and> conns_apart (sy_world s)"

lemma sys_okD:
  assumes "sys_ok s"
  shows "sys_life s" "wakes (sy_pc s) (sy_world s)" "conns_apart (sy_world s)" "sys_inv s"
    "core {} (todo_of s) (active_of s) (sy_world s)"
  using assms sys_lifeD [of s] by (simp_all add: sys_ok_def)

lemma step_ok:
  assumes ok: "sys_ok s" and l: "l \<in> set (srv_loops (sy_world s))" and k: "kernel_ok os wait l s" and calm: "calm s"
  shows "\<exists>s'. srv_step os wait now l s = Inr s' \<and> sys_ok s' \<and> step_effect os l s s' \<and>
    flows (no_fault (os_calls.truncate os)) (step_read os l s) (sy_world s) (sy_world s')"
proof -
  note d = sys_okD [OF ok]
  obtain s' where s': "srv_step os wait now l s = Inr s'" "sys_inv s'" "step_effect os l s s'"
    using srv_step_ok [OF d(4) l k calm] by blast
  with sys_life_step [OF d(1) l s'(3,2)] wakes_step [OF d(4,2) l s'(3)] flow_step [OF d(1,3) l s'(3)]
  show ?thesis by (auto simp: sys_ok_def)
qed

lemma idle_ok:
  assumes "srv_idle s"
  shows "sys_ok s"
proof -
  let ?w = "sy_world s"
  have i: "sy_pc s = (\<lambda>_. At_poll)" "w_conns ?w = Map.empty" "s_connections ?w = Map.empty" "srv_base ?w"
    "\<And>l. l \<in> set (srv_loops ?w) \<Longrightarrow> loop_idle ?w l" using assms by (auto simp: srv_idle_def)
  have T: "todo_of s = (\<lambda>_. [])" "active_of s = (\<lambda>_. [])" by (simp_all add: todo_of_def active_of_def i(1) fun_eq_iff)
  have none: "\<not> conn_ok k c x ?w" for k c x by (simp add: conn_ok_def i(2))
  have "srv_heaps ?w" unfolding srv_heaps_def using i(5) by (auto simp: loop_idle_def)
  moreover have "srv_conns ?w" by (simp add: srv_conns_def i(2,3))
  moreover have "srv_queues (\<lambda>_. []) ?w" using i(5) by (simp add: srv_queues_def fut_def loop_idle_def)
  ultimately have "core {} (todo_of s) (active_of s) ?w"
    unfolding T core_def using i(4) none by (simp add: srv_dyn_def srv_active_def)
  moreover have "wakes (sy_pc s) ?w" using i(1,5) by (simp add: wakes_def wake_ok_def loop_idle_def)
  ultimately show ?thesis
    by (simp add: sys_ok_def sys_life_def sys_inv_def life_def none active_connected_def conns_apart_def i(1,2))
qed

interpretation srv: invariant_system srv_idle srv_move sys_ok
proof
  show "sys_ok s" if "srv_idle s" for s using that by (rule idle_ok)
  show "sys_ok t" if "sys_ok s" "srv_move s t" for s t
    using that(2)
  proof cases
    case (move l os wait now)
    with step_ok [OF that(1) move(1-3), of now] show ?thesis by simp
  qed
qed

section \<open>What the kernel holds\<close>

lemma registered_kernel:
  assumes "poller_inv p" and ch: "chan_heap p ptr = Some ch" and "ch_index ch = ADDED"
  shows "\<exists>m. ep_run (ctl_log p) Map.empty = Some m \<and> m (ch_fd ch) = Some (ch_events ch, ptr)"
proof -
  obtain m where coh: "coherent {} p m" using assms(1) unfolding poller_inv_def by blast
  with coherentD(1) [OF coh] coherentD(3) [OF coh ch] assms(3) show ?thesis by (auto simp: chan_ok_def)
qed

section \<open>Runs with their inputs\<close>

text \<open>A run as a list of steps, each with the loop, the kernel's answers and the time; and the bytes it reads for a connection.\<close>

type_synonym srv_label = "server_os \<times> (nat \<Rightarrow> errno + (c_int \<times> nat) list) \<times> int \<times> nat"

fun srv_run :: "srv_label list \<Rightarrow> srv_sys \<Rightarrow> srv_sys res" where
  "srv_run [] s = Inr s"
| "srv_run ((os, wait, now, l) # ls) s = bindR (srv_step os wait now l s) (srv_run ls)"

fun run_reads :: "srv_label list \<Rightarrow> nat \<Rightarrow> srv_sys \<Rightarrow> bytes" where
  "run_reads [] cid s = []"
| "run_reads ((os, wait, now, l) # ls) cid s =
     step_read os l s cid @ (case srv_step os wait now l s of Inr s' \<Rightarrow> run_reads ls cid s' | Inl e \<Rightarrow> [])"

text \<open>The assumptions along the run, with a kernel that reports no broken connection to \<open>write\<close>.\<close>

fun run_ok :: "srv_label list \<Rightarrow> srv_sys \<Rightarrow> bool" where
  "run_ok [] s \<longleftrightarrow> True"
| "run_ok ((os, wait, now, l) # ls) s \<longleftrightarrow> l \<in> set (srv_loops (sy_world s)) \<and> kernel_ok os wait l s \<and> calm s \<and>
     no_fault (os_calls.truncate os) \<and> (case srv_step os wait now l s of Inr s' \<Rightarrow> run_ok ls s' | Inl e \<Rightarrow> True)"

lemma run_flow:
  assumes "sys_ok s" and "run_ok ls s" and "cid < s_fresh (sy_world s)"
  shows "\<exists>s'. srv_run ls s = Inr s' \<and> sys_ok s' \<and> (\<forall>c'. w_conns (sy_world s') cid = Some c' \<longrightarrow>
    (\<exists>c. w_conns (sy_world s) cid = Some c \<and> c_sockfd c' = c_sockfd c \<and>
       stream c' (sy_world s') = stream c (sy_world s) @ run_reads ls cid s))"
  using assms
proof (induction ls arbitrary: s)
  case (Cons x ls)
  obtain os wait now l where x: "x = (os, wait, now, l)" by (cases x) auto
  have k: "l \<in> set (srv_loops (sy_world s))" "kernel_ok os wait l s" "calm s" "no_fault (os_calls.truncate os)"
    using Cons.prems(2) by (simp_all add: x)
  obtain s1 where 1: "srv_step os wait now l s = Inr s1" "sys_ok s1"
    "flows (no_fault (os_calls.truncate os)) (step_read os l s) (sy_world s) (sy_world s1)"
    using step_ok [OF Cons.prems(1) k(1-3)] by blast
  have ok1: "run_ok ls s1" "cid < s_fresh (sy_world s1)" using Cons.prems(2,3) 1(1,3) by (simp_all add: x flows_def)
  obtain s' where 2: "srv_run ls s1 = Inr s'" "sys_ok s'" "\<forall>c'. w_conns (sy_world s') cid = Some c' \<longrightarrow>
    (\<exists>c. w_conns (sy_world s1) cid = Some c \<and> c_sockfd c' = c_sockfd c \<and>
       stream c' (sy_world s') = stream c (sy_world s1) @ run_reads ls cid s1)"
    using Cons.IH [OF 1(2) ok1] by blast
  have "\<exists>c. w_conns (sy_world s) cid = Some c \<and> c_sockfd c' = c_sockfd c \<and>
       stream c' (sy_world s') = stream c (sy_world s) @ run_reads (x # ls) cid s" if c': "w_conns (sy_world s') cid = Some c'" for c'
  proof -
    obtain c1 where c1: "w_conns (sy_world s1) cid = Some c1" "c_sockfd c' = c_sockfd c1"
      "stream c' (sy_world s') = stream c1 (sy_world s1) @ run_reads ls cid s1" using 2(3) c' by blast
    obtain c where "w_conns (sy_world s) cid = Some c" "c_sockfd c1 = c_sockfd c" "stream c1 (sy_world s1) = stream c (sy_world s) @ step_read os l s cid"
      using 1(3) k(4) c1(1) Cons.prems(3) unfolding flows_def by fastforce
    with c1 1(1) show ?thesis by (simp add: x)
  qed
  with 1(1) 2(1,2) show ?case by (simp add: x)
qed simp

end
