(* ===== verification/Log_Util.thy ===== *)
theory Log_Util
  imports Prelude
begin

text \<open>
  The utilities of the log system (\<open>log_system/logs_code/Util.hpp\<close>): paths, directories and file
  contents (\<open>Util::File\<close>), the JSON wrappers (\<open>Util::JsonUtil\<close>) and the configuration
  (\<open>Util::JsonData\<close>). The file system is a parameter (\<open>stat\<close>, \<open>mkdir\<close>, the contents of a file), and so is
  the JSON library: its parser, its writer and the two accessors \<open>asInt64\<close> and \<open>asString\<close> applied to
  a member of an object.
\<close>

section \<open>Util::File\<close>

definition is_sep :: "char \<Rightarrow> bool" where
  "is_sep c \<longleftrightarrow> c = CHR ''/'' \<or> c = CHR 0x5C"

text \<open>\<open>find_first_of\<close> and \<open>find_last_of\<close> with the two separators.\<close>

definition find_first_sep :: "string \<Rightarrow> nat \<Rightarrow> nat option" where
  "find_first_sep s index =
     (let n = length (takeWhile (\<lambda>c. \<not> is_sep c) (drop index s))
      in if index + n < length s then Some (index + n) else None)"

definition find_last_sep :: "string \<Rightarrow> nat option" where
  "find_last_sep s =
     (let n = length (takeWhile (\<lambda>c. \<not> is_sep c) (rev s))
      in if n < length s then Some (length s - 1 - n) else None)"

definition File_Path :: "string \<Rightarrow> string" where
  "File_Path filename =
     (if filename = [] then []
      else case find_last_sep filename of Some pos \<Rightarrow> take (Suc pos) filename | None \<Rightarrow> [])"

lemma find_first_sep_ge: "find_first_sep s index = Some pos \<Longrightarrow> index \<le> pos \<and> pos < length s"
  by (auto simp: find_first_sep_def Let_def split: if_splits)

text \<open>The loop of \<open>CreateDirectory\<close>: \<open>ex\<close> is \<open>Exists\<close>, \<open>mk\<close> is \<open>mkdir\<close> on the file system \<open>'fs\<close>.\<close>

function create_loop ::
  "(string \<Rightarrow> 'fs \<Rightarrow> bool) \<Rightarrow> (string \<Rightarrow> 'fs \<Rightarrow> 'fs) \<Rightarrow> string \<Rightarrow> nat \<Rightarrow> 'fs \<Rightarrow> 'fs" where
  "create_loop ex mk pathname index fs =
     (if index < length pathname
      then case find_first_sep pathname index of
             None \<Rightarrow> mk pathname fs
           | Some pos \<Rightarrow>
               if pos = index then create_loop ex mk pathname (Suc pos) fs
               else let sub_path = take pos pathname in
                    if ex sub_path fs then create_loop ex mk pathname (Suc pos) fs
                    else create_loop ex mk pathname (Suc pos) (mk sub_path fs)
      else fs)"
  by pat_completeness auto
termination
  by (relation "measure (\<lambda>(ex, mk, pathname, index, fs). length pathname - index)")
     (auto dest!: find_first_sep_ge)

declare create_loop.simps [simp del]

definition CreateDirectory ::
  "(string \<Rightarrow> 'fs \<Rightarrow> bool) \<Rightarrow> (string \<Rightarrow> 'fs \<Rightarrow> 'fs) \<Rightarrow> string \<Rightarrow> 'fs \<Rightarrow> 'fs" where
  "CreateDirectory ex mk pathname fs = (if \<not> ex pathname fs then create_loop ex mk pathname 0 fs else fs)"

text \<open>
  \<open>Exists\<close>, \<open>FileSize\<close> and \<open>GetContent\<close>: \<open>stat name\<close> is the size of an existing file, \<open>contents name\<close> what
  an input stream opened on it delivers. A failed \<open>stat\<close> after the file was opened gives the size -1,
  which is converted to \<open>size_t\<close>.
\<close>

definition Exists :: "(string \<Rightarrow> nat option) \<Rightarrow> string \<Rightarrow> bool" where
  "Exists stat filename \<longleftrightarrow> stat filename \<noteq> None"

definition FileSize :: "(string \<Rightarrow> nat option) \<Rightarrow> string \<Rightarrow> int" where
  "FileSize stat filename = (case stat filename of None \<Rightarrow> - 1 | Some n \<Rightarrow> int n)"

definition GetContent ::
  "(string \<Rightarrow> nat option) \<Rightarrow> (string \<Rightarrow> bytes option) \<Rightarrow> string \<Rightarrow> bytes option res" where
  "GetContent stat contents filename =
     (case contents filename of
        None \<Rightarrow> Inr None
      | Some data \<Rightarrow>
          let len = (of_int (FileSize stat filename) :: size_t) in
          bindR (vec_resize (unat len) []) (\<lambda>c.
            if unat len \<le> length data then Inr (Some (take (unat len) data)) else Inr None))"

section \<open>Util::JsonUtil\<close>

text \<open>
  The JSON library over a type \<open>'j\<close> of values: \<open>j_parse\<close> gives its verdict and what it left in \<open>*val\<close>,
  \<open>j_write\<close> its return value and the text.
\<close>

record 'j json_lib =
  j_parse :: "string \<Rightarrow> bool \<times> 'j"
  j_write :: "'j \<Rightarrow> int \<times> string"
  j_asInt64 :: "'j \<Rightarrow> string \<Rightarrow> int"
  j_asInt :: "'j \<Rightarrow> string \<Rightarrow> int"
  j_asString :: "'j \<Rightarrow> string \<Rightarrow> string"

text \<open>\<open>Serialize\<close> leaves \<open>*str\<close> alone when the writer reports an error.\<close>

definition json_Serialize :: "'j json_lib \<Rightarrow> 'j \<Rightarrow> string \<Rightarrow> bool \<times> string" where
  "json_Serialize lib v str =
     (case j_write lib v of (r, ss) \<Rightarrow> if r \<noteq> 0 then (False, str) else (True, ss))"

definition json_UnSerialize :: "'j json_lib \<Rightarrow> string \<Rightarrow> bool \<times> 'j" where
  "json_UnSerialize lib str = (case j_parse lib str of (ok, v) \<Rightarrow> if \<not> ok then (False, v) else (True, v))"

section \<open>Util::JsonData\<close>

record json_data =
  buffer_size :: size_t
  threadhold :: size_t
  linear_growth :: size_t
  flush_log :: size_t
  backup_addr :: string
  backup_port :: "16 word"
  thread_count :: size_t

text \<open>The assignments at the end of the constructor; the member names are the source's.\<close>

definition JsonData_members :: "'j json_lib \<Rightarrow> 'j \<Rightarrow> json_data" where
  "JsonData_members lib root =
     \<lparr>buffer_size = of_int (j_asInt64 lib root ''buffer_size''), threadhold = of_int (j_asInt64 lib root ''threadhold''),
      linear_growth = of_int (j_asInt64 lib root ''linear_growth''), flush_log = of_int (j_asInt64 lib root ''flush_log''),
      backup_addr = j_asString lib root ''backup_addr'', backup_port = of_int (j_asInt lib root ''backup_port''),
      thread_count = of_int (j_asInt lib root ''thread_count'')\<rparr>"

definition config_path :: "bool \<Rightarrow> string" where
  "config_path log_debug = (if log_debug then ''./config.conf'' else ''../log_system/logs_code/config.conf'')"

text \<open>
  The constructor: \<open>None\<close> when it returns early and leaves the members uninitialised. The result of
  \<open>UnSerialize\<close> is not looked at.
\<close>

definition JsonData_new ::
  "bool \<Rightarrow> (string \<Rightarrow> nat option) \<Rightarrow> (string \<Rightarrow> bytes option) \<Rightarrow> 'j json_lib \<Rightarrow> json_data option res" where
  "JsonData_new log_debug stat contents lib =
     (if \<not> Exists stat (config_path log_debug) then Inr None
      else bindR (GetContent stat contents (config_path log_debug)) (\<lambda>r.
        case r of
          None \<Rightarrow> Inr None
        | Some content \<Rightarrow> Inr (Some (JsonData_members lib (snd (json_UnSerialize lib content))))))"

section \<open>Directories\<close>

text \<open>A position at which a component of a path ends.\<close>

definition component_end :: "string \<Rightarrow> nat \<Rightarrow> bool" where
  "component_end s pos \<longleftrightarrow> 0 < pos \<and> pos < length s \<and> is_sep (s ! pos) \<and> \<not> is_sep (s ! (pos - 1))"

text \<open>
  POSIX: \<open>mkdir\<close> of a path all of whose proper prefixes exist makes it exist, and removes nothing; if
  a path exists, so do its prefixes.
\<close>

definition mkdir_law :: "(string \<Rightarrow> 'fs \<Rightarrow> bool) \<Rightarrow> (string \<Rightarrow> 'fs \<Rightarrow> 'fs) \<Rightarrow> bool" where
  "mkdir_law ex mk \<longleftrightarrow>
     (\<forall>p fs. (\<forall>pos. component_end p pos \<longrightarrow> ex (take pos p) fs) \<longrightarrow> ex p (mk p fs)) \<and>
     (\<forall>p q fs. ex p fs \<longrightarrow> ex p (mk q fs)) \<and>
     (\<forall>p pos fs. ex p fs \<longrightarrow> component_end p pos \<longrightarrow> ex (take pos p) fs)"

lemma find_first_sep_None: "find_first_sep s index = None \<Longrightarrow> index \<le> i \<Longrightarrow> i < length s \<Longrightarrow> \<not> is_sep (s ! i)"
proof -
  assume n: "find_first_sep s index = None" and i: "index \<le> i" "i < length s"
  have "length (drop index s) \<le> length (takeWhile (\<lambda>c. \<not> is_sep c) (drop index s))"
    using n i by (auto simp: find_first_sep_def Let_def split: if_splits)
  then have "takeWhile (\<lambda>c. \<not> is_sep c) (drop index s) = drop index s"
    by (metis length_takeWhile_le le_antisym takeWhile_eq_take take_all order_refl)
  then have "\<forall>c \<in> set (drop index s). \<not> is_sep c" by (simp add: takeWhile_eq_all_conv)
  moreover have "s ! i \<in> set (drop index s)"
    using i nth_mem [of "i - index" "drop index s"] by simp
  ultimately show ?thesis by blast
qed

lemma find_first_sep_Some:
  assumes f: "find_first_sep s index = Some pos"
  shows "is_sep (s ! pos)" "index \<le> i \<Longrightarrow> i < pos \<Longrightarrow> \<not> is_sep (s ! i)"
proof -
  let ?n = "length (takeWhile (\<lambda>c. \<not> is_sep c) (drop index s))"
  have pos: "pos = index + ?n" "pos < length s" using f by (auto simp: find_first_sep_def Let_def split: if_splits)
  then have "?n < length (drop index s)" by simp
  from nth_length_takeWhile [OF this] pos show "is_sep (s ! pos)" by simp
  assume i: "index \<le> i" "i < pos"
  then have lt: "i - index < ?n" using pos by simp
  then have "\<not> is_sep (takeWhile (\<lambda>c. \<not> is_sep c) (drop index s) ! (i - index))"
    by (metis (mono_tags, lifting) nth_mem set_takeWhileD)
  moreover have "takeWhile (\<lambda>c. \<not> is_sep c) (drop index s) ! (i - index) = s ! i"
    using takeWhile_nth [OF lt] i pos by simp
  ultimately show "\<not> is_sep (s ! i)" by simp
qed

lemma create_loop_creates:
  assumes law: "mkdir_law ex mk"
    and before: "\<forall>pos < index. component_end pathname pos \<longrightarrow> ex (take pos pathname) fs"
    and at: "0 < index \<Longrightarrow> is_sep (pathname ! (index - 1))"
  shows "(\<forall>pos. component_end pathname pos \<longrightarrow> ex (take pos pathname) (create_loop ex mk pathname index fs))"
  using before at
proof (induction "length pathname - index" arbitrary: index fs rule: less_induct)
  case less
  have mono: "ex p fs \<Longrightarrow> ex p (mk q fs)" for p q fs using law by (simp add: mkdir_law_def)
  show ?case
  proof (cases "index < length pathname")
    case False
    then show ?thesis using less.prems(1) by (subst create_loop.simps) (auto simp: component_end_def)
  next
    case inside: True
    show ?thesis
    proof (cases "find_first_sep pathname index")
      case None
      then have "create_loop ex mk pathname index fs = mk pathname fs"
        using inside by (subst create_loop.simps) simp
      moreover have "pos < index" if "component_end pathname pos" for pos
        using that find_first_sep_None [OF None, of pos] by (cases "index \<le> pos") (auto simp: component_end_def)
      ultimately show ?thesis using less.prems(1) mono by simp
    next
      case (Some pos)
      note b = find_first_sep_ge [OF Some] and sp = find_first_sep_Some [OF Some]
      define fs1 where "fs1 = (if pos = index \<or> ex (take pos pathname) fs then fs else mk (take pos pathname) fs)"
      have eq: "create_loop ex mk pathname index fs = create_loop ex mk pathname (Suc pos) fs1"
        using inside Some by (subst create_loop.simps) (simp add: fs1_def Let_def)
      have keep: "ex p fs \<Longrightarrow> ex p fs1" for p using mono by (simp add: fs1_def)
      have below: "q < index" if "component_end pathname q" "q < pos" for q
        using that sp(2) [of q] by (cases "index \<le> q") (auto simp: component_end_def)
      have here: "ex (take pos pathname) fs1" if ce: "component_end pathname pos"
      proof (cases "pos = index")
        case True
        then show ?thesis using ce less.prems(2) by (auto simp: component_end_def)
      next
        case False
        have "ex (take q (take pos pathname)) fs" if "component_end (take pos pathname) q" for q
        proof -
          have "component_end pathname q" "q < pos" using that by (auto simp: component_end_def)
          then show ?thesis using less.prems(1) below by (simp add: min_def)
        qed
        then have "ex (take pos pathname) (mk (take pos pathname) fs)" using law unfolding mkdir_law_def by blast
        then show ?thesis using False by (simp add: fs1_def)
      qed
      have "\<forall>q < Suc pos. component_end pathname q \<longrightarrow> ex (take q pathname) fs1"
        using here below less.prems(1) keep by (metis less_Suc_eq)
      moreover have "length pathname - Suc pos < length pathname - index" using b by linarith
      ultimately show ?thesis unfolding eq using less.hyps [of "Suc pos" fs1] sp(1) by simp
    qed
  qed
qed


lemma CreateDirectory_creates:
  assumes law: "mkdir_law ex mk" and ce: "component_end pathname pos"
  shows "ex (take pos pathname) (CreateDirectory ex mk pathname fs)"
proof (cases "ex pathname fs")
  case True
  then show ?thesis using law ce by (simp add: CreateDirectory_def mkdir_law_def)
next
  case False
  then show ?thesis using create_loop_creates [OF law, of 0] ce by (simp add: CreateDirectory_def)
qed

lemma find_last_sep_Some:
  assumes "find_last_sep s = Some pos"
  shows "pos < length s \<and> is_sep (s ! pos) \<and> (\<forall>c \<in> set (drop (Suc pos) s). \<not> is_sep c)"
proof -
  let ?n = "length (takeWhile (\<lambda>c. \<not> is_sep c) (rev s))"
  have n: "?n < length (rev s)" "pos = length s - 1 - ?n"
    using assms by (auto simp: find_last_sep_def Let_def split: if_splits)
  have "is_sep (rev s ! ?n)" using nth_length_takeWhile [OF n(1)] by simp
  then have sep: "is_sep (s ! pos)" using n by (simp add: rev_nth)
  have "Suc pos = length s - ?n" using n by simp
  then have "drop (Suc pos) s = rev (take ?n (rev s))" by (simp add: rev_take)
  also have "take ?n (rev s) = takeWhile (\<lambda>c. \<not> is_sep c) (rev s)" by (rule takeWhile_eq_take [symmetric])
  finally have "\<forall>c \<in> set (drop (Suc pos) s). \<not> is_sep c" by (auto dest: set_takeWhileD)
  moreover have "pos < length s" using n(1) unfolding n(2) length_rev by linarith
  ultimately show ?thesis using sep by blast
qed

section \<open>Properties\<close>

text \<open>
  \<open>CreateDirectory (Path filename)\<close> makes room for the file: \<open>Path\<close> splits a name after its last
  separator, and under the laws of \<open>mkdir\<close> every directory named by a component of the path exists
  afterwards.
\<close>

theorem log_directory_created:
  assumes "mkdir_law ex mk"
  shows "(\<exists>base. filename = File_Path filename @ base \<and> (\<forall>c \<in> set base. \<not> is_sep c) \<and>
       (File_Path filename \<noteq> [] \<longrightarrow> is_sep (last (File_Path filename)))) \<and>
     (\<forall>pos. component_end (File_Path filename) pos \<longrightarrow>
       ex (take pos (File_Path filename)) (CreateDirectory ex mk (File_Path filename) fs))"
proof -
  have "\<exists>base. filename = File_Path filename @ base \<and> (\<forall>c \<in> set base. \<not> is_sep c) \<and>
      (File_Path filename \<noteq> [] \<longrightarrow> is_sep (last (File_Path filename)))"
  proof (cases "find_last_sep filename")
    case None
    then have "length (takeWhile (\<lambda>c. \<not> is_sep c) (rev filename)) = length (rev filename)"
      using length_takeWhile_le [of "\<lambda>c. \<not> is_sep c" "rev filename"]
      by (auto simp: find_last_sep_def Let_def split: if_splits)
    then have "takeWhile (\<lambda>c. \<not> is_sep c) (rev filename) = rev filename" by (metis takeWhile_eq_take take_all order_refl)
    then have "\<forall>c \<in> set filename. \<not> is_sep c" by (simp add: takeWhile_eq_all_conv)
    then show ?thesis using None by (simp add: File_Path_def)
  next
    case (Some pos)
    from find_last_sep_Some [OF Some] show ?thesis
      using Some by (intro exI [of _ "drop (Suc pos) filename"]) (auto simp: File_Path_def take_Suc_conv_app_nth id_take_nth_drop [symmetric])
  qed
  with CreateDirectory_creates [OF assms] show ?thesis by blast
qed

theorem log_directory_created_witness:
  "\<forall>n. take n ''ab'' \<in> CreateDirectory (\<lambda>p fs. \<forall>n. take n p \<in> fs) (\<lambda>p fs. {q. \<exists>n. q = take n p} \<union> fs)
     (File_Path ''ab/c'') {}"
proof -
  let ?ex = "\<lambda>(p :: string) fs. \<forall>n. take n p \<in> fs" and ?mk = "\<lambda>(p :: string) fs. {q. \<exists>n. q = take n p} \<union> fs"
  have law: "mkdir_law ?ex ?mk" by (auto simp: mkdir_law_def)
  have p: "File_Path ''ab/c'' = ''ab/''" by code_simp
  have "component_end (File_Path ''ab/c'') 2" unfolding p by code_simp
  with log_directory_created [OF law, of "''ab/c''" "{}"]
  have "?ex (take 2 (File_Path ''ab/c'')) (CreateDirectory ?ex ?mk (File_Path ''ab/c'') {})" by blast
  moreover have "take 2 (File_Path ''ab/c'') = ''ab''" unfolding p by simp
  ultimately show ?thesis by simp
qed

text \<open>
  The configuration is what the file says: when the file exists and \<open>stat\<close> gives its length, the
  constructor reads the whole of it and takes each member from the parsed root; a file that is
  missing, or shorter than \<open>stat\<close> says, leaves the members uninitialised. The doubling threshold is
  read from the key \<open>threadhold\<close>: with a file whose only such key is spelt \<open>threshold\<close> it is whatever
  the library returns for a missing member.
\<close>

theorem config_read:
  assumes size: "stat (config_path dbg) = Some n" and small: "n \<le> vec_max_size"
    and cont: "contents (config_path dbg) = Some data"
  shows "JsonData_new dbg stat contents lib =
    (if n \<le> length data then Inr (Some (JsonData_members lib (snd (j_parse lib (take n data))))) else Inr None) \<and>
    JsonData_new dbg (\<lambda>_. None) contents lib = Inr None"
proof -
  have "n < 2 ^ 64" using small by (simp add: vec_max_size_def)
  then have un: "unat (of_nat n :: size_t) = n" by (rule unat_size_of_nat)
  have "json_UnSerialize lib c = j_parse lib c" for c
    by (cases "j_parse lib c") (simp add: json_UnSerialize_def)
  then show ?thesis
    using size cont small un by (simp add: JsonData_new_def Exists_def GetContent_def FileSize_def vec_resize_def Let_def)
qed

theorem config_read_witness:
  "JsonData_new True (\<lambda>_. Some 2) (\<lambda>_. Some ''{}'')
     \<lparr>j_parse = \<lambda>s. (True, s), j_write = \<lambda>j. (0, j), j_asInt64 = \<lambda>j k. 0, j_asInt = \<lambda>j k. 0, j_asString = \<lambda>j k. j\<rparr> =
   Inr (Some \<lparr>buffer_size = 0, threadhold = 0, linear_growth = 0, flush_log = 0, backup_addr = ''{}'', backup_port = 0, thread_count = 0\<rparr>)"
proof -
  have "(2 :: nat) \<le> vec_max_size" by (simp add: vec_max_size_def)
  from config_read [where stat = "\<lambda>_. Some 2" and dbg = True and contents = "\<lambda>_. Some ''{}''"
      and lib = "\<lparr>j_parse = \<lambda>s. (True, s), j_write = \<lambda>j. (0, j), j_asInt64 = \<lambda>j k. 0, j_asInt = \<lambda>j k. 0, j_asString = \<lambda>j k. j\<rparr>",
    OF refl this refl]
  show ?thesis by (simp add: JsonData_members_def)
qed

end
