(* ===== verification/Log_Buffer.thy ===== *)
theory Log_Buffer
  imports Byte_Queue Log_Util
begin

text \<open>
  The byte buffer of the log system (\<open>mylog::Buffer\<close> of \<open>log_system/logs_code/AsyncBuffer.hpp\<close>). The
  \<open>int\<close> that \<open>ToBeEnough\<close> narrows the size to, and its conversion back to \<open>size_t\<close>, are written out.
\<close>

section \<open>The class mylog::Buffer\<close>

record log_buffer =
  lb_data :: bytes
  write_pos :: size_t
  read_pos :: size_t

definition lb_size :: "log_buffer \<Rightarrow> size_t" where
  "lb_size b = of_nat (length (lb_data b))"

definition WriteableSize :: "log_buffer \<Rightarrow> size_t" where
  "WriteableSize b = lb_size b - write_pos b"

definition ReadableSize :: "log_buffer \<Rightarrow> size_t" where
  "ReadableSize b = write_pos b - read_pos b"

definition IsEmpty :: "log_buffer \<Rightarrow> bool" where
  "IsEmpty b \<longleftrightarrow> write_pos b = read_pos b"

definition lb_resize :: "size_t \<Rightarrow> log_buffer \<Rightarrow> log_buffer res" where
  "lb_resize n b = bindR (vec_resize (unat n) (lb_data b)) (\<lambda>d. Inr (b\<lparr>lb_data := d\<rparr>))"

definition log_Buffer_new :: "json_data \<Rightarrow> log_buffer res" where
  "log_Buffer_new cfg = lb_resize (buffer_size cfg) \<lparr>lb_data = [], write_pos = 0, read_pos = 0\<rparr>"

definition ToBeEnough :: "json_data \<Rightarrow> size_t \<Rightarrow> log_buffer \<Rightarrow> log_buffer res" where
  "ToBeEnough cfg len b =
     (let size_int = ucast (lb_size b) :: c_int in
      if len \<ge> WriteableSize b
      then if lb_size b < threadhold cfg
           then lb_resize (2 * lb_size b + scast size_int) b
           else lb_resize (linear_growth cfg + scast size_int) b
      else Inr b)"

definition log_Push :: "json_data \<Rightarrow> bytes \<Rightarrow> size_t \<Rightarrow> log_buffer \<Rightarrow> log_buffer res" where
  "log_Push cfg mem len b =
     bindR (ToBeEnough cfg len b) (\<lambda>b1.
     bindR (mem_read 0 (unat len) mem) (\<lambda>bs.
     bindR (mem_write (unat (write_pos b1)) bs (lb_data b1)) (\<lambda>d.
       Inr (b1\<lparr>lb_data := d, write_pos := write_pos b1 + len\<rparr>))))"

definition Begin_bytes :: "log_buffer \<Rightarrow> size_t \<Rightarrow> bytes res" where
  "Begin_bytes b n = mem_read (unat (read_pos b)) (unat n) (lb_data b)"

definition log_Swap :: "log_buffer \<Rightarrow> log_buffer \<Rightarrow> log_buffer \<times> log_buffer" where
  "log_Swap a b =
     (\<lparr>lb_data = lb_data b, write_pos = write_pos b, read_pos = read_pos b\<rparr>,
      \<lparr>lb_data = lb_data a, write_pos = write_pos a, read_pos = read_pos a\<rparr>)"

text \<open>The assertions compare an \<open>int\<close> with a \<open>size_t\<close>, as unsigned.\<close>

definition MoveWirtePos :: "c_int \<Rightarrow> log_buffer \<Rightarrow> log_buffer res" where
  "MoveWirtePos len b =
     (if (scast len :: size_t) \<le> WriteableSize b then Inr (b\<lparr>write_pos := write_pos b + scast len\<rparr>)
      else Inl Assert_Failed)"

definition MoveReadPos :: "c_int \<Rightarrow> log_buffer \<Rightarrow> log_buffer res" where
  "MoveReadPos len b =
     (if (scast len :: size_t) \<le> ReadableSize b then Inr (b\<lparr>read_pos := read_pos b + scast len\<rparr>)
      else Inl Assert_Failed)"

definition log_Reset :: "log_buffer \<Rightarrow> log_buffer" where
  "log_Reset b = b\<lparr>write_pos := 0, read_pos := 0\<rparr>"

section \<open>Invariant and contents\<close>

definition log_content :: "log_buffer \<Rightarrow> bytes" where
  "log_content b = take (unat (write_pos b) - unat (read_pos b)) (drop (unat (read_pos b)) (lb_data b))"

text \<open>The size stays within the \<open>int\<close> the growth policy narrows it to.\<close>

definition log_inv :: "log_buffer \<Rightarrow> bool" where
  "log_inv b \<longleftrightarrow> read_pos b \<le> write_pos b \<and> unat (write_pos b) \<le> length (lb_data b) \<and> length (lb_data b) < 2 ^ 31"

text \<open>The size after the one growth step.\<close>

definition grown_size :: "json_data \<Rightarrow> log_buffer \<Rightarrow> nat" where
  "grown_size cfg b =
     (if length (lb_data b) < unat (threadhold cfg) then 3 * length (lb_data b)
      else unat (linear_growth cfg) + length (lb_data b))"

definition log_fits :: "json_data \<Rightarrow> log_buffer \<Rightarrow> nat \<Rightarrow> bool" where
  "log_fits cfg b n \<longleftrightarrow>
     n < length (lb_data b) - unat (write_pos b) \<or>
     (unat (write_pos b) + n \<le> grown_size cfg b \<and> grown_size cfg b < 2 ^ 31)"

section \<open>Lemmas\<close>

lemma log_invD:
  assumes "log_inv b"
  shows "unat (read_pos b) \<le> unat (write_pos b)" "unat (write_pos b) \<le> length (lb_data b)"
    "length (lb_data b) < 2 ^ 31" "unat (lb_size b) = length (lb_data b)"
    "unat (WriteableSize b) = length (lb_data b) - unat (write_pos b)"
    "unat (ReadableSize b) = unat (write_pos b) - unat (read_pos b)"
proof -
  show a: "unat (read_pos b) \<le> unat (write_pos b)" "unat (write_pos b) \<le> length (lb_data b)"
    "length (lb_data b) < 2 ^ 31"
    using assms by (simp_all add: log_inv_def word_le_nat_alt)
  show s: "unat (lb_size b) = length (lb_data b)"
    unfolding lb_size_def by (rule unat_size_of_nat) (use a(3) in simp)
  show "unat (WriteableSize b) = length (lb_data b) - unat (write_pos b)"
    unfolding WriteableSize_def using a(2) s by (subst unat_size_sub) simp_all
  show "unat (ReadableSize b) = unat (write_pos b) - unat (read_pos b)"
    unfolding ReadableSize_def using a(1) by (subst unat_size_sub) simp_all
qed

lemma length_log_content: "log_inv b \<Longrightarrow> length (log_content b) = unat (write_pos b) - unat (read_pos b)"
  using log_invD [of b] by (simp add: log_content_def)

lemma IsEmpty_content: "log_inv b \<Longrightarrow> IsEmpty b \<longleftrightarrow> log_content b = []"
  using length_log_content [of b] log_invD(1) [of b]
  by (auto simp: IsEmpty_def word_unat_eq_iff)

text \<open>Below \<open>2 ^ 31\<close> the narrowing to \<open>int\<close> and back is the identity.\<close>

lemma narrow_id:
  assumes "unat (a :: size_t) < 2 ^ 31"
  shows "scast (ucast a :: c_int) = a"
proof -
  have "take_bit 31 (unat a) = unat a" using assms by (simp add: take_bit_nat_eq_self)
  then have "take_bit 31 a = a"
    by (metis unsigned_take_bit_eq word_unat_eq_iff)
  then have b: "bit a n \<Longrightarrow> n < 31" for n by (metis bit_take_bit_iff)
  show ?thesis
    by (rule bit_word_eqI) (use b in \<open>auto simp: bit_simps min_def dest: b\<close>)
qed

lemma ToBeEnough_eq:
  assumes inv: "log_inv b" and small: "grown_size cfg b < 2 ^ 31"
  shows "ToBeEnough cfg len b = Inr (if length (lb_data b) - unat (write_pos b) \<le> unat len
    then b\<lparr>lb_data := take (grown_size cfg b) (lb_data b) @ replicate (grown_size cfg b - length (lb_data b)) (CHR 0x00)\<rparr>
    else b)"
proof -
  note d = log_invD [OF inv]
  have nar: "scast (ucast (lb_size b) :: c_int) = lb_size b"
    by (rule narrow_id) (use d in simp)
  have three: "unat (2 * lb_size b + lb_size b) = 3 * length (lb_data b)"
  proof -
    have "2 * lb_size b + lb_size b = of_nat (3 * length (lb_data b))" by (simp add: lb_size_def)
    moreover have "3 * length (lb_data b) < 2 ^ 64" using d(3) by simp
    ultimately show ?thesis using unat_size_of_nat by metis
  qed
  have lin: "unat (linear_growth cfg + lb_size b) = unat (linear_growth cfg) + length (lb_data b)"
    if "\<not> length (lb_data b) < unat (threadhold cfg)"
    using small that d(4) by (subst unat_size_add) (simp_all add: grown_size_def)
  have small': "grown_size cfg b \<le> vec_max_size" using small by (simp add: vec_max_size_def)
  have cond: "len \<ge> WriteableSize b \<longleftrightarrow> length (lb_data b) - unat (write_pos b) \<le> unat len"
    "lb_size b < threadhold cfg \<longleftrightarrow> length (lb_data b) < unat (threadhold cfg)"
    using d by (simp_all add: word_le_nat_alt word_less_nat_alt)
  have three': "unat (3 * lb_size b) = 3 * length (lb_data b)" using three by simp
  show ?thesis
  proof (cases "length (lb_data b) < unat (threadhold cfg)")
    case True
    then show ?thesis
      using small' unfolding ToBeEnough_def Let_def nar cond
      by (simp add: lb_resize_def vec_resize_def grown_size_def three')
  next
    case False
    then show ?thesis
      using small' lin [OF False] unfolding ToBeEnough_def Let_def nar cond
      by (simp add: lb_resize_def vec_resize_def grown_size_def)
  qed
qed

lemma grown_size_ge: "length (lb_data b) \<le> grown_size cfg b"
  by (simp add: grown_size_def)

lemma ToBeEnough_room:
  assumes inv: "log_inv b" and fits: "log_fits cfg b (unat len)"
  shows "\<exists>b1. ToBeEnough cfg len b = Inr b1 \<and> log_inv b1 \<and> write_pos b1 = write_pos b \<and> read_pos b1 = read_pos b \<and>
    log_content b1 = log_content b \<and> unat (write_pos b) + unat len \<le> length (lb_data b1) \<and> length (lb_data b1) < 2 ^ 31"
proof (cases "unat len < length (lb_data b) - unat (write_pos b)")
  case True
  then have "\<not> len \<ge> WriteableSize b" using log_invD(5) [OF inv] by (simp add: word_le_nat_alt)
  then have "ToBeEnough cfg len b = Inr b" by (simp add: ToBeEnough_def)
  then show ?thesis using True inv log_invD [OF inv] by simp
next
  case False
  then have g: "unat (write_pos b) + unat len \<le> grown_size cfg b" "grown_size cfg b < 2 ^ 31"
    using fits by (simp_all add: log_fits_def)
  note d = log_invD [OF inv]
  let ?b = "b\<lparr>lb_data := lb_data b @ replicate (grown_size cfg b - length (lb_data b)) (CHR 0x00)\<rparr>"
  have "ToBeEnough cfg len b = Inr ?b"
    using ToBeEnough_eq [OF inv g(2), of len] False grown_size_ge [of b cfg] by simp
  moreover have "length (lb_data ?b) = grown_size cfg b" using grown_size_ge [of b cfg] by simp
  moreover have "log_content ?b = log_content b" using d(1,2) by (simp add: log_content_def)
  ultimately show ?thesis using g d inv by (auto simp: log_inv_def)
qed

lemma log_Push_ok:
  assumes inv: "log_inv b" and fits: "log_fits cfg b (unat len)" and mem: "unat len \<le> length mem"
  shows "\<exists>b'. log_Push cfg mem len b = Inr b' \<and> log_inv b' \<and> log_content b' = log_content b @ take (unat len) mem \<and>
    unat (write_pos b') = unat (write_pos b) + unat len"
proof -
  obtain b1 where b1: "ToBeEnough cfg len b = Inr b1" "log_inv b1" "write_pos b1 = write_pos b" "read_pos b1 = read_pos b"
    "log_content b1 = log_content b" "unat (write_pos b) + unat len \<le> length (lb_data b1)" "length (lb_data b1) < 2 ^ 31"
    using ToBeEnough_room [OF inv fits] by blast
  note d = log_invD [OF b1(2)]
  let ?bs = "take (unat len) mem"
  have len: "length ?bs = unat len" using mem by simp
  let ?b = "b1\<lparr>lb_data := overwrite (unat (write_pos b)) ?bs (lb_data b1), write_pos := write_pos b + len\<rparr>"
  have eq: "log_Push cfg mem len b = Inr ?b"
    using b1 mem len by (simp add: log_Push_def)
  have w: "unat (write_pos b + len) = unat (write_pos b) + unat len"
    using b1(6,7) by (subst unat_size_add) simp_all
  have "log_inv ?b" using d b1 w len by (simp add: log_inv_def word_le_nat_alt)
  moreover have "log_content ?b = log_content b @ ?bs"
  proof -
    have "log_content ?b = take (unat (write_pos b) + length ?bs - unat (read_pos b))
        (drop (unat (read_pos b)) (overwrite (unat (write_pos b)) ?bs (lb_data b1)))"
      using w len b1(4) by (simp add: log_content_def)
    also have "\<dots> = take (unat (write_pos b) - unat (read_pos b)) (drop (unat (read_pos b)) (lb_data b1)) @ ?bs"
      using b1 len d(1) by (intro drop_overwrite) simp_all
    finally show ?thesis using b1(3,4,5) by (simp add: log_content_def)
  qed
  ultimately show ?thesis using eq w by auto
qed

lemma log_Push_overflow:
  assumes inv: "log_inv b" and small: "grown_size cfg b < 2 ^ 31" and mem: "unat len \<le> length mem"
    and big: "\<not> log_fits cfg b (unat len)"
  shows "log_Push cfg mem len b = Inl Out_Of_Bounds"
  using ToBeEnough_eq [OF inv small, of len] big small mem grown_size_ge [of b cfg]
  by (auto simp: log_fits_def log_Push_def mem_write_def)

text \<open>Reading from the front, as a client of \<open>Begin\<close> and \<open>MoveReadPos\<close> does.\<close>

definition log_take :: "nat \<Rightarrow> log_buffer \<Rightarrow> (bytes \<times> log_buffer) res" where
  "log_take n b =
     bindR (Begin_bytes b (of_nat n)) (\<lambda>bs. bindR (MoveReadPos (of_nat n) b) (\<lambda>b1. Inr (bs, b1)))"

definition log_put :: "json_data \<Rightarrow> bytes \<Rightarrow> log_buffer \<Rightarrow> log_buffer res" where
  "log_put cfg bs b = log_Push cfg bs (of_nat (length bs)) b"

lemma log_fits_len: "log_inv b \<Longrightarrow> log_fits cfg b n \<Longrightarrow> unat (of_nat n :: size_t) = n"
  using log_invD(3) [of b] by (intro unat_size_of_nat) (auto simp: log_fits_def)

lemma log_put_ok:
  assumes "log_inv b" and "log_fits cfg b (length xs)"
  shows "\<exists>b'. log_put cfg xs b = Inr b' \<and> log_inv b' \<and> log_content b' = log_content b @ xs"
  using log_Push_ok [OF assms(1), of cfg "of_nat (length xs)" xs] assms log_fits_len [OF assms]
  by (auto simp: log_put_def)

lemma log_take_ok:
  assumes inv: "log_inv b" and n: "n \<le> length (log_content b)"
  shows "\<exists>b'. log_take n b = Inr (take n (log_content b), b') \<and> log_inv b' \<and> log_content b' = drop n (log_content b)"
proof -
  note d = log_invD [OF inv]
  have le: "n \<le> unat (write_pos b) - unat (read_pos b)" using n length_log_content [OF inv] by simp
  then have lt: "n < 2 ^ 31" using d(2,3) by linarith
  have un: "unat (of_nat n :: size_t) = n" using lt by (simp add: unat_size_of_nat)
  have "(of_nat n :: c_int) = ucast (of_nat n :: size_t)"
    using lt by (simp add: unsigned_of_nat take_bit_nat_eq_self)
  then have sc: "scast (of_nat n :: c_int) = (of_nat n :: size_t)" using narrow_id [of "of_nat n"] un lt by metis
  have r: "unat (read_pos b + of_nat n) = unat (read_pos b) + n"
    using le d un by (subst unat_size_add) simp_all
  have "Begin_bytes b (of_nat n) = Inr (take n (log_content b))"
    using le d un by (simp add: Begin_bytes_def log_content_def min_def)
  moreover have "MoveReadPos (of_nat n) b = Inr (b\<lparr>read_pos := read_pos b + of_nat n\<rparr>)"
    using le d(6) un sc by (simp add: MoveReadPos_def word_le_nat_alt)
  moreover have "log_inv (b\<lparr>read_pos := read_pos b + of_nat n\<rparr>)"
    using d le r by (simp add: log_inv_def word_le_nat_alt)
  moreover have "log_content (b\<lparr>read_pos := read_pos b + of_nat n\<rparr>) = drop n (log_content b)"
    using r by (simp add: log_content_def drop_take add.commute)
  ultimately show ?thesis by (simp add: log_take_def)
qed

interpretation lbuf: byte_queue log_inv log_content "log_fits cfg" "log_put cfg" log_take for cfg
  by unfold_locales (simp_all add: log_put_ok log_take_ok)

lemma log_Reset_ok: "log_inv b \<Longrightarrow> log_inv (log_Reset b) \<and> log_content (log_Reset b) = []"
  by (simp add: log_inv_def log_Reset_def log_content_def)

section \<open>Properties\<close>

text \<open>
  C35: \<open>Push\<close> of the log buffer is exact about its room: with the sizes below \<open>2 ^ 31\<close>, it appends the
  bytes, keeping all that was there, if they fit after at most one growth step, and otherwise it
  writes past the end of the vector: \<open>ToBeEnough\<close> grows only once, whatever the length.
\<close>

theorem log_push_exact:
  assumes "log_inv b" and "grown_size cfg b < 2 ^ 31" and "unat len \<le> length mem"
  shows "if log_fits cfg b (unat len)
    then \<exists>b'. log_Push cfg mem len b = Inr b' \<and> log_inv b' \<and> log_content b' = log_content b @ take (unat len) mem
    else log_Push cfg mem len b = Inl Out_Of_Bounds"
  using log_Push_ok [OF assms(1) _ assms(3), of cfg] log_Push_overflow [OF assms] by auto

definition small_cfg :: json_data where
  "small_cfg = \<lparr>buffer_size = 4, threadhold = 0, linear_growth = 4, flush_log = 1, backup_addr = ''127.0.0.1'',
     backup_port = 6635, thread_count = 3\<rparr>"

definition small_buffer :: log_buffer where
  "small_buffer = \<lparr>lb_data = ''abcd'', write_pos = 2, read_pos = 0\<rparr>"

lemma small_buffer_ok: "log_inv small_buffer" "grown_size small_cfg small_buffer = 8" "log_content small_buffer = ''ab''"
  by (simp_all add: log_inv_def small_buffer_def grown_size_def small_cfg_def log_content_def)

theorem log_push_exact_witness:
  "(\<exists>b'. log_Push small_cfg ''cdefgh'' 6 small_buffer = Inr b' \<and> log_content b' = ''abcdefgh'') \<and>
   log_Push small_cfg ''cdefghi'' 7 small_buffer = Inl Out_Of_Bounds"
proof -
  have g: "grown_size small_cfg small_buffer < 2 ^ 31" by (simp add: small_buffer_ok)
  have f: "log_fits small_cfg small_buffer 6" "\<not> log_fits small_cfg small_buffer 7"
    by (simp_all add: log_fits_def small_buffer_ok) (simp_all add: small_buffer_def)
  have "unat (6 :: size_t) \<le> length ''cdefgh''" "unat (7 :: size_t) \<le> length ''cdefghi''" by simp_all
  from log_push_exact [OF small_buffer_ok(1) g this(1)] log_push_exact [OF small_buffer_ok(1) g this(2)] f
  show ?thesis by (auto simp: small_buffer_ok)
qed

text \<open>
  The log buffer is a first-in first-out byte queue: over every sequence of pushes that fit and
  reads of at most what is there, what comes out followed by what remains is what was there
  followed by all that was pushed, in order.
\<close>

theorem log_buffer_fifo:
  assumes "log_inv b" and "q_legal (log_fits cfg) log_content (log_put cfg) log_take ops b"
  shows "\<exists>outs b'. q_exec (log_put cfg) log_take ops b = Inr (outs, b') \<and> log_inv b' \<and>
     outs @ log_content b' = log_content b @ q_input ops"
  using lbuf.exec_fifo [OF assms] .

theorem log_buffer_fifo_witness:
  "\<exists>outs b'. q_exec (log_put small_cfg) log_take [Put ''cd'', Get 3] small_buffer = Inr (outs, b') \<and>
     outs @ log_content b' = ''abcd''"
proof -
  have f: "log_fits small_cfg small_buffer (length ''cd'')"
    by (simp add: log_fits_def small_buffer_ok) (simp add: small_buffer_def)
  obtain b1 where b1: "log_put small_cfg ''cd'' small_buffer = Inr b1" "log_content b1 = ''abcd''" "log_inv b1"
    using log_put_ok [OF small_buffer_ok(1) f] small_buffer_ok(3) by auto
  have "q_legal (log_fits small_cfg) log_content (log_put small_cfg) log_take [Put ''cd'', Get 3] small_buffer"
    using f b1 by (auto split: sum.split)
  from log_buffer_fifo [OF small_buffer_ok(1) this] show ?thesis by (simp add: small_buffer_ok) blast
qed

end
