(* ===== verification/Log_Flush.thy ===== *)
theory Log_Flush
  imports Log_Buffer Net_Address
begin

text \<open>
  The output sinks of the log system (\<open>log_system/logs_code/LogFlush.hpp\<close>). \<open>log_output\<close> holds what
  reached standard output and the files, and is shared by all sinks; a \<open>FILE\<close> keeps what \<open>fwrite\<close> took
  and \<open>fflush\<close> has not yet written. The interface of one sink is the locale \<open>log_sink\<close>; sinks that
  write to different places do not disturb each other (\<open>apart\<close>).
\<close>

section \<open>Sinks\<close>

record log_output =
  o_stdout :: bytes
  o_files :: "string \<Rightarrow> bytes"
  o_fsyncs :: "string list"

record file_flush =
  ff_filename :: string
  ff_open :: bool
  ff_pending :: bytes

record roll_flush =
  cnt :: size_t
  cur_size :: size_t
  max_size :: size_t
  basename :: string
  rf_file :: "string option"
  rf_history :: "(string \<times> bytes) list"

datatype sink = Stdout_sink | File_sink file_flush | Roll_sink roll_flush

definition StdoutFlush_Flush :: "bytes \<Rightarrow> log_output \<Rightarrow> log_output" where
  "StdoutFlush_Flush bs d = d\<lparr>o_stdout := o_stdout d @ bs\<rparr>"

text \<open>
  The constructors create the directory of the file first. \<open>fopen_ok name fs\<close> tells whether \<open>fopen\<close>
  succeeds in the file system \<open>fs\<close>; a failure is only reported.
\<close>

definition FileFlush_new ::
  "(string \<Rightarrow> 'fs \<Rightarrow> bool) \<Rightarrow> (string \<Rightarrow> 'fs \<Rightarrow> 'fs) \<Rightarrow> (string \<Rightarrow> 'fs \<Rightarrow> bool) \<Rightarrow> string \<Rightarrow> 'fs \<Rightarrow> file_flush \<times> 'fs" where
  "FileFlush_new ex mk fopen_ok filename fs =
     (let fs1 = CreateDirectory ex mk (File_Path filename) fs
      in (\<lparr>ff_filename = filename, ff_open = fopen_ok filename fs1, ff_pending = []\<rparr>, fs1))"

definition ff_fflush :: "file_flush \<Rightarrow> log_output \<Rightarrow> file_flush \<times> log_output" where
  "ff_fflush f d = (f\<lparr>ff_pending := []\<rparr>,
     d\<lparr>o_files := (o_files d)(ff_filename f := o_files d (ff_filename f) @ ff_pending f)\<rparr>)"

definition FileFlush_Flush :: "json_data \<Rightarrow> bytes \<Rightarrow> file_flush \<Rightarrow> log_output \<Rightarrow> (file_flush \<times> log_output) res" where
  "FileFlush_Flush cfg bs f d =
     (if \<not> ff_open f then Inl Null_Deref
      else let f1 = f\<lparr>ff_pending := ff_pending f @ bs\<rparr> in
           Inr (if flush_log cfg = 1 then ff_fflush f1 d
                else if flush_log cfg = 2
                then (case ff_fflush f1 d of (f2, d2) \<Rightarrow> (f2, d2\<lparr>o_fsyncs := o_fsyncs d2 @ [ff_filename f]\<rparr>))
                else (f1, d)))"

definition RollFileFlush_new ::
  "(string \<Rightarrow> 'fs \<Rightarrow> bool) \<Rightarrow> (string \<Rightarrow> 'fs \<Rightarrow> 'fs) \<Rightarrow> string \<Rightarrow> size_t \<Rightarrow> 'fs \<Rightarrow> roll_flush \<times> 'fs" where
  "RollFileFlush_new ex mk filename maxsize fs =
     (\<lparr>cnt = 0, cur_size = 0, max_size = maxsize, basename = filename, rf_file = None, rf_history = []\<rparr>,
      CreateDirectory ex mk (File_Path filename) fs)"

text \<open>The date and the counter of \<open>CreateFilename\<close>.\<close>

definition date_digits :: "tm \<Rightarrow> string" where
  "date_digits t = to_string (nat (tm_year t + 1900)) @ to_string (nat (tm_mon t + 1)) @ to_string (nat (tm_mday t)) @
     to_string (nat (tm_hour t)) @ to_string (nat (tm_min t)) @ to_string (nat (tm_sec t))"

definition CreateFilename :: "tm \<Rightarrow> roll_flush \<Rightarrow> string \<times> roll_flush" where
  "CreateFilename t r =
     (let n = cnt r + 1 in
      (basename r @ ''_'' @ date_digits t @ ''-'' @ to_string (unat n) @ ''.log'', r\<lparr>cnt := n\<rparr>))"

definition InitLogFile :: "(string \<Rightarrow> bool) \<Rightarrow> tm \<Rightarrow> roll_flush \<Rightarrow> roll_flush" where
  "InitLogFile fopen_ok t r =
     (if rf_file r = None \<or> cur_size r \<ge> max_size r
      then let (filename, r1) = CreateFilename t r in
           r1\<lparr>rf_file := if fopen_ok filename then Some filename else None, cur_size := 0\<rparr>
      else r)"

definition RollFileFlush_Flush ::
  "json_data \<Rightarrow> (string \<Rightarrow> bool) \<Rightarrow> tm \<Rightarrow> bytes \<Rightarrow> roll_flush \<Rightarrow> log_output \<Rightarrow> (roll_flush \<times> log_output) res" where
  "RollFileFlush_Flush cfg fopen_ok t bs r d =
     (let r1 = InitLogFile fopen_ok t r in
      case rf_file r1 of
        None \<Rightarrow> Inl Null_Deref
      | Some name \<Rightarrow>
          Inr (r1\<lparr>cur_size := cur_size r1 + of_nat (length bs), rf_history := rf_history r1 @ [(name, bs)]\<rparr>,
               d\<lparr>o_files := (o_files d)(name := o_files d name @ bs),
                 o_fsyncs := o_fsyncs d @ (if flush_log cfg = 2 then [name] else [])\<rparr>))"

text \<open>\<open>LogFlush::Flush\<close>, dispatched on the dynamic type.\<close>

definition sink_Flush ::
  "json_data \<Rightarrow> (string \<Rightarrow> bool) \<Rightarrow> tm \<Rightarrow> bytes \<Rightarrow> sink \<times> log_output \<Rightarrow> (sink \<times> log_output) res" where
  "sink_Flush cfg fopen_ok t bs = (\<lambda>(s, d).
     case s of
       Stdout_sink \<Rightarrow> Inr (Stdout_sink, StdoutFlush_Flush bs d)
     | File_sink f \<Rightarrow> bindR (FileFlush_Flush cfg bs f d) (\<lambda>(f1, d1). Inr (File_sink f1, d1))
     | Roll_sink r \<Rightarrow> bindR (RollFileFlush_Flush cfg fopen_ok t bs r d) (\<lambda>(r1, d1). Inr (Roll_sink r1, d1)))"

text \<open>\<open>LogFlushFactory::CreateLog\<close>: the template argument and the constructor's arguments are a value.\<close>

datatype sink_spec = Stdout_spec | File_spec string | Roll_spec string size_t

definition CreateLog ::
  "(string \<Rightarrow> 'fs \<Rightarrow> bool) \<Rightarrow> (string \<Rightarrow> 'fs \<Rightarrow> 'fs) \<Rightarrow> (string \<Rightarrow> 'fs \<Rightarrow> bool) \<Rightarrow> sink_spec \<Rightarrow> 'fs \<Rightarrow> sink \<times> 'fs" where
  "CreateLog ex mk fopen_ok spec fs =
     (case spec of
        Stdout_spec \<Rightarrow> (Stdout_sink, fs)
      | File_spec filename \<Rightarrow> (case FileFlush_new ex mk fopen_ok filename fs of (f, fs1) \<Rightarrow> (File_sink f, fs1))
      | Roll_spec filename maxsize \<Rightarrow> (case RollFileFlush_new ex mk filename maxsize fs of (r, fs1) \<Rightarrow> (Roll_sink r, fs1)))"

section \<open>The interface of a sink\<close>

fun flush_all :: "(bytes \<Rightarrow> 's \<Rightarrow> 's res) \<Rightarrow> bytes list \<Rightarrow> 's \<Rightarrow> 's res" where
  "flush_all fl [] s = Inr s"
| "flush_all fl (bs # bss) s = bindR (fl bs s) (flush_all fl bss)"

locale log_sink =
  fixes inv :: "'s \<Rightarrow> bool" and out :: "'s \<Rightarrow> bytes" and fl :: "bytes \<Rightarrow> 's \<Rightarrow> 's res"
  assumes flush_ok: "inv s \<Longrightarrow> \<exists>s'. fl bs s = Inr s' \<and> inv s' \<and> out s' = out s @ bs"
begin

lemma flush_all_out:
  "inv s \<Longrightarrow> \<exists>s'. flush_all fl bss s = Inr s' \<and> inv s' \<and> out s' = out s @ concat bss"
proof (induction bss arbitrary: s)
  case (Cons bs bss)
  from flush_ok [OF Cons.prems, of bs] obtain s1 where "fl bs s = Inr s1" "inv s1" "out s1 = out s @ bs" by blast
  with Cons.IH [of s1] show ?case by auto
qed simp

end

text \<open>What a sink has taken: on standard output, in the file and its buffer, in the rolled files.\<close>

definition sink_out :: "sink \<times> log_output \<Rightarrow> bytes" where
  "sink_out = (\<lambda>(s, d). case s of
       Stdout_sink \<Rightarrow> o_stdout d
     | File_sink f \<Rightarrow> o_files d (ff_filename f) @ ff_pending f
     | Roll_sink r \<Rightarrow> concat (map snd (rf_history r)))"

definition sink_ok :: "sink \<times> log_output \<Rightarrow> bool" where
  "sink_ok = (\<lambda>(s, d). case s of File_sink f \<Rightarrow> ff_open f | _ \<Rightarrow> True)"

lemma sink_Flush_ok:
  assumes fopen: "\<And>name. fopen_ok name" and ok: "sink_ok s"
  shows "\<exists>s'. sink_Flush cfg fopen_ok t bs s = Inr s' \<and> sink_ok s' \<and> sink_out s' = sink_out s @ bs"
proof -
  obtain k d where s: "s = (k, d)" by force
  show ?thesis
  proof (cases k)
    case Stdout_sink
    then show ?thesis by (simp add: s sink_Flush_def sink_ok_def sink_out_def StdoutFlush_Flush_def)
  next
    case (File_sink f)
    then show ?thesis using ok
      by (auto simp: s sink_Flush_def sink_ok_def sink_out_def FileFlush_Flush_def ff_fflush_def Let_def)
  next
    case (Roll_sink r)
    have "\<exists>name. rf_file (InitLogFile fopen_ok t r) = Some name" "rf_history (InitLogFile fopen_ok t r) = rf_history r"
      using fopen by (auto simp: InitLogFile_def CreateFilename_def Let_def)
    then show ?thesis using Roll_sink
      by (auto simp: s sink_Flush_def sink_ok_def sink_out_def RollFileFlush_Flush_def Let_def)
  qed
qed

interpretation sinks: log_sink sink_ok sink_out "sink_Flush cfg (\<lambda>_. True) t" for cfg t
  by unfold_locales (rule sink_Flush_ok, simp_all)

section \<open>Rolled files\<close>

text \<open>How much a file has received.\<close>

definition written :: "string \<Rightarrow> (string \<times> bytes) list \<Rightarrow> nat" where
  "written name h = sum_list (map (\<lambda>(n, bs). if n = name then length bs else 0) h)"

definition roll_name :: "string \<Rightarrow> tm \<Rightarrow> nat \<Rightarrow> string" where
  "roll_name base t k = base @ ''_'' @ date_digits t @ ''-'' @ to_string k @ ''.log''"

fun roll_run :: "json_data \<Rightarrow> (tm \<times> bytes) list \<Rightarrow> roll_flush \<Rightarrow> log_output \<Rightarrow> (roll_flush \<times> log_output) res" where
  "roll_run cfg [] r d = Inr (r, d)"
| "roll_run cfg ((t, bs) # xs) r d =
     bindR (RollFileFlush_Flush cfg (\<lambda>_. True) t bs r d) (\<lambda>(r1, d1). roll_run cfg xs r1 d1)"

definition total :: "(string \<times> bytes) list \<Rightarrow> nat" where
  "total h = sum_list (map (length \<circ> snd) h)"

text \<open>Every write went to a file that was new or still below the limit.\<close>

definition roll_bounded :: "nat \<Rightarrow> (string \<times> bytes) list \<Rightarrow> bool" where
  "roll_bounded limit h \<longleftrightarrow>
     (\<forall>i < length h. fst (h ! i) \<notin> fst ` set (take i h) \<or> written (fst (h ! i)) (take i h) < limit)"

definition roll_inv :: "roll_flush \<Rightarrow> bool" where
  "roll_inv r \<longleftrightarrow> roll_bounded (unat (max_size r)) (rf_history r) \<and>
     (\<forall>n \<in> fst ` set (rf_history r). \<exists>t k. n = roll_name (basename r) t k \<and> k \<le> unat (cnt r)) \<and>
     (\<forall>name. rf_file r = Some name \<longrightarrow>
        name \<in> fst ` set (rf_history r) \<and> unat (cur_size r) = written name (rf_history r)) \<and>
     unat (cnt r) \<le> length (rf_history r)"

lemma roll_name_inj: "roll_name b t k = roll_name b t' k' \<Longrightarrow> k = k'"
proof -
  assume "roll_name b t k = roll_name b t' k'"
  then have eq: "date_digits t @ CHR ''-'' # (to_string k @ ''.log'') = date_digits t' @ CHR ''-'' # (to_string k' @ ''.log'')"
    by (simp add: roll_name_def)
  have dig: "\<forall>c \<in> set (date_digits t). is_digit c" for t
    by (auto simp: date_digits_def dest: to_string_digits)
  have "\<not> is_digit (CHR ''-'')" by (simp add: is_digit_def)
  from digits_then_sep_eq [OF dig dig this eq] show ?thesis by (simp add: to_string_inj)
qed

lemma written_append [simp]: "written name (h @ h') = written name h + written name h'"
  by (simp add: written_def)

lemma written_Nil [simp]: "written name [] = 0"
  by (simp add: written_def)

lemma written_fresh: "name \<notin> fst ` set h \<Longrightarrow> written name h = 0"
  by (induction h) (auto simp: written_def)

lemma written_le_total: "written name h \<le> total h"
  by (induction h) (auto simp: written_def total_def)

lemma roll_bounded_snoc:
  "roll_bounded l (h @ [(n, bs)]) \<longleftrightarrow> roll_bounded l h \<and> (n \<notin> fst ` set h \<or> written n h < l)"
  by (auto simp: roll_bounded_def nth_append less_Suc_eq)

lemma RollFileFlush_Flush_inv:
  assumes inv: "roll_inv r" and room: "total (rf_history r) + length bs < 2 ^ 64" "length (rf_history r) + 1 < 2 ^ 64"
  shows "\<exists>r' d'. RollFileFlush_Flush cfg (\<lambda>_. True) t bs r d = Inr (r', d') \<and> roll_inv r' \<and>
    max_size r' = max_size r \<and> (\<exists>name. rf_history r' = rf_history r @ [(name, bs)])"
proof -
  let ?h = "rf_history r" and ?k = "Suc (unat (cnt r))"
  have cnt: "unat (cnt r) \<le> length ?h" using inv by (simp add: roll_inv_def)
  then have k: "unat (cnt r + 1) = ?k" using room(2) by (subst unat_size_add) simp_all
  define r1 where "r1 = InitLogFile (\<lambda>_. True) t r"
  define name where "name = (if rf_file r = None \<or> cur_size r \<ge> max_size r then roll_name (basename r) t ?k else the (rf_file r))"
  have r1: "rf_file r1 = Some name" "rf_history r1 = ?h" "max_size r1 = max_size r" "basename r1 = basename r"
    using k by (auto simp: r1_def InitLogFile_def CreateFilename_def Let_def name_def roll_name_def)
  have new: "roll_name (basename r) t ?k \<notin> fst ` set ?h"
    using inv roll_name_inj by (fastforce simp: roll_inv_def)
  have cur: "unat (cur_size r1) = written name ?h"
    using inv new written_fresh [OF new] by (auto simp: r1_def InitLogFile_def CreateFilename_def Let_def name_def roll_inv_def)
  have cnt1: "unat (cnt r1) = (if rf_file r = None \<or> cur_size r \<ge> max_size r then ?k else unat (cnt r))"
    using k by (simp add: r1_def InitLogFile_def CreateFilename_def Let_def)
  have lim: "name \<notin> fst ` set ?h \<or> written name ?h < unat (max_size r)"
    using new inv by (auto simp: name_def roll_inv_def word_less_nat_alt not_le)
  let ?r = "r1\<lparr>cur_size := cur_size r1 + of_nat (length bs), rf_history := ?h @ [(name, bs)]\<rparr>"
  have "unat (cur_size r1 + of_nat (length bs)) = written name ?h + length bs"
    using cur room(1) written_le_total [of name ?h] by (subst unat_size_add) (simp_all add: unat_size_of_nat)
  moreover have "written name [(name, bs)] = length bs" by (simp add: written_def)
  moreover have names: "\<exists>t k. n = roll_name (basename r) t k \<and> k \<le> unat (cnt r1)" if "n \<in> fst ` set ?h" for n
    using inv that cnt1 unfolding roll_inv_def by (metis (full_types) le_SucI)
  moreover have "\<exists>t k. name = roll_name (basename r) t k \<and> k \<le> unat (cnt r1)"
    if "name \<notin> fst ` set ?h"
  proof (cases "rf_file r = None \<or> cur_size r \<ge> max_size r")
    case True
    then show ?thesis using cnt1 by (auto simp: name_def)
  next
    case False
    then show ?thesis using that inv cur written_fresh [OF that] by (auto simp: name_def roll_inv_def)
  qed
  ultimately have nm: "\<exists>t k. name = roll_name (basename r) t k \<and> k \<le> unat (cnt r1)"
    and cur': "unat (cur_size ?r) = written name (?h @ [(name, bs)])" by (blast, simp)
  have "roll_inv ?r"
    unfolding roll_inv_def
  proof (intro conjI ballI allI impI)
    show "roll_bounded (unat (max_size ?r)) (rf_history ?r)"
      using inv lim r1 by (simp add: roll_inv_def roll_bounded_snoc)
    show "\<exists>t k. n = roll_name (basename ?r) t k \<and> k \<le> unat (cnt ?r)" if "n \<in> fst ` set (rf_history ?r)" for n
    proof (cases "n \<in> fst ` set ?h")
      case True
      then show ?thesis using names r1(4) by simp
    next
      case False
      then have "n = name" using that by auto
      then show ?thesis using nm r1(4) by simp
    qed
    show "n \<in> fst ` set (rf_history ?r)" "unat (cur_size ?r) = written n (rf_history ?r)" if "rf_file ?r = Some n" for n
      using that r1(1) cur' by simp_all
    show "unat (cnt ?r) \<le> length (rf_history ?r)" using cnt cnt1 by simp
  qed
  moreover have "RollFileFlush_Flush cfg (\<lambda>_. True) t bs r d = Inr (?r,
      d\<lparr>o_files := (o_files d)(name := o_files d name @ bs), o_fsyncs := o_fsyncs d @ (if flush_log cfg = 2 then [name] else [])\<rparr>)"
    using r1 by (simp add: RollFileFlush_Flush_def Let_def r1_def [symmetric])
  ultimately show ?thesis using r1 by auto
qed


lemma roll_run_inv:
  assumes "roll_inv r" and "total (rf_history r) + sum_list (map (length \<circ> snd) xs) < 2 ^ 64"
    and "length (rf_history r) + length xs < 2 ^ 64"
  shows "\<exists>r' d'. roll_run cfg xs r d = Inr (r', d') \<and> roll_inv r' \<and> max_size r' = max_size r \<and>
    map snd (rf_history r') = map snd (rf_history r) @ map snd xs"
  using assms
proof (induction xs arbitrary: r d)
  case (Cons x xs)
  obtain t bs where x: "x = (t, bs)" by force
  have "total (rf_history r) + length bs < 2 ^ 64" "length (rf_history r) + 1 < 2 ^ 64"
    using Cons.prems by (simp_all add: x)
  from RollFileFlush_Flush_inv [OF Cons.prems(1) this, of cfg t d] obtain r1 d1 name where
    r1: "RollFileFlush_Flush cfg (\<lambda>_. True) t bs r d = Inr (r1, d1)" "roll_inv r1" "max_size r1 = max_size r"
      "rf_history r1 = rf_history r @ [(name, bs)]" by blast
  have "total (rf_history r1) + sum_list (map (length \<circ> snd) xs) < 2 ^ 64" "length (rf_history r1) + length xs < 2 ^ 64"
    using Cons.prems by (simp_all add: r1(4) x total_def comp_def)
  from Cons.IH [OF r1(2) this, of d1] r1 x show ?case by auto
qed simp

section \<open>Several sinks on one output\<close>

text \<open>Two sinks write to different places.\<close>

definition apart :: "sink \<Rightarrow> sink \<Rightarrow> bool" where
  "apart s s' \<longleftrightarrow> (case (s, s') of
       (Stdout_sink, Stdout_sink) \<Rightarrow> False
     | (File_sink f, File_sink g) \<Rightarrow> ff_filename f \<noteq> ff_filename g
     | (File_sink f, Roll_sink r) \<Rightarrow> (\<forall>t k. ff_filename f \<noteq> roll_name (basename r) t k) \<and> rf_file r \<noteq> Some (ff_filename f)
     | (Roll_sink r, File_sink f) \<Rightarrow> (\<forall>t k. ff_filename f \<noteq> roll_name (basename r) t k) \<and> rf_file r \<noteq> Some (ff_filename f)
     | _ \<Rightarrow> True)"

lemma apart_sym: "apart s s' \<Longrightarrow> apart s' s"
  by (auto simp: apart_def split: sink.splits)

lemma RollFileFlush_Flush_cases:
  assumes "RollFileFlush_Flush cfg fopen_ok t bs r d = Inr (r', d')"
  obtains name where "rf_file r = Some name \<or> name = roll_name (basename r) t (unat (cnt r + 1))"
    "rf_file r' = Some name" "basename r' = basename r"
    "o_files d' = (o_files d)(name := o_files d name @ bs)" "o_stdout d' = o_stdout d"
  using assms
  by (auto simp: RollFileFlush_Flush_def InitLogFile_def CreateFilename_def roll_name_def Let_def
    split: option.splits if_splits)

lemma sink_Flush_apart:
  assumes fl: "sink_Flush cfg fopen_ok t bs (s, d) = Inr (s', d')" and ap: "apart s k"
  shows "sink_out (k, d') = sink_out (k, d)" and "apart s' k"
proof -
  have "sink_out (k, d') = sink_out (k, d) \<and> apart s' k"
  proof (cases s)
    case Stdout_sink
    then show ?thesis using fl ap
      by (auto simp: sink_Flush_def StdoutFlush_Flush_def sink_out_def apart_def split: sink.splits)
  next
    case (File_sink f)
    then show ?thesis using fl ap
      by (auto simp: sink_Flush_def FileFlush_Flush_def ff_fflush_def sink_out_def apart_def bindR_eq_Inr Let_def
        split: sink.splits if_splits)
  next
    case (Roll_sink r)
    then obtain r' where r': "s' = Roll_sink r'" "RollFileFlush_Flush cfg fopen_ok t bs r d = Inr (r', d')"
      using fl by (auto simp: sink_Flush_def bindR_eq_Inr)
    from r'(2) show ?thesis
      by (rule RollFileFlush_Flush_cases) (use Roll_sink r'(1) ap in \<open>auto simp: sink_out_def apart_def split: sink.splits\<close>)
  qed
  then show "sink_out (k, d') = sink_out (k, d)" "apart s' k" by simp_all
qed

section \<open>Properties\<close>

text \<open>
  Every sink appends: after any sequence of flushes to standard output, to an open file or to
  rolling files that can be opened, none fails and the sink has taken, after what it had, exactly
  the given blocks in order. With \<open>flush_log\<close> 1 or 2 nothing is left in the buffer of the \<open>FILE\<close>. A
  file that could not be opened is dereferenced as a null pointer.
\<close>

theorem sinks_append:
  assumes "sink_ok s"
  shows "(\<exists>s'. flush_all (sink_Flush cfg (\<lambda>_. True) t) bss s = Inr s' \<and> sink_out s' = sink_out s @ concat bss) \<and>
    (\<forall>f d f' d'. FileFlush_Flush cfg bs f d = Inr (f', d') \<and> (flush_log cfg = 1 \<or> flush_log cfg = 2) \<longrightarrow> ff_pending f' = []) \<and>
    FileFlush_Flush cfg bs (fst (FileFlush_new ex mk (\<lambda>_ _. False) name fs)) d = Inl Null_Deref"
proof -
  have "\<forall>f d f' d'. FileFlush_Flush cfg bs f d = Inr (f', d') \<and> (flush_log cfg = 1 \<or> flush_log cfg = 2) \<longrightarrow> ff_pending f' = []"
    by (auto simp: FileFlush_Flush_def ff_fflush_def Let_def split: if_splits)
  moreover have "FileFlush_Flush cfg bs (fst (FileFlush_new ex mk (\<lambda>_ _. False) name fs)) d = Inl Null_Deref"
    by (simp add: FileFlush_Flush_def FileFlush_new_def Let_def)
  ultimately show ?thesis using sinks.flush_all_out [OF assms, of cfg t bss] by blast
qed

theorem sinks_append_witness:
  "\<exists>s'. flush_all (sink_Flush small_cfg (\<lambda>_. True) \<lparr>tm_sec = 0, tm_min = 0, tm_hour = 0, tm_mday = 1, tm_mon = 0, tm_year = 125\<rparr>)
       [''a'', ''b''] (File_sink \<lparr>ff_filename = ''f.log'', ff_open = True, ff_pending = []\<rparr>, \<lparr>o_stdout = [], o_files = \<lambda>_. ''x'', o_fsyncs = []\<rparr>) = Inr s' \<and>
     sink_out s' = ''xab''"
proof -
  have ok: "sink_ok (File_sink \<lparr>ff_filename = ''f.log'', ff_open = True, ff_pending = []\<rparr>, \<lparr>o_stdout = [], o_files = \<lambda>_. ''x'', o_fsyncs = []\<rparr>)"
    by (simp add: sink_ok_def)
  from sinks_append [OF ok, of small_cfg "\<lparr>tm_sec = 0, tm_min = 0, tm_hour = 0, tm_mday = 1, tm_mon = 0, tm_year = 125\<rparr>" "[''a'', ''b'']", THEN conjunct1]
  show ?thesis by (simp add: sink_out_def)
qed

text \<open>
  C38: The rolling sink keeps its files small and apart: over any run in which the counters do not
  wrap, every block is written whole and in order to a file that is new or has received less than
  the maximum size, so no file exceeds the limit by more than its last block, and no name is used
  again once another file has been opened.
\<close>

theorem roll_files_bounded:
  assumes "sum_list (map (length \<circ> snd) xs) < 2 ^ 64" and "length xs < 2 ^ 64"
  shows "\<exists>r d'. roll_run cfg xs (fst (RollFileFlush_new ex mk base limit fs)) d = Inr (r, d') \<and> map snd (rf_history r) = map snd xs \<and>
    (\<forall>i < length xs. fst (rf_history r ! i) \<notin> fst ` set (take i (rf_history r)) \<or>
       written (fst (rf_history r ! i)) (take i (rf_history r)) < unat limit)"
proof -
  let ?r = "fst (RollFileFlush_new ex mk base limit fs)"
  have "roll_inv ?r" by (simp add: roll_inv_def RollFileFlush_new_def roll_bounded_def)
  moreover have "total (rf_history ?r) + sum_list (map (length \<circ> snd) xs) < 2 ^ 64" "length (rf_history ?r) + length xs < 2 ^ 64"
    using assms by (simp_all add: RollFileFlush_new_def total_def)
  ultimately obtain r d' where r: "roll_run cfg xs ?r d = Inr (r, d')" "roll_inv r" "max_size r = max_size ?r"
    "map snd (rf_history r) = map snd (rf_history ?r) @ map snd xs"
    using roll_run_inv by blast
  then have h: "map snd (rf_history r) = map snd xs" by (simp add: RollFileFlush_new_def)
  from map_eq_imp_length_eq [OF h] r h show ?thesis
    by (auto simp: roll_inv_def roll_bounded_def RollFileFlush_new_def)
qed

theorem roll_files_bounded_witness:
  "\<exists>r d'. roll_run small_cfg [(\<lparr>tm_sec = 0, tm_min = 0, tm_hour = 0, tm_mday = 1, tm_mon = 0, tm_year = 125\<rparr>, ''ab'')]
       (fst (RollFileFlush_new (\<lambda>_ _. True) (\<lambda>_ fs. fs) ''log'' 1 ())) \<lparr>o_stdout = [], o_files = \<lambda>_. [], o_fsyncs = []\<rparr> = Inr (r, d') \<and>
     map snd (rf_history r) = [''ab'']"
proof -
  let ?xs = "[(\<lparr>tm_sec = 0, tm_min = 0, tm_hour = 0, tm_mday = 1, tm_mon = 0, tm_year = 125\<rparr>, ''ab'')]"
  have "sum_list (map (length \<circ> snd) ?xs) < 2 ^ 64" "length ?xs < 2 ^ 64" by simp_all
  from roll_files_bounded [OF this, of small_cfg "\<lambda>_ _. True" "\<lambda>_ fs. fs" "''log''" 1 "()" "\<lparr>o_stdout = [], o_files = \<lambda>_. [], o_fsyncs = []\<rparr>"]
  show ?thesis by auto
qed

end
