(* ===== verification/Async_Worker.thy ===== *)
theory Async_Worker
  imports Log_Buffer Reachability
begin

text \<open>
  The asynchronous worker (\<open>log_system/logs_code/AsyncWorker.hpp\<close>): producers push log lines into one
  buffer, the worker thread swaps it with its own and hands the contents to a callback. The threads
  are a step relation. A critical section is one step, except where the source can be observed
  inside it: \<open>Stop\<close> stores \<open>stop_\<close> and notifies without the mutex, so the worker's test of its
  predicate, its blocking and its second test of \<open>stop_\<close> are separate steps; while the worker
  stands between them it holds the mutex and no producer moves. A blocked worker wakes when
  it is notified; a waiting producer may test again at any time. A push that overruns the
  buffer is undefined behaviour and has no step.
\<close>

datatype AsyncType = ASYNC_SAFE | ASYNC_UNSAFE

text \<open>
  The worker thread: at the test of its predicate, about to block (mutex held), blocked, notified,
  at the swap (mutex held), at the callback outside the mutex, returned.
\<close>

datatype worker_pc = W_test | W_sleepy | W_blocked | W_notified | W_swap | W_flush | W_exit

text \<open>The thread that calls \<open>Stop\<close>: before it, at \<open>notify_all\<close>, at \<open>join\<close>, after it.\<close>

datatype stopper_pc = S_run | S_notify | S_join | S_joined

text \<open>\<open>aw_waiting\<close>: the messages of producers blocked in \<open>Push\<close>; the last two fields are the history.\<close>

record async_worker =
  async_type :: AsyncType
  aw_stop :: bool
  buffer_productor :: log_buffer
  buffer_consumer :: log_buffer
  worker :: worker_pc
  stopper :: stopper_pc
  aw_waiting :: "bytes list"
  aw_flushed :: bytes
  aw_accepted :: bytes

section \<open>Critical sections\<close>

definition mutex_free :: "async_worker \<Rightarrow> bool" where
  "mutex_free s \<longleftrightarrow> worker s \<notin> {W_sleepy, W_swap}"

text \<open>\<open>cond_consumer_.notify_one\<close> and \<open>notify_all\<close> have one listener.\<close>

definition notify_consumer :: "async_worker \<Rightarrow> async_worker" where
  "notify_consumer s = (if worker s = W_blocked then s\<lparr>worker := W_notified\<rparr> else s)"

text \<open>The predicate of \<open>cond_productor_.wait\<close>, and the rest of \<open>Push\<close> after it.\<close>

definition productor_ready :: "bytes \<Rightarrow> async_worker \<Rightarrow> bool" where
  "productor_ready m s \<longleftrightarrow>
     async_type s = ASYNC_SAFE \<longrightarrow> of_nat (length m) \<le> WriteableSize (buffer_productor s)"

definition worker_push :: "json_data \<Rightarrow> bytes \<Rightarrow> async_worker \<Rightarrow> async_worker res" where
  "worker_push cfg m s =
     bindR (log_Push cfg m (of_nat (length m)) (buffer_productor s)) (\<lambda>b.
       Inr (notify_consumer (s\<lparr>buffer_productor := b, aw_accepted := aw_accepted s @ m\<rparr>)))"

text \<open>
  The whole of \<open>Push\<close>, entered with the mutex: dropped after a stop, blocked, or done. In the steps
  below these are three rules, and a blocked call continues by a fourth.
\<close>

definition AsyncWorker_Push :: "json_data \<Rightarrow> bytes \<Rightarrow> async_worker \<Rightarrow> async_worker res" where
  "AsyncWorker_Push cfg m s =
     (if aw_stop s then Inr s
      else if \<not> productor_ready m s then Inr (s\<lparr>aw_waiting := aw_waiting s @ [m]\<rparr>)
      else worker_push cfg m s)"

text \<open>The callback \<open>RealFlush\<close> and the reset that follows it.\<close>

definition worker_callback :: "async_worker \<Rightarrow> async_worker res" where
  "worker_callback s =
     (let c = buffer_consumer s in
      bindR (Begin_bytes c (ReadableSize c)) (\<lambda>bs.
        Inr (s\<lparr>aw_flushed := aw_flushed s @ bs, buffer_consumer := log_Reset c\<rparr>)))"

text \<open>From the return of the wait to the end of the critical section.\<close>

definition worker_swap :: "async_worker \<Rightarrow> async_worker res" where
  "worker_swap s =
     (let (p, c) = (if \<not> IsEmpty (buffer_productor s)
                    then log_Swap (buffer_productor s) (buffer_consumer s)
                    else (buffer_productor s, buffer_consumer s));
          s1 = s\<lparr>buffer_productor := p, buffer_consumer := c\<rparr>
      in if aw_stop s \<and> IsEmpty p
         then bindR (if \<not> IsEmpty c then worker_callback s1 else Inr s1) (\<lambda>s2. Inr (s2\<lparr>worker := W_exit\<rparr>))
         else Inr (s1\<lparr>worker := W_flush\<rparr>))"

section \<open>Steps\<close>

inductive worker_step :: "json_data \<Rightarrow> async_worker \<Rightarrow> async_worker \<Rightarrow> bool" for cfg where
  push: "mutex_free s \<Longrightarrow> \<not> aw_stop s \<Longrightarrow> productor_ready m s \<Longrightarrow> log_fits cfg (buffer_productor s) (length m) \<Longrightarrow>
    worker_push cfg m s = Inr t \<Longrightarrow> worker_step cfg s t"
| push_wait: "mutex_free s \<Longrightarrow> \<not> aw_stop s \<Longrightarrow> \<not> productor_ready m s \<Longrightarrow>
    worker_step cfg s (s\<lparr>aw_waiting := aw_waiting s @ [m]\<rparr>)"
| push_retry: "mutex_free s \<Longrightarrow> aw_waiting s = as @ m # bs \<Longrightarrow> productor_ready m s \<Longrightarrow>
    log_fits cfg (buffer_productor s) (length m) \<Longrightarrow> worker_push cfg m (s\<lparr>aw_waiting := as @ bs\<rparr>) = Inr t \<Longrightarrow>
    worker_step cfg s t"
| wait_false: "worker s \<in> {W_test, W_notified} \<Longrightarrow> \<not> aw_stop s \<Longrightarrow> IsEmpty (buffer_productor s) \<Longrightarrow>
    worker_step cfg s (s\<lparr>worker := W_sleepy\<rparr>)"
| wait_block: "worker s = W_sleepy \<Longrightarrow> worker_step cfg s (s\<lparr>worker := W_blocked\<rparr>)"
| wait_true: "worker s \<in> {W_test, W_notified} \<Longrightarrow> aw_stop s \<or> \<not> IsEmpty (buffer_productor s) \<Longrightarrow>
    worker_step cfg s (s\<lparr>worker := W_swap\<rparr>)"
| swap: "worker s = W_swap \<Longrightarrow> worker_swap s = Inr t \<Longrightarrow> worker_step cfg s t"
| flush: "worker s = W_flush \<Longrightarrow> worker_callback s = Inr t \<Longrightarrow> worker_step cfg s (t\<lparr>worker := W_test\<rparr>)"
| stop_store: "stopper s = S_run \<Longrightarrow> worker_step cfg s (s\<lparr>aw_stop := True, stopper := S_notify\<rparr>)"
| stop_notify: "stopper s = S_notify \<Longrightarrow> worker_step cfg s (notify_consumer (s\<lparr>stopper := S_join\<rparr>))"
| stop_join: "stopper s = S_join \<Longrightarrow> worker s = W_exit \<Longrightarrow> worker_step cfg s (s\<lparr>stopper := S_joined\<rparr>)"

inductive_cases worker_stepE: "worker_step cfg s t"

text \<open>The constructor: two buffers of the configured size, the thread started.\<close>

definition AsyncWorker_new :: "json_data \<Rightarrow> AsyncType \<Rightarrow> async_worker res" where
  "AsyncWorker_new cfg ty =
     bindR (log_Buffer_new cfg) (\<lambda>b.
       Inr \<lparr>async_type = ty, aw_stop = False, buffer_productor = b, buffer_consumer = b, worker = W_test,
            stopper = S_run, aw_waiting = [], aw_flushed = [], aw_accepted = []\<rparr>)"

definition worker_init :: "json_data \<Rightarrow> async_worker \<Rightarrow> bool" where
  "worker_init cfg s \<longleftrightarrow> (\<exists>ty. AsyncWorker_new cfg ty = Inr s) \<and> log_inv (buffer_productor s)"

section \<open>Lemmas\<close>

definition worker_inv :: "async_worker \<Rightarrow> bool" where
  "worker_inv s \<longleftrightarrow> log_inv (buffer_productor s) \<and> log_inv (buffer_consumer s) \<and>
     aw_flushed s @ log_content (buffer_consumer s) @ log_content (buffer_productor s) = aw_accepted s \<and>
     (worker s \<noteq> W_flush \<longrightarrow> log_content (buffer_consumer s) = []) \<and>
     (worker s \<in> {W_sleepy, W_blocked} \<longrightarrow> log_content (buffer_productor s) = []) \<and>
     (stopper s = S_run \<longleftrightarrow> \<not> aw_stop s)"

lemma notify_consumer_simps [simp]:
  "buffer_productor (notify_consumer s) = buffer_productor s" "buffer_consumer (notify_consumer s) = buffer_consumer s"
  "aw_flushed (notify_consumer s) = aw_flushed s" "aw_accepted (notify_consumer s) = aw_accepted s"
  "stopper (notify_consumer s) = stopper s" "aw_stop (notify_consumer s) = aw_stop s"
  "aw_waiting (notify_consumer s) = aw_waiting s" "async_type (notify_consumer s) = async_type s"
  "worker (notify_consumer s) = (if worker s = W_blocked then W_notified else worker s)"
  by (simp_all add: notify_consumer_def)

lemma worker_push_inv:
  assumes inv: "worker_inv s" and free: "mutex_free s" and fits: "log_fits cfg (buffer_productor s) (length m)"
    and r: "worker_push cfg m (s\<lparr>aw_waiting := ws\<rparr>) = Inr t"
  shows "worker_inv t"
proof -
  have p: "log_inv (buffer_productor s)" using inv by (simp add: worker_inv_def)
  obtain b where b: "log_put cfg m (buffer_productor s) = Inr b" "log_inv b"
    "log_content b = log_content (buffer_productor s) @ m"
    using log_put_ok [OF p fits] by blast
  then have "t = notify_consumer (s\<lparr>aw_waiting := ws, buffer_productor := b, aw_accepted := aw_accepted s @ m\<rparr>)"
    using r by (simp add: worker_push_def log_put_def)
  with inv b free show ?thesis by (auto simp: worker_inv_def mutex_free_def)
qed

lemma worker_callback_eq:
  assumes "log_inv (buffer_consumer s)"
  shows "worker_callback s = Inr (s\<lparr>aw_flushed := aw_flushed s @ log_content (buffer_consumer s),
      buffer_consumer := log_Reset (buffer_consumer s)\<rparr>)"
  using log_invD [OF assms] by (simp add: worker_callback_def Begin_bytes_def log_content_def Let_def)

lemma worker_swap_eq:
  assumes inv: "worker_inv s" and pc: "worker s = W_swap"
  shows "\<exists>t. worker_swap s = Inr t \<and> worker_inv t \<and> worker t = (if aw_stop s then W_exit else W_flush) \<and>
    aw_accepted t = aw_accepted s \<and> stopper t = stopper s \<and> aw_stop t = aw_stop s \<and>
    aw_flushed t @ log_content (buffer_consumer t) = aw_accepted s"
proof -
  let ?p = "buffer_productor s" and ?c = "buffer_consumer s"
  have i: "log_inv ?p" "log_inv ?c" "log_content ?c = []" "aw_flushed s @ log_content ?p = aw_accepted s"
    "stopper s = S_run \<longleftrightarrow> \<not> aw_stop s"
    using inv pc by (auto simp: worker_inv_def)
  have sw: "log_Swap ?p ?c = (?c, ?p)" by (simp add: log_Swap_def)
  have ec: "IsEmpty ?c" using i IsEmpty_content by blast
  define s1 where "s1 = (if \<not> IsEmpty ?p then s\<lparr>buffer_productor := ?c, buffer_consumer := ?p\<rparr> else s)"
  have s1: "log_inv (buffer_productor s1)" "log_inv (buffer_consumer s1)" "log_content (buffer_productor s1) = []"
    "aw_flushed s1 @ log_content (buffer_consumer s1) = aw_accepted s" "stopper s1 = stopper s" "aw_stop s1 = aw_stop s"
    "aw_accepted s1 = aw_accepted s" "IsEmpty (buffer_productor s1)"
    using i ec IsEmpty_content [OF i(1)] by (auto simp: s1_def)
  have eq: "worker_swap s = (if aw_stop s then bindR (if \<not> IsEmpty (buffer_consumer s1) then worker_callback s1 else Inr s1)
      (\<lambda>s2. Inr (s2\<lparr>worker := W_exit\<rparr>)) else Inr (s1\<lparr>worker := W_flush\<rparr>))"
    using ec by (simp add: worker_swap_def sw s1_def)
  show ?thesis
  proof (cases "aw_stop s")
    case False
    then show ?thesis using eq s1 i(5) by (simp add: worker_inv_def)
  next
    case True
    show ?thesis
    proof (cases "IsEmpty (buffer_consumer s1)")
      case e: True
      then have "log_content (buffer_consumer s1) = []" using IsEmpty_content [OF s1(2)] by simp
      then show ?thesis using eq True e s1 i(5) by (simp add: worker_inv_def)
    next
      case e: False
      then show ?thesis using eq True e s1 i(5) worker_callback_eq [OF s1(2)] log_Reset_ok [OF s1(2)]
        by (simp add: worker_inv_def)
    qed
  qed
qed

lemma worker_init_inv:
  assumes "worker_init cfg s"
  shows "worker_inv s"
proof -
  from assms obtain b where b: "log_Buffer_new cfg = Inr b" "log_inv b" "buffer_productor s = b" "buffer_consumer s = b"
    "aw_flushed s = []" "aw_accepted s = []" "stopper s = S_run" "\<not> aw_stop s"
    by (auto simp: worker_init_def AsyncWorker_new_def bindR_eq_Inr)
  have "log_content b = []"
    using b(1) by (auto simp: log_Buffer_new_def lb_resize_def bindR_eq_Inr log_content_def)
  with b show ?thesis by (simp add: worker_inv_def)
qed

lemma worker_step_inv:
  assumes "worker_inv s" and "worker_step cfg s t"
  shows "worker_inv t"
  using assms(2)
proof (cases rule: worker_step.cases)
  case (push m)
  then show ?thesis using worker_push_inv [OF assms(1), of cfg m "aw_waiting s" t] by simp
next
  case (push_retry as m bs)
  then show ?thesis using worker_push_inv [OF assms(1), of cfg m "as @ bs" t] by simp
next
  case wait_false
  then show ?thesis using assms(1) IsEmpty_content by (auto simp: worker_inv_def)
next
  case swap
  then show ?thesis using worker_swap_eq [OF assms(1)] by auto
next
  case (flush t')
  then show ?thesis using assms(1) worker_callback_eq [of s] log_Reset_ok [of "buffer_consumer s"]
    by (auto simp: worker_inv_def)
qed (use assms(1) in \<open>auto simp: worker_inv_def\<close>)

interpretation async: invariant_system "worker_init cfg" "worker_step cfg" worker_inv for cfg
  by unfold_locales (auto intro: worker_init_inv worker_step_inv)

text \<open>The worker alone brings everything accepted so far to the callback.\<close>

lemma flush_drains:
  assumes inv: "worker_inv s" and pc: "worker s = W_flush"
  shows "\<exists>t. worker_step cfg s t \<and> worker t = W_test \<and> worker_inv t \<and>
    aw_flushed t = aw_flushed s @ log_content (buffer_consumer s) \<and> aw_accepted t = aw_accepted s \<and> aw_stop t = aw_stop s"
proof -
  have c: "log_inv (buffer_consumer s)" using inv by (simp add: worker_inv_def)
  let ?t = "(s\<lparr>aw_flushed := aw_flushed s @ log_content (buffer_consumer s),
      buffer_consumer := log_Reset (buffer_consumer s)\<rparr>)\<lparr>worker := W_test\<rparr>"
  have "worker_step cfg s ?t" by (rule flush [OF pc worker_callback_eq [OF c]])
  then show ?thesis using worker_step_inv [OF inv] by (intro exI [of _ ?t]) simp
qed

lemma swap_drains:
  assumes inv: "worker_inv s" and pc: "worker s = W_swap"
  shows "\<exists>t. (worker_step cfg)\<^sup>*\<^sup>* s t \<and> aw_flushed t = aw_accepted s"
proof -
  obtain t where t: "worker_swap s = Inr t" "worker_inv t" "worker t = (if aw_stop s then W_exit else W_flush)"
    "aw_accepted t = aw_accepted s" "aw_flushed t @ log_content (buffer_consumer t) = aw_accepted s"
    using worker_swap_eq [OF inv pc] by blast
  have st: "worker_step cfg s t" by (rule swap [OF pc t(1)])
  show ?thesis
  proof (cases "aw_stop s")
    case True
    then have "log_content (buffer_consumer t) = []" using t(2,3) by (simp add: worker_inv_def)
    then show ?thesis using st t(5) by auto
  next
    case False
    then obtain u where "worker_step cfg t u" "aw_flushed u = aw_flushed t @ log_content (buffer_consumer t)"
      using flush_drains [OF t(2), of cfg] t(3) by auto
    with st t(5) show ?thesis by (metis rtranclp.simps)
  qed
qed

lemma test_drains:
  assumes inv: "worker_inv s" and pc: "worker s \<in> {W_test, W_notified}"
  shows "\<exists>t. (worker_step cfg)\<^sup>*\<^sup>* s t \<and> aw_flushed t = aw_accepted s"
proof (cases "IsEmpty (buffer_productor s)")
  case True
  then have "aw_flushed s = aw_accepted s" using inv pc IsEmpty_content by (auto simp: worker_inv_def)
  then show ?thesis by blast
next
  case False
  let ?t = "s\<lparr>worker := W_swap\<rparr>"
  have st: "worker_step cfg s ?t" using pc False by (intro wait_true) simp_all
  obtain u where u: "(worker_step cfg)\<^sup>*\<^sup>* ?t u" "aw_flushed u = aw_accepted ?t"
    using swap_drains [OF worker_step_inv [OF inv st], of cfg] by auto
  from converse_rtranclp_into_rtranclp [of "worker_step cfg", OF st u(1)] u(2) show ?thesis by auto
qed

lemma worker_drains:
  assumes inv: "worker_inv s" and pc: "worker s \<noteq> W_exit"
  shows "\<exists>t. (worker_step cfg)\<^sup>*\<^sup>* s t \<and> aw_flushed t = aw_accepted s"
proof (cases "worker s")
  case W_flush
  obtain t where t: "worker_step cfg s t" "worker t = W_test" "worker_inv t" "aw_accepted t = aw_accepted s"
    using flush_drains [OF inv W_flush, of cfg] by blast
  from test_drains [OF t(3), of cfg] t(2,4) obtain u where "(worker_step cfg)\<^sup>*\<^sup>* t u" "aw_flushed u = aw_accepted s" by auto
  with t(1) show ?thesis by (meson converse_rtranclp_into_rtranclp)
qed (use inv pc test_drains [OF inv] swap_drains [OF inv] in \<open>auto simp: worker_inv_def\<close>)

lemma AsyncWorker_Push_step:
  assumes "mutex_free s" and "log_fits cfg (buffer_productor s) (length m)" and "AsyncWorker_Push cfg m s = Inr t"
  shows "t = s \<or> worker_step cfg s t"
  using assms by (auto simp: AsyncWorker_Push_def intro: push push_wait split: if_splits)

text \<open>
  The end of the worker: it returns only after a stop, and in the unbounded mode no producer waits, so
  nothing is accepted after it.
\<close>

definition end_inv :: "async_worker \<Rightarrow> bool" where
  "end_inv s \<longleftrightarrow> worker_inv s \<and> (worker s = W_exit \<longrightarrow> aw_stop s) \<and> (stopper s = S_joined \<longrightarrow> worker s = W_exit) \<and>
     (async_type s = ASYNC_UNSAFE \<longrightarrow>
        aw_waiting s = [] \<and> (worker s = W_exit \<longrightarrow> log_content (buffer_productor s) = []))"

lemma worker_swap_end:
  assumes inv: "worker_inv s" and pc: "worker s = W_swap" and r: "worker_swap s = Inr t"
  shows "async_type t = async_type s" "aw_waiting t = aw_waiting s"
    "worker t = W_exit \<Longrightarrow> aw_stop t \<and> aw_flushed t = aw_accepted t \<and> log_content (buffer_productor t) = []"
proof -
  have t: "worker_inv t" "worker t = (if aw_stop s then W_exit else W_flush)" "aw_accepted t = aw_accepted s"
    "aw_stop t = aw_stop s" "aw_flushed t @ log_content (buffer_consumer t) = aw_accepted s"
    using worker_swap_eq [OF inv pc] r by auto
  show "async_type t = async_type s" "aw_waiting t = aw_waiting s"
    using r by (auto simp: worker_swap_def worker_callback_def bindR_eq_Inr Let_def split: prod.splits if_splits)
  assume "worker t = W_exit"
  then have "aw_stop t" "log_content (buffer_consumer t) = []" using t by (auto simp: worker_inv_def split: if_splits)
  then show "aw_stop t \<and> aw_flushed t = aw_accepted t \<and> log_content (buffer_productor t) = []"
    using t by (auto simp: worker_inv_def)
qed

lemma worker_push_simps:
  assumes "worker_push cfg m s = Inr t"
  shows "async_type t = async_type s" "aw_waiting t = aw_waiting s" "aw_stop t = aw_stop s" "stopper t = stopper s"
    "worker t = (if worker s = W_blocked then W_notified else worker s)" "aw_flushed t = aw_flushed s"
  using assms by (auto simp: worker_push_def bindR_eq_Inr)

lemma end_step_inv:
  assumes inv: "end_inv s" and st: "worker_step cfg s t"
  shows "end_inv t"
proof -
  have wi: "worker_inv s" "worker_inv t" using inv worker_step_inv [OF _ st] by (auto simp: end_inv_def)
  from st show ?thesis
  proof (cases rule: worker_step.cases)
    case (push m)
    then show ?thesis using inv wi worker_push_simps [OF push(5)] by (auto simp: end_inv_def)
  next
    case (push_wait m)
    then show ?thesis using inv wi by (auto simp: end_inv_def productor_ready_def)
  next
    case (push_retry as m bs)
    then show ?thesis using inv wi worker_push_simps [OF push_retry(5)] by (auto simp: end_inv_def)
  next
    case swap
    then show ?thesis using inv wi worker_swap_end [OF wi(1) swap] worker_swap_eq [OF wi(1) swap(1)]
      by (auto simp: end_inv_def)
  next
    case (flush t')
    then show ?thesis using inv wi by (auto simp: end_inv_def worker_callback_def bindR_eq_Inr Let_def)
  qed (use inv wi in \<open>auto simp: end_inv_def\<close>)
qed

interpretation async_end: invariant_system "worker_init cfg" "worker_step cfg" end_inv for cfg
proof unfold_locales
  fix s assume i: "worker_init cfg s"
  then show "end_inv s"
    using worker_init_inv [OF i] by (auto simp: end_inv_def worker_init_def AsyncWorker_new_def bindR_eq_Inr)
qed (rule end_step_inv)

section \<open>Properties\<close>

text \<open>
  C12: No log line is lost, doubled or reordered: under every interleaving of producers, worker and
  \<open>Stop\<close>, the bytes handed to the callback, followed by the worker's buffer, followed by the
  producers' buffer, are exactly the bytes accepted by \<open>Push\<close>, in the order of acceptance.
\<close>

theorem worker_keeps_log:
  assumes "reach (worker_init cfg) (worker_step cfg) s"
  shows "aw_flushed s @ log_content (buffer_consumer s) @ log_content (buffer_productor s) = aw_accepted s"
  using async.reach_inv [OF assms] by (simp add: worker_inv_def)

definition new_worker :: async_worker where
  "new_worker = \<lparr>async_type = ASYNC_SAFE, aw_stop = False,
     buffer_productor = \<lparr>lb_data = replicate 4 (CHR 0x00), write_pos = 0, read_pos = 0\<rparr>,
     buffer_consumer = \<lparr>lb_data = replicate 4 (CHR 0x00), write_pos = 0, read_pos = 0\<rparr>,
     worker = W_test, stopper = S_run, aw_waiting = [], aw_flushed = [], aw_accepted = []\<rparr>"

definition loaded_worker :: async_worker where
  "loaded_worker = new_worker\<lparr>buffer_productor := \<lparr>lb_data = ''abc'' @ [CHR 0x00], write_pos = 3, read_pos = 0\<rparr>,
     aw_accepted := ''abc''\<rparr>"

lemma ex_async_type: "(\<exists>ty. P ty) \<longleftrightarrow> P ASYNC_SAFE \<or> P ASYNC_UNSAFE"
  by (metis AsyncType.exhaust)

lemma new_worker_init: "worker_init small_cfg new_worker"
  by (simp add: worker_init_def AsyncWorker_new_def ex_async_type log_Buffer_new_def lb_resize_def vec_resize_def
    vec_max_size_def small_cfg_def new_worker_def log_inv_def)

lemmas new_worker_reach = reach_init [of "worker_init small_cfg" new_worker "worker_step small_cfg", OF new_worker_init]

lemma loaded_worker_step: "worker_step small_cfg new_worker loaded_worker"
proof (rule push [where m = "''abc''"])
  show "worker_push small_cfg ''abc'' new_worker = Inr loaded_worker"
    by code_simp
qed (simp_all add: mutex_free_def productor_ready_def log_fits_def new_worker_def WriteableSize_def lb_size_def)

lemmas loaded_worker_reach = reach_step [OF new_worker_reach loaded_worker_step]

theorem worker_keeps_log_witness:
  "aw_flushed loaded_worker @ log_content (buffer_consumer loaded_worker) @ log_content (buffer_productor loaded_worker)
     = ''abc''"
  using worker_keeps_log [OF loaded_worker_reach] by (simp add: loaded_worker_def)

text \<open>
  What was accepted is written out: from every reachable state in which the worker has not
  returned, its own steps lead to a state in which everything accepted so far went through the
  callback. This holds during a stop as well.
\<close>

theorem worker_flushes_all:
  assumes "reach (worker_init cfg) (worker_step cfg) s" and "worker s \<noteq> W_exit"
  shows "\<exists>t. (worker_step cfg)\<^sup>*\<^sup>* s t \<and> aw_flushed t = aw_accepted s"
  using worker_drains [OF async.reach_inv [OF assms(1)] assms(2)] .

theorem worker_flushes_all_witness:
  "\<exists>t. (worker_step small_cfg)\<^sup>*\<^sup>* loaded_worker t \<and> aw_flushed t = ''abc''"
  using worker_flushes_all [OF loaded_worker_reach] by (simp add: loaded_worker_def new_worker_def)

text \<open>
  \<open>Stop\<close> can hang: it sets \<open>stop_\<close> and notifies without the mutex, so both can fall between the
  worker's test of its predicate and its blocking. The reached state, worker blocked and \<open>Stop\<close> at
  \<open>join\<close>, has no further step, although nothing is left to write.
\<close>

theorem stop_can_hang:
  "\<exists>s. reach (worker_init small_cfg) (worker_step small_cfg) s \<and> stopper s = S_join \<and> worker s = W_blocked \<and>
     (\<forall>t. \<not> worker_step small_cfg s t)"
proof -
  let ?R = "reach (worker_init small_cfg) (worker_step small_cfg)"
  let ?a = "new_worker\<lparr>worker := W_sleepy\<rparr>"
  have a: "?R ?a"
    by (rule reach_step [OF new_worker_reach wait_false]) (simp_all add: new_worker_def IsEmpty_def)
  let ?b = "?a\<lparr>aw_stop := True, stopper := S_notify\<rparr>"
  have b: "?R ?b" by (rule reach_step [OF a stop_store]) (simp add: new_worker_def)
  let ?c = "?b\<lparr>stopper := S_join\<rparr>"
  have c: "?R ?c" using reach_step [OF b stop_notify] by (simp add: notify_consumer_def)
  let ?d = "?c\<lparr>worker := W_blocked\<rparr>"
  have d: "?R ?d" by (rule reach_step [OF c wait_block]) simp
  have "\<not> worker_step small_cfg ?d t" for t
    by (auto simp: new_worker_def elim: worker_step.cases)
  with d show ?thesis by (intro exI [of _ ?d]) simp
qed

text \<open>
  A line can be accepted and never written: in the bounded mode a producer that waits for room
  when \<open>Stop\<close> is called is let in by the worker's last swap, after the worker has returned. Its
  bytes then stay in the producers' buffer for ever.
\<close>

theorem late_push_is_lost:
  "\<exists>s. reach (worker_init small_cfg) (worker_step small_cfg) s \<and> worker s = W_exit \<and>
     aw_accepted s = ''abcxy'' \<and> aw_flushed s = ''abc'' \<and>
     (\<forall>t. (worker_step small_cfg)\<^sup>*\<^sup>* s t \<longrightarrow> aw_flushed t = ''abc'')"
proof -
  let ?R = "reach (worker_init small_cfg) (worker_step small_cfg)"
  let ?a = "loaded_worker\<lparr>aw_waiting := [''xy'']\<rparr>"
  have "?R (loaded_worker\<lparr>aw_waiting := aw_waiting loaded_worker @ [''xy'']\<rparr>)"
    by (rule reach_step [OF loaded_worker_reach push_wait])
       (simp_all add: mutex_free_def loaded_worker_def new_worker_def productor_ready_def WriteableSize_def lb_size_def
         word_le_nat_alt)
  then have a: "?R ?a" by (simp add: loaded_worker_def new_worker_def)
  have b: "?R (?a\<lparr>aw_stop := True, stopper := S_notify\<rparr>)"
    by (rule reach_step [OF a stop_store]) (simp add: loaded_worker_def new_worker_def)
  have c: "?R (?a\<lparr>aw_stop := True, stopper := S_notify, worker := W_swap\<rparr>)"
    using reach_step [OF b wait_true] by (simp add: loaded_worker_def new_worker_def)
  let ?d = "\<lparr>async_type = ASYNC_SAFE, aw_stop = True, buffer_productor = buffer_consumer new_worker,
     buffer_consumer = log_Reset (buffer_productor loaded_worker),
     worker = W_exit, stopper = S_notify, aw_waiting = [''xy''], aw_flushed = ''abc'', aw_accepted = ''abc''\<rparr>"
  have "worker_swap (?a\<lparr>aw_stop := True, stopper := S_notify, worker := W_swap\<rparr>) = Inr ?d" by code_simp
  then have d: "?R ?d" using reach_step [OF c swap] by simp
  let ?e = "?d\<lparr>aw_waiting := [], buffer_productor := \<lparr>lb_data = ''xy'' @ replicate 2 (CHR 0x00), write_pos = 2, read_pos = 0\<rparr>,
     aw_accepted := ''abcxy''\<rparr>"
  have "worker_push small_cfg ''xy'' (?d\<lparr>aw_waiting := [] @ []\<rparr>) = Inr ?e"
    by code_simp
  then have "worker_step small_cfg ?d ?e"
    by (intro push_retry [where as = "[]" and bs = "[]"])
       (simp_all add: mutex_free_def productor_ready_def log_fits_def new_worker_def WriteableSize_def lb_size_def)
  with d have e: "?R ?e" by (rule reach_step)
  have "worker t = W_exit \<and> aw_flushed t = ''abc''" if "(worker_step small_cfg)\<^sup>*\<^sup>* ?e t" for t
    using that
    by (induction rule: rtranclp_induct)
       (auto simp: worker_push_def bindR_eq_Inr elim!: worker_step.cases)
  with e show ?thesis by (intro exI [of _ ?e]) simp
qed

theorem late_push_is_lost_witness:
  "\<exists>s. reach (worker_init small_cfg) (worker_step small_cfg) s \<and> worker s = W_exit \<and>
     (\<forall>t. worker_step small_cfg s t \<longrightarrow> aw_flushed t \<noteq> ''abcxy'')"
  using late_push_is_lost by (metis list.inject list.distinct(1) r_into_rtranclp)

text \<open>
  The worker finishes its work before it returns: at the step on which it returns, \<open>stop_\<close> is set and
  everything accepted until then has been handed to the callback. \<open>Stop\<close> returns only after
  the worker did, and in the unbounded mode, in which no producer waits for room, nothing accepted is
  missing at that moment or later.
\<close>

theorem stop_drains:
  assumes "reach (worker_init cfg) (worker_step cfg) s" and "worker_step cfg s t"
  shows "(worker s \<noteq> W_exit \<and> worker t = W_exit \<longrightarrow> aw_stop t \<and> aw_flushed t = aw_accepted t) \<and>
    (stopper t = S_joined \<longrightarrow> worker t = W_exit \<and> (async_type t = ASYNC_UNSAFE \<longrightarrow> aw_flushed t = aw_accepted t))"
proof -
  have inv: "end_inv s" "end_inv t"
    using async_end.reach_inv [OF assms(1)] async_end.reach_inv [OF reach_step [OF assms]] by blast+
  have "aw_stop t \<and> aw_flushed t = aw_accepted t" if "worker s \<noteq> W_exit" "worker t = W_exit"
    using assms(2)
  proof (cases rule: worker_step.cases)
    case swap
    then show ?thesis using inv worker_swap_end [OF _ swap] that by (auto simp: end_inv_def)
  qed (use that in \<open>auto simp: worker_push_simps split: if_splits\<close>)
  moreover have "aw_flushed t = aw_accepted t" if "stopper t = S_joined" "async_type t = ASYNC_UNSAFE"
    using inv(2) that by (auto simp: end_inv_def worker_inv_def)
  ultimately show ?thesis using inv(2) by (auto simp: end_inv_def)
qed

lemma stopping_worker_reach:
  "reach (worker_init small_cfg) (worker_step small_cfg) (loaded_worker\<lparr>aw_stop := True, stopper := S_notify, worker := W_swap\<rparr>)"
proof -
  have b: "reach (worker_init small_cfg) (worker_step small_cfg) (loaded_worker\<lparr>aw_stop := True, stopper := S_notify\<rparr>)"
    by (rule reach_step [OF loaded_worker_reach stop_store]) (simp add: loaded_worker_def new_worker_def)
  show ?thesis using reach_step [OF b wait_true] by (simp add: loaded_worker_def new_worker_def)
qed

theorem stop_drains_witness:
  "\<exists>t. worker_step small_cfg (loaded_worker\<lparr>aw_stop := True, stopper := S_notify, worker := W_swap\<rparr>) t \<and>
     worker t = W_exit \<and> aw_stop t \<and> aw_flushed t = aw_accepted t \<and> aw_accepted t = ''abc''"
proof -
  let ?s = "loaded_worker\<lparr>aw_stop := True, stopper := S_notify, worker := W_swap\<rparr>"
  let ?d = "\<lparr>async_type = ASYNC_SAFE, aw_stop = True, buffer_productor = buffer_consumer new_worker,
     buffer_consumer = log_Reset (buffer_productor loaded_worker),
     worker = W_exit, stopper = S_notify, aw_waiting = [], aw_flushed = ''abc'', aw_accepted = ''abc''\<rparr>"
  have "worker_swap ?s = Inr ?d" by code_simp
  then have st: "worker_step small_cfg ?s ?d" by (intro swap) simp_all
  from stop_drains [OF stopping_worker_reach st] st show ?thesis by (intro exI [of _ ?d]) simp
qed

end
