(* ===== verification/Task_Pool.thy ===== *)
theory Task_Pool
  imports Prelude Reachability "HOL-Library.Multiset"
begin

text \<open>
  The thread pool of the log system (\<open>log_system/logs_code/ThreadPool.hpp\<close>). Workers, clients that
  call \<open>enqueue\<close> and the destructor are a step relation. All shared state is changed under
  \<open>queue_mutex\<close>, so a critical section is one step: a worker's test of its predicate, its blocking
  and its removal of a task; a client's insertion; the destructor's store to \<open>stop\<close>. The
  notifications come after the unlock and are steps of their own. Tasks are values of a type \<open>'t\<close>.
\<close>

datatype 't pool_worker = P_ready | P_blocked | P_task 't | P_returned

datatype pool_owner = D_alive | D_notify | D_join | D_gone

text \<open>\<open>notifiers\<close> counts the clients between the unlock and \<open>notify_one\<close>; the last fields are the history.\<close>

record 't task_pool =
  tasks :: "'t list"
  pool_stop :: bool
  pool_workers :: "'t pool_worker list"
  pool_owner :: pool_owner
  notifiers :: nat
  enqueued :: "'t list"
  started_tasks :: "'t list"
  finished :: "'t list"

definition ThreadPool_new :: "nat \<Rightarrow> 't task_pool" where
  "ThreadPool_new threads =
     \<lparr>tasks = [], pool_stop = False, pool_workers = replicate threads P_ready, pool_owner = D_alive,
      notifiers = 0, enqueued = [], started_tasks = [], finished = []\<rparr>"

text \<open>\<open>enqueue\<close> up to the unlock.\<close>

definition pool_enqueue :: "'t \<Rightarrow> 't task_pool \<Rightarrow> 't task_pool res" where
  "pool_enqueue task p =
     (if pool_stop p then Inl Runtime_Error
      else Inr (p\<lparr>tasks := tasks p @ [task], notifiers := Suc (notifiers p), enqueued := enqueued p @ [task]\<rparr>))"

text \<open>The critical section of worker \<open>i\<close>: block, return, or take the front task.\<close>

definition pool_take :: "nat \<Rightarrow> 't task_pool \<Rightarrow> 't task_pool" where
  "pool_take i p =
     (if \<not> (pool_stop p \<or> tasks p \<noteq> []) then p\<lparr>pool_workers := (pool_workers p)[i := P_blocked]\<rparr>
      else if pool_stop p \<and> tasks p = [] then p\<lparr>pool_workers := (pool_workers p)[i := P_returned]\<rparr>
      else p\<lparr>tasks := tl (tasks p), started_tasks := started_tasks p @ [hd (tasks p)],
             pool_workers := (pool_workers p)[i := P_task (hd (tasks p))]\<rparr>)"

definition wake :: "'t pool_worker \<Rightarrow> 't pool_worker" where
  "wake w = (case w of P_blocked \<Rightarrow> P_ready | _ \<Rightarrow> w)"

inductive pool_step :: "'t task_pool \<Rightarrow> 't task_pool \<Rightarrow> bool" where
  client_push: "pool_owner p = D_alive \<Longrightarrow> pool_enqueue task p = Inr q \<Longrightarrow> pool_step p q"
| client_notify: "notifiers p = Suc n \<Longrightarrow> i < length (pool_workers p) \<Longrightarrow> pool_workers p ! i = P_blocked \<Longrightarrow>
    pool_step p (p\<lparr>notifiers := n, pool_workers := (pool_workers p)[i := P_ready]\<rparr>)"
| client_notify_none: "notifiers p = Suc n \<Longrightarrow> P_blocked \<notin> set (pool_workers p) \<Longrightarrow>
    pool_step p (p\<lparr>notifiers := n\<rparr>)"
| worker_take: "i < length (pool_workers p) \<Longrightarrow> pool_workers p ! i = P_ready \<Longrightarrow> pool_step p (pool_take i p)"
| worker_finish: "i < length (pool_workers p) \<Longrightarrow> pool_workers p ! i = P_task t \<Longrightarrow>
    pool_step p (p\<lparr>pool_workers := (pool_workers p)[i := P_ready], finished := finished p @ [t]\<rparr>)"
| destroy_stop: "pool_owner p = D_alive \<Longrightarrow> pool_step p (p\<lparr>pool_stop := True, pool_owner := D_notify\<rparr>)"
| destroy_notify: "pool_owner p = D_notify \<Longrightarrow>
    pool_step p (p\<lparr>pool_owner := D_join, pool_workers := map wake (pool_workers p)\<rparr>)"
| destroy_join: "pool_owner p = D_join \<Longrightarrow> set (pool_workers p) \<subseteq> {P_returned} \<Longrightarrow>
    pool_step p (p\<lparr>pool_owner := D_gone\<rparr>)"

definition pool_init :: "nat \<Rightarrow> 't task_pool \<Rightarrow> bool" where
  "pool_init n p \<longleftrightarrow> p = ThreadPool_new n"

section \<open>Lemmas\<close>

text \<open>The tasks being run, as a multiset.\<close>

definition task_of :: "'t pool_worker \<Rightarrow> 't list" where
  "task_of w = (case w of P_task t \<Rightarrow> [t] | _ \<Rightarrow> [])"

definition running_tasks :: "'t task_pool \<Rightarrow> 't multiset" where
  "running_tasks p = mset (concat (map task_of (pool_workers p)))"

definition awake :: "'t task_pool \<Rightarrow> bool" where
  "awake p \<longleftrightarrow> (\<exists>w \<in> set (pool_workers p). w \<noteq> P_blocked \<and> w \<noteq> P_returned)"

definition task_pool_inv :: "nat \<Rightarrow> 't task_pool \<Rightarrow> bool" where
  "task_pool_inv n p \<longleftrightarrow> length (pool_workers p) = n \<and>
     started_tasks p @ tasks p = enqueued p \<and>
     mset (finished p) + running_tasks p = mset (started_tasks p) \<and>
     (pool_stop p \<longleftrightarrow> pool_owner p \<noteq> D_alive) \<and>
     (P_returned \<in> set (pool_workers p) \<longrightarrow> pool_stop p \<and> tasks p = []) \<and>
     (0 < n \<longrightarrow> tasks p \<noteq> [] \<longrightarrow> awake p \<or> 0 < notifiers p) \<and>
     (pool_owner p \<in> {D_join, D_gone} \<longrightarrow> P_blocked \<notin> set (pool_workers p)) \<and>
     (pool_owner p = D_gone \<longrightarrow> set (pool_workers p) \<subseteq> {P_returned})"

lemma running_update:
  assumes "i < length ws"
  shows "mset (concat (map task_of (ws[i := w]))) + mset (task_of (ws ! i)) =
    mset (concat (map task_of ws)) + mset (task_of w)"
  using assms
proof (induction ws arbitrary: i)
  case (Cons a ws)
  then show ?case by (cases i) (auto simp: ac_simps)
qed simp

lemma task_of_simps [simp]:
  "task_of P_ready = []" "task_of P_blocked = []" "task_of P_returned = []" "task_of (P_task t) = [t]"
  by (simp_all add: task_of_def)

lemma task_of_wake [simp]: "task_of (wake w) = task_of w"
  by (cases w) (simp_all add: wake_def)

lemma wake_simps [simp]: "wake w \<noteq> P_blocked" "(wake w = P_returned) = (w = P_returned)"
  by (cases w; simp add: wake_def)+

lemma awake_update:
  "i < length (pool_workers p) \<Longrightarrow> w \<noteq> P_blocked \<Longrightarrow> w \<noteq> P_returned \<Longrightarrow>
   awake (p\<lparr>pool_workers := (pool_workers p)[i := w]\<rparr>)"
  by (auto simp: awake_def set_update_memI)

lemma ThreadPool_new_inv: "task_pool_inv n (ThreadPool_new n)"
proof -
  have "concat (map task_of (replicate n P_ready)) = []" by (induction n) auto
  then show ?thesis by (simp add: task_pool_inv_def ThreadPool_new_def running_tasks_def)
qed

lemma in_set_update: "x \<in> set (xs[i := y]) \<Longrightarrow> x = y \<or> x \<in> set xs"
  using set_update_subset_insert [of xs i y] by blast

lemma not_gone:
  assumes "task_pool_inv n p" and i: "i < length (pool_workers p)" "pool_workers p ! i \<noteq> P_returned"
  shows "pool_owner p \<noteq> D_gone"
proof
  assume "pool_owner p = D_gone"
  then have "set (pool_workers p) \<subseteq> {P_returned}" using assms(1) by (simp add: task_pool_inv_def)
  with nth_mem [OF i(1)] i(2) show False by blast
qed

lemma pool_take_inv:
  assumes inv: "task_pool_inv n p" and i: "i < length (pool_workers p)" "pool_workers p ! i = P_ready"
  shows "task_pool_inv n (pool_take i p)"
proof -
  have ng: "pool_owner p \<noteq> D_gone" using not_gone [OF inv i(1)] i(2) by simp
  have run: "mset (concat (map task_of ((pool_workers p)[i := w]))) = running_tasks p + mset (task_of w)" for w
    using running_update [OF i(1), of w] i(2) by (simp add: running_tasks_def)
  consider (block) "\<not> pool_stop p" "tasks p = []" | (return) "pool_stop p" "tasks p = []" | (go) "tasks p \<noteq> []" by blast
  then show ?thesis
  proof cases
    case block
    then show ?thesis using inv run ng by (auto simp: pool_take_def task_pool_inv_def running_tasks_def dest: in_set_update)
  next
    case return
    then show ?thesis using inv run ng by (auto simp: pool_take_def task_pool_inv_def running_tasks_def dest: in_set_update)
  next
    case go
    let ?q = "p\<lparr>tasks := tl (tasks p), started_tasks := started_tasks p @ [hd (tasks p)],
        pool_workers := (pool_workers p)[i := P_task (hd (tasks p))]\<rparr>"
    have eq: "pool_take i p = ?q" using go by (simp add: pool_take_def)
    have aw: "awake ?q"
      unfolding awake_def by (rule bexI [of _ "P_task (hd (tasks p))"]) (use i(1) in \<open>auto simp: set_update_memI\<close>)
    have "P_returned \<notin> set (pool_workers ?q)" "P_blocked \<in> set (pool_workers ?q) \<Longrightarrow> P_blocked \<in> set (pool_workers p)"
      using inv go by (auto simp: task_pool_inv_def dest: in_set_update)
    moreover have "running_tasks ?q = running_tasks p + {#hd (tasks p)#}"
      using run [of "P_task (hd (tasks p))"] by (simp add: running_tasks_def)
    ultimately show ?thesis using inv go aw ng unfolding eq by (auto simp: task_pool_inv_def)
  qed
qed

lemma awake_all:
  assumes "task_pool_inv n p" and "0 < n" and "tasks p \<noteq> []" and "P_blocked \<notin> set (pool_workers p)"
  shows "awake p"
proof -
  have "pool_workers p \<noteq> []" using assms(1,2) by (auto simp: task_pool_inv_def)
  moreover have "P_returned \<notin> set (pool_workers p)" using assms(1,3) by (auto simp: task_pool_inv_def)
  ultimately show ?thesis using assms(4) unfolding awake_def by (metis list.set_sel(1))
qed

lemma pool_step_inv:
  assumes inv: "task_pool_inv n p" and step: "pool_step p q"
  shows "task_pool_inv n q"
  using step
proof (cases rule: pool_step.cases)
  case (client_push task)
  then have "\<not> pool_stop p" and q: "q = p\<lparr>tasks := tasks p @ [task], notifiers := Suc (notifiers p), enqueued := enqueued p @ [task]\<rparr>"
    by (auto simp: pool_enqueue_def split: if_splits)
  then show ?thesis using inv by (auto simp: task_pool_inv_def running_tasks_def awake_def)
next
  case (client_notify m i)
  have "running_tasks q = running_tasks p"
    using running_update [of i "pool_workers p" P_ready] client_notify by (simp add: running_tasks_def)
  moreover have "awake q" using client_notify by (auto simp: awake_def set_update_memI)
  moreover have "pool_owner p \<noteq> D_gone" using not_gone [OF inv] client_notify by simp
  ultimately show ?thesis using inv client_notify by (auto simp: task_pool_inv_def dest: in_set_update)
next
  case (client_notify_none m)
  then show ?thesis using inv awake_all [OF inv]
    by (auto simp: task_pool_inv_def running_tasks_def awake_def)
next
  case (worker_take i)
  then show ?thesis using pool_take_inv [OF inv] by simp
next
  case (worker_finish i t)
  have "running_tasks q + {#t#} = running_tasks p"
    using running_update [of i "pool_workers p" P_ready] worker_finish by (simp add: running_tasks_def)
  then have "mset (finished q) + running_tasks q = mset (finished p) + running_tasks p"
    using worker_finish(1) by (simp add: ac_simps)
  moreover have "awake q" using worker_finish by (auto simp: awake_def set_update_memI)
  moreover have "length (pool_workers q) = length (pool_workers p)" "started_tasks q = started_tasks p" "tasks q = tasks p"
    "enqueued q = enqueued p" "pool_stop q = pool_stop p" "pool_owner q = pool_owner p"
    "P_returned \<in> set (pool_workers q) \<Longrightarrow> P_returned \<in> set (pool_workers p)"
    "P_blocked \<in> set (pool_workers q) \<Longrightarrow> P_blocked \<in> set (pool_workers p)"
    using worker_finish(1) by (auto dest: in_set_update)
  moreover have "pool_owner p \<noteq> D_gone" using not_gone [OF inv] worker_finish by simp
  ultimately show ?thesis using inv unfolding task_pool_inv_def by auto
next
  case destroy_stop
  then show ?thesis using inv by (auto simp: task_pool_inv_def running_tasks_def awake_def)
next
  case destroy_notify
  have "running_tasks q = running_tasks p" using destroy_notify by (simp add: running_tasks_def comp_def)
  moreover have "awake q" if "awake p" using that destroy_notify by (auto simp: awake_def)
  moreover have "P_blocked \<notin> set (pool_workers q)" using destroy_notify by auto (metis wake_simps(1))
  moreover have "P_returned \<in> set (pool_workers q) \<Longrightarrow> P_returned \<in> set (pool_workers p)"
    using destroy_notify by auto (metis wake_simps(2))
  ultimately show ?thesis using inv destroy_notify by (auto simp: task_pool_inv_def)
next
  case destroy_join
  then show ?thesis using inv by (auto simp: task_pool_inv_def running_tasks_def awake_def)
qed

interpretation pool: invariant_system "pool_init n" pool_step "task_pool_inv n" for n
  by unfold_locales (auto simp: pool_init_def ThreadPool_new_inv intro: pool_step_inv)

lemma pool_progress:
  assumes inv: "task_pool_inv n p" and n: "0 < n" and work: "tasks p \<noteq> [] \<or> running_tasks p \<noteq> {#}"
  shows "\<exists>q. pool_step p q \<and> enqueued q = enqueued p \<and>
    3 * length (tasks q) + size (running_tasks q) + (if awake q then 0 else 1) <
    3 * length (tasks p) + size (running_tasks p) + (if awake p then 0 else (1::nat))"
proof (cases "\<exists>i t. i < length (pool_workers p) \<and> pool_workers p ! i = P_task t")
  case True
  then obtain i t where i: "i < length (pool_workers p)" "pool_workers p ! i = P_task t" by blast
  let ?q = "p\<lparr>pool_workers := (pool_workers p)[i := P_ready], finished := finished p @ [t]\<rparr>"
  have "running_tasks p = running_tasks ?q + {#t#}"
    using running_update [OF i(1), of P_ready] i(2) by (simp add: running_tasks_def)
  moreover have "awake ?q" using i(1) by (auto simp: awake_def set_update_memI)
  ultimately show ?thesis using worker_finish [OF i] by (intro exI [of _ ?q]) simp
next
  case False
  have "concat (map task_of ws) = []" if "\<forall>w \<in> set ws. \<forall>t. w \<noteq> P_task t" for ws :: "'a pool_worker list"
    using that by (induction ws) (auto simp: task_of_def split: pool_worker.split)
  then have "running_tasks p = {#}" using False by (simp add: running_tasks_def) (metis in_set_conv_nth)
  then have ne: "tasks p \<noteq> []" using work by simp
  show ?thesis
  proof (cases "awake p")
    case True
    then obtain i where i: "i < length (pool_workers p)" "pool_workers p ! i = P_ready"
      using False unfolding awake_def by (metis in_set_conv_nth pool_worker.exhaust)
    let ?q = "p\<lparr>tasks := tl (tasks p), started_tasks := started_tasks p @ [hd (tasks p)],
        pool_workers := (pool_workers p)[i := P_task (hd (tasks p))]\<rparr>"
    have st: "pool_step p ?q" using worker_take [OF i] ne by (simp add: pool_take_def)
    have r: "running_tasks ?q = running_tasks p + {#hd (tasks p)#}"
      using running_update [OF i(1), of "P_task (hd (tasks p))"] i(2) by (simp add: running_tasks_def)
    have "length (tasks p) = Suc (length (tl (tasks p)))" using ne by (cases "tasks p") simp_all
    then show ?thesis using st r True by (intro exI [of _ ?q]) simp
  next
    case asleep: False
    then obtain m where m: "notifiers p = Suc m" using inv n ne by (auto simp: task_pool_inv_def gr0_conv_Suc)
    have "P_blocked \<in> set (pool_workers p)" using asleep awake_all [OF inv n ne] by blast
    then obtain i where i: "i < length (pool_workers p)" "pool_workers p ! i = P_blocked" by (metis in_set_conv_nth)
    let ?q = "p\<lparr>notifiers := m, pool_workers := (pool_workers p)[i := P_ready]\<rparr>"
    have "running_tasks ?q = running_tasks p"
      using running_update [OF i(1), of P_ready] i(2) by (simp add: running_tasks_def)
    moreover have "awake ?q" using i(1) by (auto simp: awake_def set_update_memI)
    ultimately show ?thesis using client_notify [OF m i] asleep by (intro exI [of _ ?q]) simp
  qed
qed

lemma pool_drains:
  assumes "task_pool_inv n p" and "0 < n"
  shows "\<exists>q. pool_step\<^sup>*\<^sup>* p q \<and> mset (finished q) = mset (enqueued p)"
  using assms(1)
proof (induction "3 * length (tasks p) + size (running_tasks p) + (if awake p then 0 else (1::nat))"
    arbitrary: p rule: less_induct)
  case less
  show ?case
  proof (cases "tasks p \<noteq> [] \<or> running_tasks p \<noteq> {#}")
    case True
    from pool_progress [OF less.prems assms(2) True] obtain q where q: "pool_step p q" "enqueued q = enqueued p"
      "3 * length (tasks q) + size (running_tasks q) + (if awake q then 0 else 1) <
       3 * length (tasks p) + size (running_tasks p) + (if awake p then 0 else (1::nat))" by blast
    from less.hyps [OF q(3) pool_step_inv [OF less.prems q(1)]] obtain r where
      "pool_step\<^sup>*\<^sup>* q r" "mset (finished r) = mset (enqueued q)" by blast
    with q(1,2) show ?thesis by (metis converse_rtranclp_into_rtranclp)
  next
    case False
    then have "mset (finished p) = mset (enqueued p)"
      using less.prems by (auto simp: task_pool_inv_def dest: arg_cong [of _ _ mset])
    then show ?thesis by blast
  qed
qed

section \<open>Properties\<close>

text \<open>
  C27: Every task handed to the pool is run exactly once, and tasks are started in the order of
  \<open>enqueue\<close>: the tasks started followed by those queued are the tasks enqueued, and the ones
  finished together with the ones running are the ones started, as multisets. With at least one worker, a
  queued task always finds a worker awake or a notification under way.
\<close>

theorem pool_runs_once:
  assumes "reach (pool_init n) pool_step p"
  shows "started_tasks p @ tasks p = enqueued p \<and>
    mset (finished p) + running_tasks p = mset (started_tasks p) \<and>
    (0 < n \<and> tasks p \<noteq> [] \<longrightarrow> awake p \<or> 0 < notifiers p)"
  using pool.reach_inv [OF assms] by (auto simp: task_pool_inv_def)

lemma one_task_reach:
  "reach (pool_init 1) pool_step ((ThreadPool_new 1)\<lparr>tasks := [7 :: nat], notifiers := 1, enqueued := [7]\<rparr>)"
proof -
  have a: "reach (pool_init 1) pool_step (ThreadPool_new 1 :: nat task_pool)"
    by (rule reach_init) (simp add: pool_init_def)
  show ?thesis
    by (rule reach_step [OF a client_push [where task = 7]]) (simp_all add: ThreadPool_new_def pool_enqueue_def)
qed

theorem pool_runs_once_witness:
  "\<exists>p :: nat task_pool. tasks p = [7] \<and> started_tasks p @ tasks p = [7] \<and> (awake p \<or> 0 < notifiers p)"
  using pool_runs_once [OF one_task_reach]
  by (intro exI [of _ "(ThreadPool_new 1)\<lparr>tasks := [7], notifiers := 1, enqueued := [7]\<rparr>"])
     (simp add: ThreadPool_new_def)

text \<open>
  C36: The pool works its queue off: with at least one worker, from every reachable state the steps of
  the workers lead to one in which every task enqueued so far has finished.
\<close>

theorem pool_finishes_all:
  assumes "reach (pool_init n) pool_step p" and "0 < n"
  shows "\<exists>q. pool_step\<^sup>*\<^sup>* p q \<and> mset (finished q) = mset (enqueued p)"
  using pool_drains [OF pool.reach_inv [OF assms(1)] assms(2)] .

theorem pool_finishes_all_witness:
  "\<exists>p q :: nat task_pool. tasks p = [7] \<and> finished p = [] \<and> pool_step\<^sup>*\<^sup>* p q \<and> mset (finished q) = {#7#}"
proof -
  let ?p = "(ThreadPool_new 1)\<lparr>tasks := [7 :: nat], notifiers := 1, enqueued := [7]\<rparr>"
  have "tasks ?p = [7]" "finished ?p = []" "mset (enqueued ?p) = {#7#}" by (simp_all add: ThreadPool_new_def)
  with pool_finishes_all [OF one_task_reach] show ?thesis by fastforce
qed



end
