(* ===== verification/Backup_Log.thy ===== *)
theory Backup_Log
  imports Net_Address Log_Util
begin

text \<open>
  The backup of severe log lines: the client \<open>start_backup\<close> (\<open>backlog/CliBackupLog.cpp\<close>) and the
  backup server (\<open>backlog/ServerBackuplog.hpp\<close>, \<open>backlog/ServerBackuplog.cpp\<close>). System calls are
  recorded as values; their answers are parameters.
\<close>

section \<open>The client\<close>

datatype backup_call =
    B_socket
  | B_connect inet_address
  | B_write bytes
  | B_close

text \<open>
  The \<open>while\<close> loop: \<open>connects k\<close> tells whether the \<open>k\<close>-th attempt succeeds, \<open>cnt\<close> is the counter that
  \<open>cnt-- <= 0\<close> tests. The result is whether the connection stands, and the number of attempts.
\<close>

fun connect_loop :: "(nat \<Rightarrow> bool) \<Rightarrow> nat \<Rightarrow> nat \<Rightarrow> bool \<times> nat" where
  "connect_loop connects k 0 = (connects k, Suc k)"
| "connect_loop connects k (Suc cnt) =
     (if connects k then (True, Suc k) else connect_loop connects (Suc k) cnt)"

text \<open>The zeroed address structure with the configured port and address; \<open>inet_aton\<close> may fail.\<close>

definition backup_sockaddr :: "json_data \<Rightarrow> (string \<Rightarrow> 32 word option) \<Rightarrow> inet_address" where
  "backup_sockaddr cfg inet_aton =
     \<lparr>sin_family = AF_INET, sin_port = htons (backup_port cfg),
      s_addr = (case inet_aton (backup_addr cfg) of Some a \<Rightarrow> a | None \<Rightarrow> 0)\<rparr>"

definition start_backup ::
  "json_data \<Rightarrow> (string \<Rightarrow> 32 word option) \<Rightarrow> (nat \<Rightarrow> bool) \<Rightarrow> bytes \<Rightarrow> backup_call list" where
  "start_backup cfg inet_aton connects message =
     (let (up, n) = connect_loop connects 0 5
      in B_socket # replicate n (B_connect (backup_sockaddr cfg inet_aton)) @
         (if up then [B_write message, B_close] else []))"

section \<open>The server\<close>

record thread_data =
  td_sock :: int
  client_ip :: string
  client_port :: "16 word"

definition service_buf_size :: nat where
  "service_buf_size = 1024"

text \<open>The characters before the first zero byte.\<close>

definition c_string :: "bytes \<Rightarrow> string" where
  "c_string mem = takeWhile (\<lambda>c. c \<noteq> CHR 0x00) mem"

text \<open>
  \<open>service\<close>: \<open>answer\<close> is the answer of \<open>read\<close> for the 1024 bytes of \<open>buf\<close>, whose old contents are
  \<open>garbage\<close>; the result is the argument \<open>func_\<close> is called with, if it is called.
\<close>

definition service :: "bytes \<Rightarrow> errno + bytes \<Rightarrow> string \<Rightarrow> string option res" where
  "service garbage answer client_info =
     (case answer of
        Inl e \<Rightarrow> Inr None
      | Inr bs \<Rightarrow>
          if length bs > 0
          then bindR (mem_write 0 bs garbage) (\<lambda>buf.
               bindR (mem_write (length bs) [CHR 0x00] buf) (\<lambda>buf1.
                 Inr (Some (client_info @ c_string buf1))))
          else Inr None)"

text \<open>\<open>backup_log\<close>: \<open>fopen_ok\<close> and \<open>fwrite_ok\<close> are the answers of the library; the file grows.\<close>

definition backup_log :: "bool \<Rightarrow> bool \<Rightarrow> string \<Rightarrow> bytes \<Rightarrow> bytes res" where
  "backup_log fopen_ok fwrite_ok message logfile =
     (if \<not> fopen_ok \<or> \<not> fwrite_ok then Inl Assert_Failed else Inr (logfile @ message))"

definition threadRoutine ::
  "bytes \<Rightarrow> errno + bytes \<Rightarrow> bool \<Rightarrow> bool \<Rightarrow> thread_data \<Rightarrow> bytes \<Rightarrow> (sock_call list \<times> bytes) res" where
  "threadRoutine garbage answer fopen_ok fwrite_ok td logfile =
     (let client_info = client_ip td @ '':'' @ to_string (unat (client_port td)) in
      bindR (service garbage answer client_info) (\<lambda>msg.
      bindR (case msg of None \<Rightarrow> Inr logfile | Some m \<Rightarrow> backup_log fopen_ok fwrite_ok m logfile) (\<lambda>log1.
        Inr ([Call_close (td_sock td)], log1))))"

definition INADDR_ANY :: "32 word" where "INADDR_ANY = 0"

definition init_service :: "int \<Rightarrow> 16 word \<Rightarrow> sock_call list" where
  "init_service listen_sock port =
     [Call_bind listen_sock \<lparr>sin_family = AF_INET, sin_port = htons port, s_addr = INADDR_ANY\<rparr>,
      Call_listen listen_sock 32]"

text \<open>One round of \<open>start_service\<close>: the thread to be created, none when \<open>accept\<close> failed.\<close>

definition accept_round :: "errno + (int \<times> inet_address) \<Rightarrow> thread_data option" where
  "accept_round answer =
     (case answer of
        Inl e \<Rightarrow> None
      | Inr (connfd, a) \<Rightarrow> Some \<lparr>td_sock = connfd, client_ip = inet_ntop (s_addr a), client_port = ntohs (sin_port a)\<rparr>)"

text \<open>\<open>start_service\<close> over a list of answers of \<open>accept\<close>: the threads it creates, in order.\<close>

fun start_service :: "(errno + (int \<times> inet_address)) list \<Rightarrow> thread_data list" where
  "start_service [] = []"
| "start_service (a # as) =
     (case accept_round a of None \<Rightarrow> start_service as | Some td \<Rightarrow> td # start_service as)"

section \<open>The program\<close>

text \<open>
  \<open>atoi\<close>: white space, a sign, digits; anything else ends the number. \<open>main\<close> narrows it to 16 bits; a
  wrong number of arguments ends the program (\<open>None\<close>). The pair is the port and the first system calls.
\<close>

definition is_space :: "char \<Rightarrow> bool" where
  "is_space c \<longleftrightarrow> c \<in> {CHR '' '', CHR 0x09, CHR 0x0A, CHR 0x0B, CHR 0x0C, CHR 0x0D}"

definition atoi :: "string \<Rightarrow> int" where
  "atoi s =
     (let t = dropWhile is_space s in
      case t of
        [] \<Rightarrow> 0
      | c # cs \<Rightarrow> if c = CHR ''-'' then - int (digits_value (takeWhile is_digit cs))
                  else if c = CHR ''+'' then int (digits_value (takeWhile is_digit cs))
                  else int (digits_value (takeWhile is_digit t)))"

definition usage :: "string \<Rightarrow> string" where
  "usage procgress = ''usage error: '' @ procgress @ ''port'' @ [CHR 0x0A]"

definition file_exist :: "(string \<Rightarrow> nat option) \<Rightarrow> string \<Rightarrow> bool" where
  "file_exist stat name \<longleftrightarrow> stat name \<noteq> None"

definition backup_main :: "string list \<Rightarrow> int \<Rightarrow> string + (16 word \<times> sock_call list)" where
  "backup_main argv listen_sock =
     (if length argv \<noteq> 2 then Inl (usage (hd argv))
      else let port = (of_int (atoi (argv ! 1)) :: 16 word) in Inr (port, init_service listen_sock port))"

text \<open>The created threads run to their end one after the other; \<open>rd\<close> is what \<open>read\<close> answers each.\<close>

fun serve :: "bytes \<Rightarrow> (thread_data \<Rightarrow> errno + bytes) \<Rightarrow> thread_data list \<Rightarrow> bytes \<Rightarrow> (sock_call list \<times> bytes) res" where
  "serve garbage rd [] logfile = Inr ([], logfile)"
| "serve garbage rd (td # tds) logfile =
     bindR (threadRoutine garbage (rd td) True True td logfile) (\<lambda>(cs, log1).
     bindR (serve garbage rd tds log1) (\<lambda>(cs1, log2). Inr (cs @ cs1, log2)))"

section \<open>Lemmas\<close>

lemma atoi_to_string: "atoi (to_string n) = int n"
proof -
  obtain c cs where cs: "to_string n = c # cs" using to_string_nonempty [of n] by (cases "to_string n") auto
  have dig: "\<forall>c \<in> set (to_string n). is_digit c" using to_string_digits by blast
  then have "is_digit c" by (simp add: cs)
  then have c: "\<not> is_space c" "c \<noteq> CHR ''-''" "c \<noteq> CHR ''+''" by (auto simp: is_digit_def is_space_def)
  have "takeWhile is_digit (to_string n) = to_string n" using dig by (simp add: takeWhile_eq_all_conv)
  then show ?thesis using c cs digits_value_to_string [of n] by (simp add: atoi_def)
qed



lemma connect_loop_spec:
  "connect_loop connects k cnt =
     (if \<exists>i \<le> cnt. connects (k + i) then (True, Suc (k + (LEAST i. connects (k + i)))) else (False, Suc (k + cnt)))"
proof (induction cnt arbitrary: k)
  case 0
  show ?case
  proof (cases "connects k")
    case True
    then have "(LEAST i. connects (k + i)) = 0" by (intro Least_eq_0) simp
    with True show ?thesis by simp
  qed simp
next
  case (Suc cnt)
  show ?case
  proof (cases "connects k")
    case True
    then have "(LEAST i. connects (k + i)) = 0" by (intro Least_eq_0) simp
    moreover have "\<exists>i \<le> Suc cnt. connects (k + i)" using True by (intro exI [of _ 0]) simp
    ultimately show ?thesis using True by simp
  next
    case False
    have iff: "(\<exists>i \<le> Suc cnt. connects (k + i)) \<longleftrightarrow> (\<exists>i \<le> cnt. connects (Suc k + i))"
      using False by (metis Suc_le_mono add_0_right add_Suc add_Suc_right not0_implies_Suc)
    have step: "(LEAST i. connects (k + i)) = Suc (LEAST i. connects (Suc k + i))" if "connects (k + i)" for i
      using that False Least_Suc [of "\<lambda>i. connects (k + i)" i] by simp
    show ?thesis
    proof (cases "\<exists>i \<le> Suc cnt. connects (k + i)")
      case True
      then obtain i where "connects (k + i)" by blast
      from step [OF this] True iff show ?thesis using Suc.IH [of "Suc k"] False by (simp only: if_True) simp
    next
      case none: False
      then have "\<not> (\<exists>i \<le> cnt. connects (Suc k + i))" using iff by blast
      then show ?thesis using Suc.IH [of "Suc k"] False none by (simp only: if_False) simp
    qed
  qed
qed

lemma c_string_zero: "CHR 0x00 \<notin> set bs \<Longrightarrow> c_string (bs @ CHR 0x00 # rest) = bs"
  unfolding c_string_def by (induction bs) auto

lemma service_data:
  assumes g: "length garbage = service_buf_size" and bs: "0 < length bs" "length bs < service_buf_size"
  shows "service garbage (Inr bs) info = Inr (Some (info @ c_string (bs @ [CHR 0x00])))"
proof -
  have "overwrite (length bs) [CHR 0x00] (overwrite 0 bs garbage) = bs @ CHR 0x00 # drop (Suc (length bs)) garbage"
    using g bs by (simp add: overwrite_def)
  moreover have "c_string (bs @ CHR 0x00 # rest) = c_string (bs @ [CHR 0x00])" for rest
    unfolding c_string_def by (induction bs) auto
  ultimately show ?thesis using g bs by (simp add: service_def)
qed

lemma threadRoutine_line:
  assumes "length garbage = service_buf_size" and "0 < length bs" "length bs < service_buf_size" and "CHR 0x00 \<notin> set bs"
  shows "threadRoutine garbage (Inr bs) True True td logfile =
    Inr ([Call_close (td_sock td)], logfile @ client_ip td @ '':'' @ to_string (unat (client_port td)) @ bs)"
  using service_data [OF assms(1-3)] c_string_zero [OF assms(4), of "[]"]
  by (simp add: threadRoutine_def backup_log_def Let_def)

section \<open>Properties\<close>

text \<open>
  \<open>start_backup\<close> tries at most six times to connect, stops at the first success, hands the
  message to the kernel in one \<open>write\<close> and closes the socket; when all six attempts fail it sends
  nothing and never closes the socket.
\<close>

theorem backup_attempts:
  "((\<exists>i \<le> 5. connects i) \<longrightarrow>
     start_backup cfg inet_aton connects message =
       B_socket # replicate (Suc (LEAST i. connects i)) (B_connect (backup_sockaddr cfg inet_aton)) @
         [B_write message, B_close]) \<and>
   ((\<forall>i \<le> 5. \<not> connects i) \<longrightarrow>
     start_backup cfg inet_aton connects message = B_socket # replicate 6 (B_connect (backup_sockaddr cfg inet_aton)))"
proof -
  have "connect_loop connects 0 5 = (if \<exists>i \<le> 5. connects i then (True, Suc (LEAST i. connects i)) else (False, 6))"
    using connect_loop_spec [of connects 0 5] by simp
  then show ?thesis by (auto simp: start_backup_def)
qed

theorem backup_attempts_witness:
  "start_backup cfg inet_aton (\<lambda>i. False) ''m'' = B_socket # replicate 6 (B_connect (backup_sockaddr cfg inet_aton))"
  using backup_attempts [of "\<lambda>i. False" cfg inet_aton "''m''"] by simp

text \<open>
  The backup server appends the line with the client's address in front: a message of 1 to 1023
  bytes without zero bytes, received in one \<open>read\<close>, is appended to the log file unchanged after
  \<open>ip:port\<close>, and the socket is closed. A read that fills the buffer writes the terminating zero one
  byte past its end.
\<close>

theorem backup_server_appends:
  assumes "length garbage = service_buf_size"
  shows "(0 < length bs \<and> length bs < service_buf_size \<and> CHR 0x00 \<notin> set bs \<longrightarrow>
      threadRoutine garbage (Inr bs) True True td logfile =
        Inr ([Call_close (td_sock td)], logfile @ client_ip td @ '':'' @ to_string (unat (client_port td)) @ bs)) \<and>
    (length bs = service_buf_size \<longrightarrow> threadRoutine garbage (Inr bs) True True td logfile = Inl Out_Of_Bounds)"
proof -
  have "threadRoutine garbage (Inr bs) True True td logfile = Inl Out_Of_Bounds" if "length bs = service_buf_size"
    using that assms by (simp add: threadRoutine_def service_def service_buf_size_def mem_write_def Let_def)
  then show ?thesis using threadRoutine_line [OF assms, of bs] by blast
qed

theorem backup_server_appends_witness:
  "threadRoutine (replicate 1024 (CHR 0x78)) (Inr ''boom'') True True
     \<lparr>td_sock = 5, client_ip = ''10.0.0.1'', client_port = 80\<rparr> ''old;'' =
   Inr ([Call_close 5], ''old;10.0.0.1:'' @ to_string 80 @ ''boom'')"
  using backup_server_appends [of "replicate 1024 (CHR 0x78)" "''boom''" "\<lparr>td_sock = 5, client_ip = ''10.0.0.1'', client_port = 80\<rparr>" "''old;''"]
  by (simp add: service_buf_size_def)



text \<open>
  The port on the command line: a decimal number below 65536 becomes the port the server binds, in
  network byte order; a larger one is silently reduced modulo 65536. Any other number of arguments
  ends the program with the usage line.
\<close>

theorem backup_port_argument:
  "\<exists>port. backup_main [prog, to_string n] sock =
      Inr (port, [Call_bind sock \<lparr>sin_family = AF_INET, sin_port = htons port, s_addr = INADDR_ANY\<rparr>, Call_listen sock 32]) \<and>
    unat port = n mod 65536 \<and> backup_main [prog] sock = Inl (usage prog)"
  by (simp add: backup_main_def atoi_to_string Let_def init_service_def unsigned_of_nat take_bit_eq_mod)

end
