(* ===== verification/Async_Logger.thy ===== *)
theory Async_Logger
  imports Log_Flush Async_Worker Task_Pool Backup_Log
begin

text \<open>
  Loggers (\<open>Level.hpp\<close>, \<open>Message.hpp\<close>, \<open>AsyncLogger.hpp\<close>, \<open>Manager.hpp\<close>, \<open>MyLog.cpp\<close>). A log call formats its
  line, for the two severest levels hands it to the thread pool for backup, and pushes it to the
  asynchronous worker, whose callback \<open>RealFlush\<close> writes to every sink. \<open>vasprintf\<close>, the clock and
  the printed thread id are parameters; the pool is the one of \<open>Task_Pool\<close>, whose tasks are calls of
  \<open>start_backup\<close>, represented by their argument. The sinks of a logger write to one \<open>log_output\<close>. A
  builder hands its sinks to the logger it builds and is not used again.
\<close>

section \<open>Levels and messages\<close>

datatype LogLevel = DEBUG | INFO | WARN | ERROR | FATAL

fun level_ToString :: "LogLevel \<Rightarrow> string" where
  "level_ToString DEBUG = ''DEBUG''"
| "level_ToString INFO = ''INFO''"
| "level_ToString WARN = ''WARN''"
| "level_ToString ERROR = ''ERROR''"
| "level_ToString FATAL = ''FATAL''"

record log_message =
  m_line :: size_t
  m_ctime :: tm
  m_file_name :: string
  m_name :: string
  m_payload :: string
  m_tid :: string
  m_level :: LogLevel

text \<open>The constructor takes the time and the thread of the caller.\<close>

definition LogMessage_new :: "tm \<Rightarrow> string \<Rightarrow> LogLevel \<Rightarrow> string \<Rightarrow> size_t \<Rightarrow> string \<Rightarrow> string \<Rightarrow> log_message" where
  [simp]: "LogMessage_new now tid level file line name payload =
     \<lparr>m_line = line, m_ctime = now, m_file_name = file, m_name = name, m_payload = payload, m_tid = tid, m_level = level\<rparr>"

text \<open>\<open>strftime\<close> with \<open>%H:%M:%S\<close>.\<close>

definition clock_string :: "tm \<Rightarrow> string" where
  "clock_string t = print_0d 2 (tm_hour t) @ '':'' @ print_0d 2 (tm_min t) @ '':'' @ print_0d 2 (tm_sec t)"

definition message_format :: "log_message \<Rightarrow> string" where
  "message_format m =
     (let tmp1 = ''['' @ clock_string (m_ctime m) @ '']['';
          tmp2 = ''][''  @ level_ToString (m_level m) @ '']['' @ m_name m @ '']['' @ m_file_name m @ '': '' @
                 to_string (unat (m_line m)) @ '']'' @ [CHR 0x09] @ m_payload m @ [CHR 0x0A]
      in tmp1 @ m_tid m @ tmp2)"

section \<open>AsyncLogger\<close>

record async_logger =
  logger_name :: string
  flushs :: "sink list"
  asyncworker :: async_worker

definition AsyncLogger_new :: "json_data \<Rightarrow> string \<Rightarrow> sink list \<Rightarrow> AsyncType \<Rightarrow> async_logger res" where
  "AsyncLogger_new cfg name sinks ty =
     bindR (AsyncWorker_new cfg ty) (\<lambda>w. Inr \<lparr>logger_name = name, flushs = sinks, asyncworker = w\<rparr>)"

text \<open>\<open>Flush\<close>: the line goes to the worker; a dropped or blocked call is part of \<open>AsyncWorker_Push\<close>.\<close>

definition logger_Flush :: "json_data \<Rightarrow> string \<Rightarrow> async_logger \<Rightarrow> async_logger res" where
  "logger_Flush cfg data lg =
     bindR (AsyncWorker_Push cfg data (asyncworker lg)) (\<lambda>w. Inr (lg\<lparr>asyncworker := w\<rparr>))"

definition backup_level :: "LogLevel \<Rightarrow> bool" where
  "backup_level level \<longleftrightarrow> level = FATAL \<or> level = ERROR"

text \<open>
  \<open>serialize\<close>: \<open>tp\<close> is the global pointer to the pool; the exception of \<open>enqueue\<close> is caught. The wait
  for the task's result changes nothing. The result is the logger and the pool.
\<close>

definition serialize ::
  "json_data \<Rightarrow> tm \<Rightarrow> string \<Rightarrow> LogLevel \<Rightarrow> string \<Rightarrow> size_t \<Rightarrow> string \<Rightarrow> async_logger \<Rightarrow> string task_pool option \<Rightarrow>
   (async_logger \<times> string task_pool option) res" where
  "serialize cfg now tid level file line ret lg tp =
     (let data = message_format (LogMessage_new now tid level file line (logger_name lg) ret)
      in bindR (if backup_level level
                then (case tp of
                        None \<Rightarrow> Inl Null_Deref
                      | Some p \<Rightarrow> Inr (Some (case pool_enqueue data p of Inl e \<Rightarrow> p | Inr p1 \<Rightarrow> p1)))
                else Inr tp) (\<lambda>tp1.
         bindR (logger_Flush cfg data lg) (\<lambda>lg1. Inr (lg1, tp1))))"

text \<open>
  \<open>Debug\<close>, \<open>Info\<close>, \<open>Warn\<close>, \<open>Error\<close> and \<open>Fatal\<close>: \<open>formatted\<close> is the result of \<open>vasprintf\<close>; when it
  fails, the pointer it should have set is used uninitialised.
\<close>

definition logger_log ::
  "LogLevel \<Rightarrow> json_data \<Rightarrow> tm \<Rightarrow> string \<Rightarrow> string option \<Rightarrow> string \<Rightarrow> size_t \<Rightarrow> async_logger \<Rightarrow> string task_pool option \<Rightarrow>
   (async_logger \<times> string task_pool option) res" where
  "logger_log level cfg now tid formatted file line lg tp =
     (case formatted of None \<Rightarrow> Inl Dangling | Some ret \<Rightarrow> serialize cfg now tid level file line ret lg tp)"

definition logger_Debug where "logger_Debug = logger_log DEBUG"
definition logger_Info where "logger_Info = logger_log INFO"
definition logger_Warn where "logger_Warn = logger_log WARN"
definition logger_Error where "logger_Error = logger_log ERROR"
definition logger_Fatal where "logger_Fatal = logger_log FATAL"

fun flush_sinks ::
  "json_data \<Rightarrow> (string \<Rightarrow> bool) \<Rightarrow> tm \<Rightarrow> bytes \<Rightarrow> sink list \<Rightarrow> log_output \<Rightarrow> (sink list \<times> log_output) res" where
  "flush_sinks cfg fopen_ok now bs [] d = Inr ([], d)"
| "flush_sinks cfg fopen_ok now bs (e # es) d =
     bindR (sink_Flush cfg fopen_ok now bs (e, d)) (\<lambda>(e1, d1).
     bindR (flush_sinks cfg fopen_ok now bs es d1) (\<lambda>(es1, d2). Inr (e1 # es1, d2)))"

definition RealFlush ::
  "json_data \<Rightarrow> (string \<Rightarrow> bool) \<Rightarrow> tm \<Rightarrow> log_buffer \<Rightarrow> sink list \<Rightarrow> log_output \<Rightarrow> (sink list \<times> log_output) res" where
  "RealFlush cfg fopen_ok now buffer sinks d =
     (if sinks = [] then Inr (sinks, d)
      else bindR (Begin_bytes buffer (ReadableSize buffer)) (\<lambda>bs. flush_sinks cfg fopen_ok now bs sinks d))"

section \<open>LoggerBuilder\<close>

record logger_builder =
  b_logger_name :: string
  b_flushs :: "sink list"
  b_async_type :: AsyncType

definition LoggerBuilder_new :: logger_builder where
  "LoggerBuilder_new = \<lparr>b_logger_name = ''async_logger'', b_flushs = [], b_async_type = ASYNC_SAFE\<rparr>"

definition BuildLoggerName :: "string \<Rightarrow> logger_builder \<Rightarrow> logger_builder" where
  "BuildLoggerName name b = b\<lparr>b_logger_name := name\<rparr>"

definition BuildLoggerType :: "AsyncType \<Rightarrow> logger_builder \<Rightarrow> logger_builder" where
  "BuildLoggerType type b = b\<lparr>b_async_type := type\<rparr>"

definition BuildLoggerFlush ::
  "(string \<Rightarrow> 'fs \<Rightarrow> bool) \<Rightarrow> (string \<Rightarrow> 'fs \<Rightarrow> 'fs) \<Rightarrow> (string \<Rightarrow> 'fs \<Rightarrow> bool) \<Rightarrow> sink_spec \<Rightarrow>
   logger_builder \<times> 'fs \<Rightarrow> logger_builder \<times> 'fs" where
  "BuildLoggerFlush ex mk fopen_ok spec = (\<lambda>(b, fs).
     case CreateLog ex mk fopen_ok spec fs of (s, fs1) \<Rightarrow> (b\<lparr>b_flushs := b_flushs b @ [s]\<rparr>, fs1))"

text \<open>\<open>Build\<close> changes the builder too: the default sink stays in it.\<close>

definition Build :: "json_data \<Rightarrow> logger_builder \<Rightarrow> (async_logger \<times> logger_builder) res" where
  "Build cfg b =
     (if b_logger_name b = [] then Inl Assert_Failed
      else let b1 = (if b_flushs b = [] then b\<lparr>b_flushs := [Stdout_sink]\<rparr> else b)
           in bindR (AsyncLogger_new cfg (b_logger_name b1) (b_flushs b1) (b_async_type b1)) (\<lambda>lg. Inr (lg, b1)))"

section \<open>LoggerManager\<close>

text \<open>The manager's map holds pointers, here numbers of loggers.\<close>

record logger_manager =
  default_logger :: nat
  loggers :: "string \<rightharpoonup> nat"

text \<open>The constructor builds the default logger, which is stored at address \<open>dflt\<close>.\<close>

definition LoggerManager_new :: "json_data \<Rightarrow> nat \<Rightarrow> (async_logger \<times> logger_manager) res" where
  "LoggerManager_new cfg dflt =
     bindR (Build cfg (BuildLoggerName ''default'' LoggerBuilder_new)) (\<lambda>(lg, b).
       Inr (lg, \<lparr>default_logger = dflt, loggers = [''default'' \<mapsto> dflt]\<rparr>))"

definition LoggerExist :: "string \<Rightarrow> logger_manager \<Rightarrow> bool" where
  "LoggerExist name mg \<longleftrightarrow> loggers mg name \<noteq> None"

text \<open>\<open>AddLogger\<close> is two critical sections: the test, and the store. \<open>name\<close> is the logger's name.\<close>

definition AddLogger_store :: "string \<Rightarrow> nat \<Rightarrow> logger_manager \<Rightarrow> logger_manager" where
  "AddLogger_store name lg mg = mg\<lparr>loggers := (loggers mg)(name \<mapsto> lg)\<rparr>"

definition AddLogger :: "string \<Rightarrow> nat \<Rightarrow> logger_manager \<Rightarrow> logger_manager" where
  "AddLogger name lg mg = (if LoggerExist name mg then mg else AddLogger_store name lg mg)"

definition GetLogger :: "string \<Rightarrow> logger_manager \<Rightarrow> nat option" where
  "GetLogger name mg = (case loggers mg name of None \<Rightarrow> None | Some lg \<Rightarrow> Some lg)"

definition DefaultLogger :: "logger_manager \<Rightarrow> nat" where
  "DefaultLogger mg = default_logger mg"

section \<open>Lemmas\<close>

lemma flush_sinks_apart:
  assumes "flush_sinks cfg fopen_ok now bs es d = Inr (es', d')" and "\<forall>e \<in> set es. apart e k"
  shows "sink_out (k, d') = sink_out (k, d) \<and> (\<forall>e \<in> set es'. apart e k)"
  using assms
proof (induction es arbitrary: d es')
  case (Cons e es)
  then obtain e1 d1 es1 where 1: "sink_Flush cfg fopen_ok now bs (e, d) = Inr (e1, d1)"
    "flush_sinks cfg fopen_ok now bs es d1 = Inr (es1, d')" "es' = e1 # es1"
    by (auto simp: bindR_eq_Inr)
  from sink_Flush_apart [OF 1(1)] Cons.IH [OF 1(2)] Cons.prems(2) 1(3) show ?case by auto
qed simp

text \<open>Flushing to sinks that write to different places: each gets the block, after what it had.\<close>

lemma flush_sinks_ok:
  assumes "\<forall>e \<in> set es. sink_ok (e, d)" and "sorted_wrt apart es"
  shows "\<exists>es' d'. flush_sinks cfg (\<lambda>_. True) now bs es d = Inr (es', d') \<and>
    (\<forall>e \<in> set es'. sink_ok (e, d')) \<and> sorted_wrt apart es' \<and>
    map (\<lambda>e. sink_out (e, d')) es' = map (\<lambda>e. sink_out (e, d) @ bs) es"
  using assms
proof (induction es arbitrary: d)
  case (Cons e es)
  obtain e1 d1 where e1: "sink_Flush cfg (\<lambda>_. True) now bs (e, d) = Inr (e1, d1)" "sink_ok (e1, d1)"
    "sink_out (e1, d1) = sink_out (e, d) @ bs"
    using sinks.flush_ok [of "(e, d)" cfg now bs] Cons.prems(1) by auto
  have ap: "apart e x" if "x \<in> set es" for x using Cons.prems(2) that by simp
  have ok: "sink_ok (x, a) = sink_ok (x, b)" for x a b by (simp add: sink_ok_def)
  have "\<forall>x \<in> set es. sink_ok (x, d1)" using Cons.prems(1) ok by auto
  with Cons.IH [of d1] Cons.prems(2) obtain es1 d2 where
    es1: "flush_sinks cfg (\<lambda>_. True) now bs es d1 = Inr (es1, d2)" "\<forall>x \<in> set es1. sink_ok (x, d2)" "sorted_wrt apart es1"
      "map (\<lambda>x. sink_out (x, d2)) es1 = map (\<lambda>x. sink_out (x, d1) @ bs) es" by auto
  have keep: "sink_out (x, d1) = sink_out (x, d)" "apart e1 x" if "x \<in> set es" for x
    using sink_Flush_apart [OF e1(1) ap [OF that]] by simp_all
  have "\<forall>x \<in> set es. apart x e1" using keep(2) apart_sym by blast
  from flush_sinks_apart [OF es1(1) this] e1(3)
  have "sink_out (e1, d2) = sink_out (e, d) @ bs" "\<forall>x \<in> set es1. apart e1 x" using apart_sym by auto
  moreover have "map (\<lambda>x. sink_out (x, d1) @ bs) es = map (\<lambda>x. sink_out (x, d) @ bs) es" using keep(1) by simp
  ultimately show ?case using e1 es1 ok [of e1 d2 d1] by simp
qed simp

lemma RealFlush_eq:
  assumes "log_inv buffer"
  shows "RealFlush cfg fopen_ok now buffer es d = flush_sinks cfg fopen_ok now (log_content buffer) es d"
  using log_invD [OF assms] by (cases "es = []") (simp_all add: RealFlush_def Begin_bytes_def log_content_def)

lemma Build_ok:
  assumes "b_logger_name b \<noteq> []" and "AsyncWorker_new cfg (b_async_type b) = Inr w"
  shows "\<exists>b'. Build cfg b = Inr (\<lparr>logger_name = b_logger_name b,
      flushs = (if b_flushs b = [] then [Stdout_sink] else b_flushs b), asyncworker = w\<rparr>, b')"
  using assms by (simp add: Build_def AsyncLogger_new_def)

section \<open>Properties\<close>

text \<open>
  \<open>RealFlush\<close> gives every sink of the logger the whole readable part of the worker's buffer, once
  and after what the sink had, also when the sinks share the file system, as long as no two of them
  write to the same place; no sink is skipped and none fails.
\<close>

theorem realFlush_reaches_every_sink:
  assumes inv: "log_inv buffer" and ok: "\<forall>e \<in> set es. sink_ok (e, d)" and sep: "sorted_wrt apart es"
  shows "\<exists>es' d'. RealFlush cfg (\<lambda>_. True) now buffer es d = Inr (es', d') \<and>
    (\<forall>e \<in> set es'. sink_ok (e, d')) \<and> sorted_wrt apart es' \<and>
    map (\<lambda>e. sink_out (e, d')) es' = map (\<lambda>e. sink_out (e, d) @ log_content buffer) es"
  unfolding RealFlush_eq [OF inv] by (rule flush_sinks_ok [OF ok sep])

definition noon :: tm where
  "noon = \<lparr>tm_sec = 0, tm_min = 0, tm_hour = 12, tm_mday = 1, tm_mon = 0, tm_year = 125\<rparr>"

definition two_sinks :: "sink list" where
  "two_sinks = [Stdout_sink, File_sink \<lparr>ff_filename = ''f.log'', ff_open = True, ff_pending = []\<rparr>]"

definition no_output :: log_output where
  "no_output = \<lparr>o_stdout = [], o_files = \<lambda>_. [], o_fsyncs = []\<rparr>"

lemma two_sinks_ok: "\<forall>e \<in> set two_sinks. sink_ok (e, no_output)" "sorted_wrt apart two_sinks"
  by (simp_all add: two_sinks_def sink_ok_def apart_def)

theorem realFlush_reaches_every_sink_witness:
  "\<exists>es' d'. RealFlush small_cfg (\<lambda>_. True) noon small_buffer two_sinks no_output = Inr (es', d') \<and>
     map (\<lambda>e. sink_out (e, d')) es' = [''ab'', ''ab'']"
proof -
  have "map (\<lambda>e. sink_out (e, no_output) @ log_content small_buffer) two_sinks = [''ab'', ''ab'']"
    by (simp add: two_sinks_def no_output_def sink_out_def small_buffer_ok)
  then show ?thesis
    using realFlush_reaches_every_sink [OF small_buffer_ok(1) two_sinks_ok, of small_cfg noon] by metis
qed

text \<open>
  C34: A log call on a running logger with room: the worker accepts exactly one line, which ends with
  the formatted message and a newline, and the line goes to the backup pool if and only if its level
  is ERROR or FATAL and the pool has not been stopped; a stopped pool costs the backup but not the
  line. Without a pool the two severe levels dereference a null pointer.
\<close>

theorem logged_line_accepted:
  assumes line: "line = message_format \<lparr>m_line = n, m_ctime = now, m_file_name = file, m_name = logger_name lg,
                   m_payload = ret, m_tid = tid, m_level = level\<rparr>"
    and room: "log_inv (buffer_productor (asyncworker lg))" "\<not> aw_stop (asyncworker lg)"
      "productor_ready line (asyncworker lg)" "log_fits cfg (buffer_productor (asyncworker lg)) (length line)"
  shows "(\<exists>lg' p'. logger_log level cfg now tid (Some ret) file n lg (Some p) = Inr (lg', Some p') \<and>
      (\<exists>before. line = before @ ret @ [CHR 0x0A]) \<and>
      aw_accepted (asyncworker lg') = aw_accepted (asyncworker lg) @ line \<and>
      log_content (buffer_productor (asyncworker lg')) = log_content (buffer_productor (asyncworker lg)) @ line \<and>
      enqueued p' = enqueued p @ (if (level = ERROR \<or> level = FATAL) \<and> \<not> pool_stop p then [line] else [])) \<and>
    (level = ERROR \<or> level = FATAL \<longrightarrow> logger_log level cfg now tid (Some ret) file n lg None = Inl Null_Deref)"
proof -
  obtain b where b: "log_put cfg line (buffer_productor (asyncworker lg)) = Inr b" "log_inv b"
    "log_content b = log_content (buffer_productor (asyncworker lg)) @ line"
    using log_put_ok [OF room(1,4)] by blast
  then have w: "AsyncWorker_Push cfg line (asyncworker lg) = Inr (notify_consumer
      ((asyncworker lg)\<lparr>buffer_productor := b, aw_accepted := aw_accepted (asyncworker lg) @ line\<rparr>))"
    using room(2,3) by (simp add: AsyncWorker_Push_def worker_push_def log_put_def)
  have "\<exists>before. line = before @ ret @ [CHR 0x0A]" by (simp add: line message_format_def Let_def)
  moreover have "logger_log level cfg now tid (Some ret) file n lg None = Inl Null_Deref" if "level = ERROR \<or> level = FATAL"
    using that by (auto simp: logger_log_def serialize_def backup_level_def Let_def)
  ultimately show ?thesis
    using w b(3) by (auto simp: logger_log_def serialize_def line [symmetric] logger_Flush_def backup_level_def pool_enqueue_def Let_def)
qed

definition roomy_logger :: async_logger where
  "roomy_logger = \<lparr>logger_name = ''l'', flushs = [Stdout_sink],
     asyncworker = new_worker\<lparr>buffer_productor := \<lparr>lb_data = replicate 100 (CHR 0x00), write_pos = 0, read_pos = 0\<rparr>\<rparr>\<rparr>"

theorem logged_line_accepted_witness:
  "\<exists>lg' p'. logger_log ERROR small_cfg noon ''7'' (Some ''boom'') ''a.c'' 3 roomy_logger (Some (ThreadPool_new 1)) = Inr (lg', Some p') \<and>
     enqueued p' = [''[12:00:00][7][ERROR][l][a.c: 3]'' @ [CHR 0x09] @ ''boom'' @ [CHR 0x0A]]"
proof -
  let ?line = "''[12:00:00][7][ERROR][l][a.c: 3]'' @ [CHR 0x09] @ ''boom'' @ [CHR 0x0A]"
  have l: "?line = message_format \<lparr>m_line = 3, m_ctime = noon, m_file_name = ''a.c'', m_name = logger_name roomy_logger,
      m_payload = ''boom'', m_tid = ''7'', m_level = ERROR\<rparr>" by code_simp
  have w: "log_inv (buffer_productor (asyncworker roomy_logger))" "\<not> aw_stop (asyncworker roomy_logger)"
    "productor_ready ?line (asyncworker roomy_logger)" "log_fits small_cfg (buffer_productor (asyncworker roomy_logger)) (length ?line)"
    by (simp_all add: roomy_logger_def log_inv_def new_worker_def productor_ready_def WriteableSize_def lb_size_def log_fits_def word_le_nat_alt)
  have "enqueued (ThreadPool_new 1) = []" "\<not> pool_stop (ThreadPool_new 1)" by (simp_all add: ThreadPool_new_def)
  with logged_line_accepted [OF l w, of "ThreadPool_new 1"] show ?thesis by auto
qed

text \<open>
  In a single thread the first registration of a name wins and \<open>GetLogger\<close> finds exactly the
  registered names; but \<open>AddLogger\<close> tests and stores in two separate critical sections, so of two
  threads that both pass the test the second one replaces the logger the first one stored.
\<close>

theorem addLogger_first_wins:
  "GetLogger name (AddLogger name a mg) = (case GetLogger name mg of None \<Rightarrow> Some a | Some b \<Rightarrow> Some b) \<and>
   (n \<noteq> name \<longrightarrow> GetLogger n (AddLogger name a mg) = GetLogger n mg) \<and>
   AddLogger name b (AddLogger name a mg) = AddLogger name a mg \<and>
   (\<not> LoggerExist name mg \<longrightarrow> GetLogger name (AddLogger_store name b (AddLogger_store name a mg)) = Some b)"
  by (auto simp: GetLogger_def AddLogger_def AddLogger_store_def LoggerExist_def split: option.split)

end
