(* ===== verification/Echo_Program.thy ===== *)
theory Echo_Program
  imports System_Runs Async_Logger
begin

text \<open>
  The example program \<open>src/testserver.cpp\<close> up to \<open>loop.loop()\<close>: the thread pool for the backup, the
  logger, the base loop, the echo server with its three I/O threads, and the start. Addresses are
  handed out in order: the base loop has number 0 and its wake-up channel address 1, the accept
  channel address 2, the objects of the I/O threads follow. The removal and creation of the log
  directory is not modelled; nothing later depends on it, because the logger writes to the standard
  output.
\<close>

section \<open>The program\<close>

definition testserver_logger :: "json_data \<Rightarrow> (async_logger \<times> async_logger \<times> logger_manager) res" where
  "testserver_logger cfg =
     bindR (LoggerManager_new cfg 0) (\<lambda>(dflt, mg).
     bindR (Build cfg (BuildLoggerName ''asynclogger'' LoggerBuilder_new)) (\<lambda>(lg, b).
       Inr (dflt, lg, AddLogger (logger_name lg) 1 mg)))"

definition testserver_setup ::
  "server_os \<Rightarrow> json_data \<Rightarrow> (string task_pool \<times> async_logger \<times> logger_manager \<times> server_world) res" where
  "testserver_setup os cfg =
     (let tp = ThreadPool_new (unat (thread_count cfg)) in
      bindR (testserver_logger cfg) (\<lambda>(dflt, lg, mg).
      bindR (EventLoop_new (os_use_poll os) (os_gettid os 0) (createEventfd os 0) 1 (Cb_wakeup 0) 0 None) (\<lambda>(t, l).
      bindR (EchoServer_new os 0 (InetAddress_new (os_inet_addr os) 8080 ''127.0.0.1'') ''EchoServer''
               \<lparr>w_loops = \<lambda>_. l, w_conns = Map.empty, w_strings = Map.empty, w_trace = []\<rparr> 2) (\<lambda>w.
      bindR (EchoServer_start os (os_gettid os 0) w) (\<lambda>w1.
        Inr (tp, lg, mg, w1))))))"

section \<open>A loop ready to run\<close>

definition loop_ready :: "int set \<Rightarrow> nat \<Rightarrow> int \<Rightarrow> server_world \<Rightarrow> bool" where
  "loop_ready fds io th w \<longleftrightarrow> loop_idle w io \<and> threadId (lget io w) = th \<and> wakeupChannel (lget io w) = Suc io \<and>
     (\<forall>q cq. chan_heap (poller (lget io w)) q = Some cq \<longrightarrow> ch_fd cq \<in> fds)"

lemma loop_idle_mono:
  assumes "loop_idle w l" and "lget l w' = lget l w" and "s_fresh w \<le> s_fresh w'" and "s_loop w' = s_loop w"
  shows "loop_idle w' l"
  using assms unfolding loop_idle_def sys_chan_def by (metis less_le_trans)

lemma loop_ready_mono:
  "loop_ready fds io th w \<Longrightarrow> lget io w' = lget io w \<Longrightarrow> s_fresh w \<le> s_fresh w' \<Longrightarrow> s_loop w' = s_loop w \<Longrightarrow> loop_ready fds io th w'"
  unfolding loop_ready_def using loop_idle_mono [of w io w'] by simp

lemma loop_readyD:
  assumes "loop_ready fds io th w"
  shows "poller_inv (poller (lget io w))" "pendingFunctors (lget io w) = []" "threadId (lget io w) = th" "wakeupChannel (lget io w) = Suc io"
    "\<exists>wch. chan_heap (poller (lget io w)) (wakeupChannel (lget io w)) = Some wch \<and> readCallback wch = Some (Cb_wakeup io) \<and> \<not> ch_tied wch"
    "\<forall>q cq. chan_heap (poller (lget io w)) q = Some cq \<longrightarrow> q < s_fresh w \<and> ch_fd cq \<in> fds"
proof -
  from assms have r: "loop_idle w io" "threadId (lget io w) = th" "wakeupChannel (lget io w) = Suc io"
    "\<And>q cq. chan_heap (poller (lget io w)) q = Some cq \<Longrightarrow> ch_fd cq \<in> fds" by (auto simp: loop_ready_def)
  show "poller_inv (poller (lget io w))" "pendingFunctors (lget io w) = []" "threadId (lget io w) = th" "wakeupChannel (lget io w) = Suc io"
    "\<forall>q cq. chan_heap (poller (lget io w)) q = Some cq \<longrightarrow> q < s_fresh w \<and> ch_fd cq \<in> fds"
    using r by (auto simp: loop_idle_def)
  obtain wch where "chan_heap (poller (lget io w)) (wakeupChannel (lget io w)) = Some wch" "readCallback wch = Some (Cb_wakeup io)"
    using r(1) by (auto simp: loop_idle_def wake_chan_def)
  moreover have "sys_chan w io (wakeupChannel (lget io w)) wch" using r(1) calculation(1) by (simp add: loop_idle_def)
  ultimately show "\<exists>wch. chan_heap (poller (lget io w)) (wakeupChannel (lget io w)) = Some wch \<and> readCallback wch = Some (Cb_wakeup io) \<and> \<not> ch_tied wch"
    by (auto simp: sys_chan_def)
qed

text \<open>The wake-up channel of a new loop, registered.\<close>

definition wake_only :: "nat \<Rightarrow> int \<Rightarrow> callback_t channel \<Rightarrow> bool" where
  "wake_only l evtfd ch \<longleftrightarrow> \<not> ch_tied ch \<and> readCallback ch = Some (Cb_wakeup l) \<and> writeCallback ch = None \<and> closeCallback ch = None \<and>
     errorCallback ch = None \<and> ch_index ch = ADDED \<and> isReading ch \<and> ch_fd ch = evtfd"

lemma wake_only_chan: "wake_only l evtfd ch \<Longrightarrow> sys_chan w l ptr ch"
  by (simp add: wake_only_def sys_chan_def)

lemma EventLoop_new_ready:
  "\<exists>(l :: (callback_t, functor_t) event_loop) wch. EventLoop_new False th evtfd ptr (Cb_wakeup io) io None = Inr (Some io, l) \<and>
     poller_inv (poller l) \<and> pendingFunctors l = [] \<and> \<not> callingPendingFunctors l \<and> threadId l = th \<and> wakeupChannel l = ptr \<and>
     chan_heap (poller l) = [ptr \<mapsto> wch] \<and> wake_only io evtfd wch \<and> eventListSize (poller l) = initEventListSize"
proof -
  let ?c = "(Channel_new io evtfd)\<lparr>readCallback := Some (Cb_wakeup io)\<rparr>"
  let ?p = "EpollPoller_new [ptr \<mapsto> ?c]"
  have coh: "coherent {} ?p Map.empty"
    by (simp add: coherent_def EpollPoller_new_def distinct_fds_def chan_ok_def Channel_new_def NEW_def)
  have c: "chan_heap ?p ptr = Some ?c" by (simp add: EpollPoller_new_def)
  note res = channel_set_events_ok [OF coh c, of mask_enableReading]
  have "chan_heap (mask_result mask_enableReading ?c ptr ?p) = [ptr \<mapsto> mask_chan mask_enableReading ?c]"
    "eventListSize (mask_result mask_enableReading ?c ptr ?p) = initEventListSize"
    by (simp_all add: mask_result_def update_result_def mask_chan_def Let_def EpollPoller_new_def)
  moreover have "poller_inv (mask_result mask_enableReading ?c ptr ?p)" using res(2) unfolding poller_inv_def by blast
  moreover have "isReading (mask_chan mask_enableReading ?c)" by (simp add: isReading_def enableReading_reading)
  then have "wake_only io evtfd (mask_chan mask_enableReading ?c)"
    unfolding wake_only_def using mask_chan_index [of mask_enableReading ?c]
    by simp (simp add: mask_chan_def Let_def set_index_def Channel_new_def)
  ultimately show ?thesis
    using res(1) by (auto simp: EventLoop_new_def newDefaultPoller_def enableReading_def Let_def)
qed

lemma start_loop_thread_ready:
  assumes "\<not> os_use_poll os" and "s_threadInitCallback w = None"
  shows "\<exists>l. start_loop_thread os user name w = Inr (s_fresh w, lput (s_fresh w) l (w\<lparr>s_fresh := Suc (Suc (s_fresh w))\<rparr>)) \<and>
    loop_ready {os_eventfd os (s_fresh w)} (s_fresh w) (os_gettid os (s_fresh w))
      (lput (s_fresh w) l (w\<lparr>s_fresh := Suc (Suc (s_fresh w))\<rparr>))"
proof -
  obtain l :: "(callback_t, functor_t) event_loop" and wch where l: "EventLoop_new False (os_gettid os (s_fresh w)) (os_eventfd os (s_fresh w)) (Suc (s_fresh w))
      (Cb_wakeup (s_fresh w)) (s_fresh w) None = Inr (Some (s_fresh w), l)"
    "poller_inv (poller l)" "pendingFunctors l = []" "\<not> callingPendingFunctors l" "threadId l = os_gettid os (s_fresh w)"
    "wakeupChannel l = Suc (s_fresh w)" "chan_heap (poller l) = [Suc (s_fresh w) \<mapsto> wch]" "wake_only (s_fresh w) (os_eventfd os (s_fresh w)) wch"
    using EventLoop_new_ready by blast
  let ?w = "lput (s_fresh w) l (w\<lparr>s_fresh := Suc (Suc (s_fresh w))\<rparr>)"
  have "s_fresh ?w = Suc (Suc (s_fresh w))" by (simp add: lput_def)
  then have "loop_ready {os_eventfd os (s_fresh w)} (s_fresh w) (os_gettid os (s_fresh w)) ?w"
    using l wake_only_chan [OF l(8)] by (auto simp: loop_ready_def loop_idle_def wake_chan_def wake_only_def split: if_splits)
  then show ?thesis using l(1) assms by (auto simp: start_loop_thread_def Let_def)
qed

text \<open>Starting the threads gives a ready loop for each and touches no other loop.\<close>

lemma start_threads_ready:
  assumes "\<not> os_use_poll os" and "s_threadInitCallback w = None" and "d = n - length (pool_threads p)"
    and "length (pool_threads p) \<le> n"
  shows "\<exists>p' w'. start_threads (start_loop_thread os user) [length (pool_threads p) ..< n] p w = Inr (p', w') \<and>
    pool_loops p' = pool_loops p @ map (\<lambda>k. s_fresh w + 2 * k) [0 ..< d] \<and>
    pool_next p' = pool_next p \<and> pool_baseLoop p' = pool_baseLoop p \<and> pool_numThreads p' = pool_numThreads p \<and>
    w' = w\<lparr>w_loops := w_loops w', s_fresh := s_fresh w + 2 * d\<rparr> \<and> (\<forall>a < s_fresh w. lget a w' = lget a w) \<and>
    (\<forall>k < d. loop_ready {os_eventfd os (s_fresh w + 2 * k)} (s_fresh w + 2 * k) (os_gettid os (s_fresh w + 2 * k)) w')"
  using assms(2-)
proof (induction d arbitrary: p w)
  case 0
  then show ?case by simp
next
  case (Suc d)
  let ?i = "length (pool_threads p)" and ?name = "pool_name p @ to_string (length (pool_threads p))" and ?f = "s_fresh w"
  have up: "[?i ..< n] = ?i # [Suc ?i ..< n]" using Suc.prems(2) by (simp add: upt_conv_Cons)
  obtain l where s: "start_loop_thread os user ?name w = Inr (?f, lput ?f l (w\<lparr>s_fresh := Suc (Suc ?f)\<rparr>))"
    and rdy: "loop_ready {os_eventfd os ?f} ?f (os_gettid os ?f) (lput ?f l (w\<lparr>s_fresh := Suc (Suc ?f)\<rparr>))"
    using start_loop_thread_ready [OF assms(1) Suc.prems(1)] by blast
  let ?w = "lput ?f l (w\<lparr>s_fresh := Suc (Suc ?f)\<rparr>)"
  let ?p = "p\<lparr>pool_threads := pool_threads p @ [?name], pool_loops := pool_loops p @ [?f]\<rparr>"
  have w: "s_fresh ?w = ?f + 2" "s_threadInitCallback ?w = None" "length (pool_threads ?p) = Suc ?i"
    using Suc.prems(1) by (simp_all add: lput_def)
  have d: "d = n - length (pool_threads ?p)" "length (pool_threads ?p) \<le> n"
    using Suc.prems(2,3) unfolding w(3) by linarith+
  obtain p' w' where r: "start_threads (start_loop_thread os user) [Suc ?i ..< n] ?p ?w = Inr (p', w')"
    "pool_loops p' = pool_loops ?p @ map (\<lambda>k. ?f + 2 + 2 * k) [0 ..< d]" "pool_next p' = pool_next ?p"
    "pool_baseLoop p' = pool_baseLoop ?p" "pool_numThreads p' = pool_numThreads ?p"
    "w' = ?w\<lparr>w_loops := w_loops w', s_fresh := ?f + 2 + 2 * d\<rparr>" "\<forall>a < ?f + 2. lget a w' = lget a ?w"
    "\<forall>k < d. loop_ready {os_eventfd os (?f + 2 + 2 * k)} (?f + 2 + 2 * k) (os_gettid os (?f + 2 + 2 * k)) w'"
    using Suc.IH [OF w(2) d] unfolding w(1,3) by (elim exE conjE) (rule that)
  have "start_threads (start_loop_thread os user) [?i ..< n] p w = Inr (p', w')" using s r(1) up by (simp add: Let_def)
  moreover have "pool_loops p' = pool_loops p @ map (\<lambda>k. ?f + 2 * k) [0 ..< Suc d]"
    using r(2) by (simp add: upt_conv_Cons map_Suc_upt [symmetric] comp_def del: upt_Suc map_Suc_upt)
  moreover have "w' = w\<lparr>w_loops := w_loops w', s_fresh := ?f + 2 * Suc d\<rparr>" by (subst r(6)) (simp add: lput_def)
  moreover have "\<forall>a < ?f. lget a w' = lget a w" using r(7) by (simp add: lget_def lput_def)
  moreover have "loop_ready {os_eventfd os (?f + 2 * k)} (?f + 2 * k) (os_gettid os (?f + 2 * k)) w'" if "k < Suc d" for k
  proof (cases k)
    case 0
    have "s_fresh ?w \<le> s_fresh w'" "s_loop w' = s_loop ?w" by (subst r(6), simp add: w(1))+
    then show ?thesis using loop_ready_mono [OF rdy] r(7) 0 by simp
  next
    case (Suc j)
    with r(8) that show ?thesis by (simp add: algebra_simps)
  qed
  ultimately show ?case using r(3-5) by (intro exI [of _ p'] exI [of _ w']) simp
qed

text \<open>Listening registers the accept channel and leaves the base loop idle.\<close>

lemma sys_chan_mask: "sys_chan w l ptr (mask_chan f ch) = sys_chan w l ptr ch"
  by (simp add: sys_chan_def mask_chan_def Let_def set_index_def)

lemma idle_listen:
  assumes idle: "loop_idle w base" and ch: "chan_heap (poller (lget base w)) ptr = Some ch" and ne: "ptr \<noteq> wakeupChannel (lget base w)"
    and pl: "poller_inv pl" "chan_heap pl = (chan_heap (poller (lget base w)))(ptr \<mapsto> mask_chan mask_enableReading ch)"
    and w1: "lget base w1 = (lget base w)\<lparr>poller := pl\<rparr>" "s_fresh w \<le> s_fresh w1" "s_loop w1 = s_loop w"
  shows "loop_idle w1 base"
proof -
  have "q < s_fresh w1 \<and> sys_chan w1 base q x" if q: "chan_heap pl q = Some x" for q x
  proof -
    obtain y where y: "chan_heap (poller (lget base w)) q = Some y" "sys_chan w base q x = sys_chan w base q y"
      using q ch sys_chan_mask [of w base ptr mask_enableReading ch] by (cases "q = ptr") (auto simp: pl(2))
    then have "q < s_fresh w" "sys_chan w base q x" using idle by (auto simp: loop_idle_def)
    with w1(2,3) show ?thesis by (simp add: sys_chan_def)
  qed
  moreover have "wake_chan base (lget base w1)" using idle ne by (simp add: loop_idle_def wake_chan_def w1(1) pl(2))
  ultimately show ?thesis using idle pl(1) by (simp add: loop_idle_def w1(1))
qed

text \<open>
  \<open>start\<close> of a server with \<open>n\<close> I/O threads, called in the thread of its base loop: the threads are
  started, each with a loop of its own, and the base loop watches the listening socket.
\<close>

lemma TcpServer_start_ready:
  assumes os: "\<not> os_use_poll os" and new: "s_started w = 0" "s_threadInitCallback w = None"
    and pool: "s_pool w = pool_setThreadNum (int n) (EventLoopThreadPool_new base name)"
    and base: "s_loop w = base" "base < s_fresh w" "threadId (lget base w) = tid"
    and idle: "loop_idle w base" and ch: "chan_heap (poller (lget base w)) (acc_channel (s_acceptor w)) = Some ch"
    and acc: "acc_channel (s_acceptor w) \<noteq> wakeupChannel (lget base w)"
  shows "\<exists>w1 m. TcpServer_start os user tid w = Inr w1 \<and>
    w1 = w\<lparr>w_loops := w_loops w1, w_trace := w_trace w @ [Sock (Call_listen (acc_sockfd (s_acceptor w)) 1024)],
      s_acceptor := (s_acceptor w)\<lparr>acc_listenning := True\<rparr>, s_pool := s_pool w1, s_started := 1, s_fresh := s_fresh w + 2 * n\<rparr> \<and>
    pool_loops (s_pool w1) = map (\<lambda>k. s_fresh w + 2 * k) [0 ..< n] \<and> pool_next (s_pool w1) = 0 \<and>
    (\<forall>k < n. loop_ready {os_eventfd os (s_fresh w + 2 * k)} (s_fresh w + 2 * k) (os_gettid os (s_fresh w + 2 * k)) w1) \<and>
    loop_idle w1 base \<and> threadId (lget base w1) = tid \<and> pool_inv (s_pool w1) \<and> pool_baseLoop (s_pool w1) = base \<and>
    chan_heap (poller (lget base w1)) = (chan_heap (poller (lget base w)))(acc_channel (s_acceptor w) \<mapsto> mask_chan mask_enableReading ch) \<and>
    eventListSize (poller (lget base w1)) = eventListSize (poller (lget base w)) \<and> ep_run (ctl_log (poller (lget base w1))) Map.empty = Some m \<and>
    m (ch_fd ch) = Some (mask_enableReading (ch_events ch), acc_channel (s_acceptor w))"
proof -
  have inv: "poller_inv (poller (lget base w))" using idle by (simp add: loop_idle_def)
  let ?w = "w\<lparr>s_started := 1\<rparr>" and ?p = "(s_pool w)\<lparr>pool_started := True\<rparr>" and ?f = "s_fresh w"
  have p: "length (pool_threads ?p) = 0" "pool_loops ?p = []" "pool_next ?p = 0" "nat (pool_numThreads (s_pool w)) = n"
    using pool by (simp_all add: pool_setThreadNum_def EventLoopThreadPool_new_def)
  have w: "s_fresh ?w = ?f" "s_threadInitCallback ?w = None" using new by simp_all
  obtain p' w' where r: "start_threads (start_loop_thread os user) [0 ..< n] ?p ?w = Inr (p', w')"
    "pool_loops p' = [] @ map (\<lambda>k. ?f + 2 * k) [0 ..< n]" "pool_next p' = 0" "w' = ?w\<lparr>w_loops := w_loops w', s_fresh := ?f + 2 * n\<rparr>"
    "\<forall>a < ?f. lget a w' = lget a ?w"
    "\<forall>k < n. loop_ready {os_eventfd os (?f + 2 * k)} (?f + 2 * k) (os_gettid os (?f + 2 * k)) w'" "pool_baseLoop p' = pool_baseLoop ?p"
    using start_threads_ready [of os ?w n n ?p user, unfolded p(1-3) w(1), OF os w(2)] by auto
  define w2 where "w2 = w'\<lparr>s_pool := p'\<rparr>"
  have w': "s_loop w' = base" "s_acceptor w' = s_acceptor w" "w_trace w' = w_trace w" "lget base w' = lget base w"
    using r(5) base by (subst r(4), simp add: lget_def)+
  have l2: "lget k w2 = lget k w'" "s_loop w2 = base" "s_acceptor w2 = s_acceptor w" for k
    using w' by (simp_all add: w2_def) (simp add: lget_def)
  obtain pl m where a: "Acceptor_listen w2 = Inr (lput base ((lget base w)\<lparr>poller := pl\<rparr>)
      (emit [Sock (Call_listen (acc_sockfd (s_acceptor w)) 1024)] (w2\<lparr>s_acceptor := (s_acceptor w)\<lparr>acc_listenning := True\<rparr>\<rparr>)))"
    "poller_inv pl" "chan_heap pl = (chan_heap (poller (lget base w)))(acc_channel (s_acceptor w) \<mapsto> mask_chan mask_enableReading ch)"
    "eventListSize pl = eventListSize (poller (lget base w))" "ep_run (ctl_log pl) Map.empty = Some m" "m (ch_fd ch) = Some (mask_enableReading (ch_events ch), acc_channel (s_acceptor w))"
    using Acceptor_listen_ok [of w2 ch] inv ch unfolding l2 w'(4) by blast
  let ?w1 = "lput base ((lget base w)\<lparr>poller := pl\<rparr>)
      (emit [Sock (Call_listen (acc_sockfd (s_acceptor w)) 1024)] (w2\<lparr>s_acceptor := (s_acceptor w)\<lparr>acc_listenning := True\<rparr>\<rparr>))"
  have "isInLoopThread tid (lget base w2)" using base(3) by (simp add: isInLoopThread_def l2 w'(4))
  moreover have "pool_start (start_loop_thread os user) None (s_pool w) ?w = Inr (p', w')"
    using r(1) p(4) by (simp add: pool_start_def)
  ultimately have "TcpServer_start os user tid w = Inr ?w1"
    using new a(1) w'(1) by (simp add: TcpServer_start_def Let_def runInLoop_def w2_def)
  moreover have "?w1 = w\<lparr>w_loops := w_loops ?w1, w_trace := w_trace w @ [Sock (Call_listen (acc_sockfd (s_acceptor w)) 1024)],
      s_acceptor := (s_acceptor w)\<lparr>acc_listenning := True\<rparr>, s_pool := s_pool ?w1, s_started := 1, s_fresh := ?f + 2 * n\<rparr>"
    unfolding w2_def by (subst r(4), subst (3) r(4)) (simp add: lput_def emit_def)
  moreover have "s_pool ?w1 = p'" by (simp add: w2_def lput_def emit_def)
  moreover have "loop_ready {os_eventfd os (?f + 2 * k)} (?f + 2 * k) (os_gettid os (?f + 2 * k)) ?w1" if "k < n" for k
  proof (rule loop_ready_mono [OF r(6) [rule_format, OF that]])
    show "lget (?f + 2 * k) ?w1 = lget (?f + 2 * k) w'" using base(2) by (simp add: l2(1)) (simp add: lget_def emit_def w2_def)
    show "s_fresh w' \<le> s_fresh ?w1" "s_loop ?w1 = s_loop w'" by (simp_all add: lput_def emit_def w2_def)
  qed
  moreover have "poller (lget base ?w1) = pl" "threadId (lget base ?w1) = tid" using base(3) by simp_all
  moreover have "loop_idle ?w1 base"
  proof (rule idle_listen [OF idle ch acc a(2,3)])
    have "s_fresh w' = ?f + 2 * n" by (subst r(4)) simp
    then show "s_fresh w \<le> s_fresh ?w1" by (simp add: lput_def w2_def emit_def)
    show "s_loop ?w1 = s_loop w" using w'(1) base(1) by (simp add: lput_def w2_def emit_def)
  qed simp
  moreover have "length (pool_threads p') = length (pool_loops p')"
    using start_threads_ok [of "start_loop_thread os user" ?p n ?w p' w'] r(1) p by simp
  then have "pool_inv p'" using r(3) by (simp add: pool_inv_def)
  moreover have "pool_baseLoop p' = base" using r(7) pool by (simp add: pool_setThreadNum_def EventLoopThreadPool_new_def)
  ultimately show ?thesis using r(2,3) a(3-6) by (intro exI [of _ ?w1] exI [of _ m]) auto
qed

lemma poller_inv_alloc:
  assumes "poller_inv p" and "chan_heap p ptr = None"
    and "\<forall>q cq. chan_heap p q = Some cq \<longrightarrow> ch_fd cq \<noteq> ch_fd c" and "ch_index c = NEW"
  shows "poller_inv (store ptr c p)"
  using assms coherent_alloc unfolding poller_inv_def by blast

lemma EchoServer_new_ok:
  "\<exists>ip. EchoServer_new os lid addr name \<lparr>w_loops = ls, w_conns = Map.empty, w_strings = Map.empty, w_trace = []\<rparr> fresh =
     Inr \<lparr>w_loops = ls(lid := (ls lid)\<lparr>poller := store fresh (setReadCallback Cb_accept (Channel_new lid (os_socket os))) (poller (ls lid))\<rparr>),
       w_conns = Map.empty, w_strings = Map.empty,
       w_trace = map Sock (setReuseAddr True (os_socket os) @ setReusePort True (os_socket os) @ bindAddress (os_socket os) addr),
       s_loop = lid, s_ipPort = ip, s_name = name,
       s_acceptor = \<lparr>acc_sockfd = os_socket os, acc_channel = fresh, acc_listenning = False, acc_callback = True\<rparr>,
       s_pool = pool_setThreadNum 3 (EventLoopThreadPool_new lid name), s_connectionCallback = Some 0, s_messageCallback = Some 0,
       s_writeCompleteCallback = None, s_threadInitCallback = None, s_started = 0, s_nextConnId = 1, s_connections = Map.empty,
       s_fresh = Suc fresh\<rparr>"
  by (simp add: EchoServer_new_def TcpServer_new_def toIpPort_ok Acceptor_new_def TcpServer_setThreadNum_def Let_def
      world.defs server_world.defs lput_def lget_def emit_def)

text \<open>The threads of the started program, each in front of its first poll.\<close>

definition booted :: "server_world \<Rightarrow> srv_sys" where
  "booted w = \<lparr>sy_world = w, sy_pc = \<lambda>_. At_poll\<rparr>"

text \<open>The logger of the program: the default sink, since no sink was added before \<open>Build\<close>.\<close>

lemma testserver_logger_ok:
  assumes "AsyncWorker_new cfg ASYNC_SAFE = Inr wk"
  shows "\<exists>dflt lg mg. testserver_logger cfg = Inr (dflt, lg, mg) \<and> GetLogger ''asynclogger'' mg = Some 1 \<and> GetLogger ''asyclogger'' mg = None \<and>
    logger_name lg = ''asynclogger'' \<and> flushs lg = [Stdout_sink]"
  using assms
  by (simp add: testserver_logger_def LoggerManager_new_def Build_def AsyncLogger_new_def BuildLoggerName_def LoggerBuilder_new_def
      GetLogger_def AddLogger_def AddLogger_store_def LoggerExist_def)

lemma testserver_setup_ok:
  assumes os: "\<not> os_use_poll os" "os_socket os \<noteq> os_eventfd os 0" and wk: "AsyncWorker_new cfg ASYNC_SAFE = Inr wk"
  shows "\<exists>tp lg mg w m. testserver_setup os cfg = Inr (tp, lg, mg, w) \<and>
    GetLogger ''asynclogger'' mg = Some 1 \<and> GetLogger ''asyclogger'' mg = None \<and> logger_name lg = ''asynclogger'' \<and> flushs lg = [Stdout_sink] \<and>
    pool_loops (s_pool w) = [3, 5, 7] \<and> pool_next (s_pool w) = 0 \<and> s_fresh w = 9 \<and> s_nextConnId w = 1 \<and> s_connections w = Map.empty \<and>
    w_conns w = Map.empty \<and> s_connectionCallback w = Some 0 \<and> s_messageCallback w = Some 0 \<and> s_writeCompleteCallback w = None \<and>
    (\<forall>io \<in> {3, 5, 7}. loop_ready {os_eventfd os io} io (os_gettid os io) w) \<and>
    (distinct (map (os_gettid os) [0, 3, 5, 7]) \<longrightarrow> srv_idle (booted w)) \<and>
    s_loop w = 0 \<and> s_acceptor w = \<lparr>acc_sockfd = os_socket os, acc_channel = 2, acc_listenning = True, acc_callback = True\<rparr> \<and>
    threadId (lget 0 w) = os_gettid os 0 \<and> eventListSize (poller (lget 0 w)) = initEventListSize \<and>
    (\<exists>wch. wake_only 0 (os_eventfd os 0) wch \<and> chan_heap (poller (lget 0 w)) = [1 \<mapsto> wch,
       2 \<mapsto> mask_chan mask_enableReading (setReadCallback Cb_accept (Channel_new 0 (os_socket os)))]) \<and>
    ep_run (ctl_log (poller (lget 0 w))) Map.empty = Some m \<and> m (os_socket os) = Some (mask_enableReading 0, 2) \<and>
    (\<exists>addr. w_trace w = map Sock (setReuseAddr True (os_socket os) @ setReusePort True (os_socket os) @ bindAddress (os_socket os) addr @
      [Call_listen (os_socket os) 1024]) \<and> toPort addr = 8080)"
proof -
  let ?tid = "os_gettid os 0" and ?addr = "InetAddress_new (os_inet_addr os) 8080 ''127.0.0.1''"
  obtain l :: "(callback_t, functor_t) event_loop" and wch where
    l: "EventLoop_new False ?tid (os_eventfd os 0) 1 (Cb_wakeup 0) 0 None = Inr (Some 0, l)"
      "poller_inv (poller l)" "pendingFunctors l = []" "\<not> callingPendingFunctors l" "threadId l = ?tid" "wakeupChannel l = 1"
      "chan_heap (poller l) = [1 \<mapsto> wch]" "wake_only 0 (os_eventfd os 0) wch" "eventListSize (poller l) = initEventListSize"
    using EventLoop_new_ready by blast
  obtain ip w where s: "EchoServer_new os 0 ?addr ''EchoServer''
      \<lparr>w_loops = \<lambda>_. l, w_conns = Map.empty, w_strings = Map.empty, w_trace = []\<rparr> 2 = Inr w" and
    w: "w = \<lparr>w_loops = (\<lambda>_. l)(0 := l\<lparr>poller := store 2 (setReadCallback Cb_accept (Channel_new 0 (os_socket os))) (poller l)\<rparr>),
       w_conns = Map.empty, w_strings = Map.empty,
       w_trace = map Sock (setReuseAddr True (os_socket os) @ setReusePort True (os_socket os) @ bindAddress (os_socket os) ?addr),
       s_loop = 0, s_ipPort = ip, s_name = ''EchoServer'',
       s_acceptor = \<lparr>acc_sockfd = os_socket os, acc_channel = 2, acc_listenning = False, acc_callback = True\<rparr>,
       s_pool = pool_setThreadNum 3 (EventLoopThreadPool_new 0 ''EchoServer''), s_connectionCallback = Some 0, s_messageCallback = Some 0,
       s_writeCompleteCallback = None, s_threadInitCallback = None, s_started = 0, s_nextConnId = 1, s_connections = Map.empty,
       s_fresh = Suc 2\<rparr>"
    using EchoServer_new_ok [of os 0 ?addr "''EchoServer''" "\<lambda>_. l" 2] by auto
  let ?ch = "setReadCallback Cb_accept (Channel_new 0 (os_socket os)) :: callback_t channel"
  have "poller_inv (store 2 ?ch (poller l))"
    by (rule poller_inv_alloc [OF l(2)]) (use l(7,8) os(2) in \<open>auto simp: Channel_new_def NEW_def wake_only_def\<close>)
  then have "loop_idle w 0"
    using l wake_only_chan [OF l(8), of w] by (auto simp: w loop_idle_def lget_def wake_chan_def wake_only_def sys_chan_def Channel_new_def)
  then have st: "s_started w = 0" "s_threadInitCallback w = None" "s_pool w = pool_setThreadNum (int 3) (EventLoopThreadPool_new 0 ''EchoServer'')"
    "s_loop w = 0" "0 < s_fresh w" "threadId (lget 0 w) = ?tid" "loop_idle w 0"
    "chan_heap (poller (lget 0 w)) (acc_channel (s_acceptor w)) = Some ?ch" "acc_channel (s_acceptor w) \<noteq> wakeupChannel (lget 0 w)"
    by (simp_all add: w l(5,6) lget_def)
  obtain w1 m where r: "TcpServer_start os (echo_user (os_calls.truncate os) ?tid) ?tid w = Inr w1"
    "w1 = w\<lparr>w_loops := w_loops w1, w_trace := w_trace w @ [Sock (Call_listen (acc_sockfd (s_acceptor w)) 1024)],
      s_acceptor := (s_acceptor w)\<lparr>acc_listenning := True\<rparr>, s_pool := s_pool w1, s_started := 1, s_fresh := s_fresh w + 2 * 3\<rparr>"
    "pool_loops (s_pool w1) = map (\<lambda>k. s_fresh w + 2 * k) [0 ..< 3]" "pool_next (s_pool w1) = 0"
    "\<forall>k < 3. loop_ready {os_eventfd os (s_fresh w + 2 * k)} (s_fresh w + 2 * k) (os_gettid os (s_fresh w + 2 * k)) w1"
    "loop_idle w1 0" "threadId (lget 0 w1) = ?tid" "pool_inv (s_pool w1)" "pool_baseLoop (s_pool w1) = 0"
    "chan_heap (poller (lget 0 w1)) = (chan_heap (poller (lget 0 w)))(acc_channel (s_acceptor w) \<mapsto> mask_chan mask_enableReading ?ch)"
    "eventListSize (poller (lget 0 w1)) = eventListSize (poller (lget 0 w))" "ep_run (ctl_log (poller (lget 0 w1))) Map.empty = Some m"
    "m (ch_fd ?ch) = Some (mask_enableReading (ch_events ?ch), acc_channel (s_acceptor w))"
    using TcpServer_start_ready [OF os(1) st] by blast
  obtain dflt lg mg where g: "testserver_logger cfg = Inr (dflt, lg, mg)" "GetLogger ''asynclogger'' mg = Some 1" "GetLogger ''asyclogger'' mg = None"
    "logger_name lg = ''asynclogger''" "flushs lg = [Stdout_sink]"
    using testserver_logger_ok [OF wk] by blast
  have f: "s_fresh w = 3" by (simp add: w)
  have made: "testserver_setup os cfg = Inr (ThreadPool_new (unat (thread_count cfg)), lg, mg, w1)"
    using g(1) l(1) s r(1) os(1) by (simp add: testserver_setup_def EchoServer_start_def)
  have loops: "pool_loops (s_pool w1) = [3, 5, 7]" using r(3) by (simp add: f upt_conv_Cons numeral_3_eq_3)
  have ready: "\<forall>io \<in> {3, 5, 7}. loop_ready {os_eventfd os io} io (os_gettid os io) w1"
    using r(5) [rule_format, of 0] r(5) [rule_format, of 1] r(5) [rule_format, of 2] by (simp add: f)
  have fields: "s_fresh w1 = 9 \<and> s_nextConnId w1 = 1 \<and> s_connections w1 = Map.empty \<and>
    w_conns w1 = Map.empty \<and> s_connectionCallback w1 = Some 0 \<and> s_messageCallback w1 = Some 0 \<and> s_writeCompleteCallback w1 = None"
    by (intro conjI; subst r(2)) (simp_all add: w)
  have srv: "s_loop w1 = 0" "acc_callback (s_acceptor w1)" by (subst r(2), simp add: w)+
  have base: "s_loop w1 = 0 \<and> s_acceptor w1 = \<lparr>acc_sockfd = os_socket os, acc_channel = 2, acc_listenning = True, acc_callback = True\<rparr> \<and>
    threadId (lget 0 w1) = os_gettid os 0 \<and> eventListSize (poller (lget 0 w1)) = initEventListSize \<and>
    (\<exists>wch. wake_only 0 (os_eventfd os 0) wch \<and> chan_heap (poller (lget 0 w1)) = [1 \<mapsto> wch,
       2 \<mapsto> mask_chan mask_enableReading (setReadCallback Cb_accept (Channel_new 0 (os_socket os)))])"
  proof (intro conjI exI [of _ wch])
    show "s_acceptor w1 = \<lparr>acc_sockfd = os_socket os, acc_channel = 2, acc_listenning = True, acc_callback = True\<rparr>" by (subst r(2)) (simp add: w)
  qed (use r(7,10,11) l(7-9) srv in \<open>simp_all add: w lget_def\<close>)
  have "srv_idle (booted w1)" if "distinct (map (os_gettid os) [0, 3, 5, 7])"
    using that r(6-9) srv loops ready fields
    by (auto simp: srv_idle_def booted_def srv_base_def srv_loops_def names_inv_def loop_ready_def)
  moreover have "w_trace w1 = map Sock (setReuseAddr True (os_socket os) @ setReusePort True (os_socket os) @
      bindAddress (os_socket os) ?addr @ [Call_listen (os_socket os) 1024])"
    by (subst r(2)) (simp add: w)
  moreover have "toPort ?addr = 8080" by (simp add: toPort_def InetAddress_new_def ntohs_htons)
  moreover have "m (os_socket os) = Some (mask_enableReading 0, 2)" using r(13) by (simp add: w Channel_new_def)
  ultimately show ?thesis using g(2-) r(4,12) made loops ready fields base
    by (intro exI [of _ "ThreadPool_new (unat (thread_count cfg))"] exI [of _ lg] exI [of _ mg] exI [of _ w1] exI [of _ m]) blast
qed

section \<open>Properties\<close>



end
