(* ===== verification/System_Quiet.thy ===== *)
theory System_Quiet
  imports System_Runs
begin

text \<open>
  The server comes to rest. When no descriptor reports anything, every loop runs its queued functors: one
  round of each loop in turn and one more of the base loop empty all queues.
\<close>

section \<open>Quiet steps\<close>

text \<open>A kernel that accepts nothing; \<open>epoll_wait\<close> times out without events.\<close>

definition os_quiet :: "server_os \<Rightarrow> bool" where
  "os_quiet os \<longleftrightarrow> readv_ok (os_readv os) \<and> write_ok (os_write os) \<and> (\<forall>fd n. \<exists>e. os_accept4 os fd n = Inl e)"

definition no_events :: "nat \<Rightarrow> errno + (c_int \<times> nat) list" where
  "no_events = (\<lambda>n. Inr [])"

lemma quiet_kernel:
  assumes "os_quiet os"
  shows "kernel_ok os no_events l s"
proof -
  have "os_accept4 os fd n \<noteq> Inr x" for fd n x using assms unfolding os_quiet_def by (metis sum.distinct(1))
  then show ?thesis using assms by (simp add: kernel_ok_def accept_ok_def os_quiet_def wait_ok_def no_events_def)
qed

text \<open>Functors that only end connections.\<close>

definition dest_only :: "functor_t list \<Rightarrow> bool" where
  "dest_only fs \<longleftrightarrow> (\<forall>f \<in> set fs. \<exists>cid. f = F_connectDestroyed cid)"

definition no_remove :: "functor_t list \<Rightarrow> bool" where
  "no_remove fs \<longleftrightarrow> (\<forall>cid. F_removeConnectionInLoop cid \<notin> set fs)"

lemma dest_only_simps [simp]: "dest_only []" "dest_only (fs @ gs) \<longleftrightarrow> dest_only fs \<and> dest_only gs" "dest_only [F_connectDestroyed cid]"
  by (auto simp: dest_only_def)

lemma no_remove_simps [simp]: "no_remove []" "no_remove (fs @ gs) \<longleftrightarrow> no_remove fs \<and> no_remove gs"
  "\<not> no_remove [F_removeConnectionInLoop cid]"
  by (auto simp: no_remove_def)

lemma no_remove_Cons: "no_remove (f # fs) \<longleftrightarrow> no_remove [f] \<and> no_remove fs"
  by (auto simp: no_remove_def)

lemma dest_no_remove: "dest_only fs \<Longrightarrow> no_remove fs"
  by (auto simp: dest_only_def no_remove_def)

text \<open>What a quiet step leaves as it is, and how the queues may grow.\<close>

definition quiet_change :: "bool \<Rightarrow> server_world \<Rightarrow> server_world \<Rightarrow> bool" where
  "quiet_change still w w' \<longleftrightarrow> s_nextConnId w' = s_nextConnId w \<and> srv_loops w' = srv_loops w \<and>
     (still \<longrightarrow> s_connections w' = s_connections w) \<and>
     (\<forall>k c'. w_conns w' k = Some c' \<longrightarrow> (\<exists>c. w_conns w k = Some c \<and> read_room c' = read_room c)) \<and>
     (\<forall>a. \<exists>new. pendingFunctors (lget a w') = pendingFunctors (lget a w) @ new \<and> dest_only new \<and> (still \<longrightarrow> new = []))"

lemma quiet_change_trans:
  assumes "quiet_change b1 w w1" and "quiet_change b2 w1 w2" and "b \<Longrightarrow> b1 \<and> b2"
  shows "quiet_change b w w2"
proof -
  have "\<exists>c. w_conns w k = Some c \<and> read_room c' = read_room c" if "w_conns w2 k = Some c'" for k c'
    using that assms(1,2) unfolding quiet_change_def by metis
  moreover have "\<exists>new. pendingFunctors (lget a w2) = pendingFunctors (lget a w) @ new \<and> dest_only new \<and> (b \<longrightarrow> new = [])" for a
  proof -
    obtain n1 where "pendingFunctors (lget a w1) = pendingFunctors (lget a w) @ n1" "dest_only n1" "b1 \<longrightarrow> n1 = []"
      using assms(1) unfolding quiet_change_def by blast
    moreover obtain n2 where "pendingFunctors (lget a w2) = pendingFunctors (lget a w1) @ n2" "dest_only n2" "b2 \<longrightarrow> n2 = []"
      using assms(2) unfolding quiet_change_def by blast
    ultimately show ?thesis using assms(3) by (intro exI [of _ "n1 @ n2"]) auto
  qed
  ultimately show ?thesis using assms unfolding quiet_change_def by simp
qed

lemma quiet_same:
  assumes "world.more w' = world.more w" and "\<And>a. pendingFunctors (lget a w') = pendingFunctors (lget a w)"
    and "\<And>k c'. w_conns w' k = Some c' \<Longrightarrow> \<exists>c. w_conns w k = Some c \<and> read_room c' = read_room c"
  shows "quiet_change b w (w' :: server_world)"
  using assms server_fields [OF assms(1)] by (simp add: quiet_change_def srv_loops_def)

lemma quiet_touch:
  assumes t: "touch cid c ch c' ch' w (w' :: server_world)" and c: "w_conns w cid = Some c" and "read_room c' = read_room c"
  shows "quiet_change b w w'"
proof (rule quiet_same [OF touchD(4) [OF t]])
  show "\<exists>d. w_conns w k = Some d \<and> read_room ck = read_room d" if "w_conns w' k = Some ck" for k ck
    using that assms(2,3) touchD(5) [OF t] by (cases "k = cid") auto
qed (simp add: touch_frame(6) [OF t])

lemma quiet_calm:
  assumes "calm s" and q: "quiet_change b (sy_world s) (sy_world s')"
  shows "calm s'"
  unfolding calm_def
proof (intro conjI allI impI)
  show "s_nextConnId (sy_world s') < 2 ^ 31 - 1" using assms by (simp add: calm_def quiet_change_def)
  fix k c' assume "w_conns (sy_world s') k = Some c'"
  then obtain c where "w_conns (sy_world s) k = Some c" "read_room c' = read_room c" using q unfolding quiet_change_def by blast
  with assms(1) show "read_room c'" by (simp add: calm_def)
qed

lemma released_more: "released held w w' \<Longrightarrow> world.more w' = world.more w"
  by (induction rule: released.induct) (simp_all add: destroyed_frame(2))

text \<open>One functor.\<close>

lemma functor_quiet:
  assumes at: "sy_pc s l = At_functors held (f # fs)" and e: "step_effect os l s s'"
  shows "sy_pc s' = (sy_pc s)(l := At_functors held fs)" "quiet_change (no_remove [f]) (sy_world s) (sy_world s')"
proof -
  have "sy_pc s' = (sy_pc s)(l := At_functors held fs) \<and> quiet_change (no_remove [f]) (sy_world s) (sy_world s')"
    using e
  proof (cases rule: step_effect.cases)
    case (E_established held' cid fs' c ch ch' w')
    have "quiet_change (no_remove [f]) (sy_world s) w'"
      by (rule quiet_touch [OF E_established(7) conn_okD(1) [OF E_established(3)]]) (simp add: read_room_def below_mark_def)
    then show ?thesis using E_established(1,2) at by simp
  next
    case (E_destroyed held' cid fs' c ch ch' w')
    have "quiet_change (no_remove [f]) (sy_world s) w'"
      by (rule quiet_touch [OF E_destroyed(8) conn_okD(1) [OF E_destroyed(3)]]) (simp add: read_room_def below_mark_def)
    then show ?thesis using E_destroyed(1,2) at by simp
  next
    case (E_remove held' cid fs' c ch)
    have "quiet_change (no_remove [f]) (sy_world s)
        (queue_on (threadId (lget l (sy_world s))) (c_loop c) (F_connectDestroyed cid) (unmap c (sy_world s)))"
      using E_remove(2) at unfolding quiet_change_def
      by (auto simp: pending_queue) (simp add: queue_on_def lput_def unmap_def)
    then show ?thesis using E_remove(1,2) at by simp
  qed (use at in simp_all)
  then show "sy_pc s' = (sy_pc s)(l := At_functors held fs)" "quiet_change (no_remove [f]) (sy_world s) (sy_world s')" by blast+
qed

section \<open>A quiet round of one loop\<close>

lemma quiet_step:
  assumes "os_quiet os" and "sys_ok s" and "calm s" and "l \<in> set (srv_loops (sy_world s))"
  shows "\<exists>s'. srv_step os no_events now l s = Inr s' \<and> sys_ok s' \<and> step_effect os l s s' \<and> srv_move s s'"
  using step_ok [OF assms(2,4) quiet_kernel [OF assms(1)] assms(3)] move [OF assms(4) quiet_kernel [OF assms(1)] assms(3)] by blast

lemma run_functors_quiet:
  assumes os: "os_quiet os" and "sys_ok s" and "calm s" and "l \<in> set (srv_loops (sy_world s))" and "sy_pc s l = At_functors held fs"
  shows "\<exists>s'. srv_run (replicate (length fs) (os, no_events, now, l)) s = Inr s' \<and> sys_ok s' \<and> calm s' \<and> srv_move\<^sup>*\<^sup>* s s' \<and>
    sy_pc s' = (sy_pc s)(l := At_functors held []) \<and> quiet_change (no_remove fs) (sy_world s) (sy_world s')"
  using assms(2-)
proof (induction fs arbitrary: s)
  case Nil
  have "quiet_change True (sy_world s) (sy_world s)" by (rule quiet_same) auto
  with Nil show ?case by (auto simp: fun_upd_idem)
next
  case (Cons f fs)
  obtain s1 where 1: "srv_step os no_events now l s = Inr s1" "sys_ok s1" "step_effect os l s s1" "srv_move s s1"
    using quiet_step [OF os Cons.prems(1-3)] by blast
  note q = functor_quiet [OF Cons.prems(4) 1(3)]
  have c1: "calm s1" by (rule quiet_calm [OF Cons.prems(2) q(2)])
  have l1: "l \<in> set (srv_loops (sy_world s1))" using Cons.prems(3) q(2) by (simp add: quiet_change_def)
  have at: "sy_pc s1 l = At_functors held fs" using q(1) by simp
  obtain s' where s': "srv_run (replicate (length fs) (os, no_events, now, l)) s1 = Inr s'" "sys_ok s'" "calm s'"
    "sy_pc s' = (sy_pc s1)(l := At_functors held [])" "srv_move\<^sup>*\<^sup>* s1 s'" "quiet_change (no_remove fs) (sy_world s1) (sy_world s')"
    using Cons.IH [OF 1(2) c1 l1 at] by blast
  have "quiet_change (no_remove (f # fs)) (sy_world s) (sy_world s')"
    by (rule quiet_change_trans [OF q(2) s'(6)]) (simp add: no_remove_Cons [of f fs])
  with 1(1) s' q(1) converse_rtranclp_into_rtranclp [of srv_move, OF 1(4) s'(5)] show ?case by (auto simp: fun_eq_iff)
qed

lemma run_append: "srv_run (xs @ ys) s = bindR (srv_run xs s) (srv_run ys)"
  by (induction xs s rule: srv_run.induct) (simp_all add: bindR_assoc cong: bindR_cong)

definition quiet_round :: "server_os \<Rightarrow> int \<Rightarrow> nat \<Rightarrow> srv_sys \<Rightarrow> srv_label list" where
  "quiet_round os now l s = replicate (length (pendingFunctors (lget l (sy_world s))) + 3) (os, no_events, now, l)"

lemma round_poll:
  assumes os: "os_quiet os" and ok: "sys_ok s" and calm: "calm s" and l: "l \<in> set (srv_loops (sy_world s))" and at: "sy_pc s l = At_poll"
  shows "\<exists>s'. srv_step os no_events now l s = Inr s' \<and> sys_ok s' \<and> srv_move s s' \<and> sy_pc s' = (sy_pc s)(l := At_channels []) \<and>
    quiet_change True (sy_world s) (sy_world s')"
proof -
  let ?w = "sy_world s"
  obtain s' where s': "srv_step os no_events now l s = Inr s'" "sys_ok s'" "srv_move s s'" using quiet_step [OF os ok calm l] by blast
  have "poller_inv (poller (lget l ?w))" by (rule srv_heapsD(1) [OF coreD(2) [OF sys_okD(5) [OF ok]] l])
  then obtain m where coh: "coherent {} (poller (lget l ?w)) m" by (auto simp: poller_inv_def)
  have "wait_ok m no_events" by (simp add: wait_ok_def no_events_def)
  from poll_ok [OF coh this, of "[]"] obtain p where "poll no_events [] (poller (lget l ?w)) = Inr ([], p)" by (auto simp: no_events_def)
  then have eq: "s' = go l (At_channels []) (lput l ((lget l ?w)\<lparr>activeChannels := [], poller := p, pollReturnTime := now\<rparr>) ?w) s"
    using s'(1) at by (simp add: srv_step_def Let_def)
  have "quiet_change True ?w (sy_world s')" unfolding eq go_simps by (rule quiet_same) auto
  with s' eq show ?thesis by simp
qed

lemma round_swap:
  assumes os: "os_quiet os" and ok: "sys_ok s" and calm: "calm s" and l: "l \<in> set (srv_loops (sy_world s))" and at: "sy_pc s l = At_channels []"
  shows "\<exists>s' fs. srv_step os no_events now l s = Inr s' \<and> sys_ok s' \<and> calm s' \<and> srv_move s s' \<and> fs = pendingFunctors (lget l (sy_world s)) \<and>
    sy_pc s' = (sy_pc s)(l := At_functors fs fs) \<and> srv_loops (sy_world s') = srv_loops (sy_world s) \<and>
    s_connections (sy_world s') = s_connections (sy_world s) \<and>
    (\<forall>a. pendingFunctors (lget a (sy_world s')) = (if a = l then [] else pendingFunctors (lget a (sy_world s))))"
proof -
  obtain s' where s': "srv_step os no_events now l s = Inr s'" "sys_ok s'" "srv_move s s'" using quiet_step [OF os ok calm l] by blast
  let ?fs = "pendingFunctors (lget l (sy_world s))"
  have eq: "s' = go l (At_functors ?fs ?fs)
      (lput l ((lget l (sy_world s))\<lparr>callingPendingFunctors := True, pendingFunctors := []\<rparr>) (sy_world s)) s"
    using s'(1) at by (simp add: srv_step_def Let_def)
  have "calm s'" using calm by (simp add: eq calm_def) (simp add: lput_def)
  with s' show ?thesis by (simp add: eq)
qed

lemma round_end:
  assumes os: "os_quiet os" and ok: "sys_ok s" and calm: "calm s" and l: "l \<in> set (srv_loops (sy_world s))" and at: "sy_pc s l = At_functors held []"
  shows "\<exists>s'. srv_step os no_events now l s = Inr s' \<and> sys_ok s' \<and> srv_move s s' \<and> sy_pc s' = (sy_pc s)(l := At_poll) \<and>
    quiet_change True (sy_world s) (sy_world s')"
proof -
  obtain s' where s': "srv_step os no_events now l s = Inr s'" "sys_ok s'" "step_effect os l s s'" "srv_move s s'" using quiet_step [OF os ok calm l] by blast
  from s'(3) show ?thesis
  proof (cases rule: step_effect.cases)
    case (E_end held' w1 hs w')
    have "quiet_change True (sy_world s) w'"
    proof (rule quiet_same)
      show "world.more w' = world.more (sy_world s)" using released_more [OF E_end(5)] by (simp add: E_end(3))
      show "pendingFunctors (lget a w') = pendingFunctors (lget a (sy_world s))" for a
        using released_frame(10) [OF E_end(5)] by (simp add: E_end(3))
      show "\<exists>d. w_conns (sy_world s) k = Some d \<and> read_room c = read_room d" if "w_conns w' k = Some c" for k c
        using released_conns [OF E_end(5) that] by (simp add: E_end(3))
    qed
    with s'(1,2,4) E_end(1) show ?thesis by simp
  qed (use at in simp_all)
qed

lemma run_quiet_round:
  assumes os: "os_quiet os" and ok: "sys_ok s" and calm: "calm s" and l: "l \<in> set (srv_loops (sy_world s))" and at: "sy_pc s l = At_poll"
  shows "\<exists>s'. srv_run (quiet_round os now l s) s = Inr s' \<and> sys_ok s' \<and> calm s' \<and> srv_move\<^sup>*\<^sup>* s s' \<and> sy_pc s' = sy_pc s \<and>
    srv_loops (sy_world s') = srv_loops (sy_world s) \<and>
    (no_remove (pendingFunctors (lget l (sy_world s))) \<longrightarrow> s_connections (sy_world s') = s_connections (sy_world s)) \<and>
    (\<forall>a. \<exists>new. pendingFunctors (lget a (sy_world s')) = (if a = l then [] else pendingFunctors (lget a (sy_world s))) @ new \<and>
       dest_only new \<and> (no_remove (pendingFunctors (lget l (sy_world s))) \<longrightarrow> new = []))"
proof -
  let ?x = "(os, no_events, now, l)" and ?fs = "pendingFunctors (lget l (sy_world s))"
  obtain s1 where 1: "srv_step os no_events now l s = Inr s1" "sys_ok s1" "sy_pc s1 = (sy_pc s)(l := At_channels [])"
    "quiet_change True (sy_world s) (sy_world s1)" "srv_move s s1" using round_poll [OF os ok calm l at] by blast
  have p1: "srv_loops (sy_world s1) = srv_loops (sy_world s)" "pendingFunctors (lget a (sy_world s1)) = pendingFunctors (lget a (sy_world s))" for a
    using 1(4) unfolding quiet_change_def by auto
  obtain s2 where 2: "srv_step os no_events now l s1 = Inr s2" "sys_ok s2" "calm s2" "sy_pc s2 = (sy_pc s1)(l := At_functors ?fs ?fs)"
    "srv_loops (sy_world s2) = srv_loops (sy_world s1)"
    "\<And>a. pendingFunctors (lget a (sy_world s2)) = (if a = l then [] else pendingFunctors (lget a (sy_world s)))" "srv_move s1 s2"
    "s_connections (sy_world s2) = s_connections (sy_world s1)"
    using round_swap [OF os 1(2) quiet_calm [OF calm 1(4)], of l now] l p1 1(3) by auto
  obtain s3 where 3: "srv_run (replicate (length ?fs) ?x) s2 = Inr s3" "sys_ok s3" "calm s3"
    "sy_pc s3 = (sy_pc s2)(l := At_functors ?fs [])" "quiet_change (no_remove ?fs) (sy_world s2) (sy_world s3)" "srv_move\<^sup>*\<^sup>* s2 s3"
    using run_functors_quiet [OF os 2(2,3), of l ?fs ?fs now] l p1(1) 2(4,5) by auto
  have l3: "l \<in> set (srv_loops (sy_world s3))" using 3(5) 2(5) p1(1) l by (simp add: quiet_change_def)
  obtain s4 where 4: "srv_step os no_events now l s3 = Inr s4" "sys_ok s4" "sy_pc s4 = (sy_pc s3)(l := At_poll)"
    "quiet_change True (sy_world s3) (sy_world s4)" "srv_move s3 s4"
    using round_end [OF os 3(2,3) l3, of ?fs now] 3(4) by auto
  have q: "quiet_change (no_remove ?fs) (sy_world s2) (sy_world s4)" by (rule quiet_change_trans [OF 3(5) 4(4)]) simp
  have "quiet_round os now l s = [?x, ?x] @ replicate (length ?fs) ?x @ [?x]"
    by (simp add: quiet_round_def numeral_3_eq_3 replicate_append_same)
  then have "srv_run (quiet_round os now l s) s = Inr s4" using 1(1) 2(1) 3(1) 4(1) by (simp add: run_append)
  moreover have "sy_pc s4 = sy_pc s" using 1(3) 2(4) 3(4) 4(3) at by (auto simp: fun_eq_iff)
  moreover have "srv_loops (sy_world s4) = srv_loops (sy_world s)" using q 2(5) p1(1) by (simp add: quiet_change_def)
  moreover have "\<forall>a. \<exists>new. pendingFunctors (lget a (sy_world s4)) = (if a = l then [] else pendingFunctors (lget a (sy_world s))) @ new \<and>
       dest_only new \<and> (no_remove ?fs \<longrightarrow> new = [])"
    using q unfolding quiet_change_def 2(6) by blast
  moreover have "no_remove ?fs \<longrightarrow> s_connections (sy_world s4) = s_connections (sy_world s)"
    using q 2(8) 1(4) by (simp add: quiet_change_def)
  moreover have "srv_move\<^sup>*\<^sup>* s s4" using 1(5) 2(7) 3(6) 4(5) by (meson converse_rtranclp_into_rtranclp rtranclp.rtrancl_into_rtrancl)
  ultimately show ?thesis using 4(2) quiet_calm [OF 3(3) 4(4)] by blast
qed

section \<open>Rounds of all loops\<close>

fun quiet_rounds :: "server_os \<Rightarrow> int \<Rightarrow> nat list \<Rightarrow> srv_sys \<Rightarrow> srv_sys res" where
  "quiet_rounds os now [] s = Inr s"
| "quiet_rounds os now (l # ls) s = bindR (srv_run (quiet_round os now l s) s) (quiet_rounds os now ls)"

definition all_polling :: "srv_sys \<Rightarrow> bool" where
  "all_polling s \<longleftrightarrow> (\<forall>l \<in> set (srv_loops (sy_world s)). sy_pc s l = At_poll)"

definition resting :: "srv_sys \<Rightarrow> bool" where
  "resting s \<longleftrightarrow> all_polling s \<and> (\<forall>l \<in> set (srv_loops (sy_world s)). pendingFunctors (lget l (sy_world s)) = [])"

lemma rounds_clear:
  assumes os: "os_quiet os" and "sys_ok s" and "calm s" and "all_polling s" and "set ls \<subseteq> set (srv_loops (sy_world s))"
    and "\<And>l. l \<in> set (srv_loops (sy_world s)) \<Longrightarrow> no_remove (pendingFunctors (lget l (sy_world s)))"
  shows "\<exists>s'. quiet_rounds os now ls s = Inr s' \<and> sys_ok s' \<and> calm s' \<and> srv_move\<^sup>*\<^sup>* s s' \<and> all_polling s' \<and> srv_loops (sy_world s') = srv_loops (sy_world s) \<and>
    s_connections (sy_world s') = s_connections (sy_world s) \<and>
    (\<forall>a. pendingFunctors (lget a (sy_world s')) = (if a \<in> set ls then [] else pendingFunctors (lget a (sy_world s))))"
  using assms(2-)
proof (induction ls arbitrary: s)
  case (Cons l ls)
  have l: "l \<in> set (srv_loops (sy_world s))" "sy_pc s l = At_poll" using Cons.prems(3,4) by (auto simp: all_polling_def)
  obtain s1 where 1: "srv_run (quiet_round os now l s) s = Inr s1" "sys_ok s1" "calm s1" "sy_pc s1 = sy_pc s"
    "srv_loops (sy_world s1) = srv_loops (sy_world s)" "srv_move\<^sup>*\<^sup>* s s1"
    "\<And>a. pendingFunctors (lget a (sy_world s1)) = (if a = l then [] else pendingFunctors (lget a (sy_world s)))"
    "s_connections (sy_world s1) = s_connections (sy_world s)"
    using run_quiet_round [OF os Cons.prems(1,2) l, of now] Cons.prems(5) [OF l(1)] by auto
  have "all_polling s1" using Cons.prems(3) 1(4,5) by (simp add: all_polling_def)
  moreover have "no_remove (if a = l then [] else pendingFunctors (lget a (sy_world s)))" if "a \<in> set (srv_loops (sy_world s))" for a
    using Cons.prems(5) [OF that] by simp
  ultimately obtain s' where
    "quiet_rounds os now ls s1 = Inr s'" "sys_ok s'" "calm s'" "srv_move\<^sup>*\<^sup>* s1 s'" "all_polling s'" "srv_loops (sy_world s') = srv_loops (sy_world s)"
    "s_connections (sy_world s') = s_connections (sy_world s)" "\<forall>a. pendingFunctors (lget a (sy_world s')) = (if a \<in> set ls then [] else if a = l then [] else pendingFunctors (lget a (sy_world s)))"
    using Cons.IH [OF 1(2,3), unfolded 1(5,7,8)] Cons.prems(4) by auto
  with 1(1,6) show ?case by (intro exI [of _ s']) (auto intro: rtranclp_trans)
qed simp

text \<open>Only the base loop is asked to remove connections.\<close>

lemma io_no_remove:
  assumes core: "core {} T A w" and l: "l \<in> set (srv_loops w)" and ne: "l \<noteq> s_loop w"
  shows "no_remove (pendingFunctors (lget l w))"
  unfolding no_remove_def
proof (intro allI notI)
  fix cid assume "F_removeConnectionInLoop cid \<in> set (pendingFunctors (lget l w))"
  then have "functor_inv w l (F_removeConnectionInLoop cid)" by (intro srv_queueD(1) [OF coreD(5) [OF core] l]) (simp add: fut_def)
  with ne show False by auto
qed

lemma come_to_rest:
  assumes os: "os_quiet os" and ok: "sys_ok s" and calm: "calm s" and poll: "all_polling s"
  shows "\<exists>s'. quiet_rounds os now (srv_loops (sy_world s) @ [s_loop (sy_world s)]) s = Inr s' \<and> sys_ok s' \<and> calm s' \<and> srv_move\<^sup>*\<^sup>* s s' \<and> resting s' \<and>
    (no_remove (pendingFunctors (lget (s_loop (sy_world s)) (sy_world s))) \<longrightarrow> s_connections (sy_world s') = s_connections (sy_world s))"
proof -
  let ?w = "sy_world s" and ?b = "s_loop (sy_world s)" and ?ls = "pool_loops (s_pool (sy_world s)) @ [s_loop (sy_world s)]"
  have loops: "srv_loops ?w = ?b # pool_loops (s_pool ?w)" by (simp add: srv_loops_def)
  have b: "?b \<in> set (srv_loops ?w)" "sy_pc s ?b = At_poll" using poll by (simp_all add: loops all_polling_def)
  obtain s1 where 1: "srv_run (quiet_round os now ?b s) s = Inr s1" "sys_ok s1" "calm s1" "sy_pc s1 = sy_pc s"
    "srv_loops (sy_world s1) = srv_loops ?w" "srv_move\<^sup>*\<^sup>* s s1"
    "no_remove (pendingFunctors (lget ?b ?w)) \<longrightarrow> s_connections (sy_world s1) = s_connections ?w"
    "\<forall>a. \<exists>new. pendingFunctors (lget a (sy_world s1)) = (if a = ?b then [] else pendingFunctors (lget a ?w)) @ new \<and>
       dest_only new \<and> (no_remove (pendingFunctors (lget ?b ?w)) \<longrightarrow> new = [])"
    using run_quiet_round [OF os ok calm b, of now] by blast
  have "no_remove (pendingFunctors (lget a (sy_world s1)))" if a: "a \<in> set (srv_loops ?w)" for a
  proof -
    obtain new where new: "pendingFunctors (lget a (sy_world s1)) = (if a = ?b then [] else pendingFunctors (lget a ?w)) @ new" "dest_only new"
      using 1(8) by blast
    with dest_no_remove [OF new(2)] io_no_remove [OF sys_okD(5) [OF ok] a] show ?thesis by auto
  qed
  moreover have "all_polling s1" using poll 1(4,5) by (simp add: all_polling_def)
  moreover have "set ?ls \<subseteq> set (srv_loops (sy_world s1))" using loops 1(5) by auto
  ultimately obtain s' where s': "quiet_rounds os now ?ls s1 = Inr s'" "sys_ok s'" "all_polling s'" "srv_loops (sy_world s') = srv_loops ?w"
    "\<forall>a. pendingFunctors (lget a (sy_world s')) = (if a \<in> set ?ls then [] else pendingFunctors (lget a (sy_world s1)))" "srv_move\<^sup>*\<^sup>* s1 s'"
    "s_connections (sy_world s') = s_connections (sy_world s1)" "calm s'"
    using rounds_clear [OF os 1(2,3), of ?ls now] 1(5) by auto
  have "resting s'" using s'(3-5) loops by (auto simp: resting_def)
  moreover have "quiet_rounds os now (srv_loops ?w @ [?b]) s = Inr s'" using 1(1) s'(1) loops by simp
  ultimately show ?thesis using s'(2,7,8) 1(7) rtranclp_trans [OF 1(6) s'(6)] by auto
qed

text \<open>At rest, the connections are those in the server's map, and they are served.\<close>

lemma resting_served:
  assumes ok: "sys_ok s" and rest: "resting s" and c: "w_conns (sy_world s) cid = Some c"
  shows "\<exists>ch. conn_ok cid c ch (sy_world s) \<and> in_phase (todo_of s) (held_of s) (sy_world s) cid c ch Serving"
proof -
  let ?w = "sy_world s"
  note d = sys_okD [OF ok]
  have pc: "sy_pc s l = At_poll" "pendingFunctors (lget l ?w) = []" if "l \<in> set (srv_loops ?w)" for l
    using rest that by (simp_all add: resting_def all_polling_def)
  obtain ch where ch: "conn_ok cid c ch ?w" using srv_conns_ok [OF coreD(3) [OF d(5)] c] by blast
  have fut: "fut (todo_of s) ?w l = []" if "l \<in> set (srv_loops ?w)" for l using pc [OF that] by (simp add: fut_def todo_of_def)
  have l: "c_loop c \<in> set (srv_loops ?w)" "s_loop ?w \<in> set (srv_loops ?w)"
    using srv_connD(3) [OF coreD(3) [OF d(5)] ch] by (simp_all add: srv_loops_def)
  have held: "held_of s = []" using pc by (simp add: held_of_def)
  obtain p where p: "in_phase (todo_of s) (held_of s) ?w cid c ch p" using lifeD [OF sys_lifeD(3) [OF d(1)] ch] by blast
  then have "p = Serving" using fut [OF l(1)] fut [OF l(2)] held pc(2) by (cases p) (auto simp: owned_iff)
  with p ch show ?thesis by blast
qed

end
