(* ===== verification/System_Rounds.thy ===== *)
theory System_Rounds
  imports System_Quiet
begin

text \<open>
  Whole rounds and single steps. \<open>server_round\<close> runs \<open>EventLoop::loop\<close> once around without a pause; here it
  is shown to be a run of \<open>srv_step\<close>s of one thread, failures included, so that what is proved of rounds and
  sessions is about runs of the interleaved system. The handlers leave the thread and the poll time of a loop alone.
\<close>

section \<open>Thread and poll time\<close>

definition clock_kept :: "nat \<Rightarrow> 'z world_scheme \<Rightarrow> 'z world_scheme \<Rightarrow> bool" where
  "clock_kept a w w' \<longleftrightarrow> threadId (lget a w') = threadId (lget a w) \<and> pollReturnTime (lget a w') = pollReturnTime (lget a w)"

lemma clock_kept_trans: "clock_kept a u v \<Longrightarrow> clock_kept a v w \<Longrightarrow> clock_kept a u w"
  by (simp add: clock_kept_def)

lemma clock_kept_loops: "w_loops w' = w_loops w \<Longrightarrow> clock_kept a w w'"
  by (simp add: clock_kept_def lget_def)

lemma clock_kept_lput [simp]:
  "threadId l = threadId (lget b w) \<Longrightarrow> pollReturnTime l = pollReturnTime (lget b w) \<Longrightarrow> clock_kept a w (lput b l w)"
  by (simp add: clock_kept_def)

interpretation clk: tie_relation "clock_kept a" for a
  by unfold_locales
     (auto simp: clock_kept_loops put_conn_def emit_def with_channel_def bindR_eq_Inr queue_on_def loop_op_defs intro: clock_kept_trans)

interpretation clk_msg: message_relation "clock_kept a" for a
  by unfold_locales (simp add: clock_kept_loops)

lemma clock_removeConnectionInLoop: "keeps (clock_kept a) w (removeConnectionInLoop tid cid w)"
  unfolding removeConnectionInLoop_def
  by (rule keeps_read) (auto intro: clock_kept_trans [OF clock_kept_loops clk.R_queue])

lemma clock_runInLoop:
  assumes "keeps (clock_kept a) w (f g w)"
  shows "keeps (clock_kept a) w (runInLoop (lget b) (lput b) f tid g w)"
  using assms by (simp add: runInLoop_def) (simp add: queue_on_def [symmetric])

lemma clock_echo_user:
  "keeps (clock_kept a) w (on_connection (server_user tid (echo_user os tid)) cb cid w)"
  "keeps (clock_kept a) w (on_message (server_user tid (echo_user os tid)) cb cid t w)"
  "keeps (clock_kept a) w (on_close (server_user tid (echo_user os tid)) cid w)"
  by (auto simp: server_user_def echo_user_def clk_msg.keeps_onMessage removeConnection_def clock_runInLoop clock_removeConnectionInLoop
      keeps_def [of _ _ "EchoServer_onConnection c w" for c w] dest: EchoServer_onConnection_same)

lemma clock_newConnection: "keeps (clock_kept a) w (newConnection os (echo_user os' tid) tid fd addr w)"
proof -
  have est: "keeps (clock_kept a) w (runInLoop (lget b) (lput b) (\<lambda>f. connectEstablished (server_user tid (echo_user os' tid)) cid) tid g w1)"
    if "\<exists>p. w_loops w1 = (w_loops w)(b := (w_loops w b)\<lparr>poller := p\<rparr>)" for cid b g and w1 :: server_world
  proof -
    have "clock_kept a w w1" using that by (auto simp: clock_kept_def lget_def)
    then show ?thesis by (rule clk.keeps_after [OF _ clock_runInLoop [OF clk.keeps_connectEstablished [OF clock_echo_user(1)]]])
  qed
  show ?thesis
    unfolding newConnection_def Let_def
    by (auto split: prod.split intro!: keeps_read est)
       (auto simp: TcpConnection_new_def Let_def lget_def lput_def put_conn_def emit_def)
qed

lemma clock_exec_functor: "keeps (clock_kept a) w (exec_functor os (echo_user os' tid) tid f w)"
proof (cases f)
  case F_listen
  then show ?thesis
    by (auto simp: exec_functor_def Acceptor_listen_def with_accept_channel_def Let_def keeps_def bindR_eq_Inr clock_kept_def lget_def lput_def emit_def)
next
  case (F_connectEstablished cid)
  then show ?thesis using clk.keeps_connectEstablished [OF clock_echo_user(1)] by (simp add: exec_functor_def)
next
  case (F_connectDestroyed cid)
  then show ?thesis using clk.keeps_connectDestroyed [OF clock_echo_user(1)] by (simp add: exec_functor_def)
qed (auto simp: exec_functor_def echo_user_def clock_removeConnectionInLoop split: option.split)

lemma clock_call_callback: "keeps (clock_kept a) w (call_callback os (echo_user os' tid) tid now cb w)"
proof (cases cb)
  case Cb_accept
  then show ?thesis
    by (auto simp: call_callback_def Acceptor_handleRead_def Let_def clock_newConnection split: prod.split)
next
  case (Cb_wakeup b)
  then show ?thesis by (simp add: call_callback_def EventLoop_handleRead_def)
qed (simp_all add: call_callback_def clk.keeps_handleRead [OF clock_echo_user(1,3,2)] clk.keeps_handleClose [OF clock_echo_user(1,3)])

lemma clock_handle_channel: "keeps (clock_kept a) w (handle_channel os (echo_user os' tid) tid now l ptr w)"
proof -
  have t: "keeps (clock_kept a) w (test_and_call chan (call_callback os (echo_user os' tid) tid now) test cb w)"
    for chan test cb and w :: server_world
    unfolding test_and_call_def by (rule keeps_read) (simp add: call_if_set_def clock_call_callback split: option.split)
  have g: "keeps (clock_kept a) w (handleEventWithGuard chan (call_callback os (echo_user os' tid) tid now) w)"
    for chan and w :: server_world
    unfolding handleEventWithGuard_def by (intro clk.keeps_bindR t)
  show ?thesis
    unfolding handle_channel_def handleEvent_def by (rule keeps_read) (simp add: g split: option.split)
qed

section \<open>A round as a run\<close>

lemma release_held_none: "release_held [] cids w = release_conns cids w"
  by (induction cids arbitrary: w) (simp_all add: bindR_def split: option.split sum.split)

lemma go_go [simp]: "go l at' w' (go l at w s) = go l at' w' s"
  by (simp add: go_def)

text \<open>The clock and the thread a step uses are those of the round.\<close>

definition timed :: "int \<Rightarrow> int \<Rightarrow> nat \<Rightarrow> server_world \<Rightarrow> bool" where
  "timed tid now l w \<longleftrightarrow> threadId (lget l w) = tid \<and> pollReturnTime (lget l w) = now"

lemma timed_kept: "keeps (clock_kept l) w m \<Longrightarrow> timed tid now l w \<Longrightarrow> m = Inr w' \<Longrightarrow> timed tid now l w'"
  by (simp add: keeps_def clock_kept_def timed_def)

lemma channels_run:
  assumes "timed tid now l (sy_world s)" and "sy_pc s l = At_channels ptrs"
  shows "srv_run (replicate (length ptrs) (os, wait, now', l)) s =
    bindR (handle_active (handle_channel os (echo_user (os_calls.truncate os) tid) tid now l) ptrs (sy_world s))
      (\<lambda>w. Inr (go l (At_channels []) w s))"
  using assms
proof (induction ptrs arbitrary: s)
  case Nil
  then show ?case by (simp add: go_def fun_upd_idem)
next
  case (Cons ptr ptrs)
  let ?h = "handle_channel os (echo_user (os_calls.truncate os) tid) tid now l ptr (sy_world s)"
  have st: "srv_step os wait now' l s = bindR ?h (\<lambda>w. Inr (go l (At_channels ptrs) w s))"
    using Cons.prems by (simp add: srv_step_def Let_def timed_def)
  show ?case
  proof (cases ?h)
    case (Inr w)
    then have "timed tid now l w" using timed_kept [OF clock_handle_channel Cons.prems(1)] by blast
    with Cons.IH [of "go l (At_channels ptrs) w s"] Inr show ?thesis by (simp add: st)
  qed (simp add: st)
qed

lemma handle_active_timed:
  assumes "timed tid now l w"
    and "handle_active (handle_channel os (echo_user os' tid) tid now l) ptrs w = Inr w'"
  shows "timed tid now l w'"
  using assms
proof (induction ptrs arbitrary: w)
  case (Cons ptr ptrs)
  then obtain w1 where w1: "handle_channel os (echo_user os' tid) tid now l ptr w = Inr w1"
    "handle_active (handle_channel os (echo_user os' tid) tid now l) ptrs w1 = Inr w'" by (auto simp: bindR_eq_Inr)
  from Cons.IH [OF timed_kept [OF clock_handle_channel Cons.prems(1) w1(1)] w1(2)] show ?case .
qed simp

lemma functors_run:
  assumes "timed tid now l (sy_world s)" and "sy_pc s l = At_functors held fs"
  shows "srv_run (replicate (length fs) (os, wait, now', l)) s =
    bindR (run_functors (exec_functor os (echo_user (os_calls.truncate os) tid) tid) fs (sy_world s))
      (\<lambda>w. Inr (go l (At_functors held []) w s))"
  using assms
proof (induction fs arbitrary: s)
  case Nil
  then show ?case by (simp add: go_def fun_upd_idem)
next
  case (Cons f fs)
  let ?x = "exec_functor os (echo_user (os_calls.truncate os) tid) tid f (sy_world s)"
  have st: "srv_step os wait now' l s = bindR ?x (\<lambda>w. Inr (go l (At_functors held fs) w s))"
    using Cons.prems by (simp add: srv_step_def Let_def timed_def)
  show ?case
  proof (cases ?x)
    case (Inr w)
    then have "timed tid now l w" using timed_kept [OF clock_exec_functor Cons.prems(1)] by blast
    with Cons.IH [of "go l (At_functors held fs) w s"] Inr show ?thesis by (simp add: st)
  qed (simp add: st)
qed

lemma pending_run:
  assumes t: "timed tid now l (sy_world s)" and at: "sy_pc s l = At_channels []" and quiet: "\<And>k. k \<noteq> l \<Longrightarrow> held_by (sy_pc s k) = []"
  shows "srv_run (replicate (Suc (Suc (length (pendingFunctors (lget l (sy_world s)))))) (os, wait, now', l)) s =
    bindR (doPendingFunctions (lget l) (lput l) (exec_functor os (echo_user (os_calls.truncate os) tid) tid) (sy_world s))
      (\<lambda>w. bindR (release w) (\<lambda>w'. Inr (go l At_poll w' s)))"
proof -
  let ?fs = "pendingFunctors (lget l (sy_world s))" and ?lab = "(os, wait, now', l)"
  let ?w = "lput l ((lget l (sy_world s))\<lparr>callingPendingFunctors := True, pendingFunctors := []\<rparr>) (sy_world s)"
  let ?s = "go l (At_functors ?fs ?fs) ?w s"
  have swap: "srv_step os wait now' l s = Inr ?s" using at by (simp add: srv_step_def Let_def)
  have t1: "timed tid now l (sy_world ?s)" using t by (simp add: timed_def)
  have last: "srv_step os wait now' l (go l (At_functors ?fs []) w s) =
      bindR (release (lput l ((lget l w)\<lparr>callingPendingFunctors := False\<rparr>) w)) (\<lambda>w'. Inr (go l At_poll w' s))" for w
  proof -
    have h: "(\<lambda>k. held_by (if k = l then At_poll else sy_pc s k)) = (\<lambda>k. [])" using quiet by auto
    have c: "concat (map (\<lambda>k. []) ls) = ([] :: functor_t list)" for ls :: "nat list" by (induction ls) simp_all
    show ?thesis by (simp add: srv_step_def Let_def h c release_held_none release_def lput_def)
  qed
  have "replicate (Suc (Suc (length ?fs))) ?lab = ?lab # replicate (length ?fs) ?lab @ [?lab]"
    by (simp add: replicate_append_same [symmetric])
  then show ?thesis
    using functors_run [OF t1, of ?fs ?fs os wait now']
    by (cases "run_functors (exec_functor os (echo_user (os_calls.truncate os) tid) tid) ?fs ?w")
       (simp_all add: run_append swap last doPendingFunctions_def Let_def bindR_def split: sum.split)
qed

end
