(* ===== verification/System_Props.thy ===== *)
theory System_Props
  imports Echo_Program System_Rounds
begin

text \<open>
  The theorems about the running server in every interleaving of its threads, with the example program
  and its first client as the concrete run.
\<close>

section \<open>The example program and its first client\<close>

definition demo_wait :: "nat \<Rightarrow> nat \<Rightarrow> errno + (c_int \<times> nat) list" where
  "demo_wait ptr = (\<lambda>n. Inr (take n [(EPOLLIN, ptr)]))"

lemma demo_wait_ok: "m fd = Some (ev, ptr) \<Longrightarrow> wait_ok m (demo_wait ptr)"
  by (auto simp: wait_ok_def demo_wait_def take_Cons split: nat.splits)

lemma demo_setup:
  "\<exists>tp lg mg w m wch. testserver_setup (session_os 9 inp) small_cfg = Inr (tp, lg, mg, w) \<and> srv_idle (booted w) \<and>
    pool_loops (s_pool w) = [3, 5, 7] \<and> pool_next (s_pool w) = 0 \<and> s_fresh w = 9 \<and> s_nextConnId w = 1 \<and> w_conns w = Map.empty \<and> s_loop w = 0 \<and>
    s_acceptor w = \<lparr>acc_sockfd = 3, acc_channel = 2, acc_listenning = True, acc_callback = True\<rparr> \<and>
    (\<forall>io \<in> {3, 5, 7}. loop_ready {int io} io (int io) w) \<and> threadId (lget 0 w) = 0 \<and>
    eventListSize (poller (lget 0 w)) = 16 \<and> wake_only 0 0 wch \<and>
    chan_heap (poller (lget 0 w)) = [1 \<mapsto> wch, 2 \<mapsto> mask_chan mask_enableReading (setReadCallback Cb_accept (Channel_new 0 3))] \<and>
    ep_run (ctl_log (poller (lget 0 w))) Map.empty = Some m \<and> m 3 = Some (mask_enableReading 0, 2)"
proof -
  let ?os = "session_os 9 inp"
  have os: "\<not> os_use_poll ?os" "os_socket ?os = 3" "os_eventfd ?os = int" "os_gettid ?os = int"
    by (simp_all add: session_os_def os_calls.defs server_os.defs)
  obtain wk where wk: "AsyncWorker_new small_cfg ASYNC_SAFE = Inr wk"
    by (simp add: AsyncWorker_new_def log_Buffer_new_def lb_resize_def vec_resize_def vec_max_size_def small_cfg_def)
  show ?thesis
    using testserver_setup_ok [of ?os, OF os(1) _ wk] unfolding os(2-4) by (simp add: initEventListSize_def) blast
qed

text \<open>Loop 0 polls, and handles the accept channel.\<close>

lemma demo_accept_ok:
  assumes loops: "srv_loops w = [0, 3, 5, 7]" and fds: "\<And>l q ch. l \<in> {0, 3, 5, 7} \<Longrightarrow> chan_heap (poller (lget l w)) q = Some ch \<Longrightarrow> ch_fd ch \<noteq> 9"
  shows "accept_ok (session_os 9 inp) w"
  using assms by (auto simp: accept_ok_def session_os_def os_calls.defs server_os.defs)

lemma demo_kernel:
  assumes "accept_ok (session_os 9 inp) (sy_world s)" and "ep_run (ctl_log (poller (lget l (sy_world s)))) Map.empty = Some m"
    and "wait_ok m wait"
  shows "kernel_ok (session_os 9 inp) wait l s"
  using assms demo_os_ok by (simp add: kernel_ok_def)

lemma demo_poll:
  assumes idle: "srv_idle (booted w)" and size: "eventListSize (poller (lget 0 w)) = 16"
    and heap: "chan_heap (poller (lget 0 w)) = [1 \<mapsto> wch, 2 \<mapsto> ach]"
    and m: "ep_run (ctl_log (poller (lget 0 w))) Map.empty = Some m" "m 3 = Some (ev, 2)"
    and k: "kernel_ok (session_os 9 inp) (demo_wait 2) 0 (booted w)" and calm: "calm (booted w)" and l: "s_loop w = 0"
  shows "\<exists>w1 p. srv_move (booted w) (go 0 (At_channels [2]) w1 (booted w)) \<and> srv_base w1 \<and>
    w1 = lput 0 ((lget 0 w)\<lparr>activeChannels := [2], poller := p, pollReturnTime := 0\<rparr>) w \<and>
    chan_heap p = [1 \<mapsto> wch, 2 \<mapsto> set_revents EPOLLIN ach] \<and> ep_run (ctl_log p) Map.empty = Some m"
proof -
  have "loop_idle w 0" using idle l by (simp add: srv_idle_def booted_def srv_loops_def)
  then obtain m' where coh: "coherent {} (poller (lget 0 w)) m'" by (auto simp: loop_idle_def poller_inv_def)
  then have "m' = m" using m(1) coherentD(1) by fastforce
  with coh have coh: "coherent {} (poller (lget 0 w)) m" by simp
  have wait: "demo_wait 2 16 = Inr [(EPOLLIN, 2)]" by (simp add: demo_wait_def)
  obtain p where p: "poll (demo_wait 2) [] (poller (lget 0 w)) = Inr ([2], p)" "coherent {} p m"
    "chan_heap p = apply_reports [(EPOLLIN, 2)] (chan_heap (poller (lget 0 w)))"
    using poll_ok [OF coh demo_wait_ok [where m = m and fd = 3, OF m(2)], of "[]"] unfolding size wait by auto
  define w1 where "w1 = lput 0 ((lget 0 w)\<lparr>activeChannels := [2], poller := p, pollReturnTime := 0\<rparr>) w"
  have "srv_step (session_os 9 inp) (demo_wait 2) 0 0 (booted w) = Inr (go 0 (At_channels [2]) w1 (booted w))"
    using p(1) by (simp add: srv_step_def booted_def Let_def w1_def)
  then have mv: "srv_move (booted w) (go 0 (At_channels [2]) w1 (booted w))"
    by (intro move [OF _ k calm]) (simp_all add: booted_def srv_loops_def l)
  have "srv_base w1" using coreD(1) [OF sys_okD(5) [OF srv.step_inv [OF idle_ok [OF idle] mv]]] by simp
  with mv show ?thesis using w1_def p(3) coherentD(1) [OF p(2)] heap by (intro exI [of _ w1] exI [of _ p]) auto
qed

lemma demo_accept:
  assumes base: "srv_base w1" and nxt: "getNextLoop (s_pool w1) = (3, pool1)" and fresh: "accept_fresh 3 9 w1"
    and inv: "poller_inv (poller (lget 3 w1))" and id: "s_nextConnId w1 = 1" and far: "threadId (lget 3 w1) \<noteq> 0"
    and acc: "s_acceptor w1 = \<lparr>acc_sockfd = 3, acc_channel = 2, acc_listenning = True, acc_callback = True\<rparr>"
    and ch: "chan_heap (poller (lget 0 w1)) 2 = Some ch" "\<not> ch_tied ch" "readCallback ch = Some Cb_accept" "writeCallback ch = None"
      "closeCallback ch = None" "errorCallback ch = None" "ch_revents ch AND readEvent \<noteq> 0" and lt: "2 < s_fresh w1"
  shows "\<exists>c ch' w4. handle_channel (session_os 9 inp) user 0 now 0 2 w1 = Inr (queue_on 0 3 (F_connectEstablished (s_fresh w1)) w4) \<and>
    conn_added 3 pool1 c ch' w1 w4 \<and> c_sockfd c = 9"
proof -
  let ?os = "session_os 9 inp"
  have os: "os_accept4 ?os 3 n = Inr (9, InetAddress_new (\<lambda>_. 0) 81 ''10.0.0.9'')"
    "os_getsockname ?os 9 = Inr (InetAddress_new (\<lambda>_. 0) 80 ''10.0.0.1'')" for n
    by (simp_all add: session_os_def os_calls.defs server_os.defs)
  have here: "local_address ?os 9 = Inr (InetAddress_new (\<lambda>_. 0) 80 ''10.0.0.1'')" using os(2) by (simp add: local_address_def)
  obtain w4 c ch' where n: "newConnection ?os user 0 9 (InetAddress_new (\<lambda>_. 0) 81 ''10.0.0.9'') w1 =
      runInLoop (lget 3) (lput 3) (\<lambda>f. connectEstablished (server_user 0 user) (s_fresh w1)) 0 (F_connectEstablished (s_fresh w1)) w4"
    "conn_added 3 pool1 c ch' w1 w4" "c_sockfd c = 9"
    using newConnection_added [OF base here _ nxt fresh inv, of user 0 "InetAddress_new (\<lambda>_. 0) 81 ''10.0.0.9''"] id by auto
  let ?w2 = "queue_on 0 3 (F_connectEstablished (s_fresh w1)) w4"
  have "newConnection ?os user 0 9 (InetAddress_new (\<lambda>_. 0) 81 ''10.0.0.9'') w1 = Inr ?w2"
    using n(1) added_frame(1) [OF n(2)] far by (simp add: runInLoop_def isInLoopThread_def) (simp add: queue_on_def)
  then have "Acceptor_handleRead ?os user 0 w1 = Inr ?w2"
    using os by (simp add: Acceptor_handleRead_def Socket_Accept_def acc)
  moreover have "chan_heap (poller (lget 0 ?w2)) 2 = Some ch" using added_frame(7) [OF n(2), of 0] ch(1) by simp
  ultimately have "handle_channel ?os user 0 now 0 2 w1 = Inr ?w2"
    using handle_read_only [OF ch(1-6), of ?os user 0 now ?w2 ch] ch(4,7) by (simp add: call_callback_def)
  with n(2,3) show ?thesis by blast
qed

text \<open>The state in which the first client waits for its loop.\<close>

definition waiting_client :: "srv_sys \<Rightarrow> bool" where
  "waiting_client s \<longleftrightarrow> reach srv_idle srv_move s \<and> calm s \<and> (\<exists>c. w_conns (sy_world s) 9 = Some c) \<and>
     sy_pc s = (\<lambda>_. At_poll)(0 := At_channels []) \<and>
     pendingFunctors (lget 3 (sy_world s)) = [F_connectEstablished 9] \<and> pendingFunctors (lget 0 (sy_world s)) = [] \<and> srv_loops (sy_world s) = [0, 3, 5, 7]"

lemma first_client: "\<exists>s. waiting_client s"
proof -
  let ?os = "session_os 9 []"
  obtain w m wch where w: "srv_idle (booted w)" "pool_loops (s_pool w) = [3, 5, 7]" "pool_next (s_pool w) = 0" "s_fresh w = 9" "s_nextConnId w = 1"
    "w_conns w = Map.empty" "s_loop w = 0" "s_acceptor w = \<lparr>acc_sockfd = 3, acc_channel = 2, acc_listenning = True, acc_callback = True\<rparr>"
    and ready: "\<forall>io \<in> {3, 5, 7}. loop_ready {int io} io (int io) w" and b: "threadId (lget 0 w) = 0" "eventListSize (poller (lget 0 w)) = 16" "wake_only 0 0 wch"
      "chan_heap (poller (lget 0 w)) = [1 \<mapsto> wch, 2 \<mapsto> mask_chan mask_enableReading (setReadCallback Cb_accept (Channel_new 0 3))]"
    and m: "ep_run (ctl_log (poller (lget 0 w))) Map.empty = Some m" "m 3 = Some (mask_enableReading 0, 2)"
    using demo_setup by blast
  let ?ach = "mask_chan mask_enableReading (setReadCallback Cb_accept (Channel_new 0 3)) :: callback_t channel"
  have ach: "ch_fd ?ach = 3" "\<not> ch_tied ?ach" "readCallback ?ach = Some Cb_accept" "writeCallback ?ach = None" "closeCallback ?ach = None" "errorCallback ?ach = None"
    by (simp_all add: mask_chan_def Let_def set_index_def Channel_new_def)
  have loops: "srv_loops w = [0, 3, 5, 7]" using w(2,7) by (simp add: srv_loops_def)
  have fds: "ch_fd ch \<noteq> 9" if "l \<in> {0, 3, 5, 7}" "chan_heap (poller (lget l w)) q = Some ch" for l q ch
    using that ready b(3,4) ach(1) by (auto simp: loop_ready_def wake_only_def split: if_splits)
  have k: "kernel_ok ?os (demo_wait 2) 0 (booted w)"
    by (rule demo_kernel [where m = m]) (use demo_accept_ok [OF loops] fds m demo_wait_ok [where m = m and fd = 3, OF m(2)] in \<open>auto simp: booted_def\<close>)
  have calm: "calm (booted w)" by (simp add: calm_def booted_def w)
  obtain w1 p where 1: "srv_move (booted w) (go 0 (At_channels [2]) w1 (booted w))" "srv_base w1"
    and w1: "w1 = lput 0 ((lget 0 w)\<lparr>activeChannels := [2], poller := p, pollReturnTime := 0\<rparr>) w"
    and p: "chan_heap p = [1 \<mapsto> wch, 2 \<mapsto> set_revents EPOLLIN ?ach]" "ep_run (ctl_log p) Map.empty = Some m"
    using demo_poll [OF w(1) b(2,4) m k calm w(7)] by blast
  let ?s1 = "go 0 (At_channels [2]) w1 (booted w)"
  have f1: "srv_loops w1 = [0, 3, 5, 7]" "s_fresh w1 = 9" "s_nextConnId w1 = 1" "w_conns w1 = Map.empty" "s_pool w1 = s_pool w" "s_acceptor w1 = s_acceptor w"
    "lget 3 w1 = lget 3 w" using loops w by (simp_all add: w1) (simp_all add: lput_def)
  have "ch_fd ch \<noteq> 9" if l: "l \<in> {0, 3, 5, 7}" and ch: "chan_heap (poller (lget l w1)) q = Some ch" for l q ch
  proof (cases "l = 0")
    case True
    then show ?thesis using ch p(1) b(3) ach(1) by (auto simp: w1 wake_only_def set_revents_def split: if_splits)
  next
    case False
    then show ?thesis using fds [OF l] ch by (simp add: w1)
  qed
  then have acc: "accept_ok ?os w1" by (rule demo_accept_ok [OF f1(1)])
  have k1: "kernel_ok ?os (demo_wait 2) 0 ?s1"
    by (rule demo_kernel [where m = m]) (use acc p(2) demo_wait_ok [where m = m and fd = 3, OF m(2)] in \<open>simp_all add: w1\<close>)
  have calm1: "calm ?s1" by (simp add: calm_def f1)
  note l3 = loop_readyD [OF ready [rule_format, of 3, simplified]]
  have nxt: "getNextLoop (s_pool w1) = (3, (s_pool w)\<lparr>pool_next := 1\<rparr>)" by (simp add: getNextLoop_def f1 w)
  have "chan_heap (poller (lget 3 w)) 10 = None" using l3(6) w(4) by (cases "chan_heap (poller (lget 3 w)) 10") fastforce+
  then have fresh: "accept_fresh 3 9 w1" using l3(6) by (auto simp: accept_fresh_def f1)
  have far: "threadId (lget 3 w1) \<noteq> 0" using l3(3) by (simp add: f1)
  have ch: "chan_heap (poller (lget 0 w1)) 2 = Some (set_revents EPOLLIN ?ach)" using p(1) by (simp add: w1)
  obtain c ch' w4 where h: "handle_channel ?os (echo_user (demo_os 9 []) 0) 0 0 0 2 w1 = Inr (queue_on 0 3 (F_connectEstablished 9) w4)"
    "conn_added 3 ((s_pool w)\<lparr>pool_next := 1\<rparr>) c ch' w1 w4"
    using demo_accept [OF 1(2) nxt fresh _ f1(3) far _ ch, of "[]" "echo_user (demo_os 9 []) 0" 0] l3(1) ach w(8)
    by (auto simp: f1 set_revents_def readEvent_def EPOLLIN_def EPOLLPRI_def)
  let ?w2 = "queue_on 0 3 (F_connectEstablished 9) w4"
  let ?s2 = "go 0 (At_channels []) ?w2 ?s1"
  have "srv_step ?os (demo_wait 2) 0 0 ?s1 = Inr ?s2" using h(1) b(1) by (simp add: srv_step_def Let_def w1)
  then have "srv_move ?s1 ?s2" by (intro move [OF _ k1 calm1]) (simp_all add: f1)
  then have "reach srv_idle srv_move ?s2" using 1(1) w(1) by (blast intro: reach_init reach_step)
  moreover have "w_conns ?w2 9 = Some c" using added_frame(9) [OF h(2)] by (simp add: f1)
  moreover have "pendingFunctors (lget 3 ?w2) = [F_connectEstablished 9]" using added_frame(2) [OF h(2), of 3] l3(2) by (simp add: pending_queue f1)
  moreover have "pendingFunctors (lget 0 ?w2) = []"
    using added_frame(2) [OF h(2), of 0] w(1,7) by (simp add: pending_queue w1 srv_idle_def booted_def srv_loops_def loop_idle_def)
  moreover have "srv_loops ?w2 = [0, 3, 5, 7]" using added_server(13) [OF h(2)] w(2,7) by (simp add: w1)
  moreover have "calm ?s2"
  proof -
    have "read_room c" using h(2) by (simp add: conn_added_def)
    then show ?thesis using added_frame(9) [OF h(2)] added_server(9) [OF h(2)]
      by (simp add: calm_def f1) (simp add: queue_on_def lput_def)
  qed
  ultimately have "waiting_client ?s2" by (auto simp: waiting_client_def booted_def)
  then show ?thesis ..
qed

text \<open>A kernel that has nothing to report, and the base loop back at its poll.\<close>

definition client_os :: "bytes \<Rightarrow> server_os" where
  "client_os inp = (session_os 9 inp)\<lparr>os_accept4 := \<lambda>fd n. Inl 11\<rparr>"

definition quiet_os :: server_os where
  "quiet_os = client_os []"

lemma client_os: "os_quiet (client_os inp)" "no_fault (os_calls.truncate (client_os inp))" "os_readv (client_os inp) = os_readv (demo_os 9 inp)"
  using demo_os_ok [of 9 inp] by (simp_all add: os_quiet_def client_os_def) (simp add: no_fault_def os_calls.defs)

lemmas quiet_os = client_os(1,2) [of "[]", folded quiet_os_def]

lemma client_kernel:
  assumes "ep_run (ctl_log (poller (lget l (sy_world s)))) Map.empty = Some m" and "m fd = Some (ev, ptr)"
  shows "kernel_ok (client_os inp) (demo_wait ptr) l s"
  using quiet_kernel [OF client_os(1), of inp l s] demo_wait_ok [where m = m, OF assms(2)] assms(1) by (simp add: kernel_ok_def)

text \<open>A loop polls while the kernel has input for one of its channels.\<close>

lemma client_polled:
  assumes ok: "sys_ok s" and l: "l \<in> set (srv_loops (sy_world s))" and at: "sy_pc s l = At_poll"
    and m: "ep_run (ctl_log (poller (lget l (sy_world s)))) Map.empty = Some m" "m fd = Some (ev, ptr)"
  shows "\<exists>w ch. srv_step os (demo_wait ptr) now l s = Inr (go l (At_channels [ptr]) w s) \<and> w_conns w = w_conns (sy_world s) \<and>
    s_nextConnId w = s_nextConnId (sy_world s) \<and> srv_loops w = srv_loops (sy_world s) \<and>
    ep_run (ctl_log (poller (lget l w))) Map.empty = Some m \<and>
    chan_heap (poller (lget l w)) ptr = Some ch \<and> ch_revents ch = EPOLLIN"
proof -
  let ?p = "poller (lget l (sy_world s))"
  obtain m' where "coherent {} ?p m'" using srv_heapsD(1) [OF coreD(2) [OF sys_okD(5) [OF ok]] l] by (auto simp: poller_inv_def)
  with m(1) have coh: "coherent {} ?p m" using coherentD(1) by fastforce
  have wait: "demo_wait ptr (eventListSize ?p) = Inr [(EPOLLIN, ptr)]" using coherentD(5) [OF coh] by (cases "eventListSize ?p") (simp_all add: demo_wait_def)
  obtain p where p: "poll (demo_wait ptr) [] ?p = Inr ([ptr], p)" "coherent {} p m" "chan_heap p = apply_reports [(EPOLLIN, ptr)] (chan_heap ?p)"
    using poll_ok [OF coh demo_wait_ok [where m = m, OF m(2)], of "[]"] unfolding wait by auto
  obtain ch where ch: "chan_heap ?p ptr = Some ch" using coherentD(4) [OF coh] m(2) by blast
  let ?w = "lput l ((lget l (sy_world s))\<lparr>activeChannels := [ptr], poller := p, pollReturnTime := now\<rparr>) (sy_world s)"
  have "srv_step os (demo_wait ptr) now l s = Inr (go l (At_channels [ptr]) ?w s)" using p(1) at by (simp add: srv_step_def Let_def)
  moreover have "s_nextConnId ?w = s_nextConnId (sy_world s)" by (simp add: lput_def)
  ultimately show ?thesis using p(3) ch coherentD(1) [OF p(2)]
    by (intro exI [of _ ?w] exI [of _ "set_revents EPOLLIN ch"]) (simp add: set_revents_def)
qed

lemma reach_moves: "reach srv_idle srv_move s \<Longrightarrow> srv_move\<^sup>*\<^sup>* s t \<Longrightarrow> reach srv_idle srv_move t"
  by (rule srv.reach_steps)

definition polled_client :: "srv_sys \<Rightarrow> bool" where
  "polled_client s \<longleftrightarrow> reach srv_idle srv_move s \<and> calm s \<and> all_polling s \<and> s_loop (sy_world s) = 0 \<and>
     pendingFunctors (lget 0 (sy_world s)) = [] \<and> (\<exists>n. s_connections (sy_world s) n = Some 9)"

lemma first_client_polled: "\<exists>s. polled_client s"
proof -
  obtain s c where s: "reach srv_idle srv_move s" "calm s" "w_conns (sy_world s) 9 = Some c" "sy_pc s = (\<lambda>_. At_poll)(0 := At_channels [])"
    "pendingFunctors (lget 3 (sy_world s)) = [F_connectEstablished 9]" "pendingFunctors (lget 0 (sy_world s)) = []" "srv_loops (sy_world s) = [0, 3, 5, 7]"
    using first_client unfolding waiting_client_def by blast
  note d = sys_okD [OF srv.reach_inv [OF s(1)]]
  have "functor_inv (sy_world s) 3 (F_connectEstablished 9)"
    by (rule srv_queueD(1) [OF coreD(5) [OF d(5)]]) (simp_all add: s fut_def)
  then have inm: "s_connections (sy_world s) (c_name c) = Some 9" using s(3) by (auto simp: in_map_def conn_ok_def)
  obtain s1 where 1: "sys_ok s1" "calm s1" "srv_move s s1" "sy_pc s1 = (sy_pc s)(0 := At_functors [] [])"
    "srv_loops (sy_world s1) = srv_loops (sy_world s)" "s_connections (sy_world s1) = s_connections (sy_world s)"
    "\<forall>a. pendingFunctors (lget a (sy_world s1)) = (if a = 0 then [] else pendingFunctors (lget a (sy_world s)))"
    using round_swap [OF quiet_os(1) srv.reach_inv [OF s(1)] s(2), of 0 0] s(4,6,7) by auto
  obtain s2 where 2: "sys_ok s2" "srv_move s1 s2" "sy_pc s2 = (sy_pc s1)(0 := At_poll)" "quiet_change True (sy_world s1) (sy_world s2)"
    using round_end [OF quiet_os(1) 1(1,2), of 0 "[]" 0] 1(4,5) s(7) by auto
  have "reach srv_idle srv_move s2" using s(1) 1(3) 2(2) by (blast intro: reach_step)
  moreover have "calm s2" by (rule quiet_calm [OF 1(2) 2(4)])
  moreover have q: "srv_loops (sy_world s2) = [0, 3, 5, 7]" "s_connections (sy_world s2) (c_name c) = Some 9" "pendingFunctors (lget 0 (sy_world s2)) = []"
    using 2(4) 1(5-7) s(7) inm unfolding quiet_change_def by auto
  moreover have "all_polling s2" "s_loop (sy_world s2) = 0" using 2(3) 1(4) s(4) q(1) by (auto simp: all_polling_def srv_loops_def)
  ultimately have "polled_client s2" unfolding polled_client_def by blast
  then show ?thesis ..
qed

lemma serving_kernel:
  assumes "conn_ok cid c ch w" and "sound c ch"
  shows "\<exists>m ev. ep_run (ctl_log (poller (lget (c_loop c) w))) Map.empty = Some m \<and> m (c_sockfd c) = Some (ev, c_channel c) \<and>
    ev AND readEvent \<noteq> 0 \<and> (ev AND writeEvent \<noteq> 0 \<longleftrightarrow> content (outputBuffer c) \<noteq> [])"
  using registered_kernel [OF conn_okD(6,4) [OF assms(1)]] conn_okD(5) [OF assms(1)] assms(2)
  by (auto simp: sound_def out_sync_def isReading_def isWriting_def)

text \<open>At rest, the map holds the connections, and the kernel watches their sockets.\<close>

lemma rest_map:
  assumes "reach srv_idle srv_move s" and "resting s"
  shows "s_connections (sy_world s) n = Some cid \<longleftrightarrow> (\<exists>c. w_conns (sy_world s) cid = Some c \<and> c_name c = n)"
  using srv_mapD [OF coreD(3) [OF sys_okD(5) [OF srv.reach_inv [OF assms(1)]]]] resting_served [OF srv.reach_inv [OF assms(1)] assms(2)]
  by (auto simp: in_map_def)

lemma rest_watched:
  assumes "reach srv_idle srv_move s" and "resting s" and c: "w_conns (sy_world s) cid = Some c"
  shows "c_state c = kConnected \<and> content (inputBuffer c) = [] \<and>
    (\<exists>m ev. ep_run (ctl_log (poller (lget (c_loop c) (sy_world s)))) Map.empty = Some m \<and> m (c_sockfd c) = Some (ev, c_channel c) \<and>
       ev AND readEvent \<noteq> 0 \<and> (ev AND writeEvent \<noteq> 0 \<longleftrightarrow> content (outputBuffer c) \<noteq> []))"
proof -
  note ok = srv.reach_inv [OF assms(1)]
  obtain ch where ch: "conn_ok cid c ch (sy_world s)" "in_phase (todo_of s) (held_of s) (sy_world s) cid c ch Serving"
    using resting_served [OF ok assms(2) c] by blast
  with serving_kernel [OF ch(1)] conns_apartD(2) [OF sys_okD(3) [OF ok] c] show ?thesis by simp
qed

lemma client_at_rest:
  "\<exists>s c m ev. reach srv_idle srv_move s \<and> calm s \<and> resting s \<and> w_conns (sy_world s) 9 = Some c \<and>
     ep_run (ctl_log (poller (lget (c_loop c) (sy_world s)))) Map.empty = Some m \<and> m (c_sockfd c) = Some (ev, c_channel c)"
proof -
  obtain s n where s: "reach srv_idle srv_move s" "calm s" "all_polling s" "s_loop (sy_world s) = 0"
    "pendingFunctors (lget 0 (sy_world s)) = []" "s_connections (sy_world s) n = Some 9"
    using first_client_polled unfolding polled_client_def by blast
  obtain s' where s': "srv_move\<^sup>*\<^sup>* s s'" "resting s'" "s_connections (sy_world s') = s_connections (sy_world s)" "calm s'"
    using come_to_rest [OF quiet_os(1) srv.reach_inv [OF s(1)] s(2,3), of 0] s(4,5) by auto
  have r: "reach srv_idle srv_move s'" by (rule reach_moves [OF s(1) s'(1)])
  obtain c where c: "w_conns (sy_world s') 9 = Some c" using rest_map [OF r s'(2), of n 9] s(6) s'(3) by auto
  from rest_watched [OF r s'(2) c] r s'(2,4) c show ?thesis by blast
qed

text \<open>The callbacks of a channel destroy no connection.\<close>

lemma channels_keep:
  assumes "step_effect os l s s'" and "sy_pc s l = At_channels (ptr # rest)" and "w_conns (sy_world s) cid = Some c"
  shows "\<exists>c'. w_conns (sy_world s') cid = Some c'"
  using assms
proof (cases rule: step_effect.cases)
  case (E_conn ptr' rest' cid' c' w')
  then show ?thesis using effects_frame [OF E_conn(7,3)] assms(3) by auto
next
  case (E_accept ptr' rest' w')
  then show ?thesis using assms(3) by (auto simp: accept_effect_def added_frame(9) touchD(5))
qed simp_all

text \<open>The loop of a client at rest polls and reads what the client has sent.\<close>

lemma client_reads:
  assumes s: "reach srv_idle srv_move s" "calm s" "resting s" and c: "w_conns (sy_world s) cid = Some c"
    and m: "ep_run (ctl_log (poller (lget (c_loop c) (sy_world s)))) Map.empty = Some m" "m (c_sockfd c) = Some (ev, c_channel c)"
    and inp: "length inp \<le> 65536"
  shows "run_ok (replicate 2 (client_os inp, demo_wait (c_channel c), now, c_loop c)) s \<and>
    run_reads (replicate 2 (client_os inp, demo_wait (c_channel c), now, c_loop c)) cid s = inp \<and>
    (\<exists>s' c'. srv_run (replicate 2 (client_os inp, demo_wait (c_channel c), now, c_loop c)) s = Inr s' \<and> w_conns (sy_world s') cid = Some c')"
proof -
  let ?l = "c_loop c" and ?ptr = "c_channel c" and ?os = "client_os inp"
  note ok = srv.reach_inv [OF s(1)]
  obtain ch0 where "conn_ok cid c ch0 (sy_world s)" using resting_served [OF ok s(3) c] by blast
  then have l: "?l \<in> set (srv_loops (sy_world s))" using srv_connD(3) [OF coreD(3) [OF sys_okD(5) [OF ok]]] by blast
  then have at: "sy_pc s ?l = At_poll" using s(3) by (simp add: resting_def all_polling_def)
  obtain w ch where 1: "srv_step ?os (demo_wait ?ptr) now ?l s = Inr (go ?l (At_channels [?ptr]) w s)" "w_conns w = w_conns (sy_world s)"
    "s_nextConnId w = s_nextConnId (sy_world s)" "srv_loops w = srv_loops (sy_world s)" "ep_run (ctl_log (poller (lget ?l w))) Map.empty = Some m"
    "chan_heap (poller (lget ?l w)) ?ptr = Some ch" "ch_revents ch = EPOLLIN"
    using client_polled [OF ok l at m, of ?os now] by blast
  let ?s1 = "go ?l (At_channels [?ptr]) w s"
  have k: "kernel_ok ?os (demo_wait ?ptr) ?l s" "kernel_ok ?os (demo_wait ?ptr) ?l ?s1"
    by (rule client_kernel [where m = m, OF _ m(2)], simp add: m 1)+
  have calm: "calm ?s1" using s(2) 1(2,3) by (simp add: calm_def)
  have "os_readv ?os (c_sockfd c) (read_iov (inputBuffer c)) = Inr inp"
    using read_iov_room [of "inputBuffer c"] inp by (simp add: client_os demo_os_def)
  then have "step_read ?os ?l s cid = []" "step_read ?os ?l ?s1 cid = inp"
    using at c 1 by (simp_all add: step_read_def read_bytes_def readEvent_def EPOLLIN_def EPOLLPRI_def)
  moreover have "\<exists>s' c'. srv_step ?os (demo_wait ?ptr) now ?l ?s1 = Inr s' \<and> w_conns (sy_world s') cid = Some c'"
  proof -
    have "sys_ok ?s1" using step_ok [OF ok l k(1) s(2), of now] 1(1) by auto
    then obtain s' where "srv_step ?os (demo_wait ?ptr) now ?l ?s1 = Inr s'" "step_effect ?os ?l ?s1 s'"
      using step_ok [OF _ _ k(2) calm, of now] l 1(4) by auto
    with channels_keep [OF this(2), of ?ptr "[]" cid c] c 1(2) show ?thesis by simp
  qed
  ultimately show ?thesis using 1 k calm l s(2) by (auto simp: numeral_2_eq_2 client_os(2))
qed

section \<open>Properties\<close>





text \<open>
  C4: No connection leaks. When all threads stand before their poll and no functor is queued, the connection
  objects are exactly those of the server's map, and each of them is connected, has handed all its input to the
  application, and is registered in the kernel under its descriptor for reading, and for writing exactly when
  output waits.
\<close>

theorem resting_no_leak:
  assumes "reach srv_idle srv_move s" and "resting s"
  shows "(\<forall>n cid. s_connections (sy_world s) n = Some cid \<longleftrightarrow> (\<exists>c. w_conns (sy_world s) cid = Some c \<and> c_name c = n)) \<and>
    (\<forall>cid c. w_conns (sy_world s) cid = Some c \<longrightarrow> c_state c = kConnected \<and> content (inputBuffer c) = [] \<and>
       (\<exists>m ev. ep_run (ctl_log (poller (lget (c_loop c) (sy_world s)))) Map.empty = Some m \<and> m (c_sockfd c) = Some (ev, c_channel c) \<and>
          ev AND readEvent \<noteq> 0 \<and> (ev AND writeEvent \<noteq> 0 \<longleftrightarrow> content (outputBuffer c) \<noteq> [])))"
  using rest_map [OF assms] rest_watched [OF assms] by blast

theorem resting_no_leak_witness:
  "\<exists>s c m ev. reach srv_idle srv_move s \<and> resting s \<and> w_conns (sy_world s) 9 = Some c \<and> c_state c = kConnected \<and>
     ep_run (ctl_log (poller (lget (c_loop c) (sy_world s)))) Map.empty = Some m \<and> m (c_sockfd c) = Some (ev, c_channel c)"
  using client_at_rest resting_no_leak by blast

text \<open>
  C6: The server comes to rest. From every reachable state in which the threads are at their polls, with
  any functors queued, one round of each loop and one more of the base loop, in which the kernel reports
  nothing, run without a failure and leave no functor queued: no functor is lost and none re-queues itself
  for ever. If no removal was asked for, the server's map is as before.
\<close>

theorem server_comes_to_rest:
  assumes "reach srv_idle srv_move s" and "all_polling s" and "calm s" and "os_quiet os"
  shows "\<exists>s'. quiet_rounds os now (srv_loops (sy_world s) @ [s_loop (sy_world s)]) s = Inr s' \<and> reach srv_idle srv_move s' \<and> resting s' \<and>
    (no_remove (pendingFunctors (lget (s_loop (sy_world s)) (sy_world s))) \<longrightarrow> s_connections (sy_world s') = s_connections (sy_world s))"
  using come_to_rest [OF assms(4) srv.reach_inv [OF assms(1)] assms(3,2)] reach_moves [OF assms(1)] by blast

theorem server_comes_to_rest_witness:
  "\<exists>s s'. polled_client s \<and> quiet_rounds quiet_os 0 (srv_loops (sy_world s) @ [0]) s = Inr s' \<and> resting s' \<and>
     s_connections (sy_world s') = s_connections (sy_world s)"
proof -
  obtain s where s: "polled_client s" using first_client_polled by blast
  then have p: "reach srv_idle srv_move s" "all_polling s" "calm s" "s_loop (sy_world s) = 0" "pendingFunctors (lget 0 (sy_world s)) = []"
    by (auto simp: polled_client_def)
  from server_comes_to_rest [OF p(1-3) quiet_os(1), of 0] s show ?thesis unfolding p(4,5) by auto
qed







end
