(* ===== verification/Server_Teardown.thy ===== *)
theory Server_Teardown
  imports Server_Sessions
begin

text \<open>
  The end of a server (\<open>TcpServer::~TcpServer\<close>, \<open>Acceptor::~Acceptor\<close>) that runs in one thread: the
  destructor takes the connections out of the map one by one and runs \<open>connectDestroyed\<close> for each, which
  is the last owner and goes at the end of the iteration.
\<close>

section \<open>What an operation on one channel leaves alone\<close>

definition others_kept :: "nat \<Rightarrow> nat \<Rightarrow> 'z world_scheme \<Rightarrow> 'z world_scheme \<Rightarrow> bool" where
  "others_kept a ptr w w' \<longleftrightarrow> (\<forall>q. q \<noteq> ptr \<longrightarrow> chan_heap (poller (lget a w')) q = chan_heap (poller (lget a w)) q)"

lemma others_kept_refl: "others_kept a ptr w w"
  by (simp add: others_kept_def)

lemma others_kept_trans: "others_kept a ptr u v \<Longrightarrow> others_kept a ptr v w \<Longrightarrow> others_kept a ptr u w"
  by (simp add: others_kept_def)

lemma channel_op_other:
  assumes "f \<in> channel_ops" and "f ptr p = Inr p'" and "q \<noteq> ptr"
  shows "chan_heap p' q = chan_heap p q"
  using assms
  by (auto simp: channel_ops_def channel_set_events_def updateChannel_def removeChannel_def poller_update_def Let_def
      bindR_eq_Inr deref_def split: if_splits option.splits)

lemma others_with_channel:
  "f \<in> channel_ops \<Longrightarrow> with_channel f c w = Inr w' \<Longrightarrow> others_kept a (c_channel c) w w'"
  by (auto simp: others_kept_def with_channel_def bindR_eq_Inr dest: channel_op_other)

lemma others_callback:
  "call_connectionCallback user cid w = Inr w' \<Longrightarrow> (\<And>cb w. w_conns w cid \<noteq> None \<Longrightarrow> on_connection user cb cid w = Inr w) \<Longrightarrow>
   others_kept a ptr w w'"
  by (auto simp: call_connectionCallback_def bindR_eq_Inr others_kept_def split: option.splits)

lemma others_connectDestroyed:
  assumes r: "connectDestroyed user cid w = Inr w'" and c: "w_conns w cid = Some c"
    and u: "\<And>cb w. w_conns w cid \<noteq> None \<Longrightarrow> on_connection user cb cid w = Inr w"
  shows "others_kept a (c_channel c) w w'"
proof -
  from r c obtain w3 where 3: "with_channel removeChannel c w3 = Inr w'"
    and 1: "(if c_state c = kConnected then bindR (setState kDisconnected cid w) (\<lambda>w1.
        bindR (with_channel disbaleAll c w1) (\<lambda>w2. call_connectionCallback user cid w2)) else Inr w) = Inr w3"
    by (auto simp: connectDestroyed_def bindR_eq_Inr)
  have set: "setState st cid w = Inr w1 \<Longrightarrow> others_kept a (c_channel c) w w1" for st w1
    by (auto simp: setState_def bindR_eq_Inr others_kept_def)
  have "others_kept a (c_channel c) w w3"
    using 1 by (auto simp: bindR_eq_Inr others_kept_refl split: if_splits
      intro: others_kept_trans [OF others_kept_trans [OF set others_with_channel [of disbaleAll]] others_callback [OF _ u]])
  from others_kept_trans [OF this others_with_channel [OF _ 3]] show ?thesis by simp
qed

section \<open>A server in one thread\<close>

definition serving :: "int \<Rightarrow> server_world \<Rightarrow> bool" where
  "serving tid w \<longleftrightarrow> threadId (lget (s_loop w) w) = tid \<and> pendingFunctors (lget (s_loop w) w) = [] \<and>
     pool_loops (s_pool w) = [] \<and> poller_inv (poller (lget (s_loop w) w)) \<and>
     (\<exists>ach. chan_heap (poller (lget (s_loop w) w)) (acc_channel (s_acceptor w)) = Some ach \<and> ch_fd ach = acc_sockfd (s_acceptor w)) \<and>
     (\<forall>n cid. s_connections w n = Some cid \<longrightarrow> (\<exists>c. w_conns w cid = Some c \<and> c_name c = n)) \<and>
     (\<forall>cid c. w_conns w cid = Some c \<longrightarrow> s_connections w (c_name c) = Some cid \<and> cid < s_fresh w \<and> c_loop c = s_loop w \<and>
        c_state c = kConnected \<and> connectionCallback c \<noteq> None \<and> c_channel c \<noteq> acc_channel (s_acceptor w) \<and>
        (\<exists>ch. conn_ok cid c ch w)) \<and>
     (\<forall>j cj k ck. w_conns w j = Some cj \<longrightarrow> w_conns w k = Some ck \<longrightarrow> c_channel cj = c_channel ck \<longrightarrow> j = k)"

lemma servingD:
  assumes "serving tid w"
  shows "threadId (lget (s_loop w) w) = tid" "pendingFunctors (lget (s_loop w) w) = []" "pool_loops (s_pool w) = []"
    "poller_inv (poller (lget (s_loop w) w))"
    "\<exists>ach. chan_heap (poller (lget (s_loop w) w)) (acc_channel (s_acceptor w)) = Some ach \<and> ch_fd ach = acc_sockfd (s_acceptor w)"
    "s_connections w n = Some cid \<Longrightarrow> \<exists>c. w_conns w cid = Some c \<and> c_name c = n"
    "w_conns w cid = Some c \<Longrightarrow> s_connections w (c_name c) = Some cid" "w_conns w cid = Some c \<Longrightarrow> cid < s_fresh w"
    "w_conns w cid = Some c \<Longrightarrow> c_loop c = s_loop w" "w_conns w cid = Some c \<Longrightarrow> c_state c = kConnected"
    "w_conns w cid = Some c \<Longrightarrow> connectionCallback c \<noteq> None" "w_conns w cid = Some c \<Longrightarrow> c_channel c \<noteq> acc_channel (s_acceptor w)"
    "w_conns w cid = Some c \<Longrightarrow> \<exists>ch. conn_ok cid c ch w"
    "w_conns w k = Some ck \<Longrightarrow> w_conns w cid = Some c \<Longrightarrow> c_channel ck = c_channel c \<Longrightarrow> k = cid"
  using assms unfolding serving_def by blast+

lemma server_more_acceptor:
  "world.more w' = world.more (w :: server_world) \<Longrightarrow> s_acceptor w' = s_acceptor w"
  by (cases w; cases w'; simp)

text \<open>
  One iteration: the connection is announced as down, unregistered and destroyed; everything else stays.
\<close>

lemma destroy_one:
  fixes os :: os_calls
  assumes srv: "serving tid w" and c: "w_conns w cid = Some c"
  defines "u \<equiv> server_user tid (echo_user os tid)"
  shows "\<exists>w1 w2. connectDestroyed u cid (w\<lparr>s_connections := (s_connections w)(c_name c := None)\<rparr>) = Inr w1 \<and> release w1 = Inr w2 \<and>
    w_conns w2 = (w_conns w)(cid := None) \<and> s_connections w2 = (s_connections w)(c_name c := None) \<and>
    s_loop w2 = s_loop w \<and> s_pool w2 = s_pool w \<and> s_fresh w2 = s_fresh w \<and> s_acceptor w2 = s_acceptor w \<and>
    threadId (lget (s_loop w) w2) = tid \<and> pendingFunctors (lget (s_loop w) w2) = [] \<and>
    poller_inv (poller (lget (s_loop w) w2)) \<and>
    chan_heap (poller (lget (s_loop w) w2)) = (chan_heap (poller (lget (s_loop w) w)))(c_channel c := None) \<and>
    w_trace w2 = w_trace w @ [Connection_cb cid False, Sock (Call_close (c_sockfd c))]"
proof -
  let ?lid = "s_loop w" and ?c = "c\<lparr>c_state := kDisconnected\<rparr>" and ?w = "w\<lparr>s_connections := (s_connections w)(c_name c := None)\<rparr>"
  note s = servingD [OF srv]
  obtain ch cb where ch: "conn_ok cid c ch w" and cb: "connectionCallback c = Some cb" and st: "c_state c = kConnected"
    and lid: "c_loop c = ?lid"
    using s(9-11,13) [OF c] by blast
  have ok: "conn_ok cid c ch ?w" using ch by (simp add: conn_ok_def lget_def)
  have same: "on_connection u cb cid v = Inr v" if "w_conns v cid \<noteq> None" for cb v
    using EchoServer_onConnection_ok [OF that] by (simp add: u_def server_user_def echo_user_def)
  have "connection_cb_ok u cb cid ?c" using same by (auto simp: connection_cb_ok_def conn_ok_def)
  from connectDestroyed_ok [OF ok st cb this] obtain w1 ch1 where
    w1: "connectDestroyed u cid ?w = Inr w1" "conn_ok cid ?c ch1 w1" "ch_index ch1 = NEW"
      "w_trace w1 = w_trace ?w @ [Connection_cb cid False]"
    by blast
  have q: "quiet cid ?lid ?w w1" using quiet_connectDestroyed [OF w1(1) same] .
  note f = server_more [OF q [unfolded quiet_def, THEN conjunct1]]
  have f5: "s_acceptor w1 = s_acceptor w" using server_more_acceptor [OF q [unfolded quiet_def, THEN conjunct1]] by simp
  have o: "others_kept ?lid (c_channel c) ?w w1" by (rule others_connectDestroyed [OF w1(1) _ same]) (use c in simp_all)
  have l1: "threadId (lget ?lid w1) = tid" "pendingFunctors (lget ?lid w1) = []"
    using q s(1,2) by (simp_all add: quiet_def) (simp_all add: lget_def)
  have conns: "w_conns w1 cid = Some ?c" "k \<noteq> cid \<Longrightarrow> w_conns w1 k = w_conns w k" for k
    using w1(2) q by (simp_all add: conn_ok_def quiet_def)
  have un: "\<not> owned cid ?c w1" using f l1 s(3) by (simp add: owned_def)
  have oth: "s_connections w1 (c_name ck) = Some k" if "k \<noteq> cid" "w_conns w1 k = Some ck" for k ck
    using s(7) [of k ck] s(7) [OF c] that conns(2) f(2) by (cases "c_name ck = c_name c") auto
  have "release w1 = TcpConnection_destroy cid w1"
    unfolding release_def by (rule release_conns_one [OF _ _ conns(1) un oth]) (use f(4) s(8) [OF c] in simp_all)
  also have "\<dots> = Inr (emit [Sock (Call_close (c_sockfd c))] (lput ?lid ((lget ?lid w1)\<lparr>poller :=
      (poller (lget ?lid w1))\<lparr>chan_heap := (chan_heap (poller (lget ?lid w1)))(c_channel c := None)\<rparr>\<rparr>)
      (w1\<lparr>w_conns := (w_conns w1)(cid := None)\<rparr>)))" (is "_ = Inr ?w2")
    using conns(1) lid by (simp add: TcpConnection_destroy_def Let_def Socket_destroy_def)
  finally have rel: "release w1 = Inr ?w2" .
  obtain m where "coherent {} (poller (lget ?lid w1)) m" using conn_okD(6) [OF w1(2)] lid unfolding poller_inv_def by auto
  from coherent_free [OF this _ w1(3), of "c_channel c"] have inv: "poller_inv (poller (lget ?lid ?w2))"
    using conn_okD(4) [OF w1(2)] lid unfolding poller_inv_def by auto
  have heap: "chan_heap (poller (lget ?lid ?w2)) = (chan_heap (poller (lget ?lid w)))(c_channel c := None)"
    using o by (auto simp: others_kept_def fun_eq_iff) (simp add: lget_def)
  have "w_conns ?w2 = (w_conns w)(cid := None)" using conns(2) by (auto simp: fun_eq_iff)
  moreover have "s_connections ?w2 = (s_connections w)(c_name c := None)" "s_loop ?w2 = ?lid" "s_pool ?w2 = s_pool w"
    "s_fresh ?w2 = s_fresh w" "s_acceptor ?w2 = s_acceptor w"
    using f f5 by (simp_all add: emit_def lput_def)
  moreover have "threadId (lget ?lid ?w2) = tid" "pendingFunctors (lget ?lid ?w2) = []" using l1 by simp_all
  moreover have "w_trace ?w2 = w_trace w @ [Connection_cb cid False, Sock (Call_close (c_sockfd c))]" using w1(4) by simp
  ultimately show ?thesis using w1(1) rel inv heap by (intro exI [of _ w1] exI [of _ ?w2]) simp
qed

lemma serving_without:
  assumes srv: "serving tid w" and c: "w_conns w cid = Some c"
    and conns: "w_conns w2 = (w_conns w)(cid := None)" "s_connections w2 = (s_connections w)(c_name c := None)"
    and same: "s_loop w2 = s_loop w" "s_pool w2 = s_pool w" "s_fresh w2 = s_fresh w" "s_acceptor w2 = s_acceptor w"
    and l: "threadId (lget (s_loop w) w2) = tid" "pendingFunctors (lget (s_loop w) w2) = []" "poller_inv (poller (lget (s_loop w) w2))"
    and heap: "chan_heap (poller (lget (s_loop w) w2)) = (chan_heap (poller (lget (s_loop w) w)))(c_channel c := None)"
  shows "serving tid w2"
proof -
  note s = servingD [OF srv]
  have "\<exists>ck. w_conns w2 k = Some ck \<and> c_name ck = n" if "s_connections w2 n = Some k" for n k
    using that s(6) [of n k] s(7) [OF c] c by (auto simp: conns split: if_splits)
  moreover have "s_connections w2 (c_name ck) = Some k \<and> k < s_fresh w2 \<and> c_loop ck = s_loop w2 \<and>
      c_state ck = kConnected \<and> connectionCallback ck \<noteq> None \<and> c_channel ck \<noteq> acc_channel (s_acceptor w2) \<and> (\<exists>ch. conn_ok k ck ch w2)"
    if k: "w_conns w2 k = Some ck" for k ck
  proof -
    have kc: "w_conns w k = Some ck" "k \<noteq> cid" using k by (auto simp: conns split: if_splits)
    obtain ch where ch: "conn_ok k ck ch w" using s(13) [OF kc(1)] by blast
    have "c_channel ck \<noteq> c_channel c" using s(14) [OF kc(1) c] kc(2) by blast
    then have "conn_ok k ck ch w2" using ch k l(3) heap s(9) [OF kc(1)] by (simp add: conn_ok_def)
    moreover have "c_name ck \<noteq> c_name c" using s(7) [OF kc(1)] s(7) [OF c] kc(2) by auto
    ultimately show ?thesis using s(7-12) [OF kc(1)] by (auto simp: conns same)
  qed
  moreover have "j = k" if "w_conns w2 j = Some cj" "w_conns w2 k = Some ck" "c_channel cj = c_channel ck" for j cj k ck
    using that s(14) [of j cj k ck] by (auto simp: conns split: if_splits)
  moreover have "\<exists>ach. chan_heap (poller (lget (s_loop w2) w2)) (acc_channel (s_acceptor w2)) = Some ach \<and> ch_fd ach = acc_sockfd (s_acceptor w2)"
    using s(5) s(12) [OF c] by (auto simp: same heap)
  ultimately show ?thesis using s(3) l by (simp add: serving_def same)
qed

section \<open>The destructors\<close>

text \<open>What the destructor of the server makes visible for one entry of its map.\<close>

definition goodbye :: "server_world \<Rightarrow> string \<Rightarrow> net_event list" where
  "goodbye w n =
     (case s_connections w n of
        None \<Rightarrow> []
      | Some cid \<Rightarrow> (case w_conns w cid of
                       None \<Rightarrow> []
                     | Some c \<Rightarrow> [Connection_cb cid False, Sock (Call_close (c_sockfd c))]))"

text \<open>The channels of the connections with these names.\<close>

definition channels_of :: "string set \<Rightarrow> server_world \<Rightarrow> nat set" where
  "channels_of ns w = {c_channel c | cid c. w_conns w cid = Some c \<and> c_name c \<in> ns}"

lemma destroy_conns_ok:
  fixes os :: os_calls
  assumes "serving tid w" and "distinct order"
  shows "\<exists>w'. destroy_conns (echo_user os tid) tid order w = Inr w' \<and> serving tid w' \<and>
    s_loop w' = s_loop w \<and> s_pool w' = s_pool w \<and> s_acceptor w' = s_acceptor w \<and>
    s_connections w' = s_connections w |` (- set order) \<and>
    chan_heap (poller (lget (s_loop w) w')) = chan_heap (poller (lget (s_loop w) w)) |` (- channels_of (set order) w) \<and>
    w_trace w' = w_trace w @ concat (map (goodbye w) order)"
  using assms
proof (induction order arbitrary: w)
  case Nil
  then show ?case by (simp add: channels_of_def)
next
  case (Cons n order)
  note s = servingD [OF Cons.prems(1)]
  show ?case
  proof (cases "s_connections w n")
    case None
    have "channels_of (insert n (set order)) w = channels_of (set order) w"
      using s(7) None by (auto simp: channels_of_def)
    moreover have "s_connections w |` (- insert n (set order)) = s_connections w |` (- set order)"
      using None by (auto simp: restrict_map_def fun_eq_iff)
    ultimately show ?thesis using Cons.IH [OF Cons.prems(1)] Cons.prems(2) None by (simp add: goodbye_def)
  next
    case (Some cid)
    then obtain c where c: "w_conns w cid = Some c" "c_name c = n" using s(6) by blast
    let ?w = "w\<lparr>s_connections := (s_connections w)(c_name c := None)\<rparr>"
    from destroy_one [OF Cons.prems(1) c(1), of os] obtain w1 w2 where
      r: "connectDestroyed (server_user tid (echo_user os tid)) cid ?w = Inr w1" "release w1 = Inr w2"
      and conns: "w_conns w2 = (w_conns w)(cid := None)" "s_connections w2 = (s_connections w)(c_name c := None)"
      and same: "s_loop w2 = s_loop w" "s_pool w2 = s_pool w" "s_fresh w2 = s_fresh w" "s_acceptor w2 = s_acceptor w"
      and l: "threadId (lget (s_loop w) w2) = tid" "pendingFunctors (lget (s_loop w) w2) = []" "poller_inv (poller (lget (s_loop w) w2))"
      and heap: "chan_heap (poller (lget (s_loop w) w2)) = (chan_heap (poller (lget (s_loop w) w)))(c_channel c := None)"
      and tr: "w_trace w2 = w_trace w @ [Connection_cb cid False, Sock (Call_close (c_sockfd c))]"
      by blast
    have "serving tid w2" by (rule serving_without [OF Cons.prems(1) c(1) conns same l heap])
    from Cons.IH [OF this] Cons.prems(2) obtain w' where
      i: "destroy_conns (echo_user os tid) tid order w2 = Inr w'" "serving tid w'" "s_loop w' = s_loop w" "s_pool w' = s_pool w"
        "s_acceptor w' = s_acceptor w" "s_connections w' = s_connections w2 |` (- set order)"
        "chan_heap (poller (lget (s_loop w) w')) = chan_heap (poller (lget (s_loop w) w2)) |` (- channels_of (set order) w2)"
        "w_trace w' = w_trace w2 @ concat (map (goodbye w2) order)"
      by (auto simp: same)
    have "isInLoopThread tid (lget (c_loop c) ?w)" using s(1) s(9) [OF c(1)] by (simp add: isInLoopThread_def) (simp add: lget_def)
    then have "destroy_conns (echo_user os tid) tid (n # order) w = Inr w'"
      using Some c r i(1) by (simp add: runInLoop_def)
    moreover have same_rest: "map (goodbye w2) order = map (goodbye w) order"
    proof (rule map_cong [OF refl])
      fix k assume k: "k \<in> set order"
      with Cons.prems(2) c(2) have "k \<noteq> c_name c" by auto
      then show "goodbye w2 k = goodbye w k"
        using s(6) [of k cid] c(1) by (auto simp: goodbye_def conns split: option.split)
    qed
    moreover have chs: "channels_of (insert n (set order)) w = insert (c_channel c) (channels_of (set order) w2)"
    proof -
      have "k = cid \<or> c_name ck \<in> set order" if "w_conns w k = Some ck" "c_name ck \<in> insert n (set order)" for k ck
        using that s(7) [OF that(1)] Some by auto
      then show ?thesis using c by (auto simp: channels_of_def conns) (metis option.inject)+
    qed
    moreover have "goodbye w n = [Connection_cb cid False, Sock (Call_close (c_sockfd c))]" using Some c by (simp add: goodbye_def)
    then have "w_trace w' = w_trace w @ concat (map (goodbye w) (n # order))" using i(8) tr same_rest by simp
    moreover have "s_connections w' = s_connections w |` (- set (n # order))"
      using i(6) c(2) by (auto simp: conns restrict_map_def fun_eq_iff)
    moreover have "chan_heap (poller (lget (s_loop w) w')) =
        chan_heap (poller (lget (s_loop w) w)) |` (- channels_of (set (n # order)) w)"
      using i(7) heap chs by (auto simp: restrict_map_def fun_eq_iff)
    ultimately show ?thesis using i(2-5) by blast
  qed
qed

lemma Acceptor_destroy_ok:
  assumes inv: "poller_inv (poller (lget (s_loop w) w))"
    and ach: "chan_heap (poller (lget (s_loop w) w)) (acc_channel (s_acceptor w)) = Some ach"
  shows "\<exists>p. Acceptor_destroy w = Inr (emit [Sock (Call_close (acc_sockfd (s_acceptor w)))]
      (lput (s_loop w) ((lget (s_loop w) w)\<lparr>poller := p\<rparr>) w)) \<and> poller_inv p \<and>
    chan_heap p = (chan_heap (poller (lget (s_loop w) w)))(acc_channel (s_acceptor w) := None)"
proof -
  let ?lid = "s_loop w" and ?ptr = "acc_channel (s_acceptor w)" and ?p = "poller (lget (s_loop w) w)"
  obtain m where coh: "coherent {} ?p m" using inv unfolding poller_inv_def by blast
  note r1 = channel_set_events_ok [OF coh ach, of mask_disbaleAll]
  let ?p1 = "mask_result mask_disbaleAll ach ?ptr ?p"
  have h1: "chan_heap ?p1 ?ptr = Some (mask_chan mask_disbaleAll ach)"
    by (simp add: mask_result_def update_result_def mask_chan_def Let_def)
  obtain p2 m2 where r2: "removeChannel ?ptr ?p1 = Inr p2" "coherent {} p2 m2"
    "chan_heap p2 ?ptr = Some (set_index NEW (mask_chan mask_disbaleAll ach))"
    using removeChannel_ok [OF r1(2) h1] by simp
  have "poller_inv (p2\<lparr>chan_heap := (chan_heap p2)(?ptr := None)\<rparr>)"
    using coherent_free [OF r2(2,3)] unfolding poller_inv_def by auto
  moreover have "(chan_heap p2)(?ptr := None) = (chan_heap ?p)(?ptr := None)"
    using channel_op_other [OF channel_ops_simps(2) r2(1)] channel_op_other [OF channel_ops_simps(1) r1(1)] by (auto simp: fun_eq_iff)
  moreover have "Acceptor_destroy w = Inr (emit [Sock (Call_close (acc_sockfd (s_acceptor w)))]
      (lput ?lid ((lget ?lid w)\<lparr>poller := p2\<lparr>chan_heap := (chan_heap p2)(?ptr := None)\<rparr>\<rparr>) w))"
    using r1(1) r2(1)
    by (simp add: Acceptor_destroy_def with_accept_channel_def disbaleAll_def Socket_destroy_def Let_def) (simp add: lput_def lget_def)
  ultimately show ?thesis by (intro exI [of _ "p2\<lparr>chan_heap := (chan_heap p2)(?ptr := None)\<rparr>"]) simp
qed

section \<open>Properties\<close>

text \<open>
  C18: Nothing of a server outlives its destructor: for every connection of the map, in whatever order the hash
  map is traversed, the application is told once that it is down and its descriptor is then closed; the
  listening descriptor is closed last. No connection and no channel of the server is left, and the
  kernel watches none of their descriptors.
\<close>

theorem server_torn_down:
  fixes os :: os_calls
  assumes srv: "serving tid w" and order: "distinct order" "set order = dom (s_connections w)"
  shows "\<exists>w' m. TcpServer_destroy (echo_user os tid) tid order w = Inr w' \<and> w_conns w' = Map.empty \<and> s_connections w' = Map.empty \<and>
    w_trace w' = w_trace w @ concat (map (goodbye w) order) @ [Sock (Call_close (acc_sockfd (s_acceptor w)))] \<and>
    ep_run (ctl_log (poller (lget (s_loop w) w'))) Map.empty = Some m \<and> m (acc_sockfd (s_acceptor w)) = None \<and>
    chan_heap (poller (lget (s_loop w) w')) (acc_channel (s_acceptor w)) = None \<and>
    (\<forall>cid c. w_conns w cid = Some c \<longrightarrow> m (c_sockfd c) = None \<and> chan_heap (poller (lget (s_loop w) w')) (c_channel c) = None)"
proof -
  let ?p = "poller (lget (s_loop w) w)" and ?a = "s_acceptor w"
  note s = servingD [OF srv]
  obtain w1 where d: "destroy_conns (echo_user os tid) tid order w = Inr w1" "serving tid w1" "s_loop w1 = s_loop w" "s_pool w1 = s_pool w"
    "s_acceptor w1 = ?a" "s_connections w1 = s_connections w |` (- set order)"
    "chan_heap (poller (lget (s_loop w) w1)) = chan_heap ?p |` (- channels_of (set order) w)"
    "w_trace w1 = w_trace w @ concat (map (goodbye w) order)"
    using destroy_conns_ok [OF srv order(1), of os] by blast
  note s1 = servingD [OF d(2), unfolded d(3,5)]
  obtain ach where "chan_heap (poller (lget (s_loop w) w1)) (acc_channel ?a) = Some ach" using s1(5) by blast
  from Acceptor_destroy_ok [of w1, unfolded d(3,5), OF s1(4) this] obtain p where
    a: "Acceptor_destroy w1 = Inr (emit [Sock (Call_close (acc_sockfd ?a))] (lput (s_loop w) ((lget (s_loop w) w1)\<lparr>poller := p\<rparr>) w1))"
    "poller_inv p" "chan_heap p = (chan_heap (poller (lget (s_loop w) w1)))(acc_channel ?a := None)"
    by blast
  let ?w = "emit [Sock (Call_close (acc_sockfd ?a))] (lput (s_loop w) ((lget (s_loop w) w1)\<lparr>poller := p\<rparr>) w1)"
  have none: "s_connections w1 = Map.empty" using d(6) order(2) by (auto simp: restrict_map_def fun_eq_iff dom_def)
  then have conns: "w_conns w1 = Map.empty" using s1(7) by (auto simp: fun_eq_iff) (metis not_None_eq)
  have gone: "q = acc_channel ?a \<or> q \<in> channels_of (set order) w \<Longrightarrow> chan_heap p q = None"
    and kept: "chan_heap p q = Some cq \<Longrightarrow> chan_heap ?p q = Some cq" for q cq
    using a(3) d(7) by (auto simp: restrict_map_def split: if_splits)
  have listed: "c_channel c \<in> channels_of (set order) w" if "w_conns w cid = Some c" for cid c
    using that s(7) [OF that] order(2) by (auto simp: channels_of_def)
  obtain m0 m where coh: "coherent {} ?p m0" "coherent {} p m" using s(4) a(2) unfolding poller_inv_def by blast
  have m: "m (ch_fd c) = None" if q: "chan_heap ?p q = Some c" "chan_heap p q = None" for q c
  proof (rule ccontr)
    assume "m (ch_fd c) \<noteq> None"
    then obtain r cr where r: "chan_heap p r = Some cr" "ch_fd cr = ch_fd c" using coherentD(4) [OF coh(2)] by force
    with distinct_fdsD [OF coherentD(2) [OF coh(1)] kept [OF r(1)] q(1)] q(2) show False by (cases "r = q") auto
  qed
  have "TcpServer_destroy (echo_user os tid) tid order w = Inr ?w" using d(1,4) a(1) s(3) by (simp add: TcpServer_destroy_def)
  moreover have "m (acc_sockfd ?a) = None" using s(5) m gone by metis
  moreover have "m (c_sockfd c) = None" if "w_conns w cid = Some c" for cid c
    using s(9,13) [OF that] m gone listed [OF that] by (metis conn_okD(4,5))
  moreover have "s_connections ?w = Map.empty" using none by (simp add: emit_def lput_def)
  ultimately show ?thesis using conns d(8) gone listed coherentD(1) [OF coh(2)]
    by (intro exI [of _ ?w] exI [of _ m]) simp
qed

definition closing_server :: server_world where
  "closing_server = (demo_server [''demo'' \<mapsto> 0])\<lparr>w_loops :=
     \<lambda>_. demo_loop\<lparr>poller := EpollPoller_new [5 \<mapsto> Channel_new 0 7, 4 \<mapsto> Channel_new 0 3]\<rparr>\<rparr>"

lemma closing_serving: "serving 1 closing_server"
proof -
  let ?p = "EpollPoller_new [5 \<mapsto> Channel_new 0 7, 4 \<mapsto> Channel_new 0 3] :: callback_t epoll_poller"
  have "coherent {} ?p Map.empty"
    by (simp add: coherent_def EpollPoller_new_def distinct_fds_def chan_ok_def Channel_new_def NEW_def)
  then have inv: "poller_inv ?p" unfolding poller_inv_def by blast
  have l: "lget k closing_server = demo_loop\<lparr>poller := ?p\<rparr>" for k by (simp add: closing_server_def lget_def)
  have c: "w_conns closing_server = [0 \<mapsto> demo_conn]" "s_connections closing_server = [''demo'' \<mapsto> 0]"
    by (simp_all add: closing_server_def demo_world_def)
  have a: "s_acceptor closing_server = \<lparr>acc_sockfd = 3, acc_channel = 4, acc_listenning = True, acc_callback = True\<rparr>"
    "s_loop closing_server = 0" "s_fresh closing_server = 6" "pool_loops (s_pool closing_server) = []"
    by (simp_all add: closing_server_def demo_server_def world.defs server_world.defs EventLoopThreadPool_new_def)
  have ok: "conn_ok 0 demo_conn (Channel_new 0 7) closing_server"
    using inv buf_inv_new by (simp add: conn_ok_def c l) (simp add: demo_conn_def EpollPoller_new_def Channel_new_def)
  then show ?thesis using inv unfolding serving_def l c a
    by (auto simp: EpollPoller_new_def Channel_new_def demo_loop_def) (simp_all add: demo_conn_def)
qed

theorem server_torn_down_witness:
  "\<exists>w'. TcpServer_destroy (echo_user (demo_os 9 []) 1) 1 [''demo''] closing_server = Inr w' \<and> w_conns w' = Map.empty \<and>
     w_trace w' = [Connection_cb 0 False, Sock (Call_close 7), Sock (Call_close 3)]"
proof -
  have o: "distinct [''demo'']" "set [''demo''] = dom (s_connections closing_server)" by (simp_all add: closing_server_def)
  have "goodbye closing_server ''demo'' = [Connection_cb 0 False, Sock (Call_close 7)]" "w_trace closing_server = []"
    "acc_sockfd (s_acceptor closing_server) = 3"
    by (simp_all add: goodbye_def closing_server_def demo_world_def)
       (simp_all add: demo_conn_def demo_server_def world.defs server_world.defs)
  with server_torn_down [OF closing_serving o, of "demo_os 9 []"] show ?thesis by auto
qed

end
