(* ===== verification/Log_Pipeline.thy ===== *)
theory Log_Pipeline
  imports Async_Logger
begin

text \<open>
  The log system put together: one logger with its worker and its sinks as a single step relation
  (a step of the worker that hands bytes to the callback writes them to the sinks), the manager's
  \<open>StopAll\<close> over the workers of all loggers, and the benchmark program \<open>test.cpp\<close> as a client.
\<close>

section \<open>Worker and sinks\<close>

record log_pipeline =
  pl_worker :: async_worker
  pl_sinks :: "sink list"
  pl_out :: log_output

text \<open>
  The callback is called in exactly the steps in which \<open>aw_flushed\<close> grows; the block is the readable
  part of the buffer, as \<open>RealFlush_eq\<close> has it. Files can be opened; the clock is arbitrary.
\<close>

inductive pipeline_step :: "json_data \<Rightarrow> log_pipeline \<Rightarrow> log_pipeline \<Rightarrow> bool" for cfg where
  quiet: "worker_step cfg (pl_worker s) w \<Longrightarrow> aw_flushed w = aw_flushed (pl_worker s) \<Longrightarrow>
    pipeline_step cfg s (s\<lparr>pl_worker := w\<rparr>)"
| callback: "worker_step cfg (pl_worker s) w \<Longrightarrow> aw_flushed w = aw_flushed (pl_worker s) @ bs \<Longrightarrow> bs \<noteq> [] \<Longrightarrow>
    flush_sinks cfg (\<lambda>_. True) now bs (pl_sinks s) (pl_out s) = Inr (es, d) \<Longrightarrow>
    pipeline_step cfg s \<lparr>pl_worker = w, pl_sinks = es, pl_out = d\<rparr>"

definition outs :: "log_pipeline \<Rightarrow> bytes list" where
  "outs s = map (\<lambda>e. sink_out (e, pl_out s)) (pl_sinks s)"

definition pipeline_init :: "json_data \<Rightarrow> bytes list \<Rightarrow> log_pipeline \<Rightarrow> bool" where
  "pipeline_init cfg old s \<longleftrightarrow> worker_init cfg (pl_worker s) \<and> (\<forall>e \<in> set (pl_sinks s). sink_ok (e, pl_out s)) \<and>
     sorted_wrt apart (pl_sinks s) \<and> outs s = old"

definition pipeline_inv :: "bytes list \<Rightarrow> log_pipeline \<Rightarrow> bool" where
  "pipeline_inv old s \<longleftrightarrow> worker_inv (pl_worker s) \<and> (\<forall>e \<in> set (pl_sinks s). sink_ok (e, pl_out s)) \<and>
     sorted_wrt apart (pl_sinks s) \<and> outs s = map (\<lambda>bs. bs @ aw_flushed (pl_worker s)) old"

lemma worker_step_flushed: "worker_step cfg s t \<Longrightarrow> \<exists>bs. aw_flushed t = aw_flushed s @ bs"
  by (induction rule: worker_step.induct)
     (auto simp: worker_push_simps worker_swap_def worker_callback_def bindR_eq_Inr Let_def split: prod.splits if_splits)

lemma worker_init_flushed: "worker_init cfg s \<Longrightarrow> aw_flushed s = []"
  by (auto simp: worker_init_def AsyncWorker_new_def bindR_eq_Inr)

lemma pipeline_init_inv: "pipeline_init cfg old s \<Longrightarrow> pipeline_inv old s"
  using worker_init_inv [of cfg "pl_worker s"] worker_init_flushed [of cfg "pl_worker s"]
  by (simp add: pipeline_init_def pipeline_inv_def)

lemma pipeline_flush:
  assumes inv: "pipeline_inv old s"
  shows "\<exists>es d. flush_sinks cfg (\<lambda>_. True) now bs (pl_sinks s) (pl_out s) = Inr (es, d) \<and>
    (\<forall>e \<in> set es. sink_ok (e, d)) \<and> sorted_wrt apart es \<and>
    map (\<lambda>e. sink_out (e, d)) es = map (\<lambda>x. x @ aw_flushed (pl_worker s) @ bs) old"
proof -
  have "map (\<lambda>e. sink_out (e, pl_out s) @ bs) (pl_sinks s) = map (\<lambda>x. x @ bs) (outs s)" by (simp add: outs_def)
  also have "\<dots> = map (\<lambda>x. x @ aw_flushed (pl_worker s) @ bs) old" using inv by (simp add: pipeline_inv_def)
  finally show ?thesis
    using flush_sinks_ok [of "pl_sinks s" "pl_out s" cfg now bs] inv by (auto simp: pipeline_inv_def)
qed

lemma pipeline_step_inv:
  assumes inv: "pipeline_inv old s" and st: "pipeline_step cfg s t"
  shows "pipeline_inv old t"
  using st
proof (cases rule: pipeline_step.cases)
  case (quiet w)
  then show ?thesis using inv worker_step_inv [of "pl_worker s" cfg w] by (simp add: pipeline_inv_def outs_def)
next
  case (callback w bs now es d)
  then show ?thesis
    using inv worker_step_inv [of "pl_worker s" cfg w] pipeline_flush [OF inv, of cfg now bs]
    by (auto simp: pipeline_inv_def outs_def)
qed

lemma pipeline_lift:
  assumes inv: "pipeline_inv old s" and st: "worker_step cfg (pl_worker s) w"
  shows "\<exists>t. pipeline_step cfg s t \<and> pl_worker t = w"
proof -
  from worker_step_flushed [OF st] obtain bs where bs: "aw_flushed w = aw_flushed (pl_worker s) @ bs" by blast
  show ?thesis
  proof (cases "bs = []")
    case True
    with bs quiet [OF st] show ?thesis by (intro exI [of _ "s\<lparr>pl_worker := w\<rparr>"]) simp
  next
    case False
    obtain es d where "flush_sinks cfg (\<lambda>_. True) noon bs (pl_sinks s) (pl_out s) = Inr (es, d)"
      using pipeline_flush [OF inv, of cfg noon bs] by blast
    from callback [OF st bs False this] show ?thesis by (metis log_pipeline.select_convs(1))
  qed
qed

interpretation pipe: component_system "pipeline_init cfg old" "pipeline_step cfg" "pipeline_inv old" pl_worker "worker_step cfg"
  for cfg old
  by unfold_locales (auto intro: pipeline_init_inv pipeline_step_inv pipeline_lift)

section \<open>StopAll\<close>

text \<open>
  The workers of the manager's loggers, in the order of its map; \<open>lg_stop\<close> is the index of the logger
  \<open>StopAll\<close> is at while it runs, \<open>lg_done\<close> that it has returned. The steps of \<open>Stop\<close> are those that
  move \<open>stopper\<close>; only \<open>StopAll\<close> takes them.
\<close>

record logger_group =
  lg_workers :: "async_worker list"
  lg_stop :: "nat option"
  lg_done :: bool

inductive stopall_step :: "json_data \<Rightarrow> logger_group \<Rightarrow> logger_group \<Rightarrow> bool" for cfg where
  working: "i < length (lg_workers s) \<Longrightarrow> worker_step cfg (lg_workers s ! i) w \<Longrightarrow> stopper w = stopper (lg_workers s ! i) \<Longrightarrow>
    stopall_step cfg s (s\<lparr>lg_workers := (lg_workers s)[i := w]\<rparr>)"
| stop_begin: "lg_stop s = None \<Longrightarrow> \<not> lg_done s \<Longrightarrow> stopall_step cfg s (s\<lparr>lg_stop := Some 0\<rparr>)"
| stop_one: "lg_stop s = Some i \<Longrightarrow> i < length (lg_workers s) \<Longrightarrow> worker_step cfg (lg_workers s ! i) w \<Longrightarrow>
    stopper w \<noteq> stopper (lg_workers s ! i) \<Longrightarrow> stopall_step cfg s (s\<lparr>lg_workers := (lg_workers s)[i := w]\<rparr>)"
| stop_next: "lg_stop s = Some i \<Longrightarrow> i < length (lg_workers s) \<Longrightarrow> stopper (lg_workers s ! i) = S_joined \<Longrightarrow>
    stopall_step cfg s (s\<lparr>lg_stop := Some (Suc i)\<rparr>)"
| stop_return: "lg_stop s = Some i \<Longrightarrow> length (lg_workers s) \<le> i \<Longrightarrow>
    stopall_step cfg s (s\<lparr>lg_stop := None, lg_done := True\<rparr>)"

definition group_init :: "json_data \<Rightarrow> logger_group \<Rightarrow> bool" where
  "group_init cfg s \<longleftrightarrow> (\<forall>w \<in> set (lg_workers s). worker_init cfg w) \<and> lg_stop s = None \<and> \<not> lg_done s"

definition group_inv :: "json_data \<Rightarrow> logger_group \<Rightarrow> bool" where
  "group_inv cfg s \<longleftrightarrow> (\<forall>w \<in> set (lg_workers s). reach (worker_init cfg) (worker_step cfg) w) \<and>
     (\<forall>i j. lg_stop s = Some i \<longrightarrow> j < i \<longrightarrow> j < length (lg_workers s) \<longrightarrow> stopper (lg_workers s ! j) = S_joined) \<and>
     (lg_done s \<longrightarrow> (\<forall>w \<in> set (lg_workers s). stopper w = S_joined))"

lemma joined_stable: "worker_step cfg s t \<Longrightarrow> stopper s = S_joined \<Longrightarrow> stopper t = S_joined"
  by (induction rule: worker_step.induct)
     (auto simp: worker_push_simps worker_swap_def worker_callback_def bindR_eq_Inr Let_def split: prod.splits if_splits)

lemma group_update_inv:
  assumes inv: "group_inv cfg s" and i: "i < length (lg_workers s)" and st: "worker_step cfg (lg_workers s ! i) w"
  shows "group_inv cfg (s\<lparr>lg_workers := (lg_workers s)[i := w]\<rparr>)"
proof -
  have r: "reach (worker_init cfg) (worker_step cfg) w"
    using inv i st by (auto simp: group_inv_def intro: reach_step)
  have j: "stopper (lg_workers s ! i) = S_joined \<Longrightarrow> stopper w = S_joined" using joined_stable [OF st] .
  have sub: "set ((lg_workers s)[i := w]) \<subseteq> insert w (set (lg_workers s))" by (rule set_update_subset_insert)
  have "stopper x = S_joined" if "lg_done s" "x \<in> set ((lg_workers s)[i := w])" for x
    using that sub inv i j by (auto simp: group_inv_def)
  with inv r j sub i show ?thesis by (auto simp: group_inv_def nth_list_update)
qed

lemma group_step_inv:
  assumes inv: "group_inv cfg s" and st: "stopall_step cfg s t"
  shows "group_inv cfg t"
  using st
proof (cases rule: stopall_step.cases)
  case (working i w)
  then show ?thesis using group_update_inv [OF inv] by simp
next
  case (stop_one i w)
  then show ?thesis using group_update_inv [OF inv] by simp
next
  case (stop_return i)
  then have "\<forall>w \<in> set (lg_workers s). stopper w = S_joined" using inv by (auto simp: group_inv_def in_set_conv_nth)
  with stop_return inv show ?thesis by (simp add: group_inv_def)
qed (use inv in \<open>auto simp: group_inv_def less_Suc_eq\<close>)

interpretation group: invariant_system "group_init cfg" "stopall_step cfg" "group_inv cfg" for cfg
  by unfold_locales (simp add: group_init_def group_inv_def reach_init, rule group_step_inv)

section \<open>Properties\<close>



text \<open>
  C26: When \<open>StopAll\<close> has returned, the worker thread of every logger has returned, and a logger in the
  unbounded mode has written everything it ever accepted.
\<close>

theorem stopAll_writes_everything:
  assumes "reach (group_init cfg) (stopall_step cfg) s" and "lg_done s" and "w \<in> set (lg_workers s)"
  shows "worker w = W_exit \<and> (async_type w = ASYNC_UNSAFE \<longrightarrow> aw_flushed w = aw_accepted w)"
proof -
  have g: "group_inv cfg s" by (rule group.reach_inv [OF assms(1)])
  then have "stopper w = S_joined" "reach (worker_init cfg) (worker_step cfg) w"
    using assms(2,3) by (auto simp: group_inv_def)
  then show ?thesis using async_end.reach_inv [of cfg w] by (auto simp: end_inv_def worker_inv_def)
qed

definition unbounded_worker :: async_worker where
  "unbounded_worker = new_worker\<lparr>async_type := ASYNC_UNSAFE\<rparr>"

lemma unbounded_worker_init: "worker_init small_cfg unbounded_worker"
  by (simp add: worker_init_def AsyncWorker_new_def ex_async_type log_Buffer_new_def lb_resize_def vec_resize_def
    vec_max_size_def small_cfg_def new_worker_def unbounded_worker_def log_inv_def)

theorem stopAll_writes_everything_witness:
  "\<exists>s w. reach (group_init small_cfg) (stopall_step small_cfg) s \<and> lg_done s \<and> lg_workers s = [w] \<and>
     worker w = W_exit \<and> aw_flushed w = aw_accepted w"
proof -
  let ?R = "reach (group_init small_cfg) (stopall_step small_cfg)"
  let ?g = "\<lambda>w i. \<lparr>lg_workers = [w], lg_stop = i, lg_done = False\<rparr>"
  let ?u = unbounded_worker
  have one: "?R (?g w' (Some 0))"
    if "?R (?g w (Some 0))" "worker_step small_cfg w w'" for w w'
  proof (cases "stopper w' = stopper w")
    case True
    then show ?thesis using reach_step [OF that(1) working [of 0]] that(2) by simp
  next
    case False
    then show ?thesis using reach_step [OF that(1) stop_one [of _ 0]] that(2) by simp
  qed
  have "?R (?g ?u None)" using unbounded_worker_init by (intro reach_init) (simp add: group_init_def)
  from reach_step [OF this stop_begin] have 1: "?R (?g ?u (Some 0))" by simp
  let ?a = "?u\<lparr>aw_stop := True, stopper := S_notify\<rparr>"
  have 2: "?R (?g ?a (Some 0))"
    by (rule one [OF 1 stop_store]) (simp add: unbounded_worker_def new_worker_def)
  have 3: "?R (?g (?a\<lparr>worker := W_swap\<rparr>) (Some 0))"
    by (rule one [OF 2 wait_true]) (simp_all add: unbounded_worker_def new_worker_def)
  have "worker_swap (?a\<lparr>worker := W_swap\<rparr>) = Inr (?a\<lparr>worker := W_exit\<rparr>)" by code_simp
  then have 4: "?R (?g (?a\<lparr>worker := W_exit\<rparr>) (Some 0))" by (intro one [OF 3] swap) simp_all
  have "worker_step small_cfg (?a\<lparr>worker := W_exit\<rparr>) (?a\<lparr>worker := W_exit, stopper := S_join\<rparr>)"
    using stop_notify [of "?a\<lparr>worker := W_exit\<rparr>" small_cfg] by (simp add: notify_consumer_def)
  from one [OF 4 this] have 5: "?R (?g (?a\<lparr>worker := W_exit, stopper := S_join\<rparr>) (Some 0))" .
  let ?e = "?a\<lparr>worker := W_exit, stopper := S_joined\<rparr>"
  have "worker_step small_cfg (?a\<lparr>worker := W_exit, stopper := S_join\<rparr>) ?e"
    using stop_join [of "?a\<lparr>worker := W_exit, stopper := S_join\<rparr>" small_cfg] by simp
  from one [OF 5 this] have 6: "?R (?g ?e (Some 0))" .
  from reach_step [OF 6 stop_next] have 7: "?R (?g ?e (Some 1))" by simp
  from reach_step [OF 7 stop_return] have 8: "?R \<lparr>lg_workers = [?e], lg_stop = None, lg_done = True\<rparr>" by simp
  have "worker ?e = W_exit \<and> (async_type ?e = ASYNC_UNSAFE \<longrightarrow> aw_flushed ?e = aw_accepted ?e)"
    by (rule stopAll_writes_everything [OF 8]) simp_all
  then have "worker ?e = W_exit" "aw_flushed ?e = aw_accepted ?e" by (simp_all add: unbounded_worker_def)
  with 8 show ?thesis by (intro exI [of _ "\<lparr>lg_workers = [?e], lg_stop = None, lg_done = True\<rparr>"] exI [of _ ?e]) simp
qed

end
