(* ===== verification/Log_Benchmark.thy ===== *)
theory Log_Benchmark
  imports Log_Pipeline
begin

text \<open>
  The benchmark program of the log system (\<open>log_system/logs_code/test.cpp\<close>): the logger it builds and
  the calls it makes. Its run is the subject of \<open>Benchmark_Run\<close>.
\<close>

definition TOTAL_LOG :: nat where
  "TOTAL_LOG = 200000"

text \<open>The payload: the UTF-8 bytes of the format string with the counter.\<close>

definition test_payload :: "nat \<Rightarrow> string" where
  "test_payload k = [CHR 0xE6, CHR 0xB5, CHR 0x8B, CHR 0xE8, CHR 0xAF, CHR 0x95,
     CHR 0xE6, CHR 0x97, CHR 0xA5, CHR 0xE5, CHR 0xBF, CHR 0x97] @ ''-'' @ to_string k"

text \<open>The loop of \<open>test()\<close>, from \<open>cur_size\<close> and \<open>cnt\<close> on: the log calls in order.\<close>

function test_loop :: "nat \<Rightarrow> nat \<Rightarrow> nat \<Rightarrow> (LogLevel \<times> string) list" where
  "test_loop limit cur k =
     (if cur < limit
      then (INFO, test_payload k) # (WARN, test_payload (k + 1)) # (DEBUG, test_payload (k + 2)) #
             test_loop limit (cur + 1) (k + 3)
      else [])"
  by pat_completeness auto
termination by (relation "measure (\<lambda>(limit, cur, k). limit - cur)") auto

declare test_loop.simps [simp del]

definition test_calls :: "(LogLevel \<times> string) list" where
  "test_calls = test_loop TOTAL_LOG 0 1"

definition benchmark_specs :: "string \<Rightarrow> sink_spec list" where
  "benchmark_specs log_dir =
     map (\<lambda>i. File_spec (log_dir @ ''/FileFlush_'' @ to_string i @ ''.log'')) [1 ..< 21] @
     [Roll_spec (log_dir @ ''/RollFile_log'') (1024 * 1024)]"

definition benchmark_logger ::
  "json_data \<Rightarrow> (string \<Rightarrow> 'fs \<Rightarrow> bool) \<Rightarrow> (string \<Rightarrow> 'fs \<Rightarrow> 'fs) \<Rightarrow> (string \<Rightarrow> 'fs \<Rightarrow> bool) \<Rightarrow> 'fs \<Rightarrow>
   (async_logger \<times> logger_builder) res" where
  "benchmark_logger cfg ex mk fopen_ok fs =
     Build cfg (fst (fold (BuildLoggerFlush ex mk fopen_ok) (benchmark_specs ''../logfile'')
       (BuildLoggerName ''asynclogger'' LoggerBuilder_new, fs)))"

section \<open>Lemmas\<close>

text \<open>The sink a specification gives when every file opens.\<close>

definition open_sink :: "sink_spec \<Rightarrow> sink" where
  "open_sink spec = fst (CreateLog (\<lambda>_ _. True) (\<lambda>_ fs. fs) (\<lambda>_ _. True) spec ())"

lemma CreateLog_open: "fst (CreateLog ex mk (\<lambda>_ _. True) spec fs) = open_sink spec"
  by (cases spec) (simp_all add: open_sink_def CreateLog_def FileFlush_new_def RollFileFlush_new_def Let_def)

lemma fold_BuildLoggerFlush:
  "\<exists>fs'. fold (BuildLoggerFlush ex mk (\<lambda>_ _. True)) specs (b, fs) = (b\<lparr>b_flushs := b_flushs b @ map open_sink specs\<rparr>, fs')"
proof (induction specs arbitrary: b fs)
  case (Cons spec specs)
  obtain s fs1 where s: "CreateLog ex mk (\<lambda>_ _. True) spec fs = (s, fs1)" by force
  then have "s = open_sink spec" using CreateLog_open [of ex mk spec fs] by simp
  with s Cons.IH [of "b\<lparr>b_flushs := b_flushs b @ [s]\<rparr>" fs1] show ?case by (simp add: BuildLoggerFlush_def)
qed simp

lemma open_sink_simps [simp]:
  "open_sink (File_spec name) = File_sink \<lparr>ff_filename = name, ff_open = True, ff_pending = []\<rparr>"
  "open_sink (Roll_spec name n) =
     Roll_sink \<lparr>cnt = 0, cur_size = 0, max_size = n, basename = name, rf_file = None, rf_history = []\<rparr>"
  by (simp_all add: open_sink_def CreateLog_def FileFlush_new_def RollFileFlush_new_def Let_def)

lemma benchmark_sinks_apart: "sorted_wrt apart (map open_sink (benchmark_specs dir))"
proof -
  have "sorted_wrt (\<lambda>i j. apart (File_sink \<lparr>ff_filename = dir @ ''/FileFlush_'' @ to_string i @ ''.log'', ff_open = True, ff_pending = []\<rparr>)
      (File_sink \<lparr>ff_filename = dir @ ''/FileFlush_'' @ to_string j @ ''.log'', ff_open = True, ff_pending = []\<rparr>)) [1 ..< 21]"
    using strict_sorted_list_of_set [of "{1 ..< 21 :: nat}"]
    by (intro sorted_wrt_mono_rel [OF _ sorted_wrt_upt [of 1 21]]) (simp add: apart_def to_string_inj)
  then show ?thesis
    by (auto simp: benchmark_specs_def sorted_wrt_append sorted_wrt_map apart_def roll_name_def)
qed

lemma benchmark_logger_eq:
  assumes w: "AsyncWorker_new cfg ASYNC_SAFE = Inr w"
  shows "\<exists>b. benchmark_logger cfg ex mk (\<lambda>_ _. True) fs = Inr (\<lparr>logger_name = ''asynclogger'',
      flushs = map open_sink (benchmark_specs ''../logfile''), asyncworker = w\<rparr>, b)"
proof -
  let ?b = "BuildLoggerName ''asynclogger'' LoggerBuilder_new"
  obtain fs' where f: "fold (BuildLoggerFlush ex mk (\<lambda>_ _. True)) (benchmark_specs ''../logfile'') (?b, fs) =
      (?b\<lparr>b_flushs := map open_sink (benchmark_specs ''../logfile'')\<rparr>, fs')"
    using fold_BuildLoggerFlush [of ex mk "benchmark_specs ''../logfile''" ?b fs] by (auto simp: BuildLoggerName_def LoggerBuilder_new_def)
  have "benchmark_specs ''../logfile'' \<noteq> []" by (simp add: benchmark_specs_def)
  then show ?thesis
    using Build_ok [of "?b\<lparr>b_flushs := map open_sink (benchmark_specs ''../logfile'')\<rparr>" cfg w] f w
    by (auto simp: benchmark_logger_def BuildLoggerName_def LoggerBuilder_new_def)
qed

lemma upt_three: "[k ..< k + (3 + n)] = k # (k + 1) # (k + 2) # [k + 3 ..< k + 3 + n]"
proof -
  have "[k ..< k + (3 + n)] = k # [k + 1 ..< k + 3 + n]" by (subst upt_conv_Cons) (simp_all add: add.assoc)
  also have "[k + 1 ..< k + 3 + n] = (k + 1) # [k + 2 ..< k + 3 + n]" by (subst upt_conv_Cons) simp_all
  also have "[k + 2 ..< k + 3 + n] = (k + 2) # [k + 3 ..< k + 3 + n]"
    by (subst upt_conv_Cons) (simp_all add: numeral_3_eq_3)
  finally show ?thesis .
qed

lemma test_loop_payloads: "map snd (test_loop limit c k) = map test_payload [k ..< k + 3 * (limit - c)]"
proof (induction limit c k rule: test_loop.induct)
  case (1 limit c k)
  show ?case
  proof (cases "c < limit")
    case True
    then have "3 * (limit - c) = 3 + 3 * (limit - (c + 1))" by simp
    then have "[k ..< k + 3 * (limit - c)] = k # (k + 1) # (k + 2) # [k + 3 ..< k + 3 + 3 * (limit - (c + 1))]"
      using upt_three [of k "3 * (limit - (c + 1))"] by simp
    then show ?thesis using True "1.IH" by (simp add: test_loop.simps [of limit c k] add.commute)
  qed (simp add: test_loop.simps)
qed

section \<open>Properties\<close>

text \<open>
  The benchmark's logger is well set up: when files can be opened, \<open>Build\<close> succeeds and yields the
  logger \<open>asynclogger\<close> with twenty file sinks and one rolling sink, all of them open and no two
  writing to the same place, so the logger's lines reach each of them. The loop makes three calls
  for each of the 200000 rounds, numbered from 1 without gaps, none of a level that is backed up.
\<close>

theorem benchmark_well_formed:
  assumes w: "AsyncWorker_new cfg ASYNC_SAFE = Inr w"
  shows "(\<exists>lg b. benchmark_logger cfg ex mk (\<lambda>_ _. True) fs = Inr (lg, b) \<and> logger_name lg = ''asynclogger'' \<and>
      length (flushs lg) = 21 \<and> (\<forall>e \<in> set (flushs lg). sink_ok (e, d)) \<and> sorted_wrt apart (flushs lg) \<and> asyncworker lg = w) \<and>
    map snd test_calls = map test_payload [1 ..< Suc (3 * TOTAL_LOG)] \<and>
    (\<forall>call \<in> set test_calls. \<not> backup_level (fst call))"
proof (intro conjI)
  have ok: "\<forall>e \<in> set (map open_sink (benchmark_specs ''../logfile'')). sink_ok (e, d)"
    by (auto simp: benchmark_specs_def sink_ok_def)
  have len: "length (map open_sink (benchmark_specs ''../logfile'')) = 21" by (simp add: benchmark_specs_def)
  obtain b' where "benchmark_logger cfg ex mk (\<lambda>_ _. True) fs = Inr (\<lparr>logger_name = ''asynclogger'',
      flushs = map open_sink (benchmark_specs ''../logfile''), asyncworker = w\<rparr>, b')"
    using benchmark_logger_eq [OF w, of ex mk fs] by blast
  then show "\<exists>lg b. benchmark_logger cfg ex mk (\<lambda>_ _. True) fs = Inr (lg, b) \<and> logger_name lg = ''asynclogger'' \<and>
      length (flushs lg) = 21 \<and> (\<forall>e \<in> set (flushs lg). sink_ok (e, d)) \<and> sorted_wrt apart (flushs lg) \<and> asyncworker lg = w"
    using ok len benchmark_sinks_apart by (intro exI) (auto simp del: length_map)
  from test_loop_payloads [of TOTAL_LOG 0 1] show "map snd test_calls = map test_payload [1 ..< Suc (3 * TOTAL_LOG)]"
    by (simp add: test_calls_def)
  have "\<forall>call \<in> set (test_loop limit c k). \<not> backup_level (fst call)" for limit c k
    by (induction limit c k rule: test_loop.induct) (subst test_loop.simps, fastforce simp: backup_level_def)
  then show "\<forall>call \<in> set test_calls. \<not> backup_level (fst call)" by (simp add: test_calls_def)
qed

theorem benchmark_well_formed_witness:
  "\<exists>lg b. benchmark_logger small_cfg (\<lambda>_ _. True) (\<lambda>_ fs. fs) (\<lambda>_ _. True) () = Inr (lg, b) \<and> length (flushs lg) = 21"
proof -
  obtain w where "AsyncWorker_new small_cfg ASYNC_SAFE = Inr w"
    by (simp add: AsyncWorker_new_def log_Buffer_new_def lb_resize_def vec_resize_def vec_max_size_def small_cfg_def)
  from benchmark_well_formed [OF this, of "\<lambda>_ _. True" "\<lambda>_ fs. fs" "()"] show ?thesis by blast
qed

end
