(* ===== verification/Benchmark_Run.thy ===== *)
theory Benchmark_Run
  imports Log_Benchmark
begin

text \<open>
  The benchmark program (\<open>log_system/logs_code/test.cpp\<close>) from the first line of \<open>main\<close> to the sum it prints: the
  pool, the log directory, the logger with its 21 sinks, the log calls of \<open>test()\<close> in one thread while the
  worker writes in another, \<open>StopAllLoggers\<close>, and the loop that adds up the sizes of the files. The
  times it measures and prints are not represented.
\<close>

section \<open>The log directory\<close>

definition in_dir :: "string \<Rightarrow> string \<Rightarrow> bool" where
  "in_dir dir name \<longleftrightarrow> take (Suc (length dir)) name = dir @ ''/''"

text \<open>\<open>fs::remove_all\<close> on the directory, for the contents of the files below it.\<close>

definition remove_all :: "string \<Rightarrow> log_output \<Rightarrow> log_output" where
  "remove_all dir d = d\<lparr>o_files := (\<lambda>name. if in_dir dir name then [] else o_files d name)\<rparr>"

text \<open>\<open>ex\<close>, \<open>rm\<close> and \<open>mk\<close> are the operations on directories of \<open>std::filesystem\<close>.\<close>

definition prepare_log_dir ::
  "(string \<Rightarrow> 'fs \<Rightarrow> bool) \<Rightarrow> (string \<Rightarrow> 'fs \<Rightarrow> 'fs) \<Rightarrow> (string \<Rightarrow> 'fs \<Rightarrow> 'fs) \<Rightarrow> string \<Rightarrow> 'fs \<times> log_output \<Rightarrow> 'fs \<times> log_output" where
  "prepare_log_dir ex rm mk log_dir = (\<lambda>(fs, d).
     let (fs1, d1) = (if ex log_dir fs then (rm log_dir fs, remove_all log_dir d) else (fs, d))
     in (mk log_dir fs1, d1))"

text \<open>
  The loop over \<open>fs::directory_iterator\<close>: the entries it yields, each a regular file or not and with a size; an
  exception of the iteration is caught and ends it.
\<close>

datatype dir_item = Dir_entry bool nat | Filesystem_error

fun count_bytes :: "dir_item list \<Rightarrow> int \<Rightarrow> int" where
  "count_bytes [] total_bytes = total_bytes"
| "count_bytes (Dir_entry is_regular_file file_size # items) total_bytes =
     count_bytes items (if is_regular_file then total_bytes + int file_size else total_bytes)"
| "count_bytes (Filesystem_error # items) total_bytes = total_bytes"

section \<open>The program\<close>

text \<open>\<open>mylog::GetLogger\<close> and the pool of the benchmark.\<close>

definition mylog_GetLogger :: "string \<Rightarrow> logger_manager \<Rightarrow> nat option" where
  "mylog_GetLogger name instance_mg = GetLogger name instance_mg"

definition init_thread_pool :: "json_data \<Rightarrow> string task_pool" where
  "init_thread_pool cfg = ThreadPool_new (unat (thread_count cfg))"

text \<open>
  The state: the logger's worker and sinks, the manager, the pool, the calls \<open>test()\<close> has yet to make and, as
  history, the lines of the calls made.
\<close>

record benchmark =
  bm_pipe :: log_pipeline
  bm_manager :: logger_manager
  bm_tp :: "string task_pool option"
  bm_calls :: "(LogLevel \<times> string) list"
  bm_lines :: "bytes list"

definition benchmark_start ::
  "json_data \<Rightarrow> (string \<Rightarrow> 'fs \<Rightarrow> bool) \<Rightarrow> (string \<Rightarrow> 'fs \<Rightarrow> 'fs) \<Rightarrow> (string \<Rightarrow> 'fs \<Rightarrow> 'fs) \<Rightarrow> (string \<Rightarrow> 'fs \<Rightarrow> bool) \<Rightarrow>
   (LogLevel \<times> string) list \<Rightarrow> 'fs \<times> log_output \<Rightarrow> benchmark res" where
  "benchmark_start cfg ex rm mk fopen_ok calls disk =
     (let tp = init_thread_pool cfg; (fs1, d1) = prepare_log_dir ex rm mk ''../logfile'' disk in
      bindR (LoggerManager_new cfg 0) (\<lambda>(dflt, mg).
      bindR (benchmark_logger cfg ex mk fopen_ok fs1) (\<lambda>(lg, b).
        Inr \<lparr>bm_pipe = \<lparr>pl_worker = asyncworker lg, pl_sinks = flushs lg, pl_out = d1\<rparr>,
             bm_manager = AddLogger (logger_name lg) 1 mg, bm_tp = Some tp, bm_calls = calls, bm_lines = []\<rparr>)))"

definition bm_logger :: "log_pipeline \<Rightarrow> async_logger" where
  "bm_logger p = \<lparr>logger_name = ''asynclogger'', flushs = pl_sinks p, asyncworker = pl_worker p\<rparr>"

definition log_line :: "tm \<Rightarrow> string \<Rightarrow> LogLevel \<Rightarrow> string \<Rightarrow> size_t \<Rightarrow> string \<Rightarrow> bytes" where
  "log_line now tid level file line payload =
     message_format (LogMessage_new now tid level file line ''asynclogger'' payload)"

text \<open>
  The steps. \<open>log_call\<close>: the main thread, not blocked in \<open>Push\<close>, makes the next call of \<open>test()\<close>.
  \<open>resume\<close>: its blocked \<open>Push\<close> goes on. \<open>work\<close>: a step of the worker thread, or a spurious wake-up. \<open>stopping\<close>: after \<open>test()\<close> has
  returned the main thread is in \<open>StopAllLoggers\<close>.
\<close>

inductive bench_step :: "json_data \<Rightarrow> benchmark \<Rightarrow> benchmark \<Rightarrow> bool" for cfg where
  log_call: "bm_calls s = (level, payload) # calls \<Longrightarrow> aw_waiting (pl_worker (bm_pipe s)) = [] \<Longrightarrow>
    mutex_free (pl_worker (bm_pipe s)) \<Longrightarrow> mylog_GetLogger ''asynclogger'' (bm_manager s) = Some 1 \<Longrightarrow>
    m = log_line now tid level file line payload \<Longrightarrow>
    (productor_ready m (pl_worker (bm_pipe s)) \<Longrightarrow> log_fits cfg (buffer_productor (pl_worker (bm_pipe s))) (length m)) \<Longrightarrow>
    logger_log level cfg now tid (Some payload) file line (bm_logger (bm_pipe s)) (bm_tp s) = Inr (lg, tp) \<Longrightarrow>
    bench_step cfg s (s\<lparr>bm_pipe := (bm_pipe s)\<lparr>pl_worker := asyncworker lg\<rparr>, bm_tp := tp, bm_calls := calls,
      bm_lines := bm_lines s @ [m]\<rparr>)"
| resume: "pipeline_step cfg (bm_pipe s) p \<Longrightarrow> aw_waiting (pl_worker (bm_pipe s)) = [m] \<Longrightarrow> aw_waiting (pl_worker p) = [] \<Longrightarrow>
    bench_step cfg s (s\<lparr>bm_pipe := p\<rparr>)"
| work: "pipeline_step cfg (bm_pipe s) p \<Longrightarrow> aw_waiting (pl_worker p) = aw_waiting (pl_worker (bm_pipe s)) \<Longrightarrow>
    aw_accepted (pl_worker p) = aw_accepted (pl_worker (bm_pipe s)) \<Longrightarrow> stopper (pl_worker p) = stopper (pl_worker (bm_pipe s)) \<Longrightarrow>
    bench_step cfg s (s\<lparr>bm_pipe := p\<rparr>)"
| stopping: "bm_calls s = [] \<Longrightarrow> aw_waiting (pl_worker (bm_pipe s)) = [] \<Longrightarrow> pipeline_step cfg (bm_pipe s) p \<Longrightarrow>
    stopper (pl_worker p) \<noteq> stopper (pl_worker (bm_pipe s)) \<Longrightarrow> bench_step cfg s (s\<lparr>bm_pipe := p\<rparr>)"

section \<open>What the sinks write to the disk\<close>

fun sink_files :: "sink \<Rightarrow> string set" where
  "sink_files Stdout_sink = {}"
| "sink_files (File_sink f) = {ff_filename f}"
| "sink_files (Roll_sink r) = fst ` set (rf_history r)"

definition disk_files :: "sink list \<Rightarrow> string set" where
  "disk_files es = (\<Union>e \<in> set es. sink_files e)"

definition disk_size :: "string set \<Rightarrow> log_output \<Rightarrow> nat" where
  "disk_size N d = (\<Sum>name \<in> N. length (o_files d name))"

text \<open>A sink that writes to a file, with nothing left in the buffer of a \<open>FILE\<close>.\<close>

fun flushed_sink :: "sink \<Rightarrow> bool" where
  "flushed_sink Stdout_sink \<longleftrightarrow> False"
| "flushed_sink (File_sink f) \<longleftrightarrow> ff_pending f = []"
| "flushed_sink (Roll_sink r) \<longleftrightarrow> True"

lemma disk_size_append:
  assumes "finite N" and "name \<in> N" and "o_files d' = (o_files d)(name := o_files d name @ bs)"
  shows "disk_size N d' = disk_size N d + length bs"
proof -
  have "disk_size N d' = length (o_files d name @ bs) + (\<Sum>n \<in> N - {name}. length (o_files d' n))"
    unfolding disk_size_def using assms by (subst sum.remove [of N name]) simp_all
  also have "(\<Sum>n \<in> N - {name}. length (o_files d' n)) = (\<Sum>n \<in> N - {name}. length (o_files d n))"
    by (rule sum.cong) (simp_all add: assms(3))
  also have "length (o_files d name @ bs) + \<dots> = disk_size N d + length bs"
    unfolding disk_size_def by (simp add: sum.remove [OF assms(1,2), of "\<lambda>n. length (o_files d n)"])
  finally show ?thesis .
qed

lemma sink_Flush_disk:
  assumes fl: "sink_Flush cfg fopen_ok now bs (e, d) = Inr (e', d')" and ok: "flushed_sink e" and cfg: "flush_log cfg = 1 \<or> flush_log cfg = 2"
  shows "flushed_sink e'" "sink_files e \<subseteq> sink_files e'"
    "\<exists>name \<in> sink_files e'. o_files d' = (o_files d)(name := o_files d name @ bs)"
proof -
  have "flushed_sink e' \<and> sink_files e \<subseteq> sink_files e' \<and> (\<exists>name \<in> sink_files e'. o_files d' = (o_files d)(name := o_files d name @ bs))"
  proof (cases e)
    case Stdout_sink
    with ok show ?thesis by simp
  next
    case (File_sink f)
    with fl ok cfg show ?thesis
      by (auto simp: sink_Flush_def FileFlush_Flush_def ff_fflush_def bindR_eq_Inr Let_def split: if_splits)
  next
    case (Roll_sink r)
    with fl obtain name r' where "e' = Roll_sink r'" "rf_history r' = rf_history r @ [(name, bs)]"
      "o_files d' = (o_files d)(name := o_files d name @ bs)"
      by (auto simp: sink_Flush_def RollFileFlush_Flush_def InitLogFile_def CreateFilename_def bindR_eq_Inr Let_def
          split: option.splits if_splits)
    with Roll_sink show ?thesis by simp blast
  qed
  then show "flushed_sink e'" "sink_files e \<subseteq> sink_files e'"
    "\<exists>name \<in> sink_files e'. o_files d' = (o_files d)(name := o_files d name @ bs)" by simp_all
qed

lemma flush_sinks_disk:
  assumes "flush_sinks cfg fopen_ok now bs es d = Inr (es', d')" and "\<forall>e \<in> set es. flushed_sink e"
    and cfg: "flush_log cfg = 1 \<or> flush_log cfg = 2"
  shows "(\<forall>e \<in> set es'. flushed_sink e) \<and> disk_files es \<subseteq> disk_files es' \<and> length es' = length es \<and>
    (\<forall>N. finite N \<longrightarrow> disk_files es' \<subseteq> N \<longrightarrow> disk_size N d' = disk_size N d + length es * length bs)"
  using assms(1,2)
proof (induction es arbitrary: d es')
  case (Cons e es)
  then obtain e1 d1 es1 where 1: "sink_Flush cfg fopen_ok now bs (e, d) = Inr (e1, d1)"
    "flush_sinks cfg fopen_ok now bs es d1 = Inr (es1, d')" "es' = e1 # es1"
    by (auto simp: bindR_eq_Inr)
  have e: "flushed_sink e" using Cons.prems(2) by simp
  note s = sink_Flush_disk [OF 1(1) e cfg]
  obtain name where n: "name \<in> sink_files e1" "o_files d1 = (o_files d)(name := o_files d name @ bs)" using s(3) by blast
  have ih: "\<forall>e \<in> set es1. flushed_sink e" "disk_files es \<subseteq> disk_files es1" "length es1 = length es"
    "\<And>N. finite N \<Longrightarrow> disk_files es1 \<subseteq> N \<Longrightarrow> disk_size N d' = disk_size N d1 + length es * length bs"
    using Cons.IH [OF 1(2)] Cons.prems(2) by auto
  have "disk_size N d' = disk_size N d + length (e # es) * length bs" if N: "finite N" "disk_files es' \<subseteq> N" for N
  proof -
    have "name \<in> N" "disk_files es1 \<subseteq> N" using N(2) n(1) by (auto simp: disk_files_def 1(3))
    with ih(4) [OF N(1)] disk_size_append [OF N(1) _ n(2)] show ?thesis by simp
  qed
  with s(1,2) ih(1-3) show ?case by (auto simp: disk_files_def 1(3))
qed (simp add: disk_files_def)

section \<open>The invariant\<close>

definition line_of :: "LogLevel \<times> string \<Rightarrow> bytes \<Rightarrow> bool" where
  "line_of call m \<longleftrightarrow> (\<exists>now tid file line. m = log_line now tid (fst call) file line (snd call))"

text \<open>Where a sink may write.\<close>

fun sink_in :: "string \<Rightarrow> sink \<Rightarrow> bool" where
  "sink_in dir Stdout_sink \<longleftrightarrow> True"
| "sink_in dir (File_sink f) \<longleftrightarrow> in_dir dir (ff_filename f)"
| "sink_in dir (Roll_sink r) \<longleftrightarrow> (\<forall>x. in_dir dir (basename r @ x)) \<and> (\<forall>n. rf_file r = Some n \<longrightarrow> in_dir dir n) \<and>
     (\<forall>n \<in> fst ` set (rf_history r). in_dir dir n)"

text \<open>A worker that has ended has written everything; the stopper joins it only then.\<close>

definition exit_inv :: "async_worker \<Rightarrow> bool" where
  "exit_inv w \<longleftrightarrow> worker_inv w \<and> (worker w = W_exit \<longrightarrow> aw_stop w \<and> aw_flushed w = aw_accepted w) \<and>
     (stopper w = S_joined \<longrightarrow> worker w = W_exit)"

definition calls_inv :: "(LogLevel \<times> string) list \<Rightarrow> benchmark \<Rightarrow> bool" where
  "calls_inv calls s \<longleftrightarrow> (\<exists>made. made @ bm_calls s = calls \<and> list_all2 line_of made (bm_lines s)) \<and>
     concat (bm_lines s) = aw_accepted (pl_worker (bm_pipe s)) @ concat (aw_waiting (pl_worker (bm_pipe s))) \<and>
     (aw_stop (pl_worker (bm_pipe s)) \<longrightarrow> bm_calls s = [] \<and> aw_waiting (pl_worker (bm_pipe s)) = [])"

definition disk_inv :: "string \<Rightarrow> log_pipeline \<Rightarrow> bool" where
  "disk_inv dir p \<longleftrightarrow> (\<forall>e \<in> set (pl_sinks p). flushed_sink e \<and> sink_in dir e) \<and>
     (\<forall>N. finite N \<longrightarrow> disk_files (pl_sinks p) \<subseteq> N \<longrightarrow> Ball N (in_dir dir) \<longrightarrow>
        disk_size N (pl_out p) = length (pl_sinks p) * length (aw_flushed (pl_worker p)))"

lemma exit_step:
  assumes inv: "exit_inv w" and st: "worker_step cfg w w'" and quiet: "aw_stop w \<longrightarrow> aw_waiting w = []"
  shows "exit_inv w'"
proof -
  have wi: "worker_inv w" "worker_inv w'" using inv worker_step_inv [OF _ st] by (auto simp: exit_inv_def)
  from st show ?thesis
  proof (cases rule: worker_step.cases)
    case (push m)
    then show ?thesis using inv wi worker_push_simps [OF push(5)] by (auto simp: exit_inv_def)
  next
    case (push_retry as m bs)
    then have "\<not> aw_stop w" using quiet by auto
    then show ?thesis using inv wi worker_push_simps [OF push_retry(5)] by (auto simp: exit_inv_def split: if_splits)
  next
    case swap
    then show ?thesis using inv wi worker_swap_end [OF wi(1) swap] worker_swap_eq [OF wi(1) swap(1)]
      by (auto simp: exit_inv_def)
  next
    case (flush t)
    then show ?thesis using inv wi by (auto simp: exit_inv_def worker_callback_def bindR_eq_Inr Let_def)
  qed (use inv wi in \<open>auto simp: exit_inv_def\<close>)
qed

lemma pipeline_worker_step: "pipeline_step cfg p q \<Longrightarrow> worker_step cfg (pl_worker p) (pl_worker q)"
  by (cases rule: pipeline_step.cases) auto

lemma retry_accepts:
  assumes "worker_step cfg w w'" and "aw_waiting w = [m]" and "aw_waiting w' = []"
  shows "aw_accepted w' = aw_accepted w @ m" "aw_stop w' = aw_stop w"
  using assms
  by (auto simp: worker_push_def worker_swap_def worker_callback_def bindR_eq_Inr Let_def Cons_eq_append_conv
      elim!: worker_stepE split: prod.splits if_splits)

lemma stop_keeps:
  "worker_step cfg w w' \<Longrightarrow> stopper w' \<noteq> stopper w \<Longrightarrow> aw_accepted w' = aw_accepted w \<and> aw_waiting w' = aw_waiting w"
  by (induction rule: worker_step.induct)
     (auto simp: worker_push_simps worker_swap_def worker_callback_def bindR_eq_Inr Let_def split: prod.splits if_splits)

lemma sink_in_Flush:
  assumes "sink_Flush cfg fopen_ok now bs (e, d) = Inr (e', d')" and "sink_in dir e"
  shows "sink_in dir e'"
proof (cases e)
  case (Roll_sink r)
  with assms(1) obtain name r' where r: "e' = Roll_sink r'" "rf_history r' = rf_history r @ [(name, bs)]" "rf_file r' = Some name"
    "basename r' = basename r" "rf_file r = Some name \<or> (\<exists>x. name = basename r @ x)"
    by (auto simp: sink_Flush_def RollFileFlush_Flush_def InitLogFile_def CreateFilename_def bindR_eq_Inr Let_def
        split: option.splits if_splits)
  with assms(2) Roll_sink have "in_dir dir name" by auto
  with assms(2) Roll_sink r show ?thesis by auto
qed (use assms in \<open>auto simp: sink_Flush_def FileFlush_Flush_def ff_fflush_def bindR_eq_Inr Let_def split: if_splits\<close>)

lemma flush_sinks_in:
  "flush_sinks cfg fopen_ok now bs es d = Inr (es', d') \<Longrightarrow> \<forall>e \<in> set es. sink_in dir e \<Longrightarrow> \<forall>e \<in> set es'. sink_in dir e"
  by (induction es arbitrary: d es') (auto simp: bindR_eq_Inr dest: sink_in_Flush)

lemma disk_step:
  assumes inv: "disk_inv dir p" and st: "pipeline_step cfg p q" and cfg: "flush_log cfg = 1 \<or> flush_log cfg = 2"
  shows "disk_inv dir q"
  using st
proof (cases rule: pipeline_step.cases)
  case (quiet w)
  with inv show ?thesis by (simp add: disk_inv_def)
next
  case (callback w bs now es d)
  have "\<forall>e \<in> set (pl_sinks p). flushed_sink e" "\<forall>e \<in> set (pl_sinks p). sink_in dir e" using inv by (simp_all add: disk_inv_def)
  note f = flush_sinks_disk [OF callback(5) this(1) cfg] and g = flush_sinks_in [OF callback(5) this(2)]
  have "disk_size N d = length es * length (aw_flushed w)" if N: "finite N" "disk_files es \<subseteq> N" "Ball N (in_dir dir)" for N
  proof -
    have "disk_files (pl_sinks p) \<subseteq> N" "disk_size N d = disk_size N (pl_out p) + length (pl_sinks p) * length bs" "length es = length (pl_sinks p)"
      using f N(1,2) by auto
    moreover have "disk_size N (pl_out p) = length (pl_sinks p) * length (aw_flushed (pl_worker p))"
      using inv N(1,3) \<open>disk_files (pl_sinks p) \<subseteq> N\<close> by (simp add: disk_inv_def)
    ultimately show ?thesis by (simp add: callback(3) algebra_simps)
  qed
  with f g show ?thesis by (simp add: disk_inv_def callback(1))
qed

definition bench_inv :: "json_data \<Rightarrow> (LogLevel \<times> string) list \<Rightarrow> benchmark \<Rightarrow> bool" where
  "bench_inv cfg calls s \<longleftrightarrow> (flush_log cfg = 1 \<or> flush_log cfg = 2) \<and> length (pl_sinks (bm_pipe s)) = 21 \<and>
     pipeline_inv (replicate 21 []) (bm_pipe s) \<and> disk_inv ''../logfile'' (bm_pipe s) \<and> exit_inv (pl_worker (bm_pipe s)) \<and> calls_inv calls s"

lemma bench_pipeline_step:
  assumes inv: "bench_inv cfg calls s" and st: "pipeline_step cfg (bm_pipe s) (bm_pipe t)" and c: "calls_inv calls t"
  shows "bench_inv cfg calls t"
proof -
  let ?p = "bm_pipe t"
  have i: "flush_log cfg = 1 \<or> flush_log cfg = 2" "length (pl_sinks (bm_pipe s)) = 21" "pipeline_inv (replicate 21 []) (bm_pipe s)"
    "disk_inv ''../logfile'' (bm_pipe s)" "exit_inv (pl_worker (bm_pipe s))" "calls_inv calls s"
    using inv by (simp_all add: bench_inv_def)
  have p: "pipeline_inv (replicate 21 []) ?p" by (rule pipeline_step_inv [OF i(3) st])
  then have "length (outs ?p) = 21" by (simp add: pipeline_inv_def)
  moreover have "exit_inv (pl_worker ?p)"
    using exit_step [OF i(5) pipeline_worker_step [OF st]] i(6) by (simp add: calls_inv_def)
  ultimately show ?thesis using i(1) p disk_step [OF i(4) st i(1)] c by (simp add: bench_inv_def outs_def)
qed

lemma worker_stop_iff: "worker_inv w \<Longrightarrow> aw_stop w \<longleftrightarrow> stopper w \<noteq> S_run"
  by (auto simp: worker_inv_def)

lemma log_call_push:
  assumes "logger_log level cfg now tid (Some payload) file line (bm_logger p) tp = Inr (lg, tp')"
  shows "AsyncWorker_Push cfg (log_line now tid level file line payload) (pl_worker p) = Inr (asyncworker lg)"
  using assms by (auto simp: logger_log_def serialize_def logger_Flush_def bm_logger_def log_line_def Let_def bindR_eq_Inr)

lemma bench_log_call:
  assumes inv: "bench_inv cfg calls s" and c: "bm_calls s = (level, payload) # rest" "aw_waiting (pl_worker (bm_pipe s)) = []"
    "mutex_free (pl_worker (bm_pipe s))" "m = log_line now tid level file line payload"
    "productor_ready m (pl_worker (bm_pipe s)) \<Longrightarrow> log_fits cfg (buffer_productor (pl_worker (bm_pipe s))) (length m)"
    and push: "AsyncWorker_Push cfg m (pl_worker (bm_pipe s)) = Inr w"
  shows "bench_inv cfg calls (s\<lparr>bm_pipe := (bm_pipe s)\<lparr>pl_worker := w\<rparr>, bm_tp := tp, bm_calls := rest, bm_lines := bm_lines s @ [m]\<rparr>)"
proof -
  let ?w = "pl_worker (bm_pipe s)" and ?p = "(bm_pipe s)\<lparr>pl_worker := w\<rparr>"
  have i: "calls_inv calls s" using inv by (simp add: bench_inv_def)
  have run: "\<not> aw_stop ?w" using i c(1) by (auto simp: calls_inv_def)
  have "worker_step cfg ?w w \<and> aw_flushed w = aw_flushed ?w \<and> \<not> aw_stop w \<and> aw_accepted w @ concat (aw_waiting w) = aw_accepted ?w @ m"
  proof (cases "productor_ready m ?w")
    case True
    then have r: "worker_push cfg m ?w = Inr w" using push run by (simp add: AsyncWorker_Push_def)
    moreover have "aw_accepted w = aw_accepted ?w @ m" using r by (auto simp: worker_push_def bindR_eq_Inr)
    ultimately show ?thesis using worker_push_simps [OF r] worker_step.push [OF c(3) run True c(5) [OF True] r] run c(2) by simp
  next
    case False
    then have "w = ?w\<lparr>aw_waiting := [m]\<rparr>" using push run c(2) by (simp add: AsyncWorker_Push_def)
    with push_wait [OF c(3) run False, of cfg] c(2) run show ?thesis by simp
  qed
  note w = this
  let ?t = "s\<lparr>bm_pipe := ?p, bm_tp := tp, bm_calls := rest, bm_lines := bm_lines s @ [m]\<rparr>"
  have st: "pipeline_step cfg (bm_pipe s) (bm_pipe ?t)" using quiet [of cfg "bm_pipe s" w] w by simp
  obtain made where made: "made @ bm_calls s = calls" "list_all2 line_of made (bm_lines s)" using i by (auto simp: calls_inv_def)
  have l: "line_of (level, payload) m" by (auto simp: line_of_def c(4))
  have "(made @ [(level, payload)]) @ bm_calls ?t = calls" "list_all2 line_of (made @ [(level, payload)]) (bm_lines ?t)"
    using made l c(1) by (simp_all add: list_all2_appendI)
  moreover have "concat (bm_lines ?t) = aw_accepted w @ concat (aw_waiting w)" using i w c(2) by (simp add: calls_inv_def)
  ultimately have "calls_inv calls ?t" unfolding calls_inv_def using w by auto
  from bench_pipeline_step [OF inv st this] show ?thesis .
qed

lemma bench_step_inv:
  assumes inv: "bench_inv cfg calls s" and st: "bench_step cfg s t"
  shows "bench_inv cfg calls t"
  using st
proof (cases rule: bench_step.cases)
  case (log_call level payload rest m now tid fl ln lg tp)
  show ?thesis
    unfolding log_call(1) by (rule bench_log_call [OF inv log_call(2,3,4,6,7)]) (use log_call(6) log_call_push [OF log_call(8)] in simp_all)
next
  case (resume p m)
  have "calls_inv calls t"
    using inv retry_accepts [OF pipeline_worker_step [OF resume(2)] resume(3,4)] resume by (auto simp: bench_inv_def calls_inv_def)
  with bench_pipeline_step [OF inv, of t] resume show ?thesis by simp
next
  case (work p)
  have "worker_inv (pl_worker (bm_pipe s))" "worker_inv (pl_worker p)"
    using inv worker_step_inv [OF _ pipeline_worker_step [OF work(2)]] by (auto simp: bench_inv_def exit_inv_def)
  then have "aw_stop (pl_worker p) = aw_stop (pl_worker (bm_pipe s))" using work(5) by (simp add: worker_stop_iff)
  with inv work have "calls_inv calls t" by (simp add: bench_inv_def calls_inv_def)
  with bench_pipeline_step [OF inv, of t] work show ?thesis by simp
next
  case (stopping p)
  have "aw_accepted (pl_worker p) = aw_accepted (pl_worker (bm_pipe s)) \<and> aw_waiting (pl_worker p) = []"
    using stop_keeps [OF pipeline_worker_step [OF stopping(4)] stopping(5)] stopping(3) by simp
  with inv stopping have "calls_inv calls t" by (simp add: bench_inv_def calls_inv_def)
  with bench_pipeline_step [OF inv, of t] stopping show ?thesis by simp
qed

interpretation bench: invariant_system "bench_inv cfg calls" "bench_step cfg" "bench_inv cfg calls" for cfg calls
  by unfold_locales (auto intro: bench_step_inv)

section \<open>The start\<close>

lemma in_dir_append [simp]: "in_dir dir (dir @ CHR ''/'' # x)"
  by (simp add: in_dir_def)

lemma benchmark_sinks:
  "\<forall>e \<in> set (map open_sink (benchmark_specs dir)). flushed_sink e \<and> sink_in dir e \<and> sink_ok (e, d)"
  by (auto simp: benchmark_specs_def sink_ok_def)

lemma benchmark_sinks_empty:
  "(\<And>name. in_dir dir name \<Longrightarrow> o_files d name = []) \<Longrightarrow> \<forall>e \<in> set (map open_sink (benchmark_specs dir)). sink_out (e, d) = []"
  by (auto simp: benchmark_specs_def sink_out_def)

lemma worker_new_eq:
  assumes "unat (buffer_size cfg) < 2 ^ 31"
  shows "AsyncWorker_new cfg ty = Inr \<lparr>async_type = ty, aw_stop = False,
      buffer_productor = \<lparr>lb_data = replicate (unat (buffer_size cfg)) (CHR 0x00), write_pos = 0, read_pos = 0\<rparr>,
      buffer_consumer = \<lparr>lb_data = replicate (unat (buffer_size cfg)) (CHR 0x00), write_pos = 0, read_pos = 0\<rparr>,
      worker = W_test, stopper = S_run, aw_waiting = [], aw_flushed = [], aw_accepted = []\<rparr>"
  using assms by (simp add: AsyncWorker_new_def log_Buffer_new_def lb_resize_def vec_resize_def vec_max_size_def)

text \<open>No file of the log directory has contents when the directory does not exist.\<close>

definition no_stale_files :: "(string \<Rightarrow> 'fs \<Rightarrow> bool) \<Rightarrow> 'fs \<times> log_output \<Rightarrow> bool" where
  "no_stale_files ex = (\<lambda>(fs, d). \<not> ex ''../logfile'' fs \<longrightarrow> (\<forall>name. in_dir ''../logfile'' name \<longrightarrow> o_files d name = []))"

lemma benchmark_start_ok:
  assumes size: "unat (buffer_size cfg) < 2 ^ 31" and fl: "flush_log cfg = 1 \<or> flush_log cfg = 2" and stale: "no_stale_files ex disk"
  shows "\<exists>s w. benchmark_start cfg ex rm mk (\<lambda>_ _. True) calls disk = Inr s \<and> bench_inv cfg calls s \<and> pl_worker (bm_pipe s) = w \<and>
    AsyncWorker_new cfg ASYNC_SAFE = Inr w \<and> bm_calls s = calls \<and> mylog_GetLogger ''asynclogger'' (bm_manager s) = Some 1 \<and> bm_tp s \<noteq> None"
proof -
  obtain w where w: "AsyncWorker_new cfg ASYNC_SAFE = Inr w" using worker_new_eq [OF size] by blast
  obtain fs1 d1 where d1: "prepare_log_dir ex rm mk ''../logfile'' disk = (fs1, d1)" by force
  have clean: "o_files d1 name = []" if "in_dir ''../logfile'' name" for name
    using d1 stale that by (auto simp: prepare_log_dir_def no_stale_files_def remove_all_def split: prod.splits if_splits)
  let ?es = "map open_sink (benchmark_specs ''../logfile'')"
  obtain b where b: "benchmark_logger cfg ex mk (\<lambda>_ _. True) fs1 = Inr (\<lparr>logger_name = ''asynclogger'', flushs = ?es, asyncworker = w\<rparr>, b)"
    using benchmark_logger_eq [OF w, of ex mk fs1] by blast
  obtain dflt mg where mg: "LoggerManager_new cfg 0 = Inr (dflt, mg)" "loggers mg = [''default'' \<mapsto> 0]"
    using w by (simp add: LoggerManager_new_def Build_def AsyncLogger_new_def BuildLoggerName_def LoggerBuilder_new_def)
  let ?p = "\<lparr>pl_worker = w, pl_sinks = ?es, pl_out = d1\<rparr>"
  let ?s = "\<lparr>bm_pipe = ?p, bm_manager = AddLogger ''asynclogger'' 1 mg, bm_tp = Some (init_thread_pool cfg), bm_calls = calls, bm_lines = []\<rparr>"
  have s: "benchmark_start cfg ex rm mk (\<lambda>_ _. True) calls disk = Inr ?s" by (simp add: benchmark_start_def d1 mg b)
  have len: "length ?es = 21" by (simp add: benchmark_specs_def)
  have wi: "worker_init cfg w" using w worker_new_eq [OF size, of ASYNC_SAFE] size by (auto simp: worker_init_def log_inv_def)
  have w0: "aw_flushed w = []" "worker w = W_test" "stopper w = S_run" "aw_accepted w = []" "aw_waiting w = []" "\<not> aw_stop w"
    using w worker_new_eq [OF size, of ASYNC_SAFE] by auto
  have home: "\<forall>e \<in> set ?es. sink_out (e, d1) = []"
    by (rule benchmark_sinks_empty [OF clean])
  then have "outs ?p = replicate 21 []" using len by (simp add: outs_def map_replicate_const cong: map_cong)
  then have "pipeline_inv (replicate 21 []) ?p"
    using wi benchmark_sinks benchmark_sinks_apart by (intro pipeline_init_inv [of cfg]) (simp add: pipeline_init_def)
  moreover have "disk_inv ''../logfile'' ?p"
    using benchmark_sinks clean w0(1) by (auto simp: disk_inv_def disk_size_def)
  moreover have "exit_inv w" using worker_init_inv [OF wi] w0 by (simp add: exit_inv_def)
  moreover have "calls_inv calls ?s" using w0 by (simp add: calls_inv_def)
  ultimately have "bench_inv cfg calls ?s" using fl len by (simp add: bench_inv_def)
  moreover have "mylog_GetLogger ''asynclogger'' (bm_manager ?s) = Some 1"
    by (simp add: mylog_GetLogger_def GetLogger_def AddLogger_def LoggerExist_def AddLogger_store_def mg(2))
  ultimately show ?thesis using s w by (intro exI [of _ ?s] exI [of _ w]) simp
qed

section \<open>The benchmark can always finish\<close>

text \<open>A buffer with its positions at the front and room for \<open>n\<close> bytes; a worker at its test with two such buffers.\<close>

definition buf_ready :: "nat \<Rightarrow> log_buffer \<Rightarrow> bool" where
  "buf_ready n b \<longleftrightarrow> write_pos b = 0 \<and> read_pos b = 0 \<and> n \<le> length (lb_data b) \<and> length (lb_data b) < 2 ^ 31"

definition roomy :: "nat \<Rightarrow> async_worker \<Rightarrow> bool" where
  "roomy n w \<longleftrightarrow> worker w = W_test \<and> \<not> aw_stop w \<and> aw_waiting w = [] \<and> buf_ready n (buffer_productor w) \<and> buf_ready n (buffer_consumer w)"

lemma push_ready:
  assumes b: "buf_ready n b" and m: "length m < n" "m \<noteq> []"
  shows "of_nat (length m) \<le> WriteableSize b" "log_fits cfg b (length m)"
    "\<exists>b'. log_Push cfg m (of_nat (length m)) b = Inr b' \<and> \<not> IsEmpty b' \<and> read_pos b' = 0 \<and> length (lb_data b') = length (lb_data b)"
proof -
  have l: "unat (of_nat (length m) :: size_t) = length m" "unat (of_nat (length (lb_data b)) :: size_t) = length (lb_data b)"
    using b m by (auto simp: buf_ready_def intro!: unat_size_of_nat)
  have lt: "(of_nat (length m) :: size_t) < WriteableSize b"
    using b m l by (simp add: WriteableSize_def lb_size_def buf_ready_def word_less_nat_alt)
  then show "of_nat (length m) \<le> WriteableSize b" by simp
  show "log_fits cfg b (length m)" using b m by (simp add: log_fits_def buf_ready_def)
  have tb: "ToBeEnough cfg (of_nat (length m)) b = Inr b" using lt by (auto simp: ToBeEnough_def Let_def)
  have "(of_nat (length m) :: size_t) \<noteq> 0" using l(1) m(2) by (metis length_0_conv unat_0)
  then show "\<exists>b'. log_Push cfg m (of_nat (length m)) b = Inr b' \<and> \<not> IsEmpty b' \<and> read_pos b' = 0 \<and> length (lb_data b') = length (lb_data b)"
    using b m l tb by (simp add: log_Push_def mem_read_def mem_write_def buf_ready_def IsEmpty_def)
qed

text \<open>One line through the worker: pushed, swapped, written.\<close>

lemma line_through:
  assumes r: "roomy n w" and m: "length m < n" "m \<noteq> []" and inv: "worker_inv w"
  shows "\<exists>w1 w2 w3 w4. AsyncWorker_Push cfg m w = Inr w1 \<and> productor_ready m w \<and> log_fits cfg (buffer_productor w) (length m) \<and>
    worker_step cfg w1 w2 \<and> worker_step cfg w2 w3 \<and> worker_step cfg w3 w4 \<and> roomy n w4 \<and>
    (\<forall>v \<in> {w2, w3, w4}. aw_waiting v = aw_waiting w1 \<and> aw_accepted v = aw_accepted w1 \<and> stopper v = stopper w1)"
proof -
  let ?p = "buffer_productor w" and ?c = "buffer_consumer w"
  have i: "worker w = W_test" "\<not> aw_stop w" "aw_waiting w = []" "buf_ready n ?p" "buf_ready n ?c" using r by (simp_all add: roomy_def)
  note p = push_ready(1) [OF i(4) m] push_ready(2) [OF i(4) m, of cfg] push_ready(3) [OF i(4) m, of cfg]
  obtain b where b: "log_Push cfg m (of_nat (length m)) ?p = Inr b" "\<not> IsEmpty b" "read_pos b = 0" "length (lb_data b) = length (lb_data ?p)"
    using p(3) by blast
  let ?w1 = "w\<lparr>buffer_productor := b, aw_accepted := aw_accepted w @ m\<rparr>"
  let ?w2 = "?w1\<lparr>worker := W_swap\<rparr>"
  let ?w3 = "?w2\<lparr>buffer_productor := ?c, buffer_consumer := b, worker := W_flush\<rparr>"
  have ready: "productor_ready m w" using p(1) by (simp add: productor_ready_def)
  have push: "worker_push cfg m w = Inr ?w1" using b(1) i(1) by (simp add: worker_push_def notify_consumer_def)
  then have 1: "AsyncWorker_Push cfg m w = Inr ?w1" using i(2) ready by (simp add: AsyncWorker_Push_def)
  have free: "mutex_free w" using i(1) by (simp add: mutex_free_def)
  have st1: "worker_step cfg w ?w1" by (rule worker_step.push [OF free i(2) ready p(2) push])
  have st2: "worker_step cfg ?w1 ?w2" using b(2) i(1) by (intro wait_true) simp_all
  have "worker_swap ?w2 = Inr ?w3" using b(2) i(2) by (simp add: worker_swap_def log_Swap_def)
  then have st3: "worker_step cfg ?w2 ?w3" by (intro swap) simp_all
  have inv3: "worker_inv ?w3" using worker_step_inv inv st1 st2 st3 by blast
  then have "log_inv (buffer_consumer ?w3)" by (simp add: worker_inv_def)
  note cb = worker_callback_eq [OF this]
  let ?w4 = "?w3\<lparr>aw_flushed := aw_flushed ?w3 @ log_content (buffer_consumer ?w3), buffer_consumer := log_Reset (buffer_consumer ?w3), worker := W_test\<rparr>"
  have st4: "worker_step cfg ?w3 ?w4" using flush [OF _ cb, of cfg] by simp
  have "roomy n ?w4" using i b by (simp add: roomy_def buf_ready_def log_Reset_def)
  moreover have "\<forall>v \<in> {?w2, ?w3, ?w4}. aw_waiting v = aw_waiting ?w1 \<and> aw_accepted v = aw_accepted ?w1 \<and> stopper v = stopper ?w1" by simp
  ultimately show ?thesis using 1 ready p(2) st2 st3 st4 by blast
qed

lemma bench_work:
  assumes inv: "bench_inv cfg calls s" and st: "worker_step cfg (pl_worker (bm_pipe s)) w"
    and same: "aw_waiting w = aw_waiting (pl_worker (bm_pipe s))" "aw_accepted w = aw_accepted (pl_worker (bm_pipe s))"
      "stopper w = stopper (pl_worker (bm_pipe s))"
  shows "\<exists>p. bench_step cfg s (s\<lparr>bm_pipe := p\<rparr>) \<and> pl_worker p = w \<and> bench_inv cfg calls (s\<lparr>bm_pipe := p\<rparr>)"
proof -
  obtain p where p: "pipeline_step cfg (bm_pipe s) p" "pl_worker p = w"
    using pipeline_lift [OF _ st] inv by (auto simp: bench_inv_def)
  with same have "bench_step cfg s (s\<lparr>bm_pipe := p\<rparr>)" by (intro work) simp_all
  with p(2) bench_step_inv [OF inv this] show ?thesis by blast
qed

lemma bench_stop:
  assumes inv: "bench_inv cfg calls s" and st: "worker_step cfg (pl_worker (bm_pipe s)) w"
    and "bm_calls s = []" "aw_waiting (pl_worker (bm_pipe s)) = []" "stopper w \<noteq> stopper (pl_worker (bm_pipe s))"
  shows "\<exists>p. bench_step cfg s (s\<lparr>bm_pipe := p\<rparr>) \<and> pl_worker p = w \<and> bench_inv cfg calls (s\<lparr>bm_pipe := p\<rparr>)"
proof -
  obtain p where p: "pipeline_step cfg (bm_pipe s) p" "pl_worker p = w"
    using pipeline_lift [OF _ st] inv by (auto simp: bench_inv_def)
  with assms(3-5) have "bench_step cfg s (s\<lparr>bm_pipe := p\<rparr>)" by (intro stopping) simp_all
  with p(2) bench_step_inv [OF inv this] show ?thesis by blast
qed

lemma log_line_nonempty: "log_line now tid level file line payload \<noteq> []"
  by (simp add: log_line_def message_format_def)

lemma bench_round:
  assumes inv: "bench_inv cfg calls s" and r: "roomy n (pl_worker (bm_pipe s))" and c: "bm_calls s = (level, payload) # rest"
    and lg: "mylog_GetLogger ''asynclogger'' (bm_manager s) = Some 1" and tp: "bm_tp s \<noteq> None"
    and len: "length (log_line now tid level file line payload) < n"
  shows "\<exists>t. (bench_step cfg)\<^sup>*\<^sup>* s t \<and> bench_inv cfg calls t \<and> roomy n (pl_worker (bm_pipe t)) \<and> bm_calls t = rest \<and>
    bm_manager t = bm_manager s \<and> bm_tp t \<noteq> None"
proof -
  let ?m = "log_line now tid level file line payload" and ?w = "pl_worker (bm_pipe s)"
  have wi: "worker_inv ?w" using inv by (simp add: bench_inv_def exit_inv_def)
  obtain w1 w2 w3 w4 where w: "AsyncWorker_Push cfg ?m ?w = Inr w1" "log_fits cfg (buffer_productor ?w) (length ?m)"
    "worker_step cfg w1 w2" "worker_step cfg w2 w3" "worker_step cfg w3 w4" "roomy n w4"
    "\<forall>v \<in> {w2, w3, w4}. aw_waiting v = aw_waiting w1 \<and> aw_accepted v = aw_accepted w1 \<and> stopper v = stopper w1"
    using line_through [OF r len log_line_nonempty wi, of cfg] by blast
  obtain lgr q where log: "logger_log level cfg now tid (Some payload) file line (bm_logger (bm_pipe s)) (bm_tp s) = Inr (lgr, q)"
    "asyncworker lgr = w1" "q \<noteq> None"
    using w(1) tp by (cases "backup_level level")
      (auto simp: logger_log_def serialize_def logger_Flush_def bm_logger_def log_line_def Let_def)
  let ?s1 = "s\<lparr>bm_pipe := (bm_pipe s)\<lparr>pl_worker := w1\<rparr>, bm_tp := q, bm_calls := rest, bm_lines := bm_lines s @ [?m]\<rparr>"
  have st1: "bench_step cfg s ?s1"
    using log_call [OF c _ _ lg refl w(2) log(1)] r log(2) by (simp add: roomy_def mutex_free_def)
  note i1 = bench_step_inv [OF inv st1]
  obtain p2 where 2: "bench_step cfg ?s1 (?s1\<lparr>bm_pipe := p2\<rparr>)" "pl_worker p2 = w2" "bench_inv cfg calls (?s1\<lparr>bm_pipe := p2\<rparr>)"
    using bench_work [OF i1, of w2] w(3,7) by auto
  obtain p3 where 3: "bench_step cfg (?s1\<lparr>bm_pipe := p2\<rparr>) (?s1\<lparr>bm_pipe := p3\<rparr>)" "pl_worker p3 = w3" "bench_inv cfg calls (?s1\<lparr>bm_pipe := p3\<rparr>)"
    using bench_work [OF 2(3), of w3] 2(2) w(4,7) by auto
  obtain p4 where 4: "bench_step cfg (?s1\<lparr>bm_pipe := p3\<rparr>) (?s1\<lparr>bm_pipe := p4\<rparr>)" "pl_worker p4 = w4" "bench_inv cfg calls (?s1\<lparr>bm_pipe := p4\<rparr>)"
    using bench_work [OF 3(3), of w4] 3(2) w(5,7) by auto
  note cr = converse_rtranclp_into_rtranclp [of "bench_step cfg"]
  from cr [OF st1 cr [OF 2(1) cr [OF 3(1) cr [OF 4(1) rtranclp.rtrancl_refl]]]] 4 w(6) log(3) show ?thesis by (intro exI [of _ "?s1\<lparr>bm_pipe := p4\<rparr>"]) simp
qed

lemma bench_all_calls:
  assumes "bench_inv cfg calls s" and "roomy n (pl_worker (bm_pipe s))" and "mylog_GetLogger ''asynclogger'' (bm_manager s) = Some 1"
    and "bm_tp s \<noteq> None" and "\<forall>call \<in> set (bm_calls s). length (log_line now tid (fst call) file line (snd call)) < n"
  shows "\<exists>t. (bench_step cfg)\<^sup>*\<^sup>* s t \<and> bench_inv cfg calls t \<and> roomy n (pl_worker (bm_pipe t)) \<and> bm_calls t = []"
  using assms
proof (induction "bm_calls s" arbitrary: s)
  case (Cons call rest)
  obtain level payload where c: "bm_calls s = (level, payload) # rest" using Cons(2) [symmetric] by (cases call) simp
  obtain t where t: "(bench_step cfg)\<^sup>*\<^sup>* s t" "bench_inv cfg calls t" "roomy n (pl_worker (bm_pipe t))" "bm_calls t = rest"
    "bm_manager t = bm_manager s" "bm_tp t \<noteq> None"
    using bench_round [OF Cons.prems(1,2) c Cons.prems(3,4), of now tid "file" line] Cons.prems(5) c by auto
  have "\<forall>call \<in> set (bm_calls t). length (log_line now tid (fst call) file line (snd call)) < n" using Cons.prems(5) c t(4) by simp
  from Cons.hyps(1) [OF t(4) [symmetric] t(2,3) _ t(6) this] t(5) Cons.prems(3) obtain u where
    "(bench_step cfg)\<^sup>*\<^sup>* t u" "bench_inv cfg calls u" "roomy n (pl_worker (bm_pipe u))" "bm_calls u = []" by auto
  with t(1) show ?case by (meson rtranclp_trans)
qed auto

lemma bench_stops:
  assumes inv: "bench_inv cfg calls s" and r: "roomy n (pl_worker (bm_pipe s))" and c: "bm_calls s = []"
  shows "\<exists>t. (bench_step cfg)\<^sup>*\<^sup>* s t \<and> stopper (pl_worker (bm_pipe t)) = S_joined"
proof -
  let ?w = "pl_worker (bm_pipe s)"
  have w: "worker ?w = W_test" "\<not> aw_stop ?w" "aw_waiting ?w = []" "stopper ?w = S_run"
    using r inv by (auto simp: roomy_def bench_inv_def exit_inv_def worker_inv_def)
  let ?w1 = "?w\<lparr>aw_stop := True, stopper := S_notify\<rparr>" and ?w2 = "?w\<lparr>aw_stop := True, stopper := S_notify, worker := W_swap\<rparr>"
  obtain p1 where 1: "bench_step cfg s (s\<lparr>bm_pipe := p1\<rparr>)" "pl_worker p1 = ?w1" "bench_inv cfg calls (s\<lparr>bm_pipe := p1\<rparr>)"
    using bench_stop [OF inv stop_store [OF w(4)] c w(3)] w(4) by auto
  have "worker_step cfg ?w1 ?w2" using wait_true [of ?w1 cfg] w(1) by simp
  then obtain p2 where 2: "bench_step cfg (s\<lparr>bm_pipe := p1\<rparr>) (s\<lparr>bm_pipe := p2\<rparr>)" "pl_worker p2 = ?w2" "bench_inv cfg calls (s\<lparr>bm_pipe := p2\<rparr>)"
    using bench_work [OF 1(3), of ?w2] 1(2) by auto
  have "worker_inv ?w2" using 2(2,3) by (simp add: bench_inv_def exit_inv_def)
  then obtain w3 where w3: "worker_swap ?w2 = Inr w3" "worker w3 = W_exit" "aw_accepted w3 = aw_accepted ?w" "stopper w3 = S_notify" "aw_waiting w3 = []"
    using worker_swap_eq [of ?w2] worker_swap_end(2) [of ?w2] w(3) by auto
  have "worker_step cfg ?w2 w3" by (rule swap [OF _ w3(1)]) simp
  then obtain p3 where 3: "bench_step cfg (s\<lparr>bm_pipe := p2\<rparr>) (s\<lparr>bm_pipe := p3\<rparr>)" "pl_worker p3 = w3" "bench_inv cfg calls (s\<lparr>bm_pipe := p3\<rparr>)"
    using bench_work [OF 2(3), of w3] 2(2) w3 w(3) by auto
  have "worker_step cfg w3 (w3\<lparr>stopper := S_join\<rparr>)" using stop_notify [OF w3(4), of cfg] w3(2) by (simp add: notify_consumer_def)
  then obtain p4 where 4: "bench_step cfg (s\<lparr>bm_pipe := p3\<rparr>) (s\<lparr>bm_pipe := p4\<rparr>)" "pl_worker p4 = w3\<lparr>stopper := S_join\<rparr>"
      "bench_inv cfg calls (s\<lparr>bm_pipe := p4\<rparr>)"
    using bench_stop [OF 3(3), of "w3\<lparr>stopper := S_join\<rparr>"] 3(2) c w3 by auto
  have "worker_step cfg (w3\<lparr>stopper := S_join\<rparr>) (w3\<lparr>stopper := S_joined\<rparr>)"
    using stop_join [of "w3\<lparr>stopper := S_join\<rparr>" cfg] w3(2) by simp
  then obtain p5 where 5: "bench_step cfg (s\<lparr>bm_pipe := p4\<rparr>) (s\<lparr>bm_pipe := p5\<rparr>)" "pl_worker p5 = w3\<lparr>stopper := S_joined\<rparr>"
    using bench_stop [OF 4(3), of "w3\<lparr>stopper := S_joined\<rparr>"] 4(2) c w3 by auto
  note cr = converse_rtranclp_into_rtranclp [of "bench_step cfg"]
  from cr [OF 1(1) cr [OF 2(1) cr [OF 3(1) cr [OF 4(1) cr [OF 5(1) rtranclp.rtrancl_refl]]]]] 5(2) show ?thesis by (intro exI [of _ "s\<lparr>bm_pipe := p5\<rparr>"]) simp
qed

section \<open>Properties\<close>

lemma sink_files_in: "sink_in dir e \<Longrightarrow> name \<in> sink_files e \<Longrightarrow> in_dir dir name"
  by (cases e) auto

lemma finite_disk_files: "finite (disk_files es)"
proof -
  have "finite (sink_files e)" for e by (cases e) simp_all
  then show ?thesis by (simp add: disk_files_def)
qed

lemma count_bytes_files:
  "count_bytes (map (\<lambda>n. Dir_entry True (sz n)) names) t = t + (\<Sum>n\<leftarrow>names. int (sz n))"
  by (induction names arbitrary: t) simp_all

lemma bench_report:
  assumes inv: "bench_inv cfg calls s" and j: "stopper (pl_worker (bm_pipe s)) = S_joined"
    and names: "distinct names" "set names = disk_files (pl_sinks (bm_pipe s))"
  shows "list_all2 line_of calls (bm_lines s) \<and> (\<forall>out \<in> set (outs (bm_pipe s)). out = concat (bm_lines s)) \<and>
    count_bytes (map (\<lambda>n. Dir_entry True (length (o_files (pl_out (bm_pipe s)) n))) names) 0 = 21 * int (length (concat (bm_lines s)))"
proof -
  let ?w = "pl_worker (bm_pipe s)"
  have i: "length (pl_sinks (bm_pipe s)) = 21" "pipeline_inv (replicate 21 []) (bm_pipe s)" "disk_inv ''../logfile'' (bm_pipe s)"
    "exit_inv ?w" "calls_inv calls s" using inv by (simp_all add: bench_inv_def)
  have e: "aw_stop ?w" "aw_flushed ?w = aw_accepted ?w" using i(4) j by (auto simp: exit_inv_def)
  then have c: "list_all2 line_of calls (bm_lines s)" "concat (bm_lines s) = aw_flushed ?w" using i(5) by (auto simp: calls_inv_def)
  have "Ball (set names) (in_dir ''../logfile'')"
    using i(3) sink_files_in unfolding names(2) disk_files_def disk_inv_def by blast
  then have "disk_size (set names) (pl_out (bm_pipe s)) = 21 * length (aw_flushed ?w)"
    using i(1,3) names(2) finite_disk_files [of "pl_sinks (bm_pipe s)"] by (simp add: disk_inv_def)
  moreover have "(\<Sum>n\<leftarrow>names. int (length (o_files (pl_out (bm_pipe s)) n))) = int (disk_size (set names) (pl_out (bm_pipe s)))"
    by (simp add: disk_size_def sum_list_distinct_conv_sum_set [OF names(1)])
  moreover have "\<forall>out \<in> set (outs (bm_pipe s)). out = aw_flushed ?w" using i(2) by (auto simp: pipeline_inv_def)
  ultimately show ?thesis using c by (simp add: count_bytes_files)
qed


text \<open>The configuration in the repository; its key \<open>threshold\<close> is not the one the code reads.\<close>

definition shipped_cfg :: json_data where
  "shipped_cfg = \<lparr>buffer_size = 1048576, threadhold = 0, linear_growth = 1048576, flush_log = 1, backup_addr = ''127.0.0.1'',
     backup_port = 6635, thread_count = 3\<rparr>"

lemma length_to_string_le: "length (to_string n) \<le> Suc n"
proof (induction n rule: to_string.induct)
  case (1 n)
  then show ?case by (subst to_string.simps) (auto intro: le_trans)
qed

lemma test_calls_short:
  assumes "call \<in> set test_calls"
  shows "length (log_line noon ''1'' (fst call) ''test.cpp'' 22 (snd call)) < 1048576"
proof -
  have "snd call \<in> set (map snd test_calls)" using assms by simp
  also have "map snd test_calls = map test_payload [1 ..< 600001]"
    using test_loop_payloads [of TOTAL_LOG 0 1] by (simp add: test_calls_def TOTAL_LOG_def)
  finally obtain k where k: "snd call = test_payload k" "k < 600001" by auto
  then have "length (snd call) \<le> 600014" using length_to_string_le [of k] by (simp add: test_payload_def)
  moreover have "length (level_ToString (fst call)) \<le> 5" by (cases "fst call") simp_all
  moreover have "length (clock_string noon) = 8" by code_simp
  moreover have "length (to_string 22) = 2" by code_simp
  ultimately show ?thesis by (simp add: log_line_def message_format_def)
qed


end
